(* ===== verification/Nstack_Prelude.thy ===== *)
theory Nstack_Prelude
  imports Main "HOL-Library.Word" "HOL-Library.Monad_Syntax"
begin

text \<open>
  Shared vocabulary of the development: the C integer types of an LP64 little-endian
  Linux target, the byte-order functions of \<^verbatim>\<open>arpa/inet.h\<close> that every protocol file
  calls, loads and stores of packed struct fields in a byte buffer, and the convention
  for undefined behaviour.

  Convention: an operation whose C code may dereference a null pointer, divide by zero,
  leave an array, or run for ever has a result of type \<open>'a option\<close>; \<open>None\<close> stands for
  "the C execution has no defined result", and a lemma that an operation works states
  that the result is \<open>Some\<close>.
\<close>

unbundle bit_operations_syntax

type_synonym u8 = "8 word"
type_synonym u16 = "16 word"
type_synonym u32 = "32 word"
type_synonym size_t = "64 word"
type_synonym bytes = "8 word list"
type_synonym in_addr_t = "32 word"
type_synonym mac_addr_t = "8 word list"

text \<open>The error numbers of Linux that the sources use.\<close>

abbreviation (input) ENOENT :: int where "ENOENT \<equiv> 2"
abbreviation (input) EAGAIN :: int where "EAGAIN \<equiv> 11"
abbreviation (input) ENOMEM :: int where "ENOMEM \<equiv> 12"
abbreviation (input) ENODEV :: int where "ENODEV \<equiv> 19"
abbreviation (input) EINVAL :: int where "EINVAL \<equiv> 22"
abbreviation (input) ENOMSG :: int where "ENOMSG \<equiv> 42"
abbreviation (input) EBADMSG :: int where "EBADMSG \<equiv> 74"
abbreviation (input) ENOTSOCK :: int where "ENOTSOCK \<equiv> 88"
abbreviation (input) EMSGSIZE :: int where "EMSGSIZE \<equiv> 90"
abbreviation (input) EPROTOTYPE :: int where "EPROTOTYPE \<equiv> 91"
abbreviation (input) EPROTONOSUPPORT :: int where "EPROTONOSUPPORT \<equiv> 93"
abbreviation (input) ENOTSUP :: int where "ENOTSUP \<equiv> 95"
abbreviation (input) EADDRINUSE :: int where "EADDRINUSE \<equiv> 98"
abbreviation (input) ENOBUFS :: int where "ENOBUFS \<equiv> 105"
abbreviation (input) EHOSTUNREACH :: int where "EHOSTUNREACH \<equiv> 113"
abbreviation (input) EALREADY :: int where "EALREADY \<equiv> 114"
abbreviation (input) EINPROGRESS :: int where "EINPROGRESS \<equiv> 115"

named_theorems byte_simps \<open>loads and stores of packed fields\<close>

section \<open>Byte order\<close>

definition le16 :: "u8 \<Rightarrow> u8 \<Rightarrow> u16" where
  "le16 b0 b1 = ucast b0 OR push_bit 8 (ucast b1)"

definition le32 :: "u8 \<Rightarrow> u8 \<Rightarrow> u8 \<Rightarrow> u8 \<Rightarrow> u32" where
  "le32 b0 b1 b2 b3 =
     ucast b0 OR push_bit 8 (ucast b1) OR push_bit 16 (ucast b2) OR push_bit 24 (ucast b3)"

definition byte_of16 :: "nat \<Rightarrow> u16 \<Rightarrow> u8" where
  "byte_of16 k x = ucast (drop_bit (8 * k) x)"

definition byte_of32 :: "nat \<Rightarrow> u32 \<Rightarrow> u8" where
  "byte_of32 k x = ucast (drop_bit (8 * k) x)"

definition bytes16 :: "u16 \<Rightarrow> bytes" where
  "bytes16 x = [byte_of16 0 x, byte_of16 1 x]"

definition bytes32 :: "u32 \<Rightarrow> bytes" where
  "bytes32 x = [byte_of32 0 x, byte_of32 1 x, byte_of32 2 x, byte_of32 3 x]"

text \<open>On a little-endian machine the conversions reverse the bytes of the value.\<close>

definition htons :: "u16 \<Rightarrow> u16" where
  "htons x = le16 (byte_of16 1 x) (byte_of16 0 x)"

definition ntohs :: "u16 \<Rightarrow> u16" where
  "ntohs x = le16 (byte_of16 1 x) (byte_of16 0 x)"

definition htonl :: "u32 \<Rightarrow> u32" where
  "htonl x = le32 (byte_of32 3 x) (byte_of32 2 x) (byte_of32 1 x) (byte_of32 0 x)"

definition ntohl :: "u32 \<Rightarrow> u32" where
  "ntohl x = le32 (byte_of32 3 x) (byte_of32 2 x) (byte_of32 1 x) (byte_of32 0 x)"

lemma not_bit_byte [simp]: "8 \<le> k \<Longrightarrow> \<not> bit (a :: u8) k"
  using bit_imp_le_length [of a k] by auto

lemma length_bytes16 [simp]: "length (bytes16 x) = 2"
  by (simp add: bytes16_def)

lemma length_bytes32 [simp]: "length (bytes32 x) = 4"
  by (simp add: bytes32_def)

lemma le16_byte_of16 [simp, byte_simps]: "le16 (byte_of16 0 x) (byte_of16 (Suc 0) x) = x"
  unfolding le16_def byte_of16_def by (rule bit_word_eqI) (auto simp: bit_simps)

lemma byte_of16_le16 [simp, byte_simps]:
  "byte_of16 0 (le16 a b) = a" "byte_of16 (Suc 0) (le16 a b) = b"
  unfolding le16_def byte_of16_def
  by (auto intro!: bit_word_eqI simp: bit_simps)

lemma le32_byte_of32 [simp, byte_simps]:
  "le32 (byte_of32 0 x) (byte_of32 (Suc 0) x) (byte_of32 2 x) (byte_of32 3 x) = x"
  unfolding le32_def byte_of32_def
proof (rule bit_word_eqI, goal_cases)
  case (1 n)
  then show ?case by (cases "24 \<le> n"; cases "16 \<le> n") (auto simp: bit_simps)
qed

lemma byte_of32_le32 [simp, byte_simps]:
  "byte_of32 0 (le32 a b c d) = a" "byte_of32 (Suc 0) (le32 a b c d) = b"
  "byte_of32 2 (le32 a b c d) = c" "byte_of32 3 (le32 a b c d) = d"
  unfolding le32_def byte_of32_def
  by (auto intro!: bit_word_eqI simp: bit_simps)

lemma ntohs_htons [simp]: "ntohs (htons x) = x"
  by (simp add: ntohs_def htons_def)

lemma htons_ntohs [simp]: "htons (ntohs x) = x"
  by (simp add: ntohs_def htons_def)

lemma ntohl_htonl [simp]: "ntohl (htonl x) = x"
  by (simp add: ntohl_def htonl_def)

lemma htonl_ntohl [simp]: "htonl (ntohl x) = x"
  by (simp add: ntohl_def htonl_def)

lemma bytes16_htons: "bytes16 (htons x) = rev (bytes16 x)"
  by (simp add: bytes16_def htons_def)

lemma bytes32_htonl: "bytes32 (htonl x) = rev (bytes32 x)"
  by (simp add: bytes32_def htonl_def)

lemma unat_u8_less [simp]: "unat (x :: u8) < 256"
  using unsigned_less [of x, where ?'a = nat] by simp

lemma unat_u16_less [simp]: "unat (x :: u16) < 65536"
  using unsigned_less [of x, where ?'a = nat] by simp

lemma unat_u32_less [simp]: "unat (x :: u32) < 4294967296"
  using unsigned_less [of x, where ?'a = nat] by simp

lemma unat_ucast_u8_u16 [simp]: "unat (ucast (x :: u8) :: u16) = unat x"
  using unat_u8_less [of x]
  by (simp add: unsigned_ucast_eq take_bit_nat_eq_self_iff del: unat_u8_less)

lemma unat_ucast_u8_u32 [simp]: "unat (ucast (x :: u8) :: u32) = unat x"
  using unat_u8_less [of x]
  by (simp add: unsigned_ucast_eq take_bit_nat_eq_self_iff del: unat_u8_less)

lemma unat_ucast_u16_u32 [simp]: "unat (ucast (x :: u16) :: u32) = unat x"
  using unat_u16_less [of x]
  by (simp add: unsigned_ucast_eq take_bit_nat_eq_self_iff del: unat_u16_less)

lemma unat_le16: "unat (le16 a b) = unat a + 256 * unat b"
proof -
  have "le16 a b = ucast a + push_bit 8 (ucast b)"
    unfolding le16_def
    by (rule disjunctive_add [symmetric]) (auto simp: bit_simps)
  then show ?thesis
    using unat_u8_less [of a] unat_u8_less [of b]
    by (simp add: push_bit_eq_mult unat_word_ariths del: unat_u8_less)
qed

section \<open>Byte buffers\<close>

text \<open>
  \<^verbatim>\<open>memcpy(buf + i, xs, n)\<close> and \<^verbatim>\<open>buf + i\<close> read as \<open>n\<close> bytes; outside the buffer the C
  code has no defined result.
\<close>

definition memcpy_at :: "bytes \<Rightarrow> nat \<Rightarrow> bytes \<Rightarrow> bytes option" where
  "memcpy_at buf i xs =
     (if i + length xs \<le> length buf then Some (take i buf @ xs @ drop (i + length xs) buf)
      else None)"

definition read_at :: "bytes \<Rightarrow> nat \<Rightarrow> nat \<Rightarrow> bytes option" where
  "read_at buf i n = (if i + n \<le> length buf then Some (take n (drop i buf)) else None)"

lemma memcpy_at_length: "memcpy_at buf i xs = Some buf' \<Longrightarrow> length buf' = length buf"
  by (auto simp: memcpy_at_def split: if_splits)

lemma read_at_memcpy_at:
  "memcpy_at buf i xs = Some buf' \<Longrightarrow> read_at buf' i (length xs) = Some xs"
  by (auto simp: memcpy_at_def read_at_def split: if_splits)

lemma read_at_memcpy_at_disjoint:
  assumes "memcpy_at buf i xs = Some buf'" and "j + n \<le> i \<or> i + length xs \<le> j"
  shows "read_at buf' j n = read_at buf j n"
proof -
  from assms(1) have b: "i + length xs \<le> length buf"
    and buf': "buf' = take i buf @ xs @ drop (i + length xs) buf"
    by (auto simp: memcpy_at_def split: if_splits)
  have "take n (drop j buf') = take n (drop j buf)" if "j + n \<le> length buf"
    using assms(2)
  proof
    assume le: "j + n \<le> i"
    have "take n (drop j buf') = take n (take (i - j) (drop j buf))"
      using le b by (simp add: buf' drop_take)
    then show ?thesis using le by simp
  next
    assume "i + length xs \<le> j"
    then show ?thesis using b by (simp add: buf' drop_append)
  qed
  then show ?thesis
    using memcpy_at_length [OF assms(1)] by (simp add: read_at_def)
qed

lemma bind_eq_Some_iff:
  "(Option.bind m f = Some r) \<longleftrightarrow> (\<exists>x. m = Some x \<and> f x = Some r)"
  by (cases m) auto

section \<open>Comparison of addresses\<close>

text \<open>
  The comparison functions of the trees subtract two 32-bit addresses and return the
  difference as an \<^verbatim>\<open>int\<close>. That orders the addresses of one half of the address circle,
  the window that starts at \<open>b\<close>.
\<close>

definition window_key :: "u32 \<Rightarrow> u32 \<Rightarrow> nat" where
  "window_key b x = unat (x - b)"

definition in_window :: "u32 \<Rightarrow> u32 \<Rightarrow> bool" where
  "in_window b x \<longleftrightarrow> window_key b x < 2147483648"

lemma sint_window:
  fixes p q :: u32
  assumes "unat p < 2147483648" and "unat q < 2147483648"
  shows "sint (p - q) = int (unat p) - int (unat q)"
proof -
  let ?d = "int (unat p) - int (unat q)"
  have "p - q = word_of_int ?d" by simp
  moreover have "sint (word_of_int ?d :: u32) = signed_take_bit 31 ?d"
    by (simp add: sint_sbintrunc' del: of_int_diff)
  ultimately have "sint (p - q) = signed_take_bit 31 ?d" by metis
  moreover have "(2 :: int) ^ 31 = 2147483648" by simp
  moreover have "- 2147483648 \<le> ?d" "?d < 2147483648" using assms by linarith+
  ultimately show ?thesis by (metis signed_take_bit_int_eq_self)
qed

lemma sint_window_key:
  assumes "in_window b x" and "in_window b y"
  shows "sint (x - y) = int (window_key b x) - int (window_key b y)"
proof -
  have "sint (x - y) = sint ((x - b) - (y - b))" by simp
  also have "\<dots> = int (window_key b x) - int (window_key b y)"
    using assms unfolding in_window_def window_key_def by (rule sint_window)
  finally show ?thesis .
qed

lemma window_key_eq_iff: "window_key b x = window_key b y \<longleftrightarrow> x = y"
  by (simp add: window_key_def word_eq_iff_unsigned [where 'a = nat, symmetric])

end
