(* ===== verification/Fifo.thy ===== *)
theory Fifo
  imports Nstack_Prelude
begin

text \<open>
  The contract of a bounded first-in first-out queue, as the ring buffers of the stack
  (\<^verbatim>\<open>include/queue_r.h\<close>, \<^verbatim>\<open>src/ip_defer.c\<close>) promise it to their clients: an
  abstraction to the list of queued elements, a capacity, and the three operations.
  What a client may conclude from the contract alone is proved here once.
\<close>

datatype 'a fifo_op = Put 'a | Get

text \<open>
  Running a sequence of operations: the final queue, the elements that were accepted (a
  \<open>Put\<close> on a full queue is refused) and the elements that were delivered.
\<close>

fun fifo_run ::
  "('a \<Rightarrow> 'q \<Rightarrow> 'q option) \<Rightarrow> ('q \<Rightarrow> 'a option) \<Rightarrow> ('q \<Rightarrow> 'q) \<Rightarrow> 'q \<Rightarrow> 'a fifo_op list \<Rightarrow>
     'q \<times> 'a list \<times> 'a list" where
  "fifo_run enq front deq q [] = (q, [], [])"
| "fifo_run enq front deq q (Put x # ops) =
     (case enq x q of
        None \<Rightarrow> fifo_run enq front deq q ops
      | Some q' \<Rightarrow>
          (case fifo_run enq front deq q' ops of (r, acc, del) \<Rightarrow> (r, x # acc, del)))"
| "fifo_run enq front deq q (Get # ops) =
     (case front q of
        None \<Rightarrow> fifo_run enq front deq q ops
      | Some x \<Rightarrow>
          (case fifo_run enq front deq (deq q) ops of (r, acc, del) \<Rightarrow> (r, acc, x # del)))"

text \<open>
  The same operations on a list that is never longer than \<open>n\<close>: the list that is left, what
  was accepted and what was delivered.
\<close>

fun fifo_spec :: "nat \<Rightarrow> 'a list \<Rightarrow> 'a fifo_op list \<Rightarrow> 'a list \<times> 'a list \<times> 'a list" where
  "fifo_spec n xs [] = (xs, [], [])"
| "fifo_spec n xs (Put x # ops) =
     (if length xs < n
      then (case fifo_spec n (xs @ [x]) ops of (ys, acc, del) \<Rightarrow> (ys, x # acc, del))
      else fifo_spec n xs ops)"
| "fifo_spec n xs (Get # ops) =
     (case xs of
        [] \<Rightarrow> fifo_spec n xs ops
      | x # xs' \<Rightarrow> (case fifo_spec n xs' ops of (ys, acc, del) \<Rightarrow> (ys, acc, x # del)))"

lemma fifo_spec_replicate:
  "fifo_spec n xs (replicate k (Put x)) =
     (xs @ replicate (min k (n - length xs)) x, replicate (min k (n - length xs)) x, [])"
proof (induction k arbitrary: xs)
  case (Suc k)
  then show ?case
    by (cases "n - length xs") (auto simp: Suc_diff_Suc split: prod.splits)
qed simp

locale bounded_fifo =
  fixes invar :: "'q \<Rightarrow> bool"
    and contents :: "'q \<Rightarrow> 'a list"
    and cap :: "'q \<Rightarrow> nat"
    and enq :: "'a \<Rightarrow> 'q \<Rightarrow> 'q option"
    and front :: "'q \<Rightarrow> 'a option"
    and deq :: "'q \<Rightarrow> 'q"
  assumes bound: "invar q \<Longrightarrow> length (contents q) \<le> cap q"
    and enq_full: "invar q \<Longrightarrow> length (contents q) = cap q \<Longrightarrow> enq x q = None"
    and enq_free: "invar q \<Longrightarrow> length (contents q) < cap q \<Longrightarrow>
      \<exists>q'. enq x q = Some q' \<and> invar q' \<and> contents q' = contents q @ [x] \<and> cap q' = cap q"
    and front_hd: "invar q \<Longrightarrow>
      front q = (case contents q of [] \<Rightarrow> None | x # _ \<Rightarrow> Some x)"
    and deq_tl: "invar q \<Longrightarrow>
      invar (deq q) \<and> contents (deq q) = tl (contents q) \<and> cap (deq q) = cap q"
begin

lemma enq_Some_iff: "invar q \<Longrightarrow> (\<exists>q'. enq x q = Some q') \<longleftrightarrow> length (contents q) < cap q"
  using bound [of q] enq_full [of q x] enq_free [of q x] by (auto simp: order_le_less)

lemma enq_SomeD:
  assumes "invar q" and "enq x q = Some q'"
  shows "invar q'" and "contents q' = contents q @ [x]" and "cap q' = cap q"
  using assms enq_Some_iff [of q x] enq_free [of q x] by auto

text \<open>
  Nothing is lost, duplicated or reordered: what was queued, followed by what was
  accepted, is what was delivered, followed by what is still queued.
\<close>

lemma run_order:
  assumes "invar q" and "fifo_run enq front deq q ops = (r, acc, del)"
  shows "invar r" and "contents q @ acc = del @ contents r" and "cap r = cap q"
proof -
  have "invar r \<and> contents q @ acc = del @ contents r \<and> cap r = cap q"
    using assms
  proof (induction ops arbitrary: q r acc del)
    case Nil
    then show ?case by simp
  next
    case (Cons op ops)
    show ?case
    proof (cases op)
      case (Put x)
      show ?thesis
      proof (cases "enq x q")
        case None
        with Put Cons.prems(2) have "fifo_run enq front deq q ops = (r, acc, del)" by simp
        with Cons.prems(1) show ?thesis by (rule Cons.IH)
      next
        case (Some q')
        with Put Cons.prems(2) obtain acc' where
          run: "fifo_run enq front deq q' ops = (r, acc', del)" and acc: "acc = x # acc'"
          by (auto split: prod.splits)
        from enq_SomeD [OF Cons.prems(1) Some] Cons.IH [OF _ run] show ?thesis
          by (simp add: acc)
      qed
    next
      case Get
      show ?thesis
      proof (cases "front q")
        case None
        with Get Cons.prems(2) have "fifo_run enq front deq q ops = (r, acc, del)" by simp
        with Cons.prems(1) show ?thesis by (rule Cons.IH)
      next
        case (Some x)
        with Get Cons.prems(2) obtain del' where
          run: "fifo_run enq front deq (deq q) ops = (r, acc, del')" and del: "del = x # del'"
          by (auto split: prod.splits)
        from Some front_hd [OF Cons.prems(1)] have "contents q = x # tl (contents q)"
          by (simp split: list.splits)
        with deq_tl [OF Cons.prems(1)] Cons.IH [OF _ run] show ?thesis
          by (metis append_Cons del)
      qed
    qed
  qed
  then show "invar r" and "contents q @ acc = del @ contents r" and "cap r = cap q"
    by simp_all
qed

lemma run_delivers_prefix:
  assumes "invar q" and "contents q = []" and "fifo_run enq front deq q ops = (r, acc, del)"
  shows "\<exists>rest. acc = del @ rest \<and> length rest \<le> cap q"
  using run_order [OF assms(1,3)] assms(2) bound [of r] by auto

lemma run_exact:
  assumes "invar q" and "fifo_run enq front deq q ops = (r, acc, del)"
  shows "invar r \<and> fifo_spec (cap q) (contents q) ops = (contents r, acc, del)"
  using assms
proof (induction ops arbitrary: q r acc del)
  case (Cons op ops)
  show ?case
  proof (cases op)
    case (Put x)
    show ?thesis
    proof (cases "enq x q")
      case None
      then have "\<not> length (contents q) < cap q" using enq_Some_iff [OF Cons.prems(1), of x] by simp
      with None Put Cons.prems(2) Cons.IH [OF Cons.prems(1)] show ?thesis by simp
    next
      case (Some q')
      with Put Cons.prems(2) obtain acc' where
        "fifo_run enq front deq q' ops = (r, acc', del)" "acc = x # acc'"
        by (auto split: prod.splits)
      with Cons.IH [of q'] enq_SomeD [OF Cons.prems(1) Some] Put Some
        enq_Some_iff [OF Cons.prems(1), of x]
      show ?thesis by auto
    qed
  next
    case Get
    show ?thesis
    proof (cases "contents q")
      case Nil
      with Get Cons.prems Cons.IH [OF Cons.prems(1)] front_hd [OF Cons.prems(1)] show ?thesis by simp
    next
      case (Cons x xs)
      with Get Cons.prems(2) front_hd [OF Cons.prems(1)] obtain del' where
        "fifo_run enq front deq (deq q) ops = (r, acc, del')" "del = x # del'"
        by (auto split: prod.splits)
      with Cons.IH [of "deq q"] deq_tl [OF Cons.prems(1)] Get Cons show ?thesis by auto
    qed
  qed
qed simp

end

end
