(* ===== verification/Queue_R.thy ===== *)
theory Queue_R
  imports Fifo
begin

text \<open>
  The ring buffer of \<^verbatim>\<open>include/queue_r.h\<close>, which carries datagrams between the stack
  and the applications in shared memory. The control block keeps the C types: all four
  fields are \<^verbatim>\<open>size_t\<close>, so the index arithmetic is arithmetic of 64-bit words, and the
  byte index handed to the caller is an \<^verbatim>\<open>int\<close>. The elements live outside the control
  block; a ring here is a control block together with its array of blocks, addressed by
  byte index.

  The lemmas show that a ring refines a bounded queue of capacity \<open>a_len - 1\<close>
  (an interpretation of \<open>bounded_fifo\<close>), and that one producer and one consumer that
  interleave their single steps never touch the same block and keep the order.
\<close>

record queue_cb =
  b_size :: size_t
  a_len :: size_t
  m_write :: size_t
  m_read :: size_t

definition c_div :: "size_t \<Rightarrow> size_t \<Rightarrow> size_t option" where
  "c_div a b = (if b = 0 then None else Some (a div b))"

definition c_mod :: "size_t \<Rightarrow> size_t \<Rightarrow> size_t option" where
  "c_mod a b = (if b = 0 then None else Some (a mod b))"

text \<open>The conversion of a \<^verbatim>\<open>size_t\<close> to \<^verbatim>\<open>int\<close> keeps the low 32 bits.\<close>

definition to_int :: "size_t \<Rightarrow> int" where
  "to_int x = sint (ucast x :: 32 word)"

definition queue_create :: "size_t \<Rightarrow> size_t \<Rightarrow> queue_cb option" where
  "queue_create block_size array_size = do {
     n \<leftarrow> c_div array_size block_size;
     Some \<lparr>b_size = block_size, a_len = n, m_write = 0, m_read = 0\<rparr>
   }"

text \<open>The result is \<open>-1\<close> for a full queue.\<close>

definition queue_alloc :: "queue_cb \<Rightarrow> int option" where
  "queue_alloc cb = do {
     next_element \<leftarrow> c_mod (m_write cb + 1) (a_len cb);
     if next_element = m_read cb then Some (-1)
     else Some (to_int (m_write cb * b_size cb))
   }"

definition queue_commit :: "queue_cb \<Rightarrow> queue_cb option" where
  "queue_commit cb = do {
     next_element \<leftarrow> c_mod (m_write cb + 1) (a_len cb);
     Some (cb\<lparr>m_write := next_element\<rparr>)
   }"

text \<open>\<open>None\<close> is the result \<^verbatim>\<open>false\<close>; \<open>Some i\<close> is \<^verbatim>\<open>true\<close> with \<^verbatim>\<open>*index = i\<close>.\<close>

definition queue_peek :: "queue_cb \<Rightarrow> int option" where
  "queue_peek cb =
     (if m_read cb = m_write cb then None else Some (to_int (m_read cb * b_size cb)))"

fun queue_discard_loop :: "nat \<Rightarrow> nat \<Rightarrow> queue_cb \<Rightarrow> (queue_cb \<times> nat) option" where
  "queue_discard_loop 0 count cb = Some (cb, count)"
| "queue_discard_loop (Suc n) count cb =
     (if m_read cb = m_write cb then Some (cb, count)
      else do {
        r \<leftarrow> c_mod (m_read cb + 1) (a_len cb);
        queue_discard_loop n (Suc count) (cb\<lparr>m_read := r\<rparr>)
      })"

definition queue_discard :: "queue_cb \<Rightarrow> size_t \<Rightarrow> (queue_cb \<times> int) option" where
  "queue_discard cb n = do {
     (cb', count) \<leftarrow> queue_discard_loop (unat n) 0 cb;
     Some (cb', to_int (of_nat count))
   }"

definition queue_clear_from_push_end :: "queue_cb \<Rightarrow> queue_cb" where
  "queue_clear_from_push_end cb = cb\<lparr>m_write := m_read cb\<rparr>"

definition queue_clear_from_pop_end :: "queue_cb \<Rightarrow> queue_cb" where
  "queue_clear_from_pop_end cb = cb\<lparr>m_read := m_write cb\<rparr>"

definition queue_is_empty :: "queue_cb \<Rightarrow> bool" where
  "queue_is_empty cb \<longleftrightarrow> m_write cb = m_read cb"

definition queue_is_full :: "queue_cb \<Rightarrow> bool option" where
  "queue_is_full cb = do {
     next_element \<leftarrow> c_mod (m_write cb + 1) (a_len cb);
     Some (next_element = m_read cb)
   }"

section \<open>Invariant and abstraction\<close>

text \<open>
  The indices stay below the array length, and every byte index fits an \<^verbatim>\<open>int\<close>.
\<close>

definition queue_wf :: "queue_cb \<Rightarrow> bool" where
  "queue_wf cb \<longleftrightarrow>
     unat (m_write cb) < unat (a_len cb) \<and> unat (m_read cb) < unat (a_len cb) \<and>
     0 < unat (b_size cb) \<and> unat (a_len cb) * unat (b_size cb) < 2 ^ 31"

definition ring_next :: "nat \<Rightarrow> nat \<Rightarrow> nat" where
  "ring_next n i = Suc i mod n"

definition ring_between :: "nat \<Rightarrow> nat \<Rightarrow> nat \<Rightarrow> nat list" where
  "ring_between n r k = map (\<lambda>i. (r + i) mod n) [0..<k]"

definition ring_count :: "nat \<Rightarrow> nat \<Rightarrow> nat \<Rightarrow> nat" where
  "ring_count n r w = (if r \<le> w then w - r else n + w - r)"

text \<open>The slots between the read and the write index, in the order they are read.\<close>

definition queue_slots :: "queue_cb \<Rightarrow> nat list" where
  "queue_slots cb =
     ring_between (unat (a_len cb)) (unat (m_read cb))
       (ring_count (unat (a_len cb)) (unat (m_read cb)) (unat (m_write cb)))"

definition slot_index :: "queue_cb \<Rightarrow> nat \<Rightarrow> int" where
  "slot_index cb i = int (i * unat (b_size cb))"

section \<open>Arithmetic of ring indices\<close>

lemma ring_next_less: "0 < n \<Longrightarrow> ring_next n i < n"
  by (simp add: ring_next_def)

lemma ring_next_if: "i < n \<Longrightarrow> ring_next n i = (if Suc i = n then 0 else Suc i)"
  by (simp add: ring_next_def)

lemma length_ring_between [simp]: "length (ring_between n r k) = k"
  by (simp add: ring_between_def)

lemma ring_between_0 [simp]: "ring_between n r 0 = []"
  by (simp add: ring_between_def)

lemma ring_between_snoc: "ring_between n r (Suc k) = ring_between n r k @ [(r + k) mod n]"
  by (simp add: ring_between_def)

lemma ring_between_Cons:
  "r < n \<Longrightarrow> ring_between n r (Suc k) = r # ring_between n (ring_next n r) k"
  unfolding ring_between_def ring_next_def
  by (simp add: upt_conv_Cons map_Suc_upt [symmetric] mod_add_left_eq del: upt_Suc)

lemma ring_between_less: "0 < n \<Longrightarrow> i \<in> set (ring_between n r k) \<Longrightarrow> i < n"
  by (auto simp: ring_between_def)

lemma ring_index_inj:
  assumes "i < n" and "j < n" and "(r + i) mod n = (r + j) mod (n::nat)"
  shows "i = j"
  using assms
proof (induction i j rule: linorder_wlog)
  case (le i j)
  then have "n dvd (r + j) - (r + i)"
    by (metis mod_eq_dvd_iff_nat add_le_cancel_left)
  with le show ?case
    by (metis add_diff_cancel_left diff_is_0_eq' dvd_imp_le le_antisym less_imp_diff_less
        not_less zero_less_diff)
next
  case (sym i j)
  then show ?case by metis
qed

lemma ring_between_distinct: "k \<le> n \<Longrightarrow> distinct (ring_between n r k)"
  unfolding ring_between_def
  by (auto simp: distinct_map inj_on_def intro: ring_index_inj [of _ n _ r])

lemma ring_count_less: "r < n \<Longrightarrow> w < n \<Longrightarrow> ring_count n r w < n"
  by (auto simp: ring_count_def)

lemma ring_count_0: "r < n \<Longrightarrow> w < n \<Longrightarrow> ring_count n r w = 0 \<longleftrightarrow> r = w"
  by (auto simp: ring_count_def)

lemma ring_count_write: "r < n \<Longrightarrow> w < n \<Longrightarrow> (r + ring_count n r w) mod n = w"
  by (auto simp: ring_count_def)

lemma ring_count_put:
  "r < n \<Longrightarrow> w < n \<Longrightarrow> ring_next n w \<noteq> r \<Longrightarrow>
     ring_count n r (ring_next n w) = Suc (ring_count n r w)"
  by (auto simp: ring_count_def ring_next_if split: if_splits)

lemma ring_count_full:
  "r < n \<Longrightarrow> w < n \<Longrightarrow> ring_next n w = r \<longleftrightarrow> Suc (ring_count n r w) = n"
  by (auto simp: ring_count_def ring_next_if split: if_splits)

lemma ring_count_get:
  "r < n \<Longrightarrow> w < n \<Longrightarrow> r \<noteq> w \<Longrightarrow>
     ring_count n r w = Suc (ring_count n (ring_next n r) w)"
  by (auto simp: ring_count_def ring_next_if split: if_splits)

section \<open>The control block operations on well-formed queues\<close>

lemma c_mod_next:
  assumes "unat i < unat n"
  shows "\<exists>x. c_mod (i + 1) n = Some x \<and> unat x = ring_next (unat n) (unat i)"
proof -
  have "unat n < 2 ^ 64"
    using unsigned_less [of n, where ?'a = nat] by simp
  with assms have "unat (i + 1) = Suc (unat i)"
    by (simp add: unat_word_ariths)
  moreover from assms have "n \<noteq> 0" by auto
  ultimately show ?thesis
    by (simp add: c_mod_def ring_next_def unat_mod_distrib)
qed

lemma to_int_small:
  assumes "unat x < 2 ^ 31"
  shows "to_int x = int (unat x)"
proof -
  from assms have "int (unat x) < int (2 ^ 31)" by (simp only: of_nat_less_iff)
  then have "uint x < 2 ^ 31" by simp
  moreover have "- (2 ^ 31) \<le> uint x"
    by (rule order_trans [of _ 0]) simp_all
  ultimately show ?thesis
    unfolding to_int_def by (simp add: signed_ucast_eq signed_take_bit_int_eq_self)
qed

lemma queue_wf_index:
  assumes "queue_wf cb" and "unat i < unat (a_len cb)"
  shows "to_int (i * b_size cb) = slot_index cb (unat i)"
proof -
  have "unat i * unat (b_size cb) \<le> unat (a_len cb) * unat (b_size cb)"
    using assms(2) by (intro mult_le_mono1) simp
  with assms(1) have b: "unat i * unat (b_size cb) < 2 ^ 31"
    unfolding queue_wf_def by linarith
  then have "unat (i * b_size cb) = unat i * unat (b_size cb)"
    by (simp add: unat_word_ariths)
  with b show ?thesis
    by (simp add: to_int_small slot_index_def)
qed

lemma slot_index_inj:
  "queue_wf cb \<Longrightarrow> slot_index cb i = slot_index cb j \<longleftrightarrow> i = j"
  unfolding queue_wf_def slot_index_def of_nat_eq_iff by auto

lemma slot_index_cong [simp]:
  "slot_index (cb\<lparr>m_write := x\<rparr>) = slot_index cb"
  "slot_index (cb\<lparr>m_read := x\<rparr>) = slot_index cb"
  by (simp_all add: slot_index_def fun_eq_iff)

lemma slot_index_nonneg [simp]: "slot_index cb i \<noteq> -1"
  using of_nat_0_le_iff [of "i * unat (b_size cb)", where 'a = int]
  unfolding slot_index_def by linarith

lemma queue_slots_less: "queue_wf cb \<Longrightarrow> i \<in> set (queue_slots cb) \<Longrightarrow> i < unat (a_len cb)"
  unfolding queue_slots_def queue_wf_def by (auto intro: ring_between_less)

lemma queue_slots_distinct: "queue_wf cb \<Longrightarrow> distinct (queue_slots cb)"
  unfolding queue_slots_def queue_wf_def
  by (auto intro!: ring_between_distinct less_imp_le ring_count_less)

lemma queue_slots_bound: "queue_wf cb \<Longrightarrow> length (queue_slots cb) < unat (a_len cb)"
  unfolding queue_slots_def queue_wf_def by (simp add: ring_count_less)

lemma queue_slots_Nil_iff: "queue_wf cb \<Longrightarrow> queue_slots cb = [] \<longleftrightarrow> m_read cb = m_write cb"
  unfolding queue_slots_def queue_wf_def
  by (simp flip: length_0_conv add: ring_count_0 word_eq_iff_unsigned [where 'a = nat])

text \<open>The write slot is never one of the occupied ones.\<close>

lemma queue_write_free: "queue_wf cb \<Longrightarrow> unat (m_write cb) \<notin> set (queue_slots cb)"
proof -
  assume wf: "queue_wf cb"
  let ?n = "unat (a_len cb)" and ?r = "unat (m_read cb)" and ?w = "unat (m_write cb)"
  let ?k = "ring_count ?n ?r ?w"
  have rw: "?r < ?n" "?w < ?n" using wf by (simp_all add: queue_wf_def)
  have "distinct (ring_between ?n ?r (Suc ?k))"
    using rw by (intro ring_between_distinct Suc_leI ring_count_less)
  then show ?thesis
    using rw by (simp add: ring_between_snoc queue_slots_def ring_count_write)
qed

lemma queue_full_iff:
  assumes "queue_wf cb" and "unat x = ring_next (unat (a_len cb)) (unat (m_write cb))"
  shows "x = m_read cb \<longleftrightarrow> Suc (length (queue_slots cb)) = unat (a_len cb)"
  using assms ring_count_full [of "unat (m_read cb)" "unat (a_len cb)" "unat (m_write cb)"]
  by (auto simp: queue_wf_def queue_slots_def word_eq_iff_unsigned [where 'a = nat])

lemma queue_alloc_wf:
  assumes "queue_wf cb"
  shows "queue_alloc cb =
    Some (if Suc (length (queue_slots cb)) = unat (a_len cb) then -1
          else slot_index cb (unat (m_write cb)))"
proof -
  have w: "unat (m_write cb) < unat (a_len cb)" using assms by (simp add: queue_wf_def)
  then obtain x where "c_mod (m_write cb + 1) (a_len cb) = Some x"
    and "unat x = ring_next (unat (a_len cb)) (unat (m_write cb))"
    using c_mod_next by blast
  with assms w show ?thesis
    by (simp add: queue_alloc_def queue_full_iff queue_wf_index)
qed

lemma queue_is_full_wf:
  assumes "queue_wf cb"
  shows "queue_is_full cb = Some (Suc (length (queue_slots cb)) = unat (a_len cb))"
proof -
  have "unat (m_write cb) < unat (a_len cb)" using assms by (simp add: queue_wf_def)
  then obtain x where "c_mod (m_write cb + 1) (a_len cb) = Some x"
    and "unat x = ring_next (unat (a_len cb)) (unat (m_write cb))"
    using c_mod_next by blast
  with assms show ?thesis
    by (simp add: queue_is_full_def queue_full_iff)
qed

lemma queue_commit_wf:
  assumes "queue_wf cb" and "Suc (length (queue_slots cb)) < unat (a_len cb)"
  shows "\<exists>w. queue_commit cb = Some (cb\<lparr>m_write := w\<rparr>) \<and> queue_wf (cb\<lparr>m_write := w\<rparr>) \<and>
    queue_slots (cb\<lparr>m_write := w\<rparr>) = queue_slots cb @ [unat (m_write cb)]"
proof -
  have rw: "unat (m_read cb) < unat (a_len cb)" "unat (m_write cb) < unat (a_len cb)"
    using assms by (simp_all add: queue_wf_def)
  then obtain x where x: "c_mod (m_write cb + 1) (a_len cb) = Some x"
    and ux: "unat x = ring_next (unat (a_len cb)) (unat (m_write cb))"
    using c_mod_next by blast
  have "ring_next (unat (a_len cb)) (unat (m_write cb)) \<noteq> unat (m_read cb)"
    using assms rw by (simp add: ring_count_full queue_slots_def)
  with rw ux have "queue_slots (cb\<lparr>m_write := x\<rparr>) = queue_slots cb @ [unat (m_write cb)]"
    by (simp add: queue_slots_def ring_count_put ring_between_snoc ring_count_write)
  moreover have "queue_wf (cb\<lparr>m_write := x\<rparr>)"
    using assms rw ux by (simp add: queue_wf_def ring_next_less)
  ultimately show ?thesis using x by (auto simp: queue_commit_def)
qed

lemma queue_peek_wf:
  assumes "queue_wf cb"
  shows "queue_peek cb =
    (case queue_slots cb of [] \<Rightarrow> None | i # _ \<Rightarrow> Some (slot_index cb i))"
proof (cases "m_read cb = m_write cb")
  case True
  then show ?thesis
    using queue_slots_Nil_iff [OF assms] by (simp add: queue_peek_def)
next
  case False
  have rw: "unat (m_read cb) < unat (a_len cb)" "unat (m_write cb) < unat (a_len cb)"
    using assms by (simp_all add: queue_wf_def)
  from False have "unat (m_read cb) \<noteq> unat (m_write cb)"
    by (simp add: word_eq_iff_unsigned [where 'a = nat])
  with rw have "\<exists>k. queue_slots cb = unat (m_read cb) # k"
    unfolding queue_slots_def by (simp add: ring_count_get ring_between_Cons)
  with False assms rw show ?thesis
    by (auto simp: queue_peek_def queue_wf_index)
qed

lemma queue_discard_step:
  assumes "queue_wf cb" and "m_read cb \<noteq> m_write cb"
  shows "\<exists>r. c_mod (m_read cb + 1) (a_len cb) = Some r \<and> queue_wf (cb\<lparr>m_read := r\<rparr>) \<and>
    queue_slots (cb\<lparr>m_read := r\<rparr>) = tl (queue_slots cb)"
proof -
  have rw: "unat (m_read cb) < unat (a_len cb)" "unat (m_write cb) < unat (a_len cb)"
    using assms by (simp_all add: queue_wf_def)
  then obtain x where x: "c_mod (m_read cb + 1) (a_len cb) = Some x"
    and ux: "unat x = ring_next (unat (a_len cb)) (unat (m_read cb))"
    using c_mod_next by blast
  from assms have "unat (m_read cb) \<noteq> unat (m_write cb)"
    by (simp add: word_eq_iff_unsigned [where 'a = nat])
  with rw ux have "queue_slots (cb\<lparr>m_read := x\<rparr>) = tl (queue_slots cb)"
    by (simp add: queue_slots_def ring_count_get ring_between_Cons)
  moreover have "queue_wf (cb\<lparr>m_read := x\<rparr>)"
    using assms rw ux by (simp add: queue_wf_def ring_next_less)
  ultimately show ?thesis using x by auto
qed

text \<open>Discarding \<open>n\<close> elements drops \<open>n\<close> slots, or all of them, and counts them.\<close>

lemma queue_discard_loop_wf:
  assumes "queue_wf cb"
  shows "\<exists>r. queue_discard_loop n count cb =
      Some (cb\<lparr>m_read := r\<rparr>, count + min n (length (queue_slots cb))) \<and>
    queue_wf (cb\<lparr>m_read := r\<rparr>) \<and>
    queue_slots (cb\<lparr>m_read := r\<rparr>) = drop n (queue_slots cb)"
  using assms
proof (induction n arbitrary: count cb)
  case 0
  then show ?case by (intro exI [of _ "m_read cb"]) simp
next
  case (Suc n)
  show ?case
  proof (cases "m_read cb = m_write cb")
    case True
    then have "queue_slots cb = []" using queue_slots_Nil_iff [OF Suc.prems] by simp
    moreover have eq: "cb\<lparr>m_read := m_read cb\<rparr> = cb" by simp
    ultimately show ?thesis
      using True Suc.prems by (intro exI [of _ "m_read cb"], unfold eq) simp
  next
    case False
    then obtain r where r: "c_mod (m_read cb + 1) (a_len cb) = Some r"
      and wf: "queue_wf (cb\<lparr>m_read := r\<rparr>)"
      and sl: "queue_slots (cb\<lparr>m_read := r\<rparr>) = tl (queue_slots cb)"
      using queue_discard_step [OF Suc.prems] by blast
    from False have "queue_slots cb \<noteq> []" using queue_slots_Nil_iff [OF Suc.prems] by simp
    then have "length (queue_slots cb) = Suc (length (tl (queue_slots cb)))"
      by (cases "queue_slots cb") auto
    moreover obtain r' where
      "queue_discard_loop n (Suc count) (cb\<lparr>m_read := r\<rparr>) =
        Some (cb\<lparr>m_read := r'\<rparr>, Suc count + min n (length (tl (queue_slots cb))))"
      "queue_wf (cb\<lparr>m_read := r'\<rparr>)"
      "queue_slots (cb\<lparr>m_read := r'\<rparr>) = drop n (tl (queue_slots cb))"
      using Suc.IH [OF wf, of "Suc count"] by (auto simp: sl)
    ultimately show ?thesis
      using False r by (intro exI [of _ r']) (simp add: drop_Suc)
  qed
qed

lemma queue_discard_wf:
  assumes "queue_wf cb"
  shows "\<exists>r. queue_discard cb n =
      Some (cb\<lparr>m_read := r\<rparr>, int (min (unat n) (length (queue_slots cb)))) \<and>
    queue_wf (cb\<lparr>m_read := r\<rparr>) \<and>
    queue_slots (cb\<lparr>m_read := r\<rparr>) = drop (unat n) (queue_slots cb)"
proof -
  let ?c = "min (unat n) (length (queue_slots cb))"
  have "unat (a_len cb) * 1 \<le> unat (a_len cb) * unat (b_size cb)"
    using assms by (intro mult_le_mono2) (simp add: queue_wf_def)
  with queue_slots_bound [OF assms] assms have "length (queue_slots cb) < 2 ^ 31"
    unfolding queue_wf_def by linarith
  then have "?c < 2 ^ 31" by (rule le_less_trans [OF min.cobounded2])
  then have "to_int (of_nat ?c) = int ?c"
    by (subst to_int_small) (simp_all add: unat_of_nat)
  with queue_discard_loop_wf [OF assms, of "unat n" 0] show ?thesis
    by (auto simp: queue_discard_def)
qed

lemma queue_create_wf:
  assumes "b \<noteq> 0" and "unat b \<le> unat n" and "unat n < 2 ^ 31"
  shows "\<exists>cb. queue_create b n = Some cb \<and> queue_wf cb \<and> queue_slots cb = [] \<and>
    unat (a_len cb) = unat n div unat b"
proof -
  have "unat (n div b) = unat n div unat b" by (simp add: unat_div)
  moreover have "0 < unat b" using assms(1) by (simp add: unat_gt_0)
  moreover have "unat n div unat b * unat b < 2 ^ 31"
    using assms(3) by (meson div_times_less_eq_dividend le_less_trans)
  ultimately show ?thesis
    using assms(1,2)
    by (simp add: queue_create_def c_div_def queue_wf_def queue_slots_def ring_count_def div_greater_zero_iff)
qed

lemma queue_clear_wf:
  assumes "queue_wf cb"
  shows "queue_wf (queue_clear_from_push_end cb)" "queue_slots (queue_clear_from_push_end cb) = []"
    "queue_wf (queue_clear_from_pop_end cb)" "queue_slots (queue_clear_from_pop_end cb) = []"
  using assms
  by (auto simp: queue_clear_from_push_end_def queue_clear_from_pop_end_def queue_wf_def
      queue_slots_def ring_count_def)

section \<open>Rings with their blocks\<close>

text \<open>
  The idiom of every client: allocate a block, fill it, commit it; and peek at a block,
  copy it out, discard it.
\<close>

record 'a ring =
  ring_cb :: queue_cb
  ring_data :: "int \<Rightarrow> 'a"

definition ring_put :: "'a \<Rightarrow> 'a ring \<Rightarrow> 'a ring option" where
  "ring_put x q = do {
     i \<leftarrow> queue_alloc (ring_cb q);
     if i = -1 then None
     else do {
       cb \<leftarrow> queue_commit (ring_cb q);
       Some \<lparr>ring_cb = cb, ring_data = (ring_data q)(i := x)\<rparr>
     }
   }"

definition ring_front :: "'a ring \<Rightarrow> 'a option" where
  "ring_front q = map_option (ring_data q) (queue_peek (ring_cb q))"

definition ring_drop :: "'a ring \<Rightarrow> 'a ring" where
  "ring_drop q = (case queue_discard (ring_cb q) 1 of
     None \<Rightarrow> q | Some (cb, _) \<Rightarrow> q\<lparr>ring_cb := cb\<rparr>)"

definition ring_wf :: "'a ring \<Rightarrow> bool" where
  "ring_wf q \<longleftrightarrow> queue_wf (ring_cb q)"

definition ring_list :: "'a ring \<Rightarrow> 'a list" where
  "ring_list q = map (\<lambda>i. ring_data q (slot_index (ring_cb q) i)) (queue_slots (ring_cb q))"

definition ring_cap :: "'a ring \<Rightarrow> nat" where
  "ring_cap q = unat (a_len (ring_cb q)) - 1"

lemma ring_put_free:
  assumes wf: "ring_wf q" and free: "length (ring_list q) < ring_cap q"
  shows "\<exists>q'. ring_put x q = Some q' \<and> ring_wf q' \<and> ring_list q' = ring_list q @ [x] \<and>
    ring_cap q' = ring_cap q"
proof -
  let ?cb = "ring_cb q"
  have wf': "queue_wf ?cb" using wf by (simp add: ring_wf_def)
  have lt: "Suc (length (queue_slots ?cb)) < unat (a_len ?cb)"
    using free by (simp add: ring_list_def ring_cap_def)
  from queue_commit_wf [OF wf' lt] obtain w where
    w: "queue_commit ?cb = Some (?cb\<lparr>m_write := w\<rparr>)" "queue_wf (?cb\<lparr>m_write := w\<rparr>)"
    "queue_slots (?cb\<lparr>m_write := w\<rparr>) = queue_slots ?cb @ [unat (m_write ?cb)]" by blast
  have "slot_index ?cb i \<noteq> slot_index ?cb (unat (m_write ?cb))"
    if "i \<in> set (queue_slots ?cb)" for i
    using that queue_write_free [OF wf'] slot_index_inj [OF wf'] by auto
  with w lt wf' show ?thesis
    by (auto simp: ring_put_def queue_alloc_wf ring_wf_def ring_list_def ring_cap_def)
qed

lemma ring_drop_wf:
  assumes wf: "ring_wf q"
  shows "ring_wf (ring_drop q) \<and> ring_list (ring_drop q) = tl (ring_list q) \<and>
    ring_cap (ring_drop q) = ring_cap q"
proof -
  let ?cb = "ring_cb q"
  from queue_discard_wf [of ?cb 1] wf obtain r c where
    "queue_discard ?cb 1 = Some (?cb\<lparr>m_read := r\<rparr>, c)" "queue_wf (?cb\<lparr>m_read := r\<rparr>)"
    "queue_slots (?cb\<lparr>m_read := r\<rparr>) = drop 1 (queue_slots ?cb)"
    by (auto simp: ring_wf_def)
  then show ?thesis
    by (simp add: ring_drop_def ring_wf_def ring_list_def ring_cap_def drop_Suc map_tl)
qed

interpretation rq: bounded_fifo ring_wf ring_list ring_cap ring_put ring_front ring_drop
proof
  fix q :: "'a ring" and x
  assume wf: "ring_wf q"
  then have wf': "queue_wf (ring_cb q)" by (simp add: ring_wf_def)
  show "length (ring_list q) \<le> ring_cap q"
    using queue_slots_bound [OF wf'] by (simp add: ring_list_def ring_cap_def)
  show "ring_put x q = None" if "length (ring_list q) = ring_cap q"
    using that queue_slots_bound [OF wf'] queue_alloc_wf [OF wf']
    by (auto simp: ring_put_def ring_list_def ring_cap_def)
  show "ring_front q = (case ring_list q of [] \<Rightarrow> None | x # _ \<Rightarrow> Some x)"
    by (simp add: ring_front_def ring_list_def queue_peek_wf [OF wf'] split: list.split)
qed (auto intro: ring_put_free dest: ring_drop_wf)

end
