(* ===== verification/Queue_Spsc.thy ===== *)
theory Queue_Spsc
  imports Queue_R
begin

text \<open>
  One producer and one consumer on a shared ring, as the stack and an application use
  \<^verbatim>\<open>include/queue_r.h\<close>: the producer allocates, fills and commits a block
  (\<^verbatim>\<open>nstack_sendto\<close>, \<^verbatim>\<open>nstack_sock_dgram_input\<close>), the consumer peeks at, copies out and
  discards a block (\<^verbatim>\<open>nstack_recvfrom\<close>, the egress thread). Each rule below is one such
  access to shared memory; the two sides interleave in any order, and memory is
  sequentially consistent. \<open>sent\<close> and \<open>received\<close> record the history.
\<close>

datatype 'a producer = P_Idle | P_Allocated int 'a | P_Filled 'a

datatype 'a consumer = C_Idle | C_Peeked int | C_Copied 'a

record 'a spsc =
  sp_ring :: "'a ring"
  sp_producer :: "'a producer"
  sp_consumer :: "'a consumer"
  sent :: "'a list"
  received :: "'a list"

inductive spsc_step :: "'a spsc \<Rightarrow> 'a spsc \<Rightarrow> bool" where
  alloc: "sp_producer s = P_Idle \<Longrightarrow> queue_alloc (ring_cb (sp_ring s)) = Some i \<Longrightarrow> i \<noteq> -1 \<Longrightarrow>
    spsc_step s (s\<lparr>sp_producer := P_Allocated i x\<rparr>)"
| spin: "sp_producer s = P_Idle \<Longrightarrow> queue_alloc (ring_cb (sp_ring s)) = Some (-1) \<Longrightarrow>
    spsc_step s s"
| fill: "sp_producer s = P_Allocated i x \<Longrightarrow>
    spsc_step s (s\<lparr>sp_ring := (sp_ring s)\<lparr>ring_data := (ring_data (sp_ring s))(i := x)\<rparr>,
                   sp_producer := P_Filled x\<rparr>)"
| commit: "sp_producer s = P_Filled x \<Longrightarrow> queue_commit (ring_cb (sp_ring s)) = Some cb \<Longrightarrow>
    spsc_step s (s\<lparr>sp_ring := (sp_ring s)\<lparr>ring_cb := cb\<rparr>, sp_producer := P_Idle,
                   sent := sent s @ [x]\<rparr>)"
| peek: "sp_consumer s = C_Idle \<Longrightarrow> queue_peek (ring_cb (sp_ring s)) = Some i \<Longrightarrow>
    spsc_step s (s\<lparr>sp_consumer := C_Peeked i\<rparr>)"
| copy: "sp_consumer s = C_Peeked i \<Longrightarrow>
    spsc_step s (s\<lparr>sp_consumer := C_Copied (ring_data (sp_ring s) i)\<rparr>)"
| discard: "sp_consumer s = C_Copied x \<Longrightarrow>
    queue_discard (ring_cb (sp_ring s)) 1 = Some (cb, k) \<Longrightarrow>
    spsc_step s (s\<lparr>sp_ring := (sp_ring s)\<lparr>ring_cb := cb\<rparr>, sp_consumer := C_Idle,
                   received := received s @ [x]\<rparr>)"

definition spsc_init :: "'a ring \<Rightarrow> 'a spsc" where
  "spsc_init q = \<lparr>sp_ring = q, sp_producer = P_Idle, sp_consumer = C_Idle,
     sent = [], received = []\<rparr>"

inductive spsc_reachable :: "'a ring \<Rightarrow> 'a spsc \<Rightarrow> bool" for q where
  init: "spsc_reachable q (spsc_init q)"
| step: "spsc_reachable q s \<Longrightarrow> spsc_step s t \<Longrightarrow> spsc_reachable q t"

text \<open>
  The invariant relates the two program counters to the ring: an allocated block is the
  write slot of a queue that is not full, a filled one holds the element, a peeked block
  is the read slot, and a copied element is the front of the queue.
\<close>

definition producer_ok :: "'a ring \<Rightarrow> 'a producer \<Rightarrow> bool" where
  "producer_ok q p \<longleftrightarrow>
     (case p of
        P_Idle \<Rightarrow> True
      | P_Allocated i x \<Rightarrow>
          i = slot_index (ring_cb q) (unat (m_write (ring_cb q))) \<and>
          length (ring_list q) < ring_cap q
      | P_Filled x \<Rightarrow>
          ring_data q (slot_index (ring_cb q) (unat (m_write (ring_cb q)))) = x \<and>
          length (ring_list q) < ring_cap q)"

definition consumer_ok :: "'a ring \<Rightarrow> 'a consumer \<Rightarrow> bool" where
  "consumer_ok q c \<longleftrightarrow>
     (case c of
        C_Idle \<Rightarrow> True
      | C_Peeked i \<Rightarrow>
          queue_slots (ring_cb q) \<noteq> [] \<and> i = slot_index (ring_cb q) (hd (queue_slots (ring_cb q)))
      | C_Copied x \<Rightarrow> ring_list q \<noteq> [] \<and> x = hd (ring_list q))"

definition spsc_inv :: "'a spsc \<Rightarrow> bool" where
  "spsc_inv s \<longleftrightarrow> ring_wf (sp_ring s) \<and> sent s = received s @ ring_list (sp_ring s) \<and>
     producer_ok (sp_ring s) (sp_producer s) \<and> consumer_ok (sp_ring s) (sp_consumer s)"

section \<open>Effect of the shared-memory accesses on the abstract queue\<close>

lemma ring_list_fill:
  assumes "ring_wf q"
  shows "ring_list (q\<lparr>ring_data := (ring_data q)
      (slot_index (ring_cb q) (unat (m_write (ring_cb q))) := x)\<rparr>) = ring_list q"
  using queue_write_free [of "ring_cb q"] slot_index_inj [of "ring_cb q"] assms
  by (auto simp: ring_list_def ring_wf_def)

lemma ring_commit:
  assumes wf: "ring_wf q" and free: "length (ring_list q) < ring_cap q"
    and filled: "ring_data q (slot_index (ring_cb q) (unat (m_write (ring_cb q)))) = x"
    and ret: "queue_commit (ring_cb q) = Some cb"
  shows "ring_wf (q\<lparr>ring_cb := cb\<rparr>)" and "ring_list (q\<lparr>ring_cb := cb\<rparr>) = ring_list q @ [x]"
    and "m_read cb = m_read (ring_cb q)" and "slot_index cb = slot_index (ring_cb q)"
    and "queue_slots cb = queue_slots (ring_cb q) @ [unat (m_write (ring_cb q))]"
proof -
  have "\<exists>w. cb = (ring_cb q)\<lparr>m_write := w\<rparr> \<and> queue_wf cb \<and>
      queue_slots cb = queue_slots (ring_cb q) @ [unat (m_write (ring_cb q))]"
    using queue_commit_wf [of "ring_cb q"] wf free ret
    by (simp add: ring_wf_def ring_list_def ring_cap_def less_diff_conv) blast
  then show "ring_wf (q\<lparr>ring_cb := cb\<rparr>)" "ring_list (q\<lparr>ring_cb := cb\<rparr>) = ring_list q @ [x]"
    "m_read cb = m_read (ring_cb q)" "slot_index cb = slot_index (ring_cb q)"
    "queue_slots cb = queue_slots (ring_cb q) @ [unat (m_write (ring_cb q))]"
    using filled by (auto simp: ring_wf_def ring_list_def)
qed

lemma ring_discard:
  assumes wf: "ring_wf q" and ret: "queue_discard (ring_cb q) 1 = Some (cb, k)"
  shows "ring_wf (q\<lparr>ring_cb := cb\<rparr>)" and "ring_list (q\<lparr>ring_cb := cb\<rparr>) = tl (ring_list q)"
    and "m_write cb = m_write (ring_cb q)" and "slot_index cb = slot_index (ring_cb q)"
    and "ring_cap (q\<lparr>ring_cb := cb\<rparr>) = ring_cap q"
proof -
  have "\<exists>r. cb = (ring_cb q)\<lparr>m_read := r\<rparr> \<and> queue_wf cb \<and>
      queue_slots cb = tl (queue_slots (ring_cb q))"
    using queue_discard_wf [of "ring_cb q" 1] wf ret by (auto simp: ring_wf_def drop_Suc)
  then show "ring_wf (q\<lparr>ring_cb := cb\<rparr>)" "ring_list (q\<lparr>ring_cb := cb\<rparr>) = tl (ring_list q)"
    "m_write cb = m_write (ring_cb q)" "slot_index cb = slot_index (ring_cb q)"
    "ring_cap (q\<lparr>ring_cb := cb\<rparr>) = ring_cap q"
    by (auto simp: ring_wf_def ring_list_def ring_cap_def map_tl)
qed

section \<open>The invariant\<close>

lemma spsc_step_inv:
  assumes "spsc_step s t" and "spsc_inv s"
  shows "spsc_inv t"
  using assms
proof (induction rule: spsc_step.induct)
  case (alloc s i x)
  then have "queue_wf (ring_cb (sp_ring s))" by (simp add: spsc_inv_def ring_wf_def)
  with alloc queue_slots_bound [of "ring_cb (sp_ring s)"] show ?case
    by (auto simp: spsc_inv_def producer_ok_def queue_alloc_wf ring_list_def ring_cap_def
        split: if_splits)
next
  case (spin s)
  then show ?case by simp
next
  case (fill s i x)
  have wf: "ring_wf (sp_ring s)" using fill by (simp add: spsc_inv_def)
  then have "ring_list ((sp_ring s)\<lparr>ring_data := (ring_data (sp_ring s))(i := x)\<rparr>) =
      ring_list (sp_ring s)"
    using fill ring_list_fill [OF wf] by (simp add: spsc_inv_def producer_ok_def)
  with fill wf show ?case
    by (auto simp: spsc_inv_def producer_ok_def consumer_ok_def ring_wf_def ring_cap_def
        split: consumer.splits)
next
  case (commit s x cb)
  let ?q = "sp_ring s"
  have q: "ring_wf ?q" "length (ring_list ?q) < ring_cap ?q"
    "ring_data ?q (slot_index (ring_cb ?q) (unat (m_write (ring_cb ?q)))) = x"
    using commit by (simp_all add: spsc_inv_def producer_ok_def)
  from commit ring_commit [OF q commit.hyps(2)] show ?case
    by (auto simp: spsc_inv_def producer_ok_def consumer_ok_def hd_append
        split: consumer.splits)
next
  case (peek s i)
  then have "queue_wf (ring_cb (sp_ring s))" by (simp add: spsc_inv_def ring_wf_def)
  with peek show ?case
    by (auto simp: spsc_inv_def consumer_ok_def queue_peek_wf split: list.splits)
next
  case (copy s i)
  then show ?case
    by (auto simp: spsc_inv_def consumer_ok_def ring_list_def hd_map)
next
  case (discard s x cb k)
  let ?q = "sp_ring s"
  have q: "ring_wf ?q" "ring_list ?q = x # tl (ring_list ?q)"
    using discard by (simp_all add: spsc_inv_def consumer_ok_def)
  then have "length (tl (ring_list ?q)) < length (ring_list ?q)"
    by (metis length_Cons lessI)
  with discard q ring_discard [OF q(1) discard.hyps(2)] show ?case
    by (auto simp: spsc_inv_def producer_ok_def consumer_ok_def split: producer.splits)
qed

lemma spsc_init_inv: "ring_wf q \<Longrightarrow> ring_list q = [] \<Longrightarrow> spsc_inv (spsc_init q)"
  by (simp add: spsc_inv_def spsc_init_def producer_ok_def consumer_ok_def)

lemma spsc_reachable_inv:
  assumes "spsc_reachable q s" and "ring_wf q" and "ring_list q = []"
  shows "spsc_inv s"
  using assms
proof (induction rule: spsc_reachable.induct)
  case init
  then show ?case by (rule spsc_init_inv)
next
  case (step s t)
  then show ?case by (blast intro: spsc_step_inv)
qed

lemma spsc_inv_disjoint:
  assumes "spsc_inv s" and "sp_producer s = P_Allocated i x" and "sp_consumer s = C_Peeked j"
  shows "i \<noteq> j"
proof -
  let ?cb = "ring_cb (sp_ring s)"
  have wf: "queue_wf ?cb" using assms(1) by (simp add: spsc_inv_def ring_wf_def)
  have "i = slot_index ?cb (unat (m_write ?cb))"
    and "queue_slots ?cb \<noteq> []" and "j = slot_index ?cb (hd (queue_slots ?cb))"
    using assms by (simp_all add: spsc_inv_def producer_ok_def consumer_ok_def)
  moreover from this have "hd (queue_slots ?cb) \<noteq> unat (m_write ?cb)"
    using queue_write_free [OF wf] by (metis hd_in_set)
  ultimately show ?thesis using slot_index_inj [OF wf] by auto
qed

text \<open>
  C5: whatever the interleaving, the consumer has received exactly a prefix of what the
  producer has committed, in order, and the rest is still in the ring; and the block the
  producer is filling is never the block the consumer is copying.
\<close>

theorem spsc_order_and_separation:
  assumes "spsc_reachable q s" and "ring_wf q" and "ring_list q = []"
  shows "sent s = received s @ ring_list (sp_ring s) \<and> ring_wf (sp_ring s) \<and>
    (\<forall>i x j. sp_producer s = P_Allocated i x \<longrightarrow> sp_consumer s = C_Peeked j \<longrightarrow> i \<noteq> j)"
proof -
  have inv: "spsc_inv s" using assms by (rule spsc_reachable_inv)
  then have "sent s = received s @ ring_list (sp_ring s) \<and> ring_wf (sp_ring s)"
    by (simp add: spsc_inv_def)
  with spsc_inv_disjoint [OF inv] show ?thesis by blast
qed

definition demo_ring :: "nat ring" where
  "demo_ring = \<lparr>ring_cb = \<lparr>b_size = 4096, a_len = 4, m_write = 0, m_read = 0\<rparr>,
     ring_data = (\<lambda>_. 0)\<rparr>"

lemma demo_ring_facts:
  "ring_wf demo_ring" "ring_list demo_ring = []"
  "queue_create 4096 16384 = Some (ring_cb demo_ring)"
  "queue_alloc (ring_cb demo_ring) = Some 0"
  by (simp_all add: demo_ring_def ring_wf_def queue_wf_def ring_list_def queue_slots_def
      ring_count_def queue_create_def c_div_def queue_alloc_def c_mod_def to_int_def)

lemma demo_ring_reachable:
  "spsc_reachable demo_ring ((spsc_init demo_ring)\<lparr>sp_producer := P_Allocated 0 7\<rparr>)"
  by (rule spsc_reachable.step [OF spsc_reachable.init])
    (rule spsc_step.alloc, simp_all add: spsc_init_def demo_ring_facts)

theorem spsc_order_and_separation_witness:
  "\<exists>s. spsc_reachable demo_ring s \<and> sp_producer s = P_Allocated 0 7 \<and>
     sent s = received s @ ring_list (sp_ring s)"
  using spsc_order_and_separation [OF demo_ring_reachable demo_ring_facts(1,2)] demo_ring_reachable
  by (intro exI [of _ "(spsc_init demo_ring)\<lparr>sp_producer := P_Allocated 0 7\<rparr>"]) simp

end
