(* ===== verification/Slist.thy ===== *)
theory Slist
  imports Nstack_Prelude
begin

text \<open>
  The singly-linked lists of \<^verbatim>\<open>src/collection.h\<close> (\<^verbatim>\<open>SLIST_*\<close>), which hold the free route
  entries. A list head is the field \<^verbatim>\<open>slh_first\<close>; the field \<^verbatim>\<open>sle_next\<close> of the elements lives
  in a store indexed by addresses. Reading through \<^verbatim>\<open>NULL\<close> gives \<open>None\<close>, as does the search
  loop of \<^verbatim>\<open>SLIST_REMOVE\<close> when it leaves the list.
\<close>

record slist =
  slh_first :: "nat option"
  sle_next :: "nat \<Rightarrow> nat option"

definition SLIST_EMPTY :: "slist \<Rightarrow> bool" where
  "SLIST_EMPTY s \<longleftrightarrow> slh_first s = None"

definition SLIST_FIRST :: "slist \<Rightarrow> nat option" where
  "SLIST_FIRST s = slh_first s"

definition SLIST_NEXT :: "slist \<Rightarrow> nat option \<Rightarrow> nat option option" where
  "SLIST_NEXT s p = map_option (sle_next s) p"

definition SLIST_INIT :: "slist \<Rightarrow> slist" where
  "SLIST_INIT s = s\<lparr>slh_first := None\<rparr>"

definition SLIST_INSERT_AFTER :: "slist \<Rightarrow> nat \<Rightarrow> nat \<Rightarrow> slist" where
  "SLIST_INSERT_AFTER s slistelm elm =
     (let s = s\<lparr>sle_next := (sle_next s)(elm := sle_next s slistelm)\<rparr>
      in s\<lparr>sle_next := (sle_next s)(slistelm := Some elm)\<rparr>)"

definition SLIST_INSERT_HEAD :: "slist \<Rightarrow> nat \<Rightarrow> slist" where
  "SLIST_INSERT_HEAD s elm =
     (let s = s\<lparr>sle_next := (sle_next s)(elm := SLIST_FIRST s)\<rparr>
      in s\<lparr>slh_first := Some elm\<rparr>)"

definition SLIST_REMOVE_HEAD :: "slist \<Rightarrow> slist option" where
  "SLIST_REMOVE_HEAD s = do {
     n \<leftarrow> SLIST_NEXT s (SLIST_FIRST s);
     Some (s\<lparr>slh_first := n\<rparr>)
   }"

definition SLIST_REMOVE_AFTER :: "slist \<Rightarrow> nat \<Rightarrow> slist option" where
  "SLIST_REMOVE_AFTER s elm = do {
     n \<leftarrow> SLIST_NEXT s (sle_next s elm);
     Some (s\<lparr>sle_next := (sle_next s)(elm := n)\<rparr>)
   }"

text \<open>The element before \<open>elm\<close>, from \<open>curelm\<close> on.\<close>

partial_function (option) slist_before :: "slist \<Rightarrow> nat option \<Rightarrow> nat \<Rightarrow> nat option" where
  "slist_before s curelm elm =
     (case curelm of
        None \<Rightarrow> None
      | Some c \<Rightarrow>
          (if sle_next s c = Some elm then Some c else slist_before s (sle_next s c) elm))"

definition SLIST_REMOVE :: "slist \<Rightarrow> nat \<Rightarrow> slist option" where
  "SLIST_REMOVE s elm =
     (if SLIST_FIRST s = Some elm then SLIST_REMOVE_HEAD s
      else do {
        c \<leftarrow> slist_before s (SLIST_FIRST s) elm;
        SLIST_REMOVE_AFTER s c
      })"

partial_function (option) slist_from :: "slist \<Rightarrow> nat option \<Rightarrow> nat list option" where
  "slist_from s var =
     (case var of
        None \<Rightarrow> Some []
      | Some a \<Rightarrow> do {
          xs \<leftarrow> slist_from s (sle_next s a);
          Some (a # xs)
        })"

definition SLIST_FOREACH :: "slist \<Rightarrow> nat list option" where
  "SLIST_FOREACH s = slist_from s (SLIST_FIRST s)"

section \<open>The elements of a list\<close>

fun chain :: "(nat \<Rightarrow> nat option) \<Rightarrow> nat option \<Rightarrow> nat list \<Rightarrow> bool" where
  "chain n p [] \<longleftrightarrow> p = None"
| "chain n p (a # xs) \<longleftrightarrow> p = Some a \<and> chain n (n a) xs"

definition sl_holds :: "slist \<Rightarrow> nat list \<Rightarrow> bool" where
  "sl_holds s xs \<longleftrightarrow> chain (sle_next s) (slh_first s) xs \<and> distinct xs"

lemma chain_upd [simp]: "a \<notin> set xs \<Longrightarrow> chain (n(a := q)) p xs = chain n p xs"
  by (induction xs arbitrary: p) auto


lemma SLIST_INIT_holds: "sl_holds (SLIST_INIT s) []"
  by (simp add: sl_holds_def SLIST_INIT_def)

lemma SLIST_EMPTY_holds: "sl_holds s xs \<Longrightarrow> SLIST_EMPTY s \<longleftrightarrow> xs = []"
  by (cases xs) (auto simp: sl_holds_def SLIST_EMPTY_def)

lemma SLIST_FIRST_holds: "sl_holds s (a # xs) \<Longrightarrow> SLIST_FIRST s = Some a"
  by (simp add: sl_holds_def SLIST_FIRST_def)

lemma SLIST_INSERT_HEAD_holds:
  "sl_holds s xs \<Longrightarrow> a \<notin> set xs \<Longrightarrow> sl_holds (SLIST_INSERT_HEAD s a) (a # xs)"
  by (simp add: sl_holds_def SLIST_INSERT_HEAD_def SLIST_FIRST_def)

lemma SLIST_REMOVE_HEAD_holds:
  "sl_holds s (a # xs) \<Longrightarrow> \<exists>s'. SLIST_REMOVE_HEAD s = Some s' \<and> sl_holds s' xs"
  by (simp add: sl_holds_def SLIST_REMOVE_HEAD_def SLIST_FIRST_def SLIST_NEXT_def)

lemma SLIST_REMOVE_HEAD_empty: "sl_holds s [] \<Longrightarrow> SLIST_REMOVE_HEAD s = None"
  by (simp add: sl_holds_def SLIST_REMOVE_HEAD_def SLIST_FIRST_def SLIST_NEXT_def)

lemma chain_insert:
  assumes "chain n p (xs @ a # ys)" and "distinct (xs @ a # ys)" and "e \<notin> set (xs @ a # ys)"
  shows "chain (n(e := n a, a := Some e)) p (xs @ a # e # ys)"
  using assms by (induction xs arbitrary: p) auto

lemma SLIST_INSERT_AFTER_holds:
  assumes "sl_holds s (xs @ a # ys)" and "e \<notin> set (xs @ a # ys)"
  shows "sl_holds (SLIST_INSERT_AFTER s a e) (xs @ a # e # ys)"
  using assms chain_insert [of "sle_next s" "slh_first s" xs a ys e]
  by (auto simp: sl_holds_def SLIST_INSERT_AFTER_def)

lemma chain_delete:
  assumes "chain n p (xs @ a # e # ys)" and "distinct (xs @ a # e # ys)"
  shows "chain (n(a := n e)) p (xs @ a # ys) \<and> n a = Some e"
  using assms by (induction xs arbitrary: p) auto

lemma slist_before_ok:
  assumes "chain (sle_next s) p (xs @ a # e # ys)" and "distinct (xs @ a # e # ys)"
  shows "slist_before s p e = Some a"
  using assms
proof (induction xs arbitrary: p)
  case Nil
  then show ?case by (subst slist_before.simps) simp
next
  case (Cons b xs)
  then have "sle_next s b \<noteq> Some e" by (cases xs) auto
  with Cons show ?case by (subst slist_before.simps) simp
qed

lemma SLIST_REMOVE_holds:
  assumes "sl_holds s (xs @ e # ys)"
  shows "\<exists>s'. SLIST_REMOVE s e = Some s' \<and> sl_holds s' (xs @ ys)"
proof (cases xs rule: rev_cases)
  case Nil
  then show ?thesis
    using assms SLIST_REMOVE_HEAD_holds [of s e ys] SLIST_FIRST_holds [of s e ys]
    by (simp add: SLIST_REMOVE_def)
next
  case (snoc zs a)
  then have c: "chain (sle_next s) (slh_first s) (zs @ a # e # ys)" "distinct (zs @ a # e # ys)"
    using assms by (simp_all add: sl_holds_def)
  have "slh_first s \<noteq> Some e" using c by (cases zs) auto
  then show ?thesis
    using chain_delete [OF c] slist_before_ok [OF c] c(2)
    by (simp add: SLIST_REMOVE_def SLIST_FIRST_def SLIST_REMOVE_AFTER_def SLIST_NEXT_def
        sl_holds_def snoc)
qed

lemma slist_from_ok: "chain (sle_next s) p xs \<Longrightarrow> slist_from s p = Some xs"
  by (induction xs arbitrary: p) (subst slist_from.simps, simp)+

lemma SLIST_FOREACH_holds: "sl_holds s xs \<Longrightarrow> SLIST_FOREACH s = Some xs"
  by (simp add: sl_holds_def SLIST_FOREACH_def SLIST_FIRST_def slist_from_ok)

end
