(* ===== verification/Tailq.thy ===== *)
theory Tailq
  imports Nstack_Prelude
begin

text \<open>
  The tail queues of \<^verbatim>\<open>src/collection.h\<close> (\<^verbatim>\<open>TAILQ_*\<close>), which hold the segments of a TCP
  connection. The C code keeps addresses of pointer words (\<^verbatim>\<open>tqh_last\<close>, \<^verbatim>\<open>tqe_prev\<close>): the
  word \<^verbatim>\<open>tqh_first\<close> of a head or the word \<^verbatim>\<open>tqe_next\<close> of an element, which is the datatype
  \<open>tq_loc\<close>. Several queues share one store of elements, as the lists of a connection do,
  so heads are addresses too. A failed check of the macros ends the process and gives
  \<open>None\<close>, like a read through \<^verbatim>\<open>NULL\<close>.
\<close>

datatype tq_loc = Head nat | Next nat

record tailq =
  tqh_first :: "nat \<Rightarrow> nat option"
  tqh_last :: "nat \<Rightarrow> tq_loc option"
  tqe_next :: "nat \<Rightarrow> nat option"
  tqe_prev :: "nat \<Rightarrow> tq_loc option"

text \<open>The pointer word at a location, and the word after it (a head and an entry have the
  same layout, on which \<^verbatim>\<open>TAILQ_LAST\<close> and \<^verbatim>\<open>TAILQ_PREV\<close> rely).\<close>

fun word_at :: "tailq \<Rightarrow> tq_loc \<Rightarrow> nat option" where
  "word_at s (Head h) = tqh_first s h"
| "word_at s (Next a) = tqe_next s a"

fun second_at :: "tailq \<Rightarrow> tq_loc \<Rightarrow> tq_loc option" where
  "second_at s (Head h) = tqh_last s h"
| "second_at s (Next a) = tqe_prev s a"

fun put_at :: "tailq \<Rightarrow> tq_loc \<Rightarrow> nat option \<Rightarrow> tailq" where
  "put_at s (Head h) v = s\<lparr>tqh_first := (tqh_first s)(h := v)\<rparr>"
| "put_at s (Next a) v = s\<lparr>tqe_next := (tqe_next s)(a := v)\<rparr>"

definition set_prev :: "tailq \<Rightarrow> nat \<Rightarrow> tq_loc option \<Rightarrow> tailq" where
  "set_prev s a l = s\<lparr>tqe_prev := (tqe_prev s)(a := l)\<rparr>"

definition set_last :: "tailq \<Rightarrow> nat \<Rightarrow> tq_loc option \<Rightarrow> tailq" where
  "set_last s h l = s\<lparr>tqh_last := (tqh_last s)(h := l)\<rparr>"

definition check :: "bool \<Rightarrow> unit option" where
  "check b = (if b then Some () else None)"

section \<open>The macros\<close>

definition TAILQ_EMPTY :: "tailq \<Rightarrow> nat \<Rightarrow> bool" where
  "TAILQ_EMPTY s h \<longleftrightarrow> tqh_first s h = None"

definition TAILQ_FIRST :: "tailq \<Rightarrow> nat \<Rightarrow> nat option" where
  "TAILQ_FIRST s h = tqh_first s h"

definition TAILQ_NEXT :: "tailq \<Rightarrow> nat \<Rightarrow> nat option" where
  "TAILQ_NEXT s a = tqe_next s a"

definition TAILQ_INIT :: "tailq \<Rightarrow> nat \<Rightarrow> tailq" where
  "TAILQ_INIT s h = set_last (put_at s (Head h) None) h (Some (Head h))"

definition QMD_TAILQ_CHECK_HEAD :: "tailq \<Rightarrow> nat \<Rightarrow> unit option" where
  "QMD_TAILQ_CHECK_HEAD s h =
     check (case tqh_first s h of None \<Rightarrow> True | Some a \<Rightarrow> tqe_prev s a = Some (Head h))"

definition QMD_TAILQ_CHECK_TAIL :: "tailq \<Rightarrow> nat \<Rightarrow> unit option" where
  "QMD_TAILQ_CHECK_TAIL s h = do {
     l \<leftarrow> tqh_last s h;
     check (word_at s l = None)
   }"

definition QMD_TAILQ_CHECK_NEXT :: "tailq \<Rightarrow> nat \<Rightarrow> unit option" where
  "QMD_TAILQ_CHECK_NEXT s a =
     check (case tqe_next s a of None \<Rightarrow> True | Some b \<Rightarrow> tqe_prev s b = Some (Next a))"

definition QMD_TAILQ_CHECK_PREV :: "tailq \<Rightarrow> nat \<Rightarrow> unit option" where
  "QMD_TAILQ_CHECK_PREV s a = do {
     l \<leftarrow> tqe_prev s a;
     check (word_at s l = Some a)
   }"

definition TAILQ_INSERT_AFTER :: "tailq \<Rightarrow> nat \<Rightarrow> nat \<Rightarrow> nat \<Rightarrow> tailq option" where
  "TAILQ_INSERT_AFTER s h listelm elm = do {
     _ \<leftarrow> QMD_TAILQ_CHECK_NEXT s listelm;
     let s = put_at s (Next elm) (tqe_next s listelm);
     let s = (case tqe_next s elm of
                Some b \<Rightarrow> set_prev s b (Some (Next elm))
              | None \<Rightarrow> set_last s h (Some (Next elm)));
     let s = put_at s (Next listelm) (Some elm);
     Some (set_prev s elm (Some (Next listelm)))
   }"

definition TAILQ_INSERT_BEFORE :: "tailq \<Rightarrow> nat \<Rightarrow> nat \<Rightarrow> tailq option" where
  "TAILQ_INSERT_BEFORE s listelm elm = do {
     _ \<leftarrow> QMD_TAILQ_CHECK_PREV s listelm;
     let s = set_prev s elm (tqe_prev s listelm);
     let s = put_at s (Next elm) (Some listelm);
     l \<leftarrow> tqe_prev s listelm;
     let s = put_at s l (Some elm);
     Some (set_prev s listelm (Some (Next elm)))
   }"

definition TAILQ_INSERT_HEAD :: "tailq \<Rightarrow> nat \<Rightarrow> nat \<Rightarrow> tailq option" where
  "TAILQ_INSERT_HEAD s h elm = do {
     _ \<leftarrow> QMD_TAILQ_CHECK_HEAD s h;
     let s = put_at s (Next elm) (tqh_first s h);
     let s = (case tqh_first s h of
                Some b \<Rightarrow> set_prev s b (Some (Next elm))
              | None \<Rightarrow> set_last s h (Some (Next elm)));
     let s = put_at s (Head h) (Some elm);
     Some (set_prev s elm (Some (Head h)))
   }"

definition TAILQ_INSERT_TAIL :: "tailq \<Rightarrow> nat \<Rightarrow> nat \<Rightarrow> tailq option" where
  "TAILQ_INSERT_TAIL s h elm = do {
     _ \<leftarrow> QMD_TAILQ_CHECK_TAIL s h;
     let s = put_at s (Next elm) None;
     let s = set_prev s elm (tqh_last s h);
     l \<leftarrow> tqh_last s h;
     let s = put_at s l (Some elm);
     Some (set_last s h (Some (Next elm)))
   }"

definition TAILQ_LAST :: "tailq \<Rightarrow> nat \<Rightarrow> nat option option" where
  "TAILQ_LAST s h = do {
     l \<leftarrow> tqh_last s h;
     k \<leftarrow> second_at s l;
     Some (word_at s k)
   }"

definition TAILQ_PREV :: "tailq \<Rightarrow> nat \<Rightarrow> nat option option" where
  "TAILQ_PREV s a = do {
     l \<leftarrow> tqe_prev s a;
     k \<leftarrow> second_at s l;
     Some (word_at s k)
   }"

definition TAILQ_REMOVE :: "tailq \<Rightarrow> nat \<Rightarrow> nat \<Rightarrow> tailq option" where
  "TAILQ_REMOVE s h elm = do {
     _ \<leftarrow> QMD_TAILQ_CHECK_NEXT s elm;
     _ \<leftarrow> QMD_TAILQ_CHECK_PREV s elm;
     let s = (case tqe_next s elm of
                Some b \<Rightarrow> set_prev s b (tqe_prev s elm)
              | None \<Rightarrow> set_last s h (tqe_prev s elm));
     l \<leftarrow> tqe_prev s elm;
     Some (put_at s l (tqe_next s elm))
   }"

definition TAILQ_CONCAT :: "tailq \<Rightarrow> nat \<Rightarrow> nat \<Rightarrow> tailq option" where
  "TAILQ_CONCAT s h1 h2 =
     (case tqh_first s h2 of
        None \<Rightarrow> Some s
      | Some b \<Rightarrow> do {
          l \<leftarrow> tqh_last s h1;
          let s = put_at s l (tqh_first s h2);
          let s = set_prev s b (tqh_last s h1);
          let s = set_last s h1 (tqh_last s h2);
          Some (TAILQ_INIT s h2)
        })"

text \<open>The two ends of a swap: the head \<open>h\<close> takes over the queue it was given.\<close>

definition tq_adopt :: "tailq \<Rightarrow> nat \<Rightarrow> tailq" where
  "tq_adopt s h =
     (case tqh_first s h of
        Some b \<Rightarrow> set_prev s b (Some (Head h))
      | None \<Rightarrow> set_last s h (Some (Head h)))"

definition TAILQ_SWAP :: "tailq \<Rightarrow> nat \<Rightarrow> nat \<Rightarrow> tailq" where
  "TAILQ_SWAP s h1 h2 =
     (let swap_first = tqh_first s h1;
          swap_last = tqh_last s h1;
          s = put_at s (Head h1) (tqh_first s h2);
          s = set_last s h1 (tqh_last s h2);
          s = put_at s (Head h2) swap_first;
          s = set_last s h2 swap_last;
          s = tq_adopt s h1
      in tq_adopt s h2)"

partial_function (option) tailq_from :: "tailq \<Rightarrow> nat option \<Rightarrow> nat list option" where
  "tailq_from s var =
     (case var of
        None \<Rightarrow> Some []
      | Some a \<Rightarrow> do {
          xs \<leftarrow> tailq_from s (tqe_next s a);
          Some (a # xs)
        })"

definition TAILQ_FOREACH :: "tailq \<Rightarrow> nat \<Rightarrow> nat list option" where
  "TAILQ_FOREACH s h = tailq_from s (tqh_first s h)"

section \<open>The elements of a queue\<close>

text \<open>
  \<open>tpath s l xs m\<close>: from the word at \<open>l\<close> the elements \<open>xs\<close> follow, each pointing back to the
  word that points to it, up to the word at \<open>m\<close>.
\<close>

fun tpath :: "tailq \<Rightarrow> tq_loc \<Rightarrow> nat list \<Rightarrow> tq_loc \<Rightarrow> bool" where
  "tpath s l [] m \<longleftrightarrow> l = m"
| "tpath s l (a # xs) m \<longleftrightarrow> word_at s l = Some a \<and> tqe_prev s a = Some l \<and> tpath s (Next a) xs m"

definition tq_end :: "tq_loc \<Rightarrow> nat list \<Rightarrow> tq_loc" where
  "tq_end l xs = (if xs = [] then l else Next (last xs))"

definition tq_holds :: "tailq \<Rightarrow> nat \<Rightarrow> nat list \<Rightarrow> bool" where
  "tq_holds s h xs \<longleftrightarrow> tpath s (Head h) xs (tq_end (Head h) xs) \<and>
     word_at s (tq_end (Head h) xs) = None \<and> tqh_last s h = Some (tq_end (Head h) xs) \<and> distinct xs"

lemma tq_end_simps [simp]:
  "tq_end l [] = l" "tq_end l (a # xs) = tq_end (Next a) xs" "tq_end l (xs @ [a]) = Next a"
  by (simp_all add: tq_end_def)

lemma tq_end_append: "tq_end l (xs @ ys) = tq_end (tq_end l xs) ys"
  by (simp add: tq_end_def)

lemma tpath_append:
  "tpath s l (xs @ ys) m \<longleftrightarrow> tpath s l xs (tq_end l xs) \<and> tpath s (tq_end l xs) ys m"
  by (induction xs arbitrary: l) auto

lemma tpath_cong:
  assumes "tpath s l xs m" and "distinct xs" and "l \<notin> Next ` set xs"
    and "\<And>k. k \<in> Set.insert l (Next ` set xs) \<Longrightarrow> k \<noteq> tq_end l xs \<Longrightarrow> word_at s' k = word_at s k"
    and "\<And>b. b \<in> set xs \<Longrightarrow> tqe_prev s' b = tqe_prev s b"
  shows "tpath s' l xs m"
  using assms
proof (induction xs arbitrary: l)
  case (Cons a xs)
  have "l \<noteq> tq_end l (a # xs)"
    using Cons.prems(3) by (auto simp: tq_end_def split: if_splits)
  then have "word_at s' l = word_at s l" using Cons.prems(4) by blast
  moreover have "tpath s' (Next a) xs m"
    using Cons.prems by (intro Cons.IH) auto
  ultimately show ?case using Cons.prems(1,5) by simp
qed simp

lemma word_at_put [simp]: "word_at (put_at s l v) k = (if k = l then v else word_at s k)"
  by (cases l; cases k) auto

lemma tailq_reads [simp]:
  "word_at (set_prev s a l) k = word_at s k" "word_at (set_last s h l) k = word_at s k"
  "tqe_prev (put_at s k v) = tqe_prev s" "tqh_last (put_at s k v) = tqh_last s"
  "tqe_prev (set_prev s a l) = (tqe_prev s)(a := l)" "tqe_prev (set_last s h l) = tqe_prev s"
  "tqh_last (set_prev s a l) = tqh_last s" "tqh_last (set_last s h l) = (tqh_last s)(h := l)"
  by (cases k; simp add: set_prev_def set_last_def)+

lemma tailq_words: "tqh_first s h = word_at s (Head h)" "tqe_next s a = word_at s (Next a)"
  by simp_all

declare word_at.simps [simp del] put_at.simps [simp del]

lemmas tailq_ops = tailq_words check_def QMD_TAILQ_CHECK_HEAD_def QMD_TAILQ_CHECK_TAIL_def
  QMD_TAILQ_CHECK_NEXT_def QMD_TAILQ_CHECK_PREV_def

lemma tq_end_in: "tq_end l xs = l \<or> tq_end l xs \<in> Next ` set xs"
  by (simp add: tq_end_def)

lemma TAILQ_INIT_holds: "tq_holds (TAILQ_INIT s h) h []"
  by (simp add: tq_holds_def TAILQ_INIT_def)

lemma TAILQ_EMPTY_holds: "tq_holds s h xs \<Longrightarrow> TAILQ_EMPTY s h \<longleftrightarrow> xs = []"
  by (cases xs) (auto simp: tq_holds_def TAILQ_EMPTY_def tailq_words)

lemma TAILQ_FIRST_holds: "tq_holds s h (a # xs) \<Longrightarrow> TAILQ_FIRST s h = Some a"
  by (simp add: tq_holds_def TAILQ_FIRST_def tailq_words)

text \<open>Queues that share no element do not disturb each other.\<close>

lemma tq_holds_cong:
  assumes "tq_holds s h xs"
    and "\<And>k. k \<in> Set.insert (Head h) (Next ` set xs) \<Longrightarrow> word_at s' k = word_at s k"
    and "\<And>b. b \<in> set xs \<Longrightarrow> tqe_prev s' b = tqe_prev s b"
    and "tqh_last s' h = tqh_last s h"
  shows "tq_holds s' h xs"
proof -
  have "tpath s' (Head h) xs (tq_end (Head h) xs)"
    using assms(1) unfolding tq_holds_def
    by (intro tpath_cong [of s "Head h" xs _ s'] assms(2,3)) auto
  moreover have "word_at s' (tq_end (Head h) xs) = None"
    using assms(1,2) tq_end_in [of "Head h" xs] by (auto simp: tq_holds_def)
  ultimately show ?thesis using assms(1,4) by (simp add: tq_holds_def)
qed

lemma TAILQ_INSERT_TAIL_holds:
  assumes "tq_holds s h xs" and "a \<notin> set xs"
  shows "\<exists>s'. TAILQ_INSERT_TAIL s h a = Some s' \<and> tq_holds s' h (xs @ [a])"
proof -
  let ?e = "tq_end (Head h) xs"
  let ?s = "set_last (put_at (set_prev (put_at s (Next a) None) a (Some ?e)) ?e (Some a)) h
    (Some (Next a))"
  have ne: "?e \<noteq> Next a" using assms(2) by (auto simp: tq_end_def)
  have run: "TAILQ_INSERT_TAIL s h a = Some ?s"
    using assms(1)
    by (simp add: TAILQ_INSERT_TAIL_def tailq_ops tq_holds_def)
  have "tpath s (Head h) xs ?e" "distinct xs" using assms(1) by (simp_all add: tq_holds_def)
  then have "tpath ?s (Head h) xs ?e" by (rule tpath_cong) (use assms(2) in auto)
  then have "tq_holds ?s h (xs @ [a])"
    using assms ne by (simp add: tq_holds_def tpath_append)
  with run show ?thesis by blast
qed

lemma TAILQ_INSERT_TAIL_other:
  assumes "TAILQ_INSERT_TAIL s h a = Some s'" and "tq_holds s h xs" and "tq_holds s g ys"
    and "g \<noteq> h" and "a \<notin> set ys" and "set xs \<inter> set ys = {}"
  shows "tq_holds s' g ys"
proof -
  let ?e = "tq_end (Head h) xs"
  have s': "s' = set_last (put_at (set_prev (put_at s (Next a) None) a (Some ?e)) ?e (Some a)) h
      (Some (Next a))"
    using assms(1,2)
    by (simp add: TAILQ_INSERT_TAIL_def tailq_ops tq_holds_def)
  have "k \<noteq> ?e" if "k \<in> Set.insert (Head g) (Next ` set ys)" for k
    using that tq_end_in [of "Head h" xs] assms(4,6) by auto
  then show ?thesis
    using assms(4,5) unfolding s' by (intro tq_holds_cong [OF assms(3)]) auto
qed

text \<open>The words around an element \<open>a\<close> of a queue.\<close>

lemma tq_holds_split:
  assumes "tq_holds s h (xs @ a # ys)"
  shows "tpath s (Head h) xs (tq_end (Head h) xs)" "word_at s (tq_end (Head h) xs) = Some a"
    "tqe_prev s a = Some (tq_end (Head h) xs)"
    "tpath s (Next a) ys (tq_end (Next a) ys)" "word_at s (tq_end (Next a) ys) = None"
    "tqh_last s h = Some (tq_end (Next a) ys)" "distinct (xs @ a # ys)"
  using assms by (auto simp: tq_holds_def tpath_append tq_end_append)

lemma tq_end_neq: "a \<notin> set xs \<Longrightarrow> tq_end (Head h) xs \<noteq> Next a"
  by (auto simp: tq_end_def)

lemma TAILQ_REMOVE_last:
  assumes "tq_holds s h (xs @ [a])"
  defines "k \<equiv> tq_end (Head h) xs"
  shows "TAILQ_REMOVE s h a = Some (put_at (set_last s h (Some k)) k None) \<and>
    tq_holds (put_at (set_last s h (Some k)) k None) h xs"
proof -
  note f = tq_holds_split [OF assms(1), folded k_def]
  have "TAILQ_REMOVE s h a = Some (put_at (set_last s h (Some k)) k None)"
    using f by (simp add: TAILQ_REMOVE_def tailq_ops)
  moreover have "tpath (put_at (set_last s h (Some k)) k None) (Head h) xs k"
    using f(1) by (rule tpath_cong) (use f(7) in \<open>auto simp: k_def\<close>)
  ultimately show ?thesis using f(7) by (simp add: tq_holds_def k_def)
qed

lemma TAILQ_REMOVE_inner:
  assumes "tq_holds s h (xs @ a # b # ys)"
  defines "k \<equiv> tq_end (Head h) xs"
  shows "TAILQ_REMOVE s h a = Some (put_at (set_prev s b (Some k)) k (Some b)) \<and>
    tq_holds (put_at (set_prev s b (Some k)) k (Some b)) h (xs @ b # ys)"
proof -
  let ?s = "put_at (set_prev s b (Some k)) k (Some b)"
  note f = tq_holds_split [OF assms(1), folded k_def, simplified]
  have k: "k \<noteq> Next c" if "c \<notin> set xs" for c using that by (auto simp: k_def tq_end_def)
  have "TAILQ_REMOVE s h a = Some ?s"
    using f k [of a] by (simp add: TAILQ_REMOVE_def tailq_ops)
  moreover have "tpath ?s (Head h) xs k"
    using f(1) by (rule tpath_cong) (use f(7) in \<open>auto simp: k_def\<close>)
  moreover have "tpath ?s (Next b) ys (tq_end (Next b) ys)"
  proof (rule tpath_cong)
    show "tpath s (Next b) ys (tq_end (Next b) ys)" using f(4) by simp
  qed (use f(7) k in auto)
  moreover have "tq_end (Next b) ys \<noteq> k"
    using tq_end_in [of "Next b" ys] k f(7) by auto
  ultimately show ?thesis
    using f by (simp add: tq_holds_def k_def tpath_append tq_end_append)
qed

lemma TAILQ_REMOVE_holds:
  assumes "tq_holds s h (xs @ a # ys)"
  shows "\<exists>s'. TAILQ_REMOVE s h a = Some s' \<and> tq_holds s' h (xs @ ys)"
  using assms TAILQ_REMOVE_last [of s h xs a] TAILQ_REMOVE_inner [of s h xs a]
  by (cases ys) auto

lemma TAILQ_REMOVE_other:
  assumes "TAILQ_REMOVE s h a = Some s'" and "tq_holds s h (xs @ a # ys)" and "tq_holds s g zs"
    and "g \<noteq> h" and "set (xs @ a # ys) \<inter> set zs = {}"
  shows "tq_holds s' g zs"
proof -
  let ?k = "tq_end (Head h) xs"
  have "k \<noteq> ?k" if "k \<in> Set.insert (Head g) (Next ` set zs)" for k
    using that tq_end_in [of "Head h" xs] assms(4,5) by auto
  moreover have "s' = put_at (set_last s h (Some ?k)) ?k None \<or>
      (\<exists>b\<in>set ys. s' = put_at (set_prev s b (Some ?k)) ?k (Some b))"
    using assms(1,2) TAILQ_REMOVE_last [of s h xs a] TAILQ_REMOVE_inner [of s h xs a]
    by (cases ys) auto
  ultimately show ?thesis
    using assms(4,5) by (intro tq_holds_cong [OF assms(3)]) auto
qed

text \<open>A queue that moves to the head \<open>h\<close>, as in a swap or a concatenation.\<close>

lemma tq_moved:
  assumes "tq_holds s g ys" and "word_at s' (Head h) = word_at s (Head g)"
    and "\<And>a. a \<in> set ys \<Longrightarrow> word_at s' (Next a) = word_at s (Next a)"
    and "\<And>b. b \<in> set (tl ys) \<Longrightarrow> tqe_prev s' b = tqe_prev s b"
    and "ys \<noteq> [] \<Longrightarrow> tqe_prev s' (hd ys) = Some (Head h)"
    and "tqh_last s' h = Some (tq_end (Head h) ys)"
  shows "tq_holds s' h ys"
proof (cases ys)
  case Nil
  then show ?thesis using assms by (simp add: tq_holds_def)
next
  case (Cons b zs)
  note f = tq_holds_split [of s g "[]" b zs] assms(1)
  have "tpath s' (Next b) zs (tq_end (Next b) zs)"
  proof (rule tpath_cong)
    show "tpath s (Next b) zs (tq_end (Next b) zs)" using f(4,8) Cons by simp
  qed (use f(7,8) assms(3,4) Cons in auto)
  moreover have "word_at s' (tq_end (Next b) zs) = None"
    using tq_end_in [of "Next b" zs] assms(3) f(5,8) Cons by auto
  ultimately show ?thesis
    using assms(2,5,6) f(2,7,8) Cons by (simp add: tq_holds_def)
qed

lemma TAILQ_SWAP_holds:
  assumes "tq_holds s h1 xs" and "tq_holds s h2 ys" and "h1 \<noteq> h2" and "set xs \<inter> set ys = {}"
  shows "tq_holds (TAILQ_SWAP s h1 h2) h1 ys \<and> tq_holds (TAILQ_SWAP s h1 h2) h2 xs"
proof
  have x: "word_at s (Head h1) = (case xs of [] \<Rightarrow> None | a # _ \<Rightarrow> Some a)"
    "tqh_last s h1 = Some (tq_end (Head h1) xs)" "distinct xs"
    using assms(1) by (auto simp: tq_holds_def split: list.split)
  have y: "word_at s (Head h2) = (case ys of [] \<Rightarrow> None | a # _ \<Rightarrow> Some a)"
    "tqh_last s h2 = Some (tq_end (Head h2) ys)" "distinct ys"
    using assms(2) by (auto simp: tq_holds_def split: list.split)
  note swap = TAILQ_SWAP_def tq_adopt_def tailq_words Let_def
  show "tq_holds (TAILQ_SWAP s h1 h2) h1 ys"
    using x y assms(3,4)
    by (intro tq_moved [OF assms(2)]; cases xs; cases ys) (auto simp: swap)
  show "tq_holds (TAILQ_SWAP s h1 h2) h2 xs"
    using x y assms(3,4)
    by (intro tq_moved [OF assms(1)]; cases xs; cases ys) (auto simp: swap)
qed

lemma tailq_from_ok:
  "tpath s l xs (tq_end l xs) \<Longrightarrow> word_at s (tq_end l xs) = None \<Longrightarrow>
     tailq_from s (word_at s l) = Some xs"
proof (induction xs arbitrary: l)
  case Nil
  then show ?case by (subst tailq_from.simps) simp
next
  case (Cons a xs)
  then have "tailq_from s (tqe_next s a) = Some xs" by (simp add: tailq_words)
  with Cons.prems show ?case by (subst tailq_from.simps) simp
qed

lemma TAILQ_FOREACH_holds: "tq_holds s h xs \<Longrightarrow> TAILQ_FOREACH s h = Some xs"
  using tailq_from_ok [of s "Head h" xs] by (simp add: tq_holds_def TAILQ_FOREACH_def tailq_words)

lemma second_at_end:
  assumes "tq_holds s h (xs @ ys)"
  shows "\<exists>k. second_at s (tq_end (Head h) xs) = Some k \<and>
    word_at s k = (if xs = [] then None else Some (last xs))"
proof (cases xs rule: rev_cases)
  case Nil
  then show ?thesis using assms by (simp add: tq_holds_def)
next
  case (snoc zs b)
  then have "tq_holds s h (zs @ b # ys)" using assms by simp
  from tq_holds_split(2,3) [OF this] snoc show ?thesis by simp
qed

lemma TAILQ_LAST_holds:
  "tq_holds s h xs \<Longrightarrow> TAILQ_LAST s h = Some (if xs = [] then None else Some (last xs))"
  using second_at_end [of s h xs "[]"] by (auto simp: tq_holds_def TAILQ_LAST_def)

lemma TAILQ_PREV_holds:
  assumes "tq_holds s h (xs @ a # ys)"
  shows "TAILQ_PREV s a = Some (if xs = [] then None else Some (last xs))"
  using second_at_end [OF assms] tq_holds_split(3) [OF assms] by (auto simp: TAILQ_PREV_def)

text \<open>
  Insertion of \<open>a\<close> at the word \<open>k\<close> where the rest \<open>ys\<close> of a queue starts: the common part of
  \<^verbatim>\<open>TAILQ_INSERT_HEAD\<close>, \<^verbatim>\<open>TAILQ_INSERT_AFTER\<close> and \<^verbatim>\<open>TAILQ_INSERT_BEFORE\<close>.
\<close>

lemma tq_inserted:
  assumes "tq_holds s h (xs @ ys)" and "a \<notin> set (xs @ ys)"
  defines "k \<equiv> tq_end (Head h) xs"
  assumes words: "\<And>l. word_at s' l = (if l = k then Some a else if l = Next a then word_at s k
      else word_at s l)"
    and prevs: "\<And>b. b \<noteq> a \<Longrightarrow> ys = [] \<or> b \<noteq> hd ys \<Longrightarrow> tqe_prev s' b = tqe_prev s b"
    and prev_a: "tqe_prev s' a = Some k"
    and prev_y: "ys \<noteq> [] \<Longrightarrow> tqe_prev s' (hd ys) = Some (Next a)"
    and last: "tqh_last s' h = Some (tq_end (Next a) ys)"
  shows "tq_holds s' h (xs @ a # ys)"
proof -
  have f: "tpath s (Head h) xs k" "tpath s k ys (tq_end k ys)" "word_at s (tq_end k ys) = None"
    "distinct (xs @ ys)"
    using assms(1) by (simp_all add: tq_holds_def k_def tpath_append tq_end_append)
  have k: "k \<noteq> Next c" if "c \<notin> set xs" for c using that by (auto simp: k_def tq_end_def)
  have "tpath s' (Head h) xs k"
    using f(1) by (rule tpath_cong) (use f(4) assms(2) in \<open>auto simp: k_def words intro!: prevs\<close>)
  moreover have "tpath s' (Next a) ys (tq_end (Next a) ys) \<and> word_at s' (tq_end (Next a) ys) = None"
  proof (cases ys)
    case Nil
    then show ?thesis using f(3) k [of a] assms(2) by (simp add: words)
  next
    case (Cons b zs)
    have "tpath s' (Next b) zs (tq_end (Next b) zs)"
    proof (rule tpath_cong)
      show "tpath s (Next b) zs (tq_end (Next b) zs)" using f(2) Cons by simp
    qed (use f(4) assms(2) k Cons in \<open>auto simp: words intro!: prevs\<close>)
    moreover have "word_at s' (tq_end (Next b) zs) = None"
      using tq_end_in [of "Next b" zs] f(3,4) k assms(2) Cons by (auto simp: words)
    moreover have "word_at s' (Next a) = Some b"
      using f(2) Cons k [of a] assms(2) by (simp add: words)
    ultimately show ?thesis using prev_y Cons by simp
  qed
  moreover have "word_at s' k = Some a" by (simp add: words)
  ultimately show ?thesis
    using f(4) assms(2) prev_a last by (simp add: tq_holds_def tpath_append tq_end_append k_def)
qed

lemma tq_holds_at:
  assumes "tq_holds s h (xs @ ys)"
  shows "word_at s (tq_end (Head h) xs) = (case ys of [] \<Rightarrow> None | b # _ \<Rightarrow> Some b)"
    "ys \<noteq> [] \<Longrightarrow> tqe_prev s (hd ys) = Some (tq_end (Head h) xs)"
    "tqh_last s h = Some (tq_end (tq_end (Head h) xs) ys)"
  using assms by (cases ys; auto simp: tq_holds_def tpath_append tq_end_append)+

lemma TAILQ_INSERT_HEAD_holds:
  assumes "tq_holds s h ys" and "a \<notin> set ys"
  shows "\<exists>s'. TAILQ_INSERT_HEAD s h a = Some s' \<and> tq_holds s' h (a # ys)"
proof -
  note f = tq_holds_at [of s h "[]" ys, simplified, OF assms(1)]
  obtain s' where "TAILQ_INSERT_HEAD s h a = Some s'"
    using f by (cases ys) (auto simp: TAILQ_INSERT_HEAD_def tailq_ops)
  moreover from this have "tq_holds s' h ([] @ a # ys)"
    using f assms
    by (intro tq_inserted [of s]; cases ys)
      (auto simp: TAILQ_INSERT_HEAD_def tailq_ops split: if_splits)
  ultimately show ?thesis by simp
qed

lemma TAILQ_INSERT_AFTER_holds:
  assumes "tq_holds s h (xs @ b # ys)" and "a \<notin> set (xs @ b # ys)"
  shows "\<exists>s'. TAILQ_INSERT_AFTER s h b a = Some s' \<and> tq_holds s' h (xs @ b # a # ys)"
proof -
  note f = tq_holds_at [of s h "xs @ [b]" ys, simplified, OF assms(1)]
  obtain s' where "TAILQ_INSERT_AFTER s h b a = Some s'"
    using f by (cases ys) (auto simp: TAILQ_INSERT_AFTER_def tailq_ops)
  moreover from this have "tq_holds s' h ((xs @ [b]) @ a # ys)"
    using f assms
    by (intro tq_inserted [of s]; cases ys)
      (auto simp: TAILQ_INSERT_AFTER_def tailq_ops split: if_splits)
  ultimately show ?thesis by simp
qed

lemma TAILQ_INSERT_BEFORE_holds:
  assumes "tq_holds s h (xs @ b # ys)" and "a \<notin> set (xs @ b # ys)"
  shows "\<exists>s'. TAILQ_INSERT_BEFORE s b a = Some s' \<and> tq_holds s' h (xs @ a # b # ys)"
proof -
  note f = tq_holds_at [OF assms(1)]
  have ne: "tq_end (Head h) xs \<noteq> Next a" using assms(2) by (simp add: tq_end_neq)
  obtain s' where "TAILQ_INSERT_BEFORE s b a = Some s'"
    using f assms(2) by (auto simp: TAILQ_INSERT_BEFORE_def tailq_ops)
  moreover from this have "tq_holds s' h (xs @ a # b # ys)"
    using f ne assms
    by (intro tq_inserted [of s h xs "b # ys"])
      (auto simp: TAILQ_INSERT_BEFORE_def tailq_ops split: if_splits)
  ultimately show ?thesis by simp
qed

lemma TAILQ_CONCAT_holds:
  assumes "tq_holds s h1 xs" and "tq_holds s h2 ys" and "h1 \<noteq> h2" and "set xs \<inter> set ys = {}"
  shows "\<exists>s'. TAILQ_CONCAT s h1 h2 = Some s' \<and> tq_holds s' h1 (xs @ ys) \<and> tq_holds s' h2 []"
proof (cases ys)
  case Nil
  then show ?thesis using assms by (simp add: TAILQ_CONCAT_def tq_holds_def tailq_words)
next
  case (Cons b zs)
  let ?e = "tq_end (Head h1) xs" and ?f = "tq_end (Next b) zs"
  let ?s = "set_last (set_prev (put_at s ?e (Some b)) b (Some ?e)) h1 (Some ?f)"
  have x: "word_at s ?e = None" "tqh_last s h1 = Some ?e"
    using assms(1) by (simp_all add: tq_holds_def)
  have y: "word_at s (Head h2) = Some b" "tqh_last s h2 = Some ?f" "tpath s (Next b) zs ?f"
    "word_at s ?f = None" "distinct (b # zs)"
    using assms(2) by (simp_all add: tq_holds_def Cons)
  have run: "TAILQ_CONCAT s h1 h2 = Some (TAILQ_INIT ?s h2)"
    using x y assms(3) by (simp add: TAILQ_CONCAT_def tailq_words)
  have e: "Head h2 \<noteq> ?e" "Next c \<noteq> ?e" if "c \<in> set ys" for c
    using tq_end_in [of "Head h1" xs] assms(3,4) that by auto
  have f: "?f \<noteq> ?e" "?f \<noteq> Head h2"
    using tq_end_in [of "Next b" zs] e Cons by auto
  have "tpath (TAILQ_INIT ?s h2) (Head h1) xs ?e"
  proof (rule tpath_cong)
    show "tpath s (Head h1) xs ?e" using assms(1) by (simp add: tq_holds_def)
  qed (use assms Cons in \<open>auto simp: TAILQ_INIT_def tq_holds_def\<close>)
  moreover have "tpath (TAILQ_INIT ?s h2) (Next b) zs ?f"
    using y(3) by (rule tpath_cong) (use y(5) e Cons in \<open>auto simp: TAILQ_INIT_def\<close>)
  ultimately have "tq_holds (TAILQ_INIT ?s h2) h1 (xs @ ys)"
    using assms y f e [of b] Cons
    by (auto simp: tq_holds_def tpath_append tq_end_append TAILQ_INIT_def)
  then show ?thesis using run TAILQ_INIT_holds by blast
qed

section \<open>The contract of the queues of a connection\<close>

text \<open>
  What the TCP code relies on when it moves segments between the lists of a connection: two
  queues of one store with different elements.
\<close>

locale two_queues =
  fixes holds :: "'s \<Rightarrow> nat \<Rightarrow> nat list \<Rightarrow> bool"
    and insert_tail :: "'s \<Rightarrow> nat \<Rightarrow> nat \<Rightarrow> 's option"
    and remove :: "'s \<Rightarrow> nat \<Rightarrow> nat \<Rightarrow> 's option"
    and swap :: "'s \<Rightarrow> nat \<Rightarrow> nat \<Rightarrow> 's"
  assumes insert_tail: "holds s h xs \<Longrightarrow> a \<notin> set xs \<Longrightarrow>
      \<exists>s'. insert_tail s h a = Some s' \<and> holds s' h (xs @ [a])"
    and insert_tail_other: "insert_tail s h a = Some s' \<Longrightarrow> holds s h xs \<Longrightarrow> holds s g ys \<Longrightarrow>
      g \<noteq> h \<Longrightarrow> a \<notin> set ys \<Longrightarrow> set xs \<inter> set ys = {} \<Longrightarrow> holds s' g ys"
    and remove: "holds s h (xs @ a # ys) \<Longrightarrow> \<exists>s'. remove s h a = Some s' \<and> holds s' h (xs @ ys)"
    and remove_other: "remove s h a = Some s' \<Longrightarrow> holds s h (xs @ a # ys) \<Longrightarrow> holds s g zs \<Longrightarrow>
      g \<noteq> h \<Longrightarrow> set (xs @ a # ys) \<inter> set zs = {} \<Longrightarrow> holds s' g zs"
    and swap: "holds s h xs \<Longrightarrow> holds s g ys \<Longrightarrow> h \<noteq> g \<Longrightarrow> set xs \<inter> set ys = {} \<Longrightarrow>
      holds (swap s h g) h ys \<and> holds (swap s h g) g xs"
    and distinct: "holds s h xs \<Longrightarrow> distinct xs"
begin

definition both :: "'s \<Rightarrow> nat \<Rightarrow> nat list \<Rightarrow> nat \<Rightarrow> nat list \<Rightarrow> bool" where
  "both s h xs g ys \<longleftrightarrow> holds s h xs \<and> holds s g ys \<and> h \<noteq> g \<and> set xs \<inter> set ys = {}"

text \<open>One element of the first queue goes to the end of the second.\<close>

lemma move:
  assumes "both s h (xs @ a # ys) g zs"
  shows "\<exists>s1 s2. remove s h a = Some s1 \<and> insert_tail s1 g a = Some s2 \<and>
    both s2 h (xs @ ys) g (zs @ [a])"
proof -
  have b: "holds s h (xs @ a # ys)" "holds s g zs" "h \<noteq> g" "set (xs @ a # ys) \<inter> set zs = {}"
    using assms by (simp_all add: both_def)
  have d: "distinct (xs @ a # ys)" by (rule distinct [OF b(1)])
  obtain s1 where s1: "remove s h a = Some s1" "holds s1 h (xs @ ys)" using remove [OF b(1)] by blast
  have g1: "holds s1 g zs" by (rule remove_other [OF s1(1) b(1,2) b(3) [symmetric] b(4)])
  obtain s2 where s2: "insert_tail s1 g a = Some s2" "holds s2 g (zs @ [a])"
    using insert_tail [OF g1, of a] b(4) by auto
  have "holds s2 h (xs @ ys)"
    using b(3,4) d by (intro insert_tail_other [OF s2(1) g1 s1(2)]) auto
  with s1(1) s2 b(3,4) d show ?thesis by (auto simp: both_def)
qed

lemma take_out:
  assumes "both s h (xs @ a # ys) g zs"
  shows "\<exists>s1. remove s h a = Some s1 \<and> both s1 h (xs @ ys) g zs"
proof -
  have b: "holds s h (xs @ a # ys)" "holds s g zs" "h \<noteq> g" "set (xs @ a # ys) \<inter> set zs = {}"
    using assms by (simp_all add: both_def)
  obtain s1 where s1: "remove s h a = Some s1" "holds s1 h (xs @ ys)" using remove [OF b(1)] by blast
  have "holds s1 g zs" by (rule remove_other [OF s1(1) b(1,2) b(3) [symmetric] b(4)])
  with s1 b(3,4) show ?thesis by (auto simp: both_def)
qed

lemma append_new:
  assumes "both s h xs g ys" and "a \<notin> set xs" and "a \<notin> set ys"
  shows "\<exists>s'. insert_tail s h a = Some s' \<and> both s' h (xs @ [a]) g ys"
proof -
  have b: "holds s h xs" "holds s g ys" "h \<noteq> g" "set xs \<inter> set ys = {}"
    using assms by (simp_all add: both_def)
  obtain s' where s': "insert_tail s h a = Some s'" "holds s' h (xs @ [a])"
    using insert_tail [OF b(1) assms(2)] by blast
  moreover have "holds s' g ys"
    by (rule insert_tail_other [OF s'(1) b(1,2) b(3) [symmetric] assms(3) b(4)])
  ultimately show ?thesis using b(3,4) assms(3) by (auto simp: both_def)
qed

lemma exchange: "both s h xs g ys \<Longrightarrow> both (swap s h g) h ys g xs"
  using swap by (auto simp: both_def)

lemma both_sym: "both s h xs g ys \<longleftrightarrow> both s g ys h xs"
  by (auto simp: both_def)

end

interpretation tq: two_queues tq_holds TAILQ_INSERT_TAIL TAILQ_REMOVE TAILQ_SWAP
proof (unfold_locales)
  show "distinct xs" if "tq_holds s h xs" for s h xs using that by (simp add: tq_holds_def)
qed (fact TAILQ_INSERT_TAIL_holds TAILQ_INSERT_TAIL_other TAILQ_REMOVE_holds TAILQ_REMOVE_other
      TAILQ_SWAP_holds)+

section \<open>Sequences of operations\<close>

text \<open>
  The abstract queue is the list of its elements. A command has a meaning on lists unless
  the program misuses the macro (an element inserted twice, an element that is not there).
\<close>

datatype tq_cmd =
  Insert_Head nat | Insert_Tail nat | Insert_After nat nat | Insert_Before nat nat | Remove nat

fun list_cmd :: "tq_cmd \<Rightarrow> nat list \<Rightarrow> nat list option" where
  "list_cmd (Insert_Head a) xs = (if a \<in> set xs then None else Some (a # xs))"
| "list_cmd (Insert_Tail a) xs = (if a \<in> set xs then None else Some (xs @ [a]))"
| "list_cmd (Insert_After b a) xs =
     (if a \<in> set xs \<or> b \<notin> set xs then None
      else Some (takeWhile ((\<noteq>) b) xs @ b # a # tl (dropWhile ((\<noteq>) b) xs)))"
| "list_cmd (Insert_Before b a) xs =
     (if a \<in> set xs \<or> b \<notin> set xs then None
      else Some (takeWhile ((\<noteq>) b) xs @ a # b # tl (dropWhile ((\<noteq>) b) xs)))"
| "list_cmd (Remove a) xs = (if a \<in> set xs then Some (remove1 a xs) else None)"

fun tailq_cmd :: "nat \<Rightarrow> tq_cmd \<Rightarrow> tailq \<Rightarrow> tailq option" where
  "tailq_cmd h (Insert_Head a) s = TAILQ_INSERT_HEAD s h a"
| "tailq_cmd h (Insert_Tail a) s = TAILQ_INSERT_TAIL s h a"
| "tailq_cmd h (Insert_After b a) s = TAILQ_INSERT_AFTER s h b a"
| "tailq_cmd h (Insert_Before b a) s = TAILQ_INSERT_BEFORE s b a"
| "tailq_cmd h (Remove a) s = TAILQ_REMOVE s h a"

fun run_cmds :: "('c \<Rightarrow> 's \<Rightarrow> 's option) \<Rightarrow> 'c list \<Rightarrow> 's \<Rightarrow> 's option" where
  "run_cmds f [] s = Some s"
| "run_cmds f (c # cs) s = (f c s \<bind> run_cmds f cs)"

lemma split_at:
  assumes "b \<in> set xs"
  shows "xs = takeWhile ((\<noteq>) b) xs @ b # tl (dropWhile ((\<noteq>) b) xs)"
proof -
  have "dropWhile ((\<noteq>) b) xs \<noteq> []" using assms by (auto simp: dropWhile_eq_Nil_conv)
  moreover from this have "hd (dropWhile ((\<noteq>) b) xs) = b" using hd_dropWhile [of "(\<noteq>) b" xs] by auto
  ultimately have "dropWhile ((\<noteq>) b) xs = b # tl (dropWhile ((\<noteq>) b) xs)" by (metis list.collapse)
  then show ?thesis by (metis takeWhile_dropWhile_id)
qed

lemma tailq_cmd_refines:
  assumes "tq_holds s h xs" and "list_cmd c xs = Some ys"
  shows "\<exists>s'. tailq_cmd h c s = Some s' \<and> tq_holds s' h ys"
proof (cases c)
  case (Insert_Head a)
  then show ?thesis using assms TAILQ_INSERT_HEAD_holds by (auto split: if_splits)
next
  case (Insert_Tail a)
  then show ?thesis using assms TAILQ_INSERT_TAIL_holds by (auto split: if_splits)
next
  case (Insert_After b a)
  then have "a \<notin> set xs" "b \<in> set xs" and
    ys: "ys = takeWhile ((\<noteq>) b) xs @ b # a # tl (dropWhile ((\<noteq>) b) xs)"
    using assms(2) by (auto split: if_splits)
  with assms(1) show ?thesis
    unfolding ys Insert_After tailq_cmd.simps
    by (intro TAILQ_INSERT_AFTER_holds) (simp_all flip: split_at)
next
  case (Insert_Before b a)
  then have "a \<notin> set xs" "b \<in> set xs" and
    ys: "ys = takeWhile ((\<noteq>) b) xs @ a # b # tl (dropWhile ((\<noteq>) b) xs)"
    using assms(2) by (auto split: if_splits)
  with assms(1) show ?thesis
    unfolding ys Insert_Before tailq_cmd.simps
    by (intro TAILQ_INSERT_BEFORE_holds) (simp_all flip: split_at)
next
  case (Remove a)
  then have a: "a \<in> set xs" and ys: "ys = remove1 a xs" using assms(2) by (auto split: if_splits)
  then obtain us vs where "xs = us @ a # vs" "a \<notin> set us" by (meson split_list_first)
  with assms(1) show ?thesis
    using TAILQ_REMOVE_holds [of s h us a vs] by (simp add: ys Remove remove1_append)
qed

text \<open>
  C10: Whatever sequence of insertions and removals runs on a queue, if it makes sense on the
  list of the elements then no check of the macros fails, no null pointer is read, and the
  links in memory hold exactly the list that results, which \<^verbatim>\<open>TAILQ_FOREACH\<close> visits in order
  and whose last element \<^verbatim>\<open>TAILQ_LAST\<close> finds.
\<close>

theorem tailq_refines_list:
  assumes "tq_holds s h xs" and "run_cmds list_cmd cs xs = Some ys"
  shows "\<exists>s'. run_cmds (tailq_cmd h) cs s = Some s' \<and> tq_holds s' h ys \<and>
    TAILQ_FOREACH s' h = Some ys \<and>
    TAILQ_LAST s' h = Some (if ys = [] then None else Some (last ys)) \<and>
    (TAILQ_EMPTY s' h \<longleftrightarrow> ys = [])"
proof -
  have "\<exists>s'. run_cmds (tailq_cmd h) cs s = Some s' \<and> tq_holds s' h ys"
    using assms
  proof (induction cs arbitrary: s xs)
    case (Cons c cs)
    then obtain zs where "list_cmd c xs = Some zs" "run_cmds list_cmd cs zs = Some ys"
      by (auto simp: bind_eq_Some_iff)
    then show ?case
      using Cons.IH tailq_cmd_refines [OF Cons.prems(1)] by fastforce
  qed simp
  then show ?thesis
    using TAILQ_FOREACH_holds TAILQ_LAST_holds TAILQ_EMPTY_holds by blast
qed

definition demo_tailq :: tailq where
  "demo_tailq = TAILQ_INIT \<lparr>tqh_first = \<lambda>_. None, tqh_last = \<lambda>_. None, tqe_next = \<lambda>_. None,
     tqe_prev = \<lambda>_. None\<rparr> 0"

theorem tailq_refines_list_witness:
  "\<exists>s'. run_cmds (tailq_cmd 0) [Insert_Tail 5, Insert_Head 3, Insert_After 3 4, Remove 5] demo_tailq =
      Some s' \<and> TAILQ_FOREACH s' 0 = Some [3, 4] \<and> TAILQ_LAST s' 0 = Some (Some 4)"
  using tailq_refines_list [of demo_tailq 0 "[]"
      "[Insert_Tail 5, Insert_Head 3, Insert_After 3 4, Remove 5]" "[3, 4]"]
    TAILQ_INIT_holds
  by (auto simp: demo_tailq_def)

end
