(* ===== verification/Bsd_Lists.thy ===== *)
theory Bsd_Lists
  imports Slist Tailq
begin

text \<open>
  The other lists of \<^verbatim>\<open>src/collection.h\<close>: singly-linked tail queues (\<^verbatim>\<open>STAILQ_*\<close>) and doubly-linked lists
  (\<^verbatim>\<open>LIST_*\<close>), with the remaining macros of \<^verbatim>\<open>SLIST_*\<close> and \<^verbatim>\<open>TAILQ_*\<close>. Addresses of pointer words are \<open>tq_loc\<close>
  as in \<open>Tailq\<close>. \<open>Bsd_Lists_Store\<close>
  shows of all of them that they implement lists.
\<close>

section \<open>Singly-linked tail queues\<close>

record stailq =
  stqh_first :: "nat \<Rightarrow> nat option"
  stqh_last :: "nat \<Rightarrow> tq_loc option"
  stqe_next :: "nat \<Rightarrow> nat option"

fun st_word :: "stailq \<Rightarrow> tq_loc \<Rightarrow> nat option" where
  "st_word s (Head h) = stqh_first s h"
| "st_word s (Next a) = stqe_next s a"

fun st_put :: "stailq \<Rightarrow> tq_loc \<Rightarrow> nat option \<Rightarrow> stailq" where
  "st_put s (Head h) v = s\<lparr>stqh_first := (stqh_first s)(h := v)\<rparr>"
| "st_put s (Next a) v = s\<lparr>stqe_next := (stqe_next s)(a := v)\<rparr>"

definition st_last :: "stailq \<Rightarrow> nat \<Rightarrow> tq_loc option \<Rightarrow> stailq" where
  "st_last s h l = s\<lparr>stqh_last := (stqh_last s)(h := l)\<rparr>"

definition STAILQ_EMPTY :: "stailq \<Rightarrow> nat \<Rightarrow> bool" where
  "STAILQ_EMPTY s h \<longleftrightarrow> stqh_first s h = None"

definition STAILQ_FIRST :: "stailq \<Rightarrow> nat \<Rightarrow> nat option" where
  "STAILQ_FIRST s h = stqh_first s h"

definition STAILQ_NEXT :: "stailq \<Rightarrow> nat \<Rightarrow> nat option" where
  "STAILQ_NEXT s a = stqe_next s a"

definition STAILQ_INIT :: "stailq \<Rightarrow> nat \<Rightarrow> stailq" where
  "STAILQ_INIT s h = st_last (st_put s (Head h) None) h (Some (Head h))"

definition STAILQ_CONCAT :: "stailq \<Rightarrow> nat \<Rightarrow> nat \<Rightarrow> stailq option" where
  "STAILQ_CONCAT s h1 h2 =
     (if \<not> STAILQ_EMPTY s h2 then do {
        l \<leftarrow> stqh_last s h1;
        let s = st_put s l (stqh_first s h2);
        let s = st_last s h1 (stqh_last s h2);
        Some (STAILQ_INIT s h2)
      }
      else Some s)"

definition STAILQ_INSERT_AFTER :: "stailq \<Rightarrow> nat \<Rightarrow> nat \<Rightarrow> nat \<Rightarrow> stailq" where
  "STAILQ_INSERT_AFTER s h tqelm elm =
     (let s = st_put s (Next elm) (STAILQ_NEXT s tqelm);
          s = (if STAILQ_NEXT s elm = None then st_last s h (Some (Next elm)) else s)
      in st_put s (Next tqelm) (Some elm))"

definition STAILQ_INSERT_HEAD :: "stailq \<Rightarrow> nat \<Rightarrow> nat \<Rightarrow> stailq" where
  "STAILQ_INSERT_HEAD s h elm =
     (let s = st_put s (Next elm) (STAILQ_FIRST s h);
          s = (if STAILQ_NEXT s elm = None then st_last s h (Some (Next elm)) else s)
      in st_put s (Head h) (Some elm))"

definition STAILQ_INSERT_TAIL :: "stailq \<Rightarrow> nat \<Rightarrow> nat \<Rightarrow> stailq option" where
  "STAILQ_INSERT_TAIL s h elm = do {
     let s = st_put s (Next elm) None;
     l \<leftarrow> stqh_last s h;
     let s = st_put s l (Some elm);
     Some (st_last s h (Some (Next elm)))
   }"

text \<open>\<^verbatim>\<open>__containerof\<close> is defined for the link of an element only.\<close>

definition STAILQ_LAST :: "stailq \<Rightarrow> nat \<Rightarrow> nat option option" where
  "STAILQ_LAST s h =
     (if STAILQ_EMPTY s h then Some None
      else case stqh_last s h of
        Some (Next a) \<Rightarrow> Some (Some a)
      | _ \<Rightarrow> None)"

definition STAILQ_REMOVE_AFTER :: "stailq \<Rightarrow> nat \<Rightarrow> nat \<Rightarrow> stailq option" where
  "STAILQ_REMOVE_AFTER s h elm = do {
     n \<leftarrow> STAILQ_NEXT s elm;
     let s = st_put s (Next elm) (STAILQ_NEXT s n);
     Some (if STAILQ_NEXT s elm = None then st_last s h (Some (Next elm)) else s)
   }"

definition STAILQ_REMOVE_HEAD :: "stailq \<Rightarrow> nat \<Rightarrow> stailq option" where
  "STAILQ_REMOVE_HEAD s h = do {
     a \<leftarrow> STAILQ_FIRST s h;
     let s = st_put s (Head h) (STAILQ_NEXT s a);
     Some (if STAILQ_FIRST s h = None then st_last s h (Some (Head h)) else s)
   }"

partial_function (option) stailq_before :: "stailq \<Rightarrow> nat option \<Rightarrow> nat \<Rightarrow> nat option" where
  "stailq_before s curelm elm =
     (case curelm of
        None \<Rightarrow> None
      | Some c \<Rightarrow> (if stqe_next s c = Some elm then Some c else stailq_before s (stqe_next s c) elm))"

definition STAILQ_REMOVE :: "stailq \<Rightarrow> nat \<Rightarrow> nat \<Rightarrow> stailq option" where
  "STAILQ_REMOVE s h elm =
     (if STAILQ_FIRST s h = Some elm then STAILQ_REMOVE_HEAD s h
      else do {
        c \<leftarrow> stailq_before s (STAILQ_FIRST s h) elm;
        STAILQ_REMOVE_AFTER s h c
      })"

definition STAILQ_SWAP :: "stailq \<Rightarrow> nat \<Rightarrow> nat \<Rightarrow> stailq" where
  "STAILQ_SWAP s h1 h2 =
     (let swap_first = STAILQ_FIRST s h1;
          swap_last = stqh_last s h1;
          s = st_put s (Head h1) (STAILQ_FIRST s h2);
          s = st_last s h1 (stqh_last s h2);
          s = st_put s (Head h2) swap_first;
          s = st_last s h2 swap_last;
          s = (if STAILQ_EMPTY s h1 then st_last s h1 (Some (Head h1)) else s)
      in if STAILQ_EMPTY s h2 then st_last s h2 (Some (Head h2)) else s)"

partial_function (option) stailq_from :: "stailq \<Rightarrow> nat option \<Rightarrow> nat list option" where
  "stailq_from s var =
     (case var of
        None \<Rightarrow> Some []
      | Some a \<Rightarrow> do {
          xs \<leftarrow> stailq_from s (STAILQ_NEXT s a);
          Some (a # xs)
        })"

definition STAILQ_FOREACH :: "stailq \<Rightarrow> nat \<Rightarrow> nat list option" where
  "STAILQ_FOREACH s h = stailq_from s (STAILQ_FIRST s h)"

definition STAILQ_FOREACH_FROM :: "stailq \<Rightarrow> nat \<Rightarrow> nat option \<Rightarrow> nat list option" where
  "STAILQ_FOREACH_FROM s h var = stailq_from s (if var \<noteq> None then var else STAILQ_FIRST s h)"

section \<open>Doubly-linked lists\<close>

record dlist =
  lh_first :: "nat \<Rightarrow> nat option"
  le_next :: "nat \<Rightarrow> nat option"
  le_prev :: "nat \<Rightarrow> tq_loc option"

fun dl_word :: "dlist \<Rightarrow> tq_loc \<Rightarrow> nat option" where
  "dl_word s (Head h) = lh_first s h"
| "dl_word s (Next a) = le_next s a"

fun dl_put :: "dlist \<Rightarrow> tq_loc \<Rightarrow> nat option \<Rightarrow> dlist" where
  "dl_put s (Head h) v = s\<lparr>lh_first := (lh_first s)(h := v)\<rparr>"
| "dl_put s (Next a) v = s\<lparr>le_next := (le_next s)(a := v)\<rparr>"

definition dl_prev :: "dlist \<Rightarrow> nat \<Rightarrow> tq_loc option \<Rightarrow> dlist" where
  "dl_prev s a l = s\<lparr>le_prev := (le_prev s)(a := l)\<rparr>"

definition LIST_EMPTY :: "dlist \<Rightarrow> nat \<Rightarrow> bool" where
  "LIST_EMPTY s h \<longleftrightarrow> lh_first s h = None"

definition LIST_FIRST :: "dlist \<Rightarrow> nat \<Rightarrow> nat option" where
  "LIST_FIRST s h = lh_first s h"

definition LIST_NEXT :: "dlist \<Rightarrow> nat \<Rightarrow> nat option" where
  "LIST_NEXT s a = le_next s a"

definition LIST_INIT :: "dlist \<Rightarrow> nat \<Rightarrow> dlist" where
  "LIST_INIT s h = dl_put s (Head h) None"

definition QMD_LIST_CHECK_HEAD :: "dlist \<Rightarrow> nat \<Rightarrow> unit option" where
  "QMD_LIST_CHECK_HEAD s h =
     check (case lh_first s h of None \<Rightarrow> True | Some a \<Rightarrow> le_prev s a = Some (Head h))"

definition QMD_LIST_CHECK_NEXT :: "dlist \<Rightarrow> nat \<Rightarrow> unit option" where
  "QMD_LIST_CHECK_NEXT s a =
     check (case le_next s a of None \<Rightarrow> True | Some b \<Rightarrow> le_prev s b = Some (Next a))"

definition QMD_LIST_CHECK_PREV :: "dlist \<Rightarrow> nat \<Rightarrow> unit option" where
  "QMD_LIST_CHECK_PREV s a = do {
     l \<leftarrow> le_prev s a;
     check (dl_word s l = Some a)
   }"

definition LIST_INSERT_AFTER :: "dlist \<Rightarrow> nat \<Rightarrow> nat \<Rightarrow> dlist option" where
  "LIST_INSERT_AFTER s listelm elm = do {
     _ \<leftarrow> QMD_LIST_CHECK_NEXT s listelm;
     let s = dl_put s (Next elm) (le_next s listelm);
     s \<leftarrow> (if le_next s elm \<noteq> None then do {
             b \<leftarrow> le_next s listelm;
             Some (dl_prev s b (Some (Next elm)))
           }
           else Some s);
     let s = dl_put s (Next listelm) (Some elm);
     Some (dl_prev s elm (Some (Next listelm)))
   }"

definition LIST_INSERT_BEFORE :: "dlist \<Rightarrow> nat \<Rightarrow> nat \<Rightarrow> dlist option" where
  "LIST_INSERT_BEFORE s listelm elm = do {
     _ \<leftarrow> QMD_LIST_CHECK_PREV s listelm;
     let s = dl_prev s elm (le_prev s listelm);
     let s = dl_put s (Next elm) (Some listelm);
     l \<leftarrow> le_prev s listelm;
     let s = dl_put s l (Some elm);
     Some (dl_prev s listelm (Some (Next elm)))
   }"

definition LIST_INSERT_HEAD :: "dlist \<Rightarrow> nat \<Rightarrow> nat \<Rightarrow> dlist option" where
  "LIST_INSERT_HEAD s h elm = do {
     _ \<leftarrow> QMD_LIST_CHECK_HEAD s h;
     let s = dl_put s (Next elm) (lh_first s h);
     s \<leftarrow> (if le_next s elm \<noteq> None then do {
             b \<leftarrow> lh_first s h;
             Some (dl_prev s b (Some (Next elm)))
           }
           else Some s);
     let s = dl_put s (Head h) (Some elm);
     Some (dl_prev s elm (Some (Head h)))
   }"

definition LIST_PREV :: "dlist \<Rightarrow> nat \<Rightarrow> nat \<Rightarrow> nat option option" where
  "LIST_PREV s elm h =
     (if le_prev s elm = Some (Head h) then Some None
      else case le_prev s elm of
        Some (Next a) \<Rightarrow> Some (Some a)
      | _ \<Rightarrow> None)"

definition LIST_REMOVE :: "dlist \<Rightarrow> nat \<Rightarrow> dlist option" where
  "LIST_REMOVE s elm = do {
     _ \<leftarrow> QMD_LIST_CHECK_NEXT s elm;
     _ \<leftarrow> QMD_LIST_CHECK_PREV s elm;
     let s = (case le_next s elm of
                Some b \<Rightarrow> dl_prev s b (le_prev s elm)
              | None \<Rightarrow> s);
     l \<leftarrow> le_prev s elm;
     Some (dl_put s l (le_next s elm))
   }"

definition LIST_SWAP :: "dlist \<Rightarrow> nat \<Rightarrow> nat \<Rightarrow> dlist" where
  "LIST_SWAP s h1 h2 =
     (let swap_tmp = LIST_FIRST s h1;
          s = dl_put s (Head h1) (LIST_FIRST s h2);
          s = dl_put s (Head h2) swap_tmp;
          s = (case LIST_FIRST s h1 of Some a \<Rightarrow> dl_prev s a (Some (Head h1)) | None \<Rightarrow> s)
      in case LIST_FIRST s h2 of Some a \<Rightarrow> dl_prev s a (Some (Head h2)) | None \<Rightarrow> s)"

partial_function (option) dlist_from :: "dlist \<Rightarrow> nat option \<Rightarrow> nat list option" where
  "dlist_from s var =
     (case var of
        None \<Rightarrow> Some []
      | Some a \<Rightarrow> do {
          xs \<leftarrow> dlist_from s (LIST_NEXT s a);
          Some (a # xs)
        })"

definition LIST_FOREACH :: "dlist \<Rightarrow> nat \<Rightarrow> nat list option" where
  "LIST_FOREACH s h = dlist_from s (LIST_FIRST s h)"

definition LIST_FOREACH_FROM :: "dlist \<Rightarrow> nat \<Rightarrow> nat option \<Rightarrow> nat list option" where
  "LIST_FOREACH_FROM s h var = dlist_from s (if var \<noteq> None then var else LIST_FIRST s h)"

section \<open>Loops that may remove the element they are at\<close>

text \<open>
  The \<^verbatim>\<open>_SAFE\<close> loops read the next element before the body runs. The body is a parameter; it
  gets the element and the store. \<^verbatim>\<open>_FROM_SAFE\<close> starts at \<open>var\<close> unless that is \<^verbatim>\<open>NULL\<close>.
\<close>

partial_function (option) slist_safe ::
  "(nat \<Rightarrow> slist \<Rightarrow> slist option) \<Rightarrow> slist \<Rightarrow> nat option \<Rightarrow> slist option" where
  "slist_safe body s var =
     (case var of
        None \<Rightarrow> Some s
      | Some a \<Rightarrow> do {
          let tvar = sle_next s a;
          s' \<leftarrow> body a s;
          slist_safe body s' tvar
        })"

definition SLIST_FOREACH_SAFE :: "(nat \<Rightarrow> slist \<Rightarrow> slist option) \<Rightarrow> slist \<Rightarrow> slist option" where
  "SLIST_FOREACH_SAFE body s = slist_safe body s (SLIST_FIRST s)"

definition SLIST_FOREACH_FROM_SAFE ::
  "(nat \<Rightarrow> slist \<Rightarrow> slist option) \<Rightarrow> slist \<Rightarrow> nat option \<Rightarrow> slist option" where
  "SLIST_FOREACH_FROM_SAFE body s var =
     slist_safe body s (if var \<noteq> None then var else SLIST_FIRST s)"

definition SLIST_FOREACH_FROM :: "slist \<Rightarrow> nat option \<Rightarrow> nat list option" where
  "SLIST_FOREACH_FROM s var = slist_from s (if var \<noteq> None then var else SLIST_FIRST s)"

text \<open>The loop that keeps the address of the pointer to the element: a pass has both.\<close>

fun sl_word :: "slist \<Rightarrow> tq_loc \<Rightarrow> nat option" where
  "sl_word s (Head _) = slh_first s"
| "sl_word s (Next a) = sle_next s a"

partial_function (option) slist_prevptr :: "slist \<Rightarrow> tq_loc \<Rightarrow> (tq_loc \<times> nat) list option" where
  "slist_prevptr s varp =
     (case sl_word s varp of
        None \<Rightarrow> Some []
      | Some var \<Rightarrow> do {
          ps \<leftarrow> slist_prevptr s (Next var);
          Some ((varp, var) # ps)
        })"

definition SLIST_FOREACH_PREVPTR :: "slist \<Rightarrow> (tq_loc \<times> nat) list option" where
  "SLIST_FOREACH_PREVPTR s = slist_prevptr s (Head 0)"

text \<open>A second list over the same elements is its first pointer.\<close>

definition SLIST_SWAP :: "slist \<Rightarrow> nat option \<Rightarrow> slist \<times> nat option" where
  "SLIST_SWAP s head2 =
     (let swap_first = SLIST_FIRST s;
          s = s\<lparr>slh_first := head2\<rparr>
      in (s, swap_first))"

partial_function (option) stailq_safe ::
  "(nat \<Rightarrow> stailq \<Rightarrow> stailq option) \<Rightarrow> stailq \<Rightarrow> nat option \<Rightarrow> stailq option" where
  "stailq_safe body s var =
     (case var of
        None \<Rightarrow> Some s
      | Some a \<Rightarrow> do {
          let tvar = STAILQ_NEXT s a;
          s' \<leftarrow> body a s;
          stailq_safe body s' tvar
        })"

definition STAILQ_FOREACH_SAFE ::
  "(nat \<Rightarrow> stailq \<Rightarrow> stailq option) \<Rightarrow> stailq \<Rightarrow> nat \<Rightarrow> stailq option" where
  "STAILQ_FOREACH_SAFE body s h = stailq_safe body s (STAILQ_FIRST s h)"

definition STAILQ_FOREACH_FROM_SAFE ::
  "(nat \<Rightarrow> stailq \<Rightarrow> stailq option) \<Rightarrow> stailq \<Rightarrow> nat \<Rightarrow> nat option \<Rightarrow> stailq option" where
  "STAILQ_FOREACH_FROM_SAFE body s h var =
     stailq_safe body s (if var \<noteq> None then var else STAILQ_FIRST s h)"

partial_function (option) dlist_safe ::
  "(nat \<Rightarrow> dlist \<Rightarrow> dlist option) \<Rightarrow> dlist \<Rightarrow> nat option \<Rightarrow> dlist option" where
  "dlist_safe body s var =
     (case var of
        None \<Rightarrow> Some s
      | Some a \<Rightarrow> do {
          let tvar = LIST_NEXT s a;
          s' \<leftarrow> body a s;
          dlist_safe body s' tvar
        })"

definition LIST_FOREACH_SAFE ::
  "(nat \<Rightarrow> dlist \<Rightarrow> dlist option) \<Rightarrow> dlist \<Rightarrow> nat \<Rightarrow> dlist option" where
  "LIST_FOREACH_SAFE body s h = dlist_safe body s (LIST_FIRST s h)"

definition LIST_FOREACH_FROM_SAFE ::
  "(nat \<Rightarrow> dlist \<Rightarrow> dlist option) \<Rightarrow> dlist \<Rightarrow> nat \<Rightarrow> nat option \<Rightarrow> dlist option" where
  "LIST_FOREACH_FROM_SAFE body s h var =
     dlist_safe body s (if var \<noteq> None then var else LIST_FIRST s h)"

partial_function (option) tailq_safe ::
  "(nat \<Rightarrow> tailq \<Rightarrow> tailq option) \<Rightarrow> tailq \<Rightarrow> nat option \<Rightarrow> tailq option" where
  "tailq_safe body s var =
     (case var of
        None \<Rightarrow> Some s
      | Some a \<Rightarrow> do {
          let tvar = TAILQ_NEXT s a;
          s' \<leftarrow> body a s;
          tailq_safe body s' tvar
        })"

definition TAILQ_FOREACH_SAFE ::
  "(nat \<Rightarrow> tailq \<Rightarrow> tailq option) \<Rightarrow> tailq \<Rightarrow> nat \<Rightarrow> tailq option" where
  "TAILQ_FOREACH_SAFE body s h = tailq_safe body s (TAILQ_FIRST s h)"

definition TAILQ_FOREACH_FROM_SAFE ::
  "(nat \<Rightarrow> tailq \<Rightarrow> tailq option) \<Rightarrow> tailq \<Rightarrow> nat \<Rightarrow> nat option \<Rightarrow> tailq option" where
  "TAILQ_FOREACH_FROM_SAFE body s h var =
     tailq_safe body s (if var \<noteq> None then var else TAILQ_FIRST s h)"

definition TAILQ_FOREACH_FROM :: "tailq \<Rightarrow> nat \<Rightarrow> nat option \<Rightarrow> nat list option" where
  "TAILQ_FOREACH_FROM s h var = tailq_from s (if var \<noteq> None then var else TAILQ_FIRST s h)"

text \<open>Backwards.\<close>

partial_function (option) tailq_back :: "tailq \<Rightarrow> nat option \<Rightarrow> nat list option" where
  "tailq_back s var =
     (case var of
        None \<Rightarrow> Some []
      | Some a \<Rightarrow> do {
          p \<leftarrow> TAILQ_PREV s a;
          xs \<leftarrow> tailq_back s p;
          Some (a # xs)
        })"

definition TAILQ_FOREACH_REVERSE :: "tailq \<Rightarrow> nat \<Rightarrow> nat list option" where
  "TAILQ_FOREACH_REVERSE s h = TAILQ_LAST s h \<bind> tailq_back s"

definition TAILQ_FOREACH_REVERSE_FROM :: "tailq \<Rightarrow> nat \<Rightarrow> nat option \<Rightarrow> nat list option" where
  "TAILQ_FOREACH_REVERSE_FROM s h var =
     (if var \<noteq> None then tailq_back s var else TAILQ_LAST s h \<bind> tailq_back s)"

partial_function (option) tailq_back_safe ::
  "(nat \<Rightarrow> tailq \<Rightarrow> tailq option) \<Rightarrow> tailq \<Rightarrow> nat option \<Rightarrow> tailq option" where
  "tailq_back_safe body s var =
     (case var of
        None \<Rightarrow> Some s
      | Some a \<Rightarrow> do {
          tvar \<leftarrow> TAILQ_PREV s a;
          s' \<leftarrow> body a s;
          tailq_back_safe body s' tvar
        })"

definition TAILQ_FOREACH_REVERSE_SAFE ::
  "(nat \<Rightarrow> tailq \<Rightarrow> tailq option) \<Rightarrow> tailq \<Rightarrow> nat \<Rightarrow> tailq option" where
  "TAILQ_FOREACH_REVERSE_SAFE body s h = TAILQ_LAST s h \<bind> tailq_back_safe body s"

definition TAILQ_FOREACH_REVERSE_FROM_SAFE ::
  "(nat \<Rightarrow> tailq \<Rightarrow> tailq option) \<Rightarrow> tailq \<Rightarrow> nat \<Rightarrow> nat option \<Rightarrow> tailq option" where
  "TAILQ_FOREACH_REVERSE_FROM_SAFE body s h var =
     (if var \<noteq> None then tailq_back_safe body s var
      else TAILQ_LAST s h \<bind> tailq_back_safe body s)"

section \<open>What the singly-linked tail queues hold\<close>

definition st_holds :: "stailq \<Rightarrow> nat \<Rightarrow> nat list \<Rightarrow> bool" where
  "st_holds s h xs \<longleftrightarrow> chain (stqe_next s) (stqh_first s h) xs \<and>
     stqh_last s h = Some (tq_end (Head h) xs) \<and> distinct xs"

lemma st_puts [simp]:
  "stqh_last (st_put s l v) = stqh_last s"
  "stqh_first (st_last s h k) = stqh_first s" "stqe_next (st_last s h k) = stqe_next s"
  "stqh_last (st_last s h k) = (stqh_last s)(h := k)"
  by (cases l; simp add: st_last_def)+

lemmas stailq_ops = STAILQ_EMPTY_def STAILQ_FIRST_def STAILQ_NEXT_def STAILQ_INIT_def Let_def

lemma STAILQ_INIT_holds: "st_holds (STAILQ_INIT s h) h []"
  by (simp add: st_holds_def stailq_ops)

lemma st_first: "st_holds s h xs \<Longrightarrow> stqh_first s h = (if xs = [] then None else Some (hd xs))"
  by (cases xs) (auto simp: st_holds_def)

lemma STAILQ_EMPTY_holds: "st_holds s h xs \<Longrightarrow> STAILQ_EMPTY s h \<longleftrightarrow> xs = []"
  by (simp add: STAILQ_EMPTY_def st_first)

lemma chain_at: "chain n p (xs @ a # ys) \<Longrightarrow> n a = (if ys = [] then None else Some (hd ys))"
  by (induction xs arbitrary: p) (cases ys; auto)+

lemma STAILQ_NEXT_holds:
  "st_holds s h (xs @ a # ys) \<Longrightarrow> STAILQ_NEXT s a = (if ys = [] then None else Some (hd ys))"
  unfolding st_holds_def STAILQ_NEXT_def using chain_at by blast

lemma STAILQ_LAST_holds:
  "st_holds s h xs \<Longrightarrow> STAILQ_LAST s h = Some (if xs = [] then None else Some (last xs))"
  using st_first [of s h xs] by (auto simp: STAILQ_LAST_def STAILQ_EMPTY_def st_holds_def tq_end_def)

lemma stailq_from_ok: "chain (stqe_next s) p xs \<Longrightarrow> stailq_from s p = Some xs"
  by (induction xs arbitrary: p) (subst stailq_from.simps, simp add: STAILQ_NEXT_def)+

lemma STAILQ_FOREACH_holds: "st_holds s h xs \<Longrightarrow> STAILQ_FOREACH s h = Some xs"
  by (simp add: st_holds_def STAILQ_FOREACH_def STAILQ_FIRST_def stailq_from_ok)

lemma STAILQ_INSERT_HEAD_holds:
  "st_holds s h xs \<Longrightarrow> a \<notin> set xs \<Longrightarrow> st_holds (STAILQ_INSERT_HEAD s h a) h (a # xs)"
  by (cases xs) (simp_all add: st_holds_def STAILQ_INSERT_HEAD_def stailq_ops)

lemma chain_snoc:
  "chain n p xs \<Longrightarrow> xs \<noteq> [] \<Longrightarrow> a \<notin> set xs \<Longrightarrow> distinct xs \<Longrightarrow>
     chain (n(a := None, last xs := Some a)) p (xs @ [a])"
proof (induction xs arbitrary: p)
  case (Cons b xs)
  then show ?case by (cases "xs = []") auto
qed simp

lemma STAILQ_INSERT_TAIL_holds:
  assumes "st_holds s h xs" and "a \<notin> set xs"
  shows "\<exists>s'. STAILQ_INSERT_TAIL s h a = Some s' \<and> st_holds s' h (xs @ [a])"
proof (cases "xs = []")
  case True
  then show ?thesis using assms by (simp add: st_holds_def STAILQ_INSERT_TAIL_def stailq_ops)
next
  case False
  then show ?thesis
    using assms chain_snoc [of "stqe_next s" "stqh_first s h" xs a]
    by (simp add: st_holds_def STAILQ_INSERT_TAIL_def stailq_ops tq_end_def)
qed

lemma STAILQ_INSERT_AFTER_holds:
  assumes "st_holds s h (xs @ a # ys)" and "e \<notin> set (xs @ a # ys)"
  shows "st_holds (STAILQ_INSERT_AFTER s h a e) h (xs @ a # e # ys)"
  using assms chain_insert [of "stqe_next s" "stqh_first s h" xs a ys e]
    chain_at [of "stqe_next s" "stqh_first s h" xs a ys]
  by (cases ys) (auto simp: st_holds_def STAILQ_INSERT_AFTER_def stailq_ops tq_end_append)

lemma stailq_before_ok:
  assumes "chain (stqe_next s) p (xs @ a # e # ys)" and "distinct (xs @ a # e # ys)"
  shows "stailq_before s p e = Some a"
  using assms
proof (induction xs arbitrary: p)
  case Nil
  then show ?case by (subst stailq_before.simps) simp
next
  case (Cons b xs)
  then have "stqe_next s b \<noteq> Some e" by (cases xs) auto
  with Cons show ?case by (subst stailq_before.simps) simp
qed

lemma STAILQ_REMOVE_HEAD_holds:
  "st_holds s h (a # xs) \<Longrightarrow> \<exists>s'. STAILQ_REMOVE_HEAD s h = Some s' \<and> st_holds s' h xs"
  by (cases xs) (simp_all add: st_holds_def STAILQ_REMOVE_HEAD_def stailq_ops)

lemma STAILQ_REMOVE_AFTER_holds:
  assumes "st_holds s h (xs @ a # e # ys)"
  shows "\<exists>s'. STAILQ_REMOVE_AFTER s h a = Some s' \<and> st_holds s' h (xs @ a # ys)"
  using assms chain_delete [of "stqe_next s" "stqh_first s h" xs a e ys]
    chain_at [of "stqe_next s" "stqh_first s h" "xs @ [a]" e ys]
  by (cases ys) (auto simp: st_holds_def STAILQ_REMOVE_AFTER_def stailq_ops tq_end_append)

lemma STAILQ_REMOVE_holds:
  assumes "st_holds s h (xs @ e # ys)"
  shows "\<exists>s'. STAILQ_REMOVE s h e = Some s' \<and> st_holds s' h (xs @ ys)"
proof (cases xs rule: rev_cases)
  case Nil
  then show ?thesis
    using assms STAILQ_REMOVE_HEAD_holds [of s h e ys] st_first [OF assms]
    by (simp add: STAILQ_REMOVE_def STAILQ_FIRST_def)
next
  case (snoc zs a)
  then have s: "st_holds s h (zs @ a # e # ys)" using assms by simp
  then have "stqh_first s h \<noteq> Some e" using st_first [OF s] by (cases zs) (auto simp: st_holds_def)
  moreover have "stailq_before s (stqh_first s h) e = Some a"
    using s by (intro stailq_before_ok [of s _ zs a e ys]) (auto simp: st_holds_def)
  ultimately show ?thesis
    using STAILQ_REMOVE_AFTER_holds [OF s] snoc by (simp add: STAILQ_REMOVE_def STAILQ_FIRST_def)
qed

lemma STAILQ_SWAP_holds:
  assumes "st_holds s h1 xs" and "st_holds s h2 ys" and "h1 \<noteq> h2"
  shows "st_holds (STAILQ_SWAP s h1 h2) h1 ys" "st_holds (STAILQ_SWAP s h1 h2) h2 xs"
  using assms by (cases xs; cases ys; auto simp: st_holds_def STAILQ_SWAP_def stailq_ops)+

lemma chain_join:
  assumes "chain n p xs" "distinct xs" "xs \<noteq> []" "chain n q ys" "set xs \<inter> set ys = {}"
  shows "chain (n(last xs := q)) p (xs @ ys)"
  using assms by (induction xs arbitrary: p) auto

lemma STAILQ_CONCAT_holds:
  assumes "st_holds s h1 xs" and "st_holds s h2 ys" and "h1 \<noteq> h2" and "set xs \<inter> set ys = {}"
  shows "\<exists>s'. STAILQ_CONCAT s h1 h2 = Some s' \<and> st_holds s' h1 (xs @ ys) \<and> st_holds s' h2 []"
proof (cases "ys = []")
  case True
  then show ?thesis using assms by (simp add: STAILQ_CONCAT_def stailq_ops st_first)
next
  case ys: False
  show ?thesis
  proof (cases "xs = []")
    case True
    then show ?thesis using assms ys
      by (cases ys) (auto simp: STAILQ_CONCAT_def stailq_ops st_holds_def)
  next
    case False
    then show ?thesis
      using assms ys chain_join [of "stqe_next s" "stqh_first s h1" xs "stqh_first s h2" ys]
      by (cases ys) (auto simp: STAILQ_CONCAT_def stailq_ops st_holds_def tq_end_def)
  qed
qed

end
