(* ===== verification/Bsd_Lists_Store.thy ===== *)
theory Bsd_Lists_Store
  imports Bsd_Lists
begin

text \<open>
  The lists of \<^verbatim>\<open>src/collection.h\<close> as implementations of one interface. The doubly-linked lists
  are tail queues without the tail pointer, so their lemmas follow from those of \<open>Tailq\<close>; the
  locale \<open>list_store\<close> has the laws the four kinds share and the consequences for sequences of
  operations and for loops that remove elements.
\<close>

section \<open>Doubly-linked lists are tail queues without the tail\<close>

fun dpath :: "dlist \<Rightarrow> tq_loc \<Rightarrow> nat list \<Rightarrow> bool" where
  "dpath d l [] \<longleftrightarrow> dl_word d l = None"
| "dpath d l (a # xs) \<longleftrightarrow> dl_word d l = Some a \<and> le_prev d a = Some l \<and> dpath d (Next a) xs"

definition dl_holds :: "dlist \<Rightarrow> nat \<Rightarrow> nat list \<Rightarrow> bool" where
  "dl_holds d h xs \<longleftrightarrow> dpath d (Head h) xs \<and> distinct xs"

definition dl_of :: "tailq \<Rightarrow> dlist" where
  "dl_of t = \<lparr>lh_first = tqh_first t, le_next = tqe_next t, le_prev = tqe_prev t\<rparr>"

lemma dl_of_reads [simp]:
  "lh_first (dl_of t) = tqh_first t" "le_next (dl_of t) = tqe_next t"
  "le_prev (dl_of t) = tqe_prev t"
  by (simp_all add: dl_of_def)

lemma dl_of_word [simp]: "dl_word (dl_of t) l = word_at t l"
  by (cases l) (simp_all add: tailq_words)

lemma dl_of_put [simp]: "dl_of (put_at t l v) = dl_put (dl_of t) l v"
  by (cases l) (simp_all add: dl_of_def put_at.simps)

lemma dl_of_sets [simp]:
  "dl_of (set_prev t a k) = dl_prev (dl_of t) a k" "dl_of (set_last t h k) = dl_of t"
  by (simp_all add: dl_of_def dl_prev_def set_prev_def set_last_def)

lemma dpath_tpath:
  "dpath (dl_of t) l xs \<longleftrightarrow> tpath t l xs (tq_end l xs) \<and> word_at t (tq_end l xs) = None"
  by (induction xs arbitrary: l) auto

lemma dl_holds_tq:
  "dl_holds d h xs \<longleftrightarrow> (\<exists>t. d = dl_of t \<and> tq_holds t h xs)"
proof
  assume d: "dl_holds d h xs"
  let ?t = "\<lparr>tqh_first = lh_first d, tqh_last = (\<lambda>_. Some (tq_end (Head h) xs)),
    tqe_next = le_next d, tqe_prev = le_prev d\<rparr>"
  have eq: "dl_of ?t = d" by (simp add: dl_of_def)
  have "tq_holds ?t h xs"
    using d dpath_tpath [of ?t "Head h" xs] unfolding eq by (simp add: dl_holds_def tq_holds_def)
  with eq show "\<exists>t. d = dl_of t \<and> tq_holds t h xs"
    by (intro exI [of _ ?t] conjI) simp_all
qed (auto simp: dl_holds_def tq_holds_def dpath_tpath)

text \<open>Each macro is the one of the tail queues, seen without \<^verbatim>\<open>tqh_last\<close>.\<close>

lemmas dlist_ops = LIST_FIRST_def LIST_NEXT_def QMD_LIST_CHECK_HEAD_def QMD_LIST_CHECK_NEXT_def
  QMD_LIST_CHECK_PREV_def Let_def

lemmas tailq_checks = QMD_TAILQ_CHECK_HEAD_def QMD_TAILQ_CHECK_NEXT_def QMD_TAILQ_CHECK_PREV_def

lemma dl_reads [simp]:
  "dl_word (dl_put s l v) k = (if k = l then v else dl_word s k)"
  "dl_word (dl_prev s a m) k = dl_word s k" "le_prev (dl_put s l v) = le_prev s"
  "le_prev (dl_prev s a m) = (le_prev s)(a := m)"
  by (cases l; cases k; simp add: dl_prev_def)+

lemma dl_words: "lh_first s h = dl_word s (Head h)" "le_next s a = dl_word s (Next a)"
  by simp_all

declare dl_word.simps [simp del] dl_put.simps [simp del]

lemma LIST_INSERT_HEAD_tq:
  "LIST_INSERT_HEAD (dl_of t) h a = map_option dl_of (TAILQ_INSERT_HEAD t h a)"
  by (cases "word_at t (Head h)")
    (simp_all add: LIST_INSERT_HEAD_def TAILQ_INSERT_HEAD_def dlist_ops tailq_checks check_def dl_words tailq_words)

lemma LIST_INSERT_AFTER_tq:
  "LIST_INSERT_AFTER (dl_of t) b a = map_option dl_of (TAILQ_INSERT_AFTER t h b a)"
  by (cases "word_at t (Next b)")
    (simp_all add: LIST_INSERT_AFTER_def TAILQ_INSERT_AFTER_def dlist_ops tailq_checks check_def dl_words tailq_words)

lemma LIST_INSERT_BEFORE_tq:
  "LIST_INSERT_BEFORE (dl_of t) b a = map_option dl_of (TAILQ_INSERT_BEFORE t b a)"
  by (cases "tqe_prev t b")
    (simp_all add: LIST_INSERT_BEFORE_def TAILQ_INSERT_BEFORE_def dlist_ops tailq_checks check_def dl_words tailq_words)

lemma LIST_REMOVE_tq: "LIST_REMOVE (dl_of t) a = map_option dl_of (TAILQ_REMOVE t h a)"
  by (cases "tqe_prev t a"; cases "word_at t (Next a)")
    (simp_all add: LIST_REMOVE_def TAILQ_REMOVE_def dlist_ops tailq_checks check_def dl_words tailq_words)

lemma LIST_SWAP_tq: "LIST_SWAP (dl_of t) h1 h2 = dl_of (TAILQ_SWAP t h1 h2)"
  by (simp add: LIST_SWAP_def TAILQ_SWAP_def tq_adopt_def dlist_ops dl_words tailq_words split: option.split)

section \<open>The interface\<close>

text \<open>
  What the four kinds of lists share: which list a store holds, the operations as commands,
  the first element, the next one and the loop that may remove elements. A kind has only
  some of the commands; \<open>can\<close> says which.
\<close>

fun hd_opt :: "nat list \<Rightarrow> nat option" where
  "hd_opt [] = None"
| "hd_opt (a # _) = Some a"

locale list_store =
  fixes holds :: "'s \<Rightarrow> nat list \<Rightarrow> bool"
    and cmd :: "tq_cmd \<Rightarrow> 's \<Rightarrow> 's option"
    and can :: "tq_cmd \<Rightarrow> bool"
    and first_elm :: "'s \<Rightarrow> nat option"
    and next_elm :: "'s \<Rightarrow> nat \<Rightarrow> nat option"
    and safe_loop :: "(nat \<Rightarrow> 's \<Rightarrow> 's option) \<Rightarrow> 's \<Rightarrow> nat option \<Rightarrow> 's option"
  assumes dist: "holds s xs \<Longrightarrow> distinct xs"
    and one: "holds s xs \<Longrightarrow> can c \<Longrightarrow> list_cmd c xs = Some ys \<Longrightarrow> \<exists>s'. cmd c s = Some s' \<and> holds s' ys"
    and can_remove: "can (Remove a)"
    and first: "holds s xs \<Longrightarrow> first_elm s = hd_opt xs"
    and nxt: "holds s (xs @ a # ys) \<Longrightarrow> next_elm s a = hd_opt ys"
    and loop: "safe_loop body s p =
      (case p of None \<Rightarrow> Some s | Some a \<Rightarrow> body a s \<bind> (\<lambda>s'. safe_loop body s' (next_elm s a)))"
begin

lemma many:
  "holds s xs \<Longrightarrow> list_all can cs \<Longrightarrow> run_cmds list_cmd cs xs = Some ys \<Longrightarrow>
     \<exists>s'. run_cmds cmd cs s = Some s' \<and> holds s' ys"
proof (induction cs arbitrary: s xs)
  case (Cons c cs)
  then obtain zs where zs: "list_cmd c xs = Some zs" "run_cmds list_cmd cs zs = Some ys"
    by (auto simp: bind_eq_Some_conv)
  obtain s' where "cmd c s = Some s'" "holds s' zs"
    using one [OF Cons.prems(1) _ zs(1)] Cons.prems(2) by auto
  then show ?case using Cons.IH [of s' zs] Cons.prems(2) zs(2) by simp
qed simp

text \<open>
  A loop whose body removes some elements and then does something to the removed element that
  does not concern the others, such as giving its memory back.
\<close>

lemma sweep_from:
  assumes body: "\<And>a s. body a s = (if P a then cmd (Remove a) s \<bind> (\<lambda>s. Some (trash a s)) else Some s)"
    and trash: "\<And>a s xs. holds s xs \<Longrightarrow> a \<notin> set xs \<Longrightarrow> holds (trash a s) xs"
  shows "holds s (us @ xs) \<Longrightarrow>
    \<exists>s'. safe_loop body s (hd_opt xs) = Some s' \<and> holds s' (us @ filter (\<lambda>a. \<not> P a) xs)"
proof (induction xs arbitrary: s us)
  case Nil
  then show ?case by (subst loop) simp
next
  case (Cons a xs)
  have n: "next_elm s a = hd_opt xs" using nxt [OF Cons.prems] .
  show ?case
  proof (cases "P a")
    case True
    have d: "distinct (us @ a # xs)" using dist [OF Cons.prems] .
    then have "list_cmd (Remove a) (us @ a # xs) = Some (us @ xs)" by (simp add: remove1_append)
    then obtain s' where s': "cmd (Remove a) s = Some s'" "holds s' (us @ xs)"
      using one [OF Cons.prems can_remove] by blast
    then have "safe_loop body s (hd_opt (a # xs)) = safe_loop body (trash a s') (hd_opt xs)"
      using True n by (subst loop) (simp add: body)
    moreover have "holds (trash a s') (us @ xs)" using trash [OF s'(2)] d by simp
    ultimately show ?thesis using Cons.IH True by simp
  next
    case False
    then have "safe_loop body s (hd_opt (a # xs)) = safe_loop body s (hd_opt xs)"
      using n by (subst loop) (simp add: body)
    then show ?thesis using Cons.IH [of s "us @ [a]"] Cons.prems False by simp
  qed
qed

lemma sweep:
  assumes "holds s xs"
    and "\<And>a s. body a s = (if P a then cmd (Remove a) s \<bind> (\<lambda>s. Some (trash a s)) else Some s)"
    and "\<And>a s xs. holds s xs \<Longrightarrow> a \<notin> set xs \<Longrightarrow> holds (trash a s) xs"
  shows "\<exists>s'. safe_loop body s (first_elm s) = Some s' \<and> holds s' (filter (\<lambda>a. \<not> P a) xs)"
  using sweep_from [of body P trash s "[]" xs] assms first [of s xs] by simp

end

section \<open>The four kinds of lists\<close>

fun slist_cmd :: "tq_cmd \<Rightarrow> slist \<Rightarrow> slist option" where
  "slist_cmd (Insert_Head a) s = Some (SLIST_INSERT_HEAD s a)"
| "slist_cmd (Insert_After b a) s = Some (SLIST_INSERT_AFTER s b a)"
| "slist_cmd (Remove a) s = SLIST_REMOVE s a"
| "slist_cmd _ s = None"

fun slist_can :: "tq_cmd \<Rightarrow> bool" where
  "slist_can (Insert_Tail _) = False"
| "slist_can (Insert_Before _ _) = False"
| "slist_can _ = True"

fun stailq_cmd :: "nat \<Rightarrow> tq_cmd \<Rightarrow> stailq \<Rightarrow> stailq option" where
  "stailq_cmd h (Insert_Head a) s = Some (STAILQ_INSERT_HEAD s h a)"
| "stailq_cmd h (Insert_Tail a) s = STAILQ_INSERT_TAIL s h a"
| "stailq_cmd h (Insert_After b a) s = Some (STAILQ_INSERT_AFTER s h b a)"
| "stailq_cmd h (Remove a) s = STAILQ_REMOVE s h a"
| "stailq_cmd h _ s = None"

fun stailq_can :: "tq_cmd \<Rightarrow> bool" where
  "stailq_can (Insert_Before _ _) = False"
| "stailq_can _ = True"

fun dlist_cmd :: "nat \<Rightarrow> tq_cmd \<Rightarrow> dlist \<Rightarrow> dlist option" where
  "dlist_cmd h (Insert_Head a) s = LIST_INSERT_HEAD s h a"
| "dlist_cmd h (Insert_After b a) s = LIST_INSERT_AFTER s b a"
| "dlist_cmd h (Insert_Before b a) s = LIST_INSERT_BEFORE s b a"
| "dlist_cmd h (Remove a) s = LIST_REMOVE s a"
| "dlist_cmd h _ s = None"

fun dlist_can :: "tq_cmd \<Rightarrow> bool" where
  "dlist_can (Insert_Tail _) = False"
| "dlist_can _ = True"

lemma list_cmd_after:
  assumes "list_cmd (Insert_After b a) xs = Some ys"
  shows "\<exists>us vs. xs = us @ b # vs \<and> ys = us @ b # a # vs \<and> a \<notin> set xs"
  using assms split_at [of b xs] by (auto split: if_splits)

lemma list_cmd_remove:
  assumes "list_cmd (Remove a) xs = Some ys"
  shows "\<exists>us vs. xs = us @ a # vs \<and> ys = us @ vs"
proof -
  have "a \<in> set xs" "ys = remove1 a xs" using assms by (auto split: if_splits)
  moreover from this obtain us vs where "xs = us @ a # vs" "a \<notin> set us" by (meson split_list_first)
  ultimately show ?thesis by (auto simp: remove1_append)
qed

lemma slist_cmd_refines:
  assumes "sl_holds s xs" and "slist_can c" and "list_cmd c xs = Some ys"
  shows "\<exists>s'. slist_cmd c s = Some s' \<and> sl_holds s' ys"
proof (cases c)
  case (Insert_Head a)
  then show ?thesis using assms SLIST_INSERT_HEAD_holds by (auto split: if_splits)
next
  case (Insert_After b a)
  with assms(3) list_cmd_after obtain us vs where "xs = us @ b # vs" "ys = us @ b # a # vs" "a \<notin> set xs"
    by blast
  then show ?thesis using assms(1) SLIST_INSERT_AFTER_holds Insert_After by auto
next
  case (Remove a)
  with assms(3) list_cmd_remove obtain us vs where "xs = us @ a # vs" "ys = us @ vs" by blast
  then show ?thesis using assms(1) SLIST_REMOVE_holds Remove by auto
qed (use assms(2) in auto)

lemma stailq_cmd_refines:
  assumes "st_holds s h xs" and "stailq_can c" and "list_cmd c xs = Some ys"
  shows "\<exists>s'. stailq_cmd h c s = Some s' \<and> st_holds s' h ys"
proof (cases c)
  case (Insert_Head a)
  then show ?thesis using assms STAILQ_INSERT_HEAD_holds by (auto split: if_splits)
next
  case (Insert_Tail a)
  then show ?thesis using assms STAILQ_INSERT_TAIL_holds by (auto split: if_splits)
next
  case (Insert_After b a)
  with assms(3) list_cmd_after obtain us vs where "xs = us @ b # vs" "ys = us @ b # a # vs" "a \<notin> set xs"
    by blast
  then show ?thesis using assms(1) STAILQ_INSERT_AFTER_holds Insert_After by auto
next
  case (Remove a)
  with assms(3) list_cmd_remove obtain us vs where "xs = us @ a # vs" "ys = us @ vs" by blast
  then show ?thesis using assms(1) STAILQ_REMOVE_holds Remove by auto
qed (use assms(2) in auto)

lemma dlist_cmd_tq:
  "dlist_can c \<Longrightarrow> dlist_cmd h c (dl_of t) = map_option dl_of (tailq_cmd h c t)"
  by (cases c) (simp_all add: LIST_INSERT_HEAD_tq LIST_INSERT_AFTER_tq [of t _ _ h]
      LIST_INSERT_BEFORE_tq LIST_REMOVE_tq [of t _ h])

lemma dlist_cmd_refines:
  assumes "dl_holds s h xs" and "dlist_can c" and "list_cmd c xs = Some ys"
  shows "\<exists>s'. dlist_cmd h c s = Some s' \<and> dl_holds s' h ys"
proof -
  obtain t where t: "s = dl_of t" "tq_holds t h xs" using assms(1) by (auto simp: dl_holds_tq)
  obtain t' where "tailq_cmd h c t = Some t'" "tq_holds t' h ys"
    using tailq_cmd_refines [OF t(2) assms(3)] by blast
  then show ?thesis using dlist_cmd_tq [OF assms(2), of h t] t(1) by (auto simp: dl_holds_tq)
qed

lemma hd_opt_if: "hd_opt xs = (if xs = [] then None else Some (hd xs))"
  by (cases xs) auto

lemma slist_first_next:
  "sl_holds s xs \<Longrightarrow> SLIST_FIRST s = hd_opt xs" "sl_holds s (us @ a # vs) \<Longrightarrow> sle_next s a = hd_opt vs"
  using chain_at [of "sle_next s" "slh_first s" us a vs]
  by (cases xs; auto simp: sl_holds_def SLIST_FIRST_def hd_opt_if)+

lemma tailq_first_next:
  "tq_holds s h xs \<Longrightarrow> TAILQ_FIRST s h = hd_opt xs"
  "tq_holds s h (us @ a # vs) \<Longrightarrow> TAILQ_NEXT s a = hd_opt vs"
  using tq_holds_split(4,5) [of s h us a vs]
  by (cases xs; cases vs; auto simp: tq_holds_def TAILQ_FIRST_def TAILQ_NEXT_def tailq_words)+

lemma dlist_first_next:
  "dl_holds s h xs \<Longrightarrow> LIST_FIRST s h = hd_opt xs"
  "dl_holds s h (us @ a # vs) \<Longrightarrow> LIST_NEXT s a = hd_opt vs"
  using tailq_first_next by (auto simp: dl_holds_tq LIST_FIRST_def LIST_NEXT_def TAILQ_FIRST_def TAILQ_NEXT_def)

lemma holds_distinct:
  "sl_holds l xs \<Longrightarrow> distinct xs" "st_holds s h xs \<Longrightarrow> distinct xs"
  "dl_holds d h xs \<Longrightarrow> distinct xs" "tq_holds t h xs \<Longrightarrow> distinct xs"
  by (simp_all add: sl_holds_def st_holds_def dl_holds_def tq_holds_def)

interpretation sls: list_store sl_holds slist_cmd slist_can SLIST_FIRST sle_next slist_safe
proof unfold_locales
  show "slist_safe body s p = (case p of None \<Rightarrow> Some s
    | Some a \<Rightarrow> body a s \<bind> (\<lambda>s'. slist_safe body s' (sle_next s a)))" for body s p
    by (subst slist_safe.simps) (simp add: Let_def split: option.split)
qed (auto simp: slist_cmd_refines slist_first_next dest: holds_distinct)

interpretation sts: list_store "\<lambda>s. st_holds s h" "stailq_cmd h" stailq_can
  "\<lambda>s. STAILQ_FIRST s h" STAILQ_NEXT stailq_safe for h
proof unfold_locales
  show "stailq_safe body s p = (case p of None \<Rightarrow> Some s
    | Some a \<Rightarrow> body a s \<bind> (\<lambda>s'. stailq_safe body s' (STAILQ_NEXT s a)))" for body s p
    by (subst stailq_safe.simps) (simp add: Let_def split: option.split)
qed (auto simp: stailq_cmd_refines st_first STAILQ_FIRST_def STAILQ_NEXT_holds hd_opt_if
    dest: holds_distinct)

interpretation dls: list_store "\<lambda>s. dl_holds s h" "dlist_cmd h" dlist_can
  "\<lambda>s. LIST_FIRST s h" LIST_NEXT dlist_safe for h
proof unfold_locales
  show "dlist_safe body s p = (case p of None \<Rightarrow> Some s
    | Some a \<Rightarrow> body a s \<bind> (\<lambda>s'. dlist_safe body s' (LIST_NEXT s a)))" for body s p
    by (subst dlist_safe.simps) (simp add: Let_def split: option.split)
qed (auto simp: dlist_cmd_refines dlist_first_next dest: holds_distinct)

interpretation tqs: list_store "\<lambda>s. tq_holds s h" "tailq_cmd h" "\<lambda>_. True"
  "\<lambda>s. TAILQ_FIRST s h" TAILQ_NEXT tailq_safe for h
proof unfold_locales
  show "tailq_safe body s p = (case p of None \<Rightarrow> Some s
    | Some a \<Rightarrow> body a s \<bind> (\<lambda>s'. tailq_safe body s' (TAILQ_NEXT s a)))" for body s p
    by (subst tailq_safe.simps) (simp add: Let_def split: option.split)
qed (auto simp: tailq_cmd_refines tailq_first_next dest: holds_distinct)

section \<open>Observations\<close>

lemma slist_prevptr_ok:
  "chain (sle_next s) (sl_word s l) xs \<Longrightarrow> slist_prevptr s l = Some (zip (l # map Next xs) xs)"
  by (induction xs arbitrary: l) (subst slist_prevptr.simps, simp)+

lemma SLIST_FOREACH_PREVPTR_holds:
  "sl_holds s xs \<Longrightarrow> SLIST_FOREACH_PREVPTR s = Some (zip (Head 0 # map Next xs) xs)"
  by (simp add: SLIST_FOREACH_PREVPTR_def sl_holds_def slist_prevptr_ok)

lemma LIST_INIT_holds: "dl_holds (LIST_INIT s h) h []"
  by (simp add: dl_holds_def LIST_INIT_def)

lemma LIST_EMPTY_holds: "dl_holds s h xs \<Longrightarrow> LIST_EMPTY s h \<longleftrightarrow> xs = []"
  using dlist_first_next(1) [of s h xs] by (cases xs) (auto simp: LIST_EMPTY_def LIST_FIRST_def)

lemma dlist_from_ok: "dpath s l xs \<Longrightarrow> dlist_from s (dl_word s l) = Some xs"
  by (induction xs arbitrary: l) (subst dlist_from.simps, simp add: LIST_NEXT_def dl_words)+

lemma LIST_FOREACH_holds: "dl_holds s h xs \<Longrightarrow> LIST_FOREACH s h = Some xs"
  by (simp add: LIST_FOREACH_def LIST_FIRST_def dl_holds_def dl_words dlist_from_ok)

lemma LIST_PREV_holds:
  assumes "dl_holds s h (xs @ a # ys)"
  shows "LIST_PREV s a h = Some (if xs = [] then None else Some (last xs))"
proof -
  obtain t where "s = dl_of t" "tq_holds t h (xs @ a # ys)" using assms by (auto simp: dl_holds_tq)
  then show ?thesis using tq_holds_split(3) [of t h xs a ys] by (auto simp: LIST_PREV_def tq_end_def)
qed

lemma tailq_back_ok:
  "tq_holds s h (xs @ ys) \<Longrightarrow> tailq_back s (if xs = [] then None else Some (last xs)) = Some (rev xs)"
proof (induction xs arbitrary: ys rule: rev_induct)
  case Nil
  then show ?case by (subst tailq_back.simps) simp
next
  case (snoc a xs)
  then have t: "tq_holds s h (xs @ a # ys)" by simp
  show ?case using snoc.IH [OF t] TAILQ_PREV_holds [OF t] by (subst tailq_back.simps) simp
qed

lemma TAILQ_FOREACH_REVERSE_holds: "tq_holds s h xs \<Longrightarrow> TAILQ_FOREACH_REVERSE s h = Some (rev xs)"
  using tailq_back_ok [of s h xs "[]"] TAILQ_LAST_holds [of s h xs]
  by (simp add: TAILQ_FOREACH_REVERSE_def)

text \<open>
  What a loop may do to an element it has removed: any values in its links, as after its memory
  has been given back and used again.
\<close>

definition slist_trash :: "(nat \<Rightarrow> nat option) \<Rightarrow> nat \<Rightarrow> slist \<Rightarrow> slist" where
  "slist_trash junk a s = s\<lparr>sle_next := (sle_next s)(a := junk a)\<rparr>"

definition stailq_trash :: "(nat \<Rightarrow> nat option) \<Rightarrow> nat \<Rightarrow> stailq \<Rightarrow> stailq" where
  "stailq_trash junk a s = st_put s (Next a) (junk a)"

definition dlist_trash :: "(nat \<Rightarrow> nat option) \<Rightarrow> (nat \<Rightarrow> tq_loc option) \<Rightarrow> nat \<Rightarrow> dlist \<Rightarrow> dlist" where
  "dlist_trash junk junk' a s = dl_prev (dl_put s (Next a) (junk a)) a (junk' a)"

definition tailq_trash :: "(nat \<Rightarrow> nat option) \<Rightarrow> (nat \<Rightarrow> tq_loc option) \<Rightarrow> nat \<Rightarrow> tailq \<Rightarrow> tailq" where
  "tailq_trash junk junk' a s = set_prev (put_at s (Next a) (junk a)) a (junk' a)"

lemma tailq_trash_holds: "tq_holds s h xs \<Longrightarrow> a \<notin> set xs \<Longrightarrow> tq_holds (tailq_trash junk junk' a s) h xs"
  by (rule tq_holds_cong) (auto simp: tailq_trash_def)

lemma trash_holds:
  "sl_holds l xs \<Longrightarrow> a \<notin> set xs \<Longrightarrow> sl_holds (slist_trash junk a l) xs"
  "st_holds s h xs \<Longrightarrow> a \<notin> set xs \<Longrightarrow> st_holds (stailq_trash junk a s) h xs"
  "dl_holds d h xs \<Longrightarrow> a \<notin> set xs \<Longrightarrow> dl_holds (dlist_trash junk junk' a d) h xs"
proof -
  show "dl_holds (dlist_trash junk junk' a d) h xs" if d: "dl_holds d h xs" and a: "a \<notin> set xs"
  proof -
    obtain t where t: "d = dl_of t" "tq_holds t h xs" using d by (auto simp: dl_holds_tq)
    then have "dlist_trash junk junk' a d = dl_of (tailq_trash junk junk' a t)"
      by (simp add: dlist_trash_def tailq_trash_def)
    then show ?thesis using tailq_trash_holds [OF t(2) a] by (auto simp: dl_holds_tq)
  qed
qed (simp_all add: sl_holds_def st_holds_def slist_trash_def stailq_trash_def)

lemma tailq_back_sweep:
  "tq_holds s h (xs @ ys) \<Longrightarrow>
     \<exists>s'. tailq_back_safe (\<lambda>a s. if P a then TAILQ_REMOVE s h a \<bind> (\<lambda>s. Some (tailq_trash junk junk' a s))
         else Some s) s (if xs = [] then None else Some (last xs)) = Some s' \<and>
       tq_holds s' h (filter (\<lambda>a. \<not> P a) xs @ ys)"
proof (induction xs arbitrary: s ys rule: rev_induct)
  case Nil
  then show ?case by (subst tailq_back_safe.simps) simp
next
  case (snoc a xs)
  then have t: "tq_holds s h (xs @ a # ys)" by simp
  show ?case
  proof (cases "P a")
    case True
    obtain s' where "TAILQ_REMOVE s h a = Some s'" and s': "tq_holds s' h (xs @ ys)"
      using TAILQ_REMOVE_holds [OF t] by blast
    moreover have "tq_holds (tailq_trash junk junk' a s') h (xs @ ys)"
      using tailq_trash_holds [OF s'] holds_distinct(4) [OF t] by simp
    ultimately show ?thesis
      using snoc.IH [of "tailq_trash junk junk' a s'" ys] TAILQ_PREV_holds [OF t] True
      by (subst tailq_back_safe.simps) simp
  next
    case False
    with snoc.IH [OF t] TAILQ_PREV_holds [OF t] show ?thesis
      by (subst tailq_back_safe.simps) simp
  qed
qed

lemma TAILQ_FOREACH_REVERSE_SAFE_holds:
  assumes "tq_holds s h xs"
  shows "\<exists>s'. TAILQ_FOREACH_REVERSE_SAFE
      (\<lambda>a s. if P a then TAILQ_REMOVE s h a \<bind> (\<lambda>s. Some (tailq_trash junk junk' a s)) else Some s) s h =
      Some s' \<and> tq_holds s' h (filter (\<lambda>a. \<not> P a) xs)"
  using tailq_back_sweep [of s h xs "[]" P junk junk'] TAILQ_LAST_holds [OF assms] assms
  by (simp add: TAILQ_FOREACH_REVERSE_SAFE_def)

lemma LIST_SWAP_holds:
  assumes "tq_holds t h1 xs" and "tq_holds t h2 ys" and "h1 \<noteq> h2" and "set xs \<inter> set ys = {}"
  shows "dl_holds (LIST_SWAP (dl_of t) h1 h2) h1 ys" "dl_holds (LIST_SWAP (dl_of t) h1 h2) h2 xs"
  using TAILQ_SWAP_holds [OF assms] by (auto simp: LIST_SWAP_tq dl_holds_tq)

lemma SLIST_FOREACH_SAFE_holds:
  "sl_holds l xs \<Longrightarrow>
     \<exists>l'. SLIST_FOREACH_SAFE (\<lambda>a l. if P a then SLIST_REMOVE l a \<bind> (\<lambda>l. Some (slist_trash junk a l)) else Some l) l =
         Some l' \<and> sl_holds l' (filter (\<lambda>a. \<not> P a) xs)"
  unfolding SLIST_FOREACH_SAFE_def by (rule sls.sweep [where trash = "slist_trash junk"]) (simp_all add: trash_holds)

lemma STAILQ_FOREACH_SAFE_holds:
  "st_holds s h xs \<Longrightarrow>
     \<exists>s'. STAILQ_FOREACH_SAFE (\<lambda>a s. if P a then STAILQ_REMOVE s h a \<bind> (\<lambda>s. Some (stailq_trash junk a s)) else Some s) s h =
         Some s' \<and> st_holds s' h (filter (\<lambda>a. \<not> P a) xs)"
  unfolding STAILQ_FOREACH_SAFE_def by (rule sts.sweep [where trash = "stailq_trash junk"]) (simp_all add: trash_holds)

lemma LIST_FOREACH_SAFE_holds:
  "dl_holds d h xs \<Longrightarrow>
     \<exists>d'. LIST_FOREACH_SAFE (\<lambda>a d. if P a then LIST_REMOVE d a \<bind> (\<lambda>d. Some (dlist_trash junk junk' a d)) else Some d) d h =
         Some d' \<and> dl_holds d' h (filter (\<lambda>a. \<not> P a) xs)"
  unfolding LIST_FOREACH_SAFE_def
  by (rule dls.sweep [where trash = "dlist_trash junk junk'"]) (simp_all add: trash_holds)

lemma TAILQ_FOREACH_SAFE_holds:
  "tq_holds t h xs \<Longrightarrow>
     \<exists>t'. TAILQ_FOREACH_SAFE (\<lambda>a t. if P a then TAILQ_REMOVE t h a \<bind> (\<lambda>t. Some (tailq_trash junk junk' a t)) else Some t) t h =
         Some t' \<and> tq_holds t' h (filter (\<lambda>a. \<not> P a) xs)"
  unfolding TAILQ_FOREACH_SAFE_def
  by (rule tqs.sweep [where trash = "tailq_trash junk junk'"]) (simp_all add: tailq_trash_holds)

section \<open>Sequences of operations\<close>

lemma slist_runs:
  assumes "run_cmds list_cmd cs [] = Some ys" and "list_all slist_can cs"
  shows "\<exists>l'. run_cmds slist_cmd cs (SLIST_INIT l) = Some l' \<and> SLIST_FOREACH l' = Some ys \<and>
    (SLIST_EMPTY l' \<longleftrightarrow> ys = [])"
  using sls.many [OF SLIST_INIT_holds assms(2,1)] SLIST_FOREACH_holds SLIST_EMPTY_holds by blast

lemma stailq_runs:
  assumes "run_cmds list_cmd cs [] = Some ys" and "list_all stailq_can cs"
  shows "\<exists>s'. run_cmds (stailq_cmd h) cs (STAILQ_INIT s h) = Some s' \<and>
    STAILQ_FOREACH s' h = Some ys \<and> (STAILQ_EMPTY s' h \<longleftrightarrow> ys = []) \<and>
    STAILQ_LAST s' h = Some (if ys = [] then None else Some (last ys))"
  using sts.many [OF STAILQ_INIT_holds assms(2,1)] STAILQ_FOREACH_holds STAILQ_EMPTY_holds
    STAILQ_LAST_holds by blast

lemma dlist_runs:
  assumes "run_cmds list_cmd cs [] = Some ys" and "list_all dlist_can cs"
  shows "\<exists>d'. run_cmds (dlist_cmd h) cs (LIST_INIT d h) = Some d' \<and>
    LIST_FOREACH d' h = Some ys \<and> (LIST_EMPTY d' h \<longleftrightarrow> ys = []) \<and>
    (\<forall>us a vs. ys = us @ a # vs \<longrightarrow>
      LIST_PREV d' a h = Some (if us = [] then None else Some (last us)))"
proof -
  obtain d' where "run_cmds (dlist_cmd h) cs (LIST_INIT d h) = Some d'" and d': "dl_holds d' h ys"
    using dls.many [OF LIST_INIT_holds assms(2,1)] by blast
  moreover have "\<forall>us a vs. ys = us @ a # vs \<longrightarrow>
      LIST_PREV d' a h = Some (if us = [] then None else Some (last us))"
    using d' LIST_PREV_holds by blast
  ultimately show ?thesis using LIST_FOREACH_holds [OF d'] LIST_EMPTY_holds [OF d'] by blast
qed

text \<open>
  C12: the singly-linked lists, the singly-linked tail queues and the doubly-linked lists
  implement lists. A sequence of the operations a kind has, started on an initialised head, that
  makes sense on lists (an inserted element is new, a named one is there) runs through; walking
  along the result gives the list, and the tests for the ends agree with it.
\<close>

theorem bsd_lists_refine:
  assumes "run_cmds list_cmd cs [] = Some ys"
  shows "(list_all slist_can cs \<longrightarrow>
      (\<exists>l'. run_cmds slist_cmd cs (SLIST_INIT l) = Some l' \<and> SLIST_FOREACH l' = Some ys \<and>
        (SLIST_EMPTY l' \<longleftrightarrow> ys = []))) \<and>
    (list_all stailq_can cs \<longrightarrow>
      (\<exists>s'. run_cmds (stailq_cmd h) cs (STAILQ_INIT s h) = Some s' \<and>
        STAILQ_FOREACH s' h = Some ys \<and> (STAILQ_EMPTY s' h \<longleftrightarrow> ys = []) \<and>
        STAILQ_LAST s' h = Some (if ys = [] then None else Some (last ys)))) \<and>
    (list_all dlist_can cs \<longrightarrow>
      (\<exists>d'. run_cmds (dlist_cmd h) cs (LIST_INIT d h) = Some d' \<and>
        LIST_FOREACH d' h = Some ys \<and> (LIST_EMPTY d' h \<longleftrightarrow> ys = []) \<and>
        (\<forall>us a vs. ys = us @ a # vs \<longrightarrow>
          LIST_PREV d' a h = Some (if us = [] then None else Some (last us)))))"
  by (intro conjI impI slist_runs stailq_runs dlist_runs assms)

definition demo_slist :: slist where
  "demo_slist = \<lparr>slh_first = Some 9, sle_next = (\<lambda>_. Some 9)\<rparr>"

definition demo_stailq :: stailq where
  "demo_stailq = \<lparr>stqh_first = (\<lambda>_. Some 9), stqh_last = (\<lambda>_. None), stqe_next = (\<lambda>_. Some 9)\<rparr>"

definition demo_dlist :: dlist where
  "demo_dlist = \<lparr>lh_first = (\<lambda>_. Some 9), le_next = (\<lambda>_. Some 9), le_prev = (\<lambda>_. None)\<rparr>"

theorem bsd_lists_refine_witness:
  "(\<exists>l'. run_cmds slist_cmd [Insert_Head 1, Insert_After 1 3, Insert_After 1 2, Remove 2]
      (SLIST_INIT demo_slist) = Some l' \<and> SLIST_FOREACH l' = Some [1, 3]) \<and>
   (\<exists>s'. run_cmds (stailq_cmd 0) [Insert_Head 1, Insert_Tail 2, Insert_After 1 3, Remove 2]
      (STAILQ_INIT demo_stailq 0) = Some s' \<and> STAILQ_FOREACH s' 0 = Some [1, 3]) \<and>
   (\<exists>d'. run_cmds (dlist_cmd 0) [Insert_Head 1, Insert_Before 1 2, Insert_After 1 3, Remove 2]
      (LIST_INIT demo_dlist 0) = Some d' \<and> LIST_FOREACH d' 0 = Some [1, 3])"
  using bsd_lists_refine [of "[Insert_Head 1, Insert_After 1 3, Insert_After 1 2, Remove 2]" "[1, 3]"
      demo_slist 0 demo_stailq demo_dlist]
    bsd_lists_refine [of "[Insert_Head 1, Insert_Tail 2, Insert_After 1 3, Remove 2]" "[1, 3]"
      demo_slist 0 demo_stailq demo_dlist]
    bsd_lists_refine [of "[Insert_Head 1, Insert_Before 1 2, Insert_After 1 3, Remove 2]" "[1, 3]"
      demo_slist 0 demo_stailq demo_dlist]
  by simp blast

text \<open>
  C13: the loops that read the next element before their body runs may remove the element they
  are at and give its memory back: whatever the body leaves in the links of the elements it has
  removed (\<open>junk\<close>, \<open>junk'\<close>), the loop goes on with the rest of the list. For each of the four
  kinds of lists, and for the tail queues also backwards, a loop that removes the elements with
  some property ends and leaves the others in order.
\<close>

theorem foreach_safe_removes:
  "(sl_holds l xs \<longrightarrow>
      (\<exists>l'. SLIST_FOREACH_SAFE
          (\<lambda>a l. if P a then SLIST_REMOVE l a \<bind> (\<lambda>l. Some (slist_trash junk a l)) else Some l) l = Some l' \<and>
        SLIST_FOREACH l' = Some (filter (\<lambda>a. \<not> P a) xs))) \<and>
   (st_holds s h xs \<longrightarrow>
      (\<exists>s'. STAILQ_FOREACH_SAFE
          (\<lambda>a s. if P a then STAILQ_REMOVE s h a \<bind> (\<lambda>s. Some (stailq_trash junk a s)) else Some s) s h = Some s' \<and>
        STAILQ_FOREACH s' h = Some (filter (\<lambda>a. \<not> P a) xs))) \<and>
   (dl_holds d h xs \<longrightarrow>
      (\<exists>d'. LIST_FOREACH_SAFE
          (\<lambda>a d. if P a then LIST_REMOVE d a \<bind> (\<lambda>d. Some (dlist_trash junk junk' a d)) else Some d) d h = Some d' \<and>
        LIST_FOREACH d' h = Some (filter (\<lambda>a. \<not> P a) xs))) \<and>
   (tq_holds t h xs \<longrightarrow>
      (\<exists>t'. TAILQ_FOREACH_SAFE
          (\<lambda>a t. if P a then TAILQ_REMOVE t h a \<bind> (\<lambda>t. Some (tailq_trash junk junk' a t)) else Some t) t h = Some t' \<and>
        TAILQ_FOREACH t' h = Some (filter (\<lambda>a. \<not> P a) xs)) \<and>
      (\<exists>t'. TAILQ_FOREACH_REVERSE_SAFE
          (\<lambda>a t. if P a then TAILQ_REMOVE t h a \<bind> (\<lambda>t. Some (tailq_trash junk junk' a t)) else Some t) t h = Some t' \<and>
        TAILQ_FOREACH_REVERSE t' h = Some (rev (filter (\<lambda>a. \<not> P a) xs))))"
  using SLIST_FOREACH_SAFE_holds [of l xs P junk] SLIST_FOREACH_holds
    STAILQ_FOREACH_SAFE_holds [of s h xs P junk] STAILQ_FOREACH_holds
    LIST_FOREACH_SAFE_holds [of d h xs P junk junk'] LIST_FOREACH_holds
    TAILQ_FOREACH_SAFE_holds [of t h xs P junk junk'] TAILQ_FOREACH_holds
    TAILQ_FOREACH_REVERSE_SAFE_holds [of t h xs P junk junk'] TAILQ_FOREACH_REVERSE_holds
  by blast

text \<open>
  A list of three elements of each kind, swept of the odd ones, whose links then point at
  themselves.
\<close>

definition three :: "nat \<Rightarrow> nat option" where
  "three a = (if a < 3 then Some (a + 1) else None)"

theorem foreach_safe_removes_witness:
  "(\<exists>l'. SLIST_FOREACH_SAFE (\<lambda>a l. if odd a then SLIST_REMOVE l a \<bind> (\<lambda>l. Some (slist_trash Some a l)) else Some l)
      \<lparr>slh_first = Some 1, sle_next = three\<rparr> = Some l' \<and> SLIST_FOREACH l' = Some [2]) \<and>
   (\<exists>s'. STAILQ_FOREACH_SAFE
        (\<lambda>a s. if odd a then STAILQ_REMOVE s 0 a \<bind> (\<lambda>s. Some (stailq_trash Some a s)) else Some s)
      \<lparr>stqh_first = (\<lambda>_. Some 1), stqh_last = (\<lambda>_. Some (Next 3)), stqe_next = three\<rparr> 0 = Some s' \<and>
      STAILQ_FOREACH s' 0 = Some [2]) \<and>
   (\<exists>d'. LIST_FOREACH_SAFE
        (\<lambda>a d. if odd a then LIST_REMOVE d a \<bind> (\<lambda>d. Some (dlist_trash Some (\<lambda>_. None) a d)) else Some d)
      \<lparr>lh_first = (\<lambda>_. Some 1), le_next = three,
        le_prev = (\<lambda>a. Some (if a = 1 then Head 0 else Next (a - 1)))\<rparr> 0 = Some d' \<and>
      LIST_FOREACH d' 0 = Some [2]) \<and>
   (\<exists>t'. TAILQ_FOREACH_REVERSE_SAFE
        (\<lambda>a t. if odd a then TAILQ_REMOVE t 0 a \<bind> (\<lambda>t. Some (tailq_trash Some (\<lambda>_. None) a t)) else Some t)
      \<lparr>tqh_first = (\<lambda>_. Some 1), tqh_last = (\<lambda>_. Some (Next 3)), tqe_next = three,
        tqe_prev = (\<lambda>a. Some (if a = 1 then Head 0 else Next (a - 1)))\<rparr> 0 = Some t' \<and>
      TAILQ_FOREACH_REVERSE t' 0 = Some [2])"
  using foreach_safe_removes [of "\<lparr>slh_first = Some 1, sle_next = three\<rparr>" "[1, 2, 3]" odd Some
      "\<lparr>stqh_first = (\<lambda>_. Some 1), stqh_last = (\<lambda>_. Some (Next 3)), stqe_next = three\<rparr>" 0
      "\<lparr>lh_first = (\<lambda>_. Some 1), le_next = three,
        le_prev = (\<lambda>a. Some (if a = 1 then Head 0 else Next (a - 1)))\<rparr>" "\<lambda>_. None"
      "\<lparr>tqh_first = (\<lambda>_. Some 1), tqh_last = (\<lambda>_. Some (Next 3)), tqe_next = three,
        tqe_prev = (\<lambda>a. Some (if a = 1 then Head 0 else Next (a - 1)))\<rparr>"]
  by (simp add: sl_holds_def st_holds_def dl_holds_def tq_holds_def three_def dl_word.simps
      word_at.simps)

end
