(* ===== verification/Rb_Heap.thy ===== *)
theory Rb_Heap
  imports Nstack_Prelude
begin

text \<open>
  The red-black trees of \<^verbatim>\<open>src/tree.h\<close> (the macros \<^verbatim>\<open>RB_*\<close>), at the level of pointers.
  A node is embedded in a client's struct; here it is an address, the four fields of
  \<^verbatim>\<open>RB_ENTRY\<close> live in a store indexed by addresses, and \<^verbatim>\<open>NULL\<close> is \<open>None\<close>. Every macro
  and every generated function is one definition that reads and writes the store in the
  order of the C text; reading or writing through \<^verbatim>\<open>NULL\<close> gives \<open>None\<close>. A comparison
  function of the client, applied to the element at hand, is the argument
  \<open>cmp :: nat \<Rightarrow> int\<close>. The loops are partial functions: a loop over a corrupted store may
  not end, which is \<open>None\<close> too.
\<close>

type_synonym ptr = "nat option"

datatype rb_color = RB_BLACK | RB_RED

record rb_entry =
  rbe_left :: ptr
  rbe_right :: ptr
  rbe_parent :: ptr
  rbe_color :: rb_color

record rb_head =
  rbh_root :: ptr
  rb_links :: "nat \<Rightarrow> rb_entry"

text \<open>The links of a struct in zeroed memory.\<close>

definition rb_zero :: rb_entry where
  "rb_zero = \<lparr>rbe_left = None, rbe_right = None, rbe_parent = None, rbe_color = RB_BLACK\<rparr>"

definition RB_INIT :: "rb_head \<Rightarrow> rb_head" where
  "RB_INIT h = h\<lparr>rbh_root := None\<rparr>"

definition RB_LEFT :: "rb_head \<Rightarrow> ptr \<Rightarrow> ptr option" where
  "RB_LEFT h p = map_option (\<lambda>a. rbe_left (rb_links h a)) p"

definition RB_RIGHT :: "rb_head \<Rightarrow> ptr \<Rightarrow> ptr option" where
  "RB_RIGHT h p = map_option (\<lambda>a. rbe_right (rb_links h a)) p"

definition RB_PARENT :: "rb_head \<Rightarrow> ptr \<Rightarrow> ptr option" where
  "RB_PARENT h p = map_option (\<lambda>a. rbe_parent (rb_links h a)) p"

definition RB_COLOR :: "rb_head \<Rightarrow> ptr \<Rightarrow> rb_color option" where
  "RB_COLOR h p = map_option (\<lambda>a. rbe_color (rb_links h a)) p"

definition upd_link :: "(rb_entry \<Rightarrow> rb_entry) \<Rightarrow> rb_head \<Rightarrow> ptr \<Rightarrow> rb_head option" where
  "upd_link f h p =
     map_option (\<lambda>a. h\<lparr>rb_links := (rb_links h)(a := f (rb_links h a))\<rparr>) p"

definition set_left :: "rb_head \<Rightarrow> ptr \<Rightarrow> ptr \<Rightarrow> rb_head option" where
  "set_left h p v = upd_link (rbe_left_update (\<lambda>_. v)) h p"

definition set_right :: "rb_head \<Rightarrow> ptr \<Rightarrow> ptr \<Rightarrow> rb_head option" where
  "set_right h p v = upd_link (rbe_right_update (\<lambda>_. v)) h p"

definition set_parent :: "rb_head \<Rightarrow> ptr \<Rightarrow> ptr \<Rightarrow> rb_head option" where
  "set_parent h p v = upd_link (rbe_parent_update (\<lambda>_. v)) h p"

definition set_color :: "rb_head \<Rightarrow> ptr \<Rightarrow> rb_color \<Rightarrow> rb_head option" where
  "set_color h p v = upd_link (rbe_color_update (\<lambda>_. v)) h p"

definition RB_SET :: "rb_head \<Rightarrow> ptr \<Rightarrow> ptr \<Rightarrow> rb_head option" where
  "RB_SET h elm parent =
     upd_link (\<lambda>_. \<lparr>rbe_left = None, rbe_right = None, rbe_parent = parent,
                     rbe_color = RB_RED\<rparr>) h elm"

definition RB_SET_BLACKRED :: "rb_head \<Rightarrow> ptr \<Rightarrow> ptr \<Rightarrow> rb_head option" where
  "RB_SET_BLACKRED h black red = do {
     h \<leftarrow> set_color h black RB_BLACK;
     set_color h red RB_RED
   }"

text \<open>The replacement of \<open>elm\<close> by \<open>tmp\<close> below the parent of \<open>elm\<close>, or at the root.\<close>

definition rb_relink :: "rb_head \<Rightarrow> ptr \<Rightarrow> ptr \<Rightarrow> ptr \<Rightarrow> rb_head option" where
  "rb_relink h parent elm tmp =
     (if parent \<noteq> None then do {
        l \<leftarrow> RB_LEFT h parent;
        if elm = l then set_left h parent tmp else set_right h parent tmp
      }
      else Some (h\<lparr>rbh_root := tmp\<rparr>))"

definition set_parent_if :: "rb_head \<Rightarrow> ptr \<Rightarrow> ptr \<Rightarrow> rb_head option" where
  "set_parent_if h p v = (if p \<noteq> None then set_parent h p v else Some h)"

definition RB_ROTATE_LEFT :: "rb_head \<Rightarrow> ptr \<Rightarrow> rb_head option" where
  "RB_ROTATE_LEFT h elm = do {
     tmp \<leftarrow> RB_RIGHT h elm;
     tl \<leftarrow> RB_LEFT h tmp;
     h \<leftarrow> set_right h elm tl;
     h \<leftarrow> set_parent_if h tl elm;
     parent \<leftarrow> RB_PARENT h elm;
     h \<leftarrow> set_parent h tmp parent;
     h \<leftarrow> rb_relink h parent elm tmp;
     h \<leftarrow> set_left h tmp elm;
     set_parent h elm tmp
   }"

definition RB_ROTATE_RIGHT :: "rb_head \<Rightarrow> ptr \<Rightarrow> rb_head option" where
  "RB_ROTATE_RIGHT h elm = do {
     tmp \<leftarrow> RB_LEFT h elm;
     tr \<leftarrow> RB_RIGHT h tmp;
     h \<leftarrow> set_left h elm tr;
     h \<leftarrow> set_parent_if h tr elm;
     parent \<leftarrow> RB_PARENT h elm;
     h \<leftarrow> set_parent h tmp parent;
     h \<leftarrow> rb_relink h parent elm tmp;
     h \<leftarrow> set_right h tmp elm;
     set_parent h elm tmp
   }"

text \<open>The tests \<^verbatim>\<open>p && RB_COLOR(p) == RB_RED\<close> and \<^verbatim>\<open>p == NULL || RB_COLOR(p) == RB_BLACK\<close>.\<close>

definition rb_is_red :: "rb_head \<Rightarrow> ptr \<Rightarrow> bool" where
  "rb_is_red h p = (case p of None \<Rightarrow> False | Some a \<Rightarrow> rbe_color (rb_links h a) = RB_RED)"

section \<open>Insertion\<close>

partial_function (option) insert_color_loop :: "rb_head \<Rightarrow> ptr \<Rightarrow> rb_head option" where
  "insert_color_loop h elm = do {
     parent \<leftarrow> RB_PARENT h elm;
     if \<not> rb_is_red h parent then Some h
     else do {
       gparent \<leftarrow> RB_PARENT h parent;
       gl \<leftarrow> RB_LEFT h gparent;
       if parent = gl then do {
         tmp \<leftarrow> RB_RIGHT h gparent;
         if rb_is_red h tmp then do {
           h \<leftarrow> set_color h tmp RB_BLACK;
           h \<leftarrow> RB_SET_BLACKRED h parent gparent;
           insert_color_loop h gparent
         }
         else do {
           pr \<leftarrow> RB_RIGHT h parent;
           if pr = elm then do {
             h \<leftarrow> RB_ROTATE_LEFT h parent;
             h \<leftarrow> RB_SET_BLACKRED h elm gparent;
             h \<leftarrow> RB_ROTATE_RIGHT h gparent;
             insert_color_loop h parent
           }
           else do {
             h \<leftarrow> RB_SET_BLACKRED h parent gparent;
             h \<leftarrow> RB_ROTATE_RIGHT h gparent;
             insert_color_loop h elm
           }
         }
       }
       else do {
         tmp \<leftarrow> RB_LEFT h gparent;
         if rb_is_red h tmp then do {
           h \<leftarrow> set_color h tmp RB_BLACK;
           h \<leftarrow> RB_SET_BLACKRED h parent gparent;
           insert_color_loop h gparent
         }
         else do {
           pl \<leftarrow> RB_LEFT h parent;
           if pl = elm then do {
             h \<leftarrow> RB_ROTATE_RIGHT h parent;
             h \<leftarrow> RB_SET_BLACKRED h elm gparent;
             h \<leftarrow> RB_ROTATE_LEFT h gparent;
             insert_color_loop h parent
           }
           else do {
             h \<leftarrow> RB_SET_BLACKRED h parent gparent;
             h \<leftarrow> RB_ROTATE_LEFT h gparent;
             insert_color_loop h elm
           }
         }
       }
     }
   }"

definition RB_INSERT_COLOR :: "rb_head \<Rightarrow> ptr \<Rightarrow> rb_head option" where
  "RB_INSERT_COLOR h elm = do {
     h \<leftarrow> insert_color_loop h elm;
     set_color h (rbh_root h) RB_BLACK
   }"

text \<open>
  The search of an insertion: \<open>Inr a\<close> is an element that compares equal, \<open>Inl\<close> the last
  node visited and the last comparison.
\<close>

partial_function (option) insert_descend ::
  "(nat \<Rightarrow> int) \<Rightarrow> rb_head \<Rightarrow> ptr \<Rightarrow> ptr \<Rightarrow> int \<Rightarrow> ((ptr \<times> int) + nat) option" where
  "insert_descend cmp h tmp parent c =
     (case tmp of
        None \<Rightarrow> Some (Inl (parent, c))
      | Some a \<Rightarrow>
          (if cmp a < 0 then
             insert_descend cmp h (rbe_left (rb_links h a)) tmp (cmp a)
           else if cmp a > 0 then
             insert_descend cmp h (rbe_right (rb_links h a)) tmp (cmp a)
           else Some (Inr a)))"

definition RB_INSERT :: "(nat \<Rightarrow> int) \<Rightarrow> rb_head \<Rightarrow> nat \<Rightarrow> (rb_head \<times> ptr) option" where
  "RB_INSERT cmp h e = do {
     pos \<leftarrow> insert_descend cmp h (rbh_root h) None 0;
     case pos of
       Inr a \<Rightarrow> Some (h, Some a)
     | Inl (parent, c) \<Rightarrow> do {
         h \<leftarrow> RB_SET h (Some e) parent;
         h \<leftarrow> (if parent \<noteq> None then
                if c < 0 then set_left h parent (Some e) else set_right h parent (Some e)
              else Some (h\<lparr>rbh_root := Some e\<rparr>));
         h \<leftarrow> RB_INSERT_COLOR h (Some e);
         Some (h, None)
       }
   }"

section \<open>Removal\<close>

partial_function (option) remove_color_loop ::
  "rb_head \<Rightarrow> ptr \<Rightarrow> ptr \<Rightarrow> (rb_head \<times> ptr) option" where
  "remove_color_loop h parent elm =
     (if rb_is_red h elm \<or> elm = rbh_root h then Some (h, elm)
      else do {
        pl \<leftarrow> RB_LEFT h parent;
        if pl = elm then do {
          tmp \<leftarrow> RB_RIGHT h parent;
          c \<leftarrow> RB_COLOR h tmp;
          h \<leftarrow> (if c = RB_RED then do {
                 h \<leftarrow> RB_SET_BLACKRED h tmp parent;
                 RB_ROTATE_LEFT h parent
               } else Some h);
          tmp \<leftarrow> (if c = RB_RED then RB_RIGHT h parent else Some tmp);
          tl \<leftarrow> RB_LEFT h tmp;
          tr \<leftarrow> RB_RIGHT h tmp;
          if \<not> rb_is_red h tl \<and> \<not> rb_is_red h tr then do {
            h \<leftarrow> set_color h tmp RB_RED;
            up \<leftarrow> RB_PARENT h parent;
            remove_color_loop h up parent
          }
          else do {
            h' \<leftarrow> (if \<not> rb_is_red h tr then do {
                   h \<leftarrow> (if tl \<noteq> None then set_color h tl RB_BLACK else Some h);
                   h \<leftarrow> set_color h tmp RB_RED;
                   RB_ROTATE_RIGHT h tmp
                 } else Some h);
            tmp \<leftarrow> (if \<not> rb_is_red h tr then RB_RIGHT h' parent else Some tmp);
            pc \<leftarrow> RB_COLOR h' parent;
            h \<leftarrow> set_color h' tmp pc;
            h \<leftarrow> set_color h parent RB_BLACK;
            tr \<leftarrow> RB_RIGHT h tmp;
            h \<leftarrow> (if tr \<noteq> None then set_color h tr RB_BLACK else Some h);
            h \<leftarrow> RB_ROTATE_LEFT h parent;
            Some (h, rbh_root h)
          }
        }
        else do {
          tmp \<leftarrow> RB_LEFT h parent;
          c \<leftarrow> RB_COLOR h tmp;
          h \<leftarrow> (if c = RB_RED then do {
                 h \<leftarrow> RB_SET_BLACKRED h tmp parent;
                 RB_ROTATE_RIGHT h parent
               } else Some h);
          tmp \<leftarrow> (if c = RB_RED then RB_LEFT h parent else Some tmp);
          tl \<leftarrow> RB_LEFT h tmp;
          tr \<leftarrow> RB_RIGHT h tmp;
          if \<not> rb_is_red h tl \<and> \<not> rb_is_red h tr then do {
            h \<leftarrow> set_color h tmp RB_RED;
            up \<leftarrow> RB_PARENT h parent;
            remove_color_loop h up parent
          }
          else do {
            h' \<leftarrow> (if \<not> rb_is_red h tl then do {
                   h \<leftarrow> (if tr \<noteq> None then set_color h tr RB_BLACK else Some h);
                   h \<leftarrow> set_color h tmp RB_RED;
                   RB_ROTATE_LEFT h tmp
                 } else Some h);
            tmp \<leftarrow> (if \<not> rb_is_red h tl then RB_LEFT h' parent else Some tmp);
            pc \<leftarrow> RB_COLOR h' parent;
            h \<leftarrow> set_color h' tmp pc;
            h \<leftarrow> set_color h parent RB_BLACK;
            tl \<leftarrow> RB_LEFT h tmp;
            h \<leftarrow> (if tl \<noteq> None then set_color h tl RB_BLACK else Some h);
            h \<leftarrow> RB_ROTATE_RIGHT h parent;
            Some (h, rbh_root h)
          }
        }
      })"

definition RB_REMOVE_COLOR :: "rb_head \<Rightarrow> ptr \<Rightarrow> ptr \<Rightarrow> rb_head option" where
  "RB_REMOVE_COLOR h parent elm = do {
     (h, elm) \<leftarrow> remove_color_loop h parent elm;
     if elm \<noteq> None then set_color h elm RB_BLACK else Some h
   }"

partial_function (option) leftmost :: "rb_head \<Rightarrow> nat \<Rightarrow> nat option" where
  "leftmost h a =
     (case rbe_left (rb_links h a) of None \<Rightarrow> Some a | Some l \<Rightarrow> leftmost h l)"

partial_function (option) rightmost :: "rb_head \<Rightarrow> nat \<Rightarrow> nat option" where
  "rightmost h a =
     (case rbe_right (rb_links h a) of None \<Rightarrow> Some a | Some r \<Rightarrow> rightmost h r)"

text \<open>
  Unlinking \<open>elm\<close>, which has at most one child: \<open>child\<close> takes its place. The result is the
  new store with the parent and the colour that \<open>elm\<close> had.
\<close>

definition rb_unlink :: "rb_head \<Rightarrow> ptr \<Rightarrow> ptr \<Rightarrow> (rb_head \<times> ptr \<times> rb_color) option" where
  "rb_unlink h elm child = do {
     parent \<leftarrow> RB_PARENT h elm;
     color \<leftarrow> RB_COLOR h elm;
     h \<leftarrow> set_parent_if h child parent;
     h \<leftarrow> rb_relink h parent elm child;
     Some (h, parent, color)
   }"

text \<open>
  \<^verbatim>\<open>RB_AUGMENT\<close> is empty, so the walk to the root that only calls it is left out.
\<close>

definition RB_REMOVE :: "rb_head \<Rightarrow> ptr \<Rightarrow> rb_head option" where
  "RB_REMOVE h old = do {
     l \<leftarrow> RB_LEFT h old;
     r \<leftarrow> RB_RIGHT h old;
     if l = None \<or> r = None then do {
       let child = (if l = None then r else l);
       (h, parent, color) \<leftarrow> rb_unlink h old child;
       if color = RB_BLACK then RB_REMOVE_COLOR h parent child else Some h
     }
     else do {
       m \<leftarrow> leftmost h (the r);
       let elm = Some m;
       child \<leftarrow> RB_RIGHT h elm;
       (h, parent, color) \<leftarrow> rb_unlink h elm child;
       ep \<leftarrow> RB_PARENT h elm;
       let parent = (if ep = old then elm else parent);
       h \<leftarrow> upd_link (\<lambda>_. rb_links h (the old)) h elm;
       op \<leftarrow> RB_PARENT h old;
       h \<leftarrow> rb_relink h op old elm;
       ol \<leftarrow> RB_LEFT h old;
       h \<leftarrow> set_parent h ol elm;
       or \<leftarrow> RB_RIGHT h old;
       h \<leftarrow> set_parent_if h or elm;
       if color = RB_BLACK then RB_REMOVE_COLOR h parent child else Some h
     }
   }"

section \<open>Search and traversal\<close>

partial_function (option) rb_find_loop :: "(nat \<Rightarrow> int) \<Rightarrow> rb_head \<Rightarrow> ptr \<Rightarrow> ptr option" where
  "rb_find_loop cmp h tmp =
     (case tmp of
        None \<Rightarrow> Some None
      | Some a \<Rightarrow>
          (if cmp a < 0 then rb_find_loop cmp h (rbe_left (rb_links h a))
           else if cmp a > 0 then rb_find_loop cmp h (rbe_right (rb_links h a))
           else Some (Some a)))"

definition RB_FIND :: "(nat \<Rightarrow> int) \<Rightarrow> rb_head \<Rightarrow> ptr option" where
  "RB_FIND cmp h = rb_find_loop cmp h (rbh_root h)"

partial_function (option) rb_nfind_loop ::
  "(nat \<Rightarrow> int) \<Rightarrow> rb_head \<Rightarrow> ptr \<Rightarrow> ptr \<Rightarrow> ptr option" where
  "rb_nfind_loop cmp h tmp res =
     (case tmp of
        None \<Rightarrow> Some res
      | Some a \<Rightarrow>
          (if cmp a < 0 then rb_nfind_loop cmp h (rbe_left (rb_links h a)) tmp
           else if cmp a > 0 then rb_nfind_loop cmp h (rbe_right (rb_links h a)) res
           else Some (Some a)))"

definition RB_NFIND :: "(nat \<Rightarrow> int) \<Rightarrow> rb_head \<Rightarrow> ptr option" where
  "RB_NFIND cmp h = rb_nfind_loop cmp h (rbh_root h) None"

text \<open>The climbs of \<^verbatim>\<open>RB_NEXT\<close> and \<^verbatim>\<open>RB_PREV\<close>: up while \<open>a\<close> is a right (left) child.\<close>

partial_function (option) climb_right :: "rb_head \<Rightarrow> nat \<Rightarrow> ptr option" where
  "climb_right h a =
     (case rbe_parent (rb_links h a) of
        None \<Rightarrow> Some None
      | Some p \<Rightarrow>
          (if rbe_right (rb_links h p) = Some a then climb_right h p else Some (Some p)))"

partial_function (option) climb_left :: "rb_head \<Rightarrow> nat \<Rightarrow> ptr option" where
  "climb_left h a =
     (case rbe_parent (rb_links h a) of
        None \<Rightarrow> Some None
      | Some p \<Rightarrow>
          (if rbe_left (rb_links h p) = Some a then climb_left h p else Some (Some p)))"

definition RB_NEXT :: "rb_head \<Rightarrow> nat \<Rightarrow> ptr option" where
  "RB_NEXT h a =
     (case rbe_right (rb_links h a) of
        Some r \<Rightarrow> map_option Some (leftmost h r)
      | None \<Rightarrow>
          (case rbe_parent (rb_links h a) of
             None \<Rightarrow> climb_right h a
           | Some p \<Rightarrow>
               (if rbe_left (rb_links h p) = Some a then Some (Some p)
                else climb_right h a)))"

definition RB_PREV :: "rb_head \<Rightarrow> nat \<Rightarrow> ptr option" where
  "RB_PREV h a =
     (case rbe_left (rb_links h a) of
        Some l \<Rightarrow> map_option Some (rightmost h l)
      | None \<Rightarrow>
          (case rbe_parent (rb_links h a) of
             None \<Rightarrow> climb_left h a
           | Some p \<Rightarrow>
               (if rbe_right (rb_links h p) = Some a then Some (Some p)
                else climb_left h a)))"

definition RB_MIN :: "rb_head \<Rightarrow> ptr option" where
  "RB_MIN h = (case rbh_root h of None \<Rightarrow> Some None | Some a \<Rightarrow> map_option Some (leftmost h a))"

definition RB_MAX :: "rb_head \<Rightarrow> ptr option" where
  "RB_MAX h = (case rbh_root h of None \<Rightarrow> Some None | Some a \<Rightarrow> map_option Some (rightmost h a))"

text \<open>The elements visited by \<^verbatim>\<open>RB_FOREACH\<close>, for a loop body that leaves the tree alone.\<close>

partial_function (option) foreach_from :: "rb_head \<Rightarrow> ptr \<Rightarrow> nat list option" where
  "foreach_from h x =
     (case x of
        None \<Rightarrow> Some []
      | Some a \<Rightarrow> do {
          y \<leftarrow> RB_NEXT h a;
          ys \<leftarrow> foreach_from h y;
          Some (a # ys)
        })"

definition RB_FOREACH :: "rb_head \<Rightarrow> nat list option" where
  "RB_FOREACH h = do {
     x \<leftarrow> RB_MIN h;
     foreach_from h x
   }"

end
