(* ===== verification/Rb_Shape.thy ===== *)
theory Rb_Shape
  imports Rb_Heap
begin

text \<open>
  Trees behind the links of \<open>Rb_Heap\<close>. \<open>rbt\<close> is the tree of node addresses that a store
  represents; \<open>frame list\<close> is the path from a subtree up to the root (innermost first), so
  that \<open>plug k t\<close> is the whole tree with the subtree \<open>t\<close> in focus. \<open>rep_at h k t\<close> says that
  the store \<open>h\<close> represents \<open>plug k t\<close>, with every parent pointer right and every address
  used once. The rotations and colour changes of the C code are moves on such pairs.
\<close>

datatype rbt = Lf | Nd rb_color rbt nat rbt

datatype frame = LeftHole rb_color nat rbt | RightHole rb_color rbt nat

fun root :: "rbt \<Rightarrow> ptr" where
  "root Lf = None"
| "root (Nd c l a r) = Some a"

fun inorder :: "rbt \<Rightarrow> nat list" where
  "inorder Lf = []"
| "inorder (Nd c l a r) = inorder l @ a # inorder r"

fun color_of :: "rbt \<Rightarrow> rb_color" where
  "color_of Lf = RB_BLACK"
| "color_of (Nd c l a r) = c"

fun paint :: "rb_color \<Rightarrow> rbt \<Rightarrow> rbt" where
  "paint c Lf = Lf"
| "paint c (Nd _ l a r) = Nd c l a r"

fun frame_addr :: "frame \<Rightarrow> nat" where
  "frame_addr (LeftHole c a r) = a"
| "frame_addr (RightHole c l a) = a"

fun up :: "frame list \<Rightarrow> ptr" where
  "up [] = None"
| "up (f # k) = Some (frame_addr f)"

fun plug :: "frame list \<Rightarrow> rbt \<Rightarrow> rbt" where
  "plug [] t = t"
| "plug (LeftHole c a r # k) t = plug k (Nd c t a r)"
| "plug (RightHole c l a # k) t = plug k (Nd c l a t)"

fun before :: "frame list \<Rightarrow> nat list" where
  "before [] = []"
| "before (LeftHole c a r # k) = before k"
| "before (RightHole c l a # k) = before k @ inorder l @ [a]"

fun after :: "frame list \<Rightarrow> nat list" where
  "after [] = []"
| "after (LeftHole c a r # k) = a # inorder r @ after k"
| "after (RightHole c l a # k) = after k"

abbreviation ctx_addrs :: "frame list \<Rightarrow> nat set" where
  "ctx_addrs k \<equiv> set (before k) \<union> set (after k)"

lemma inorder_plug: "inorder (plug k t) = before k @ inorder t @ after k"
  by (induction k t rule: plug.induct) simp_all

lemma inorder_paint [simp]: "inorder (paint c t) = inorder t"
  by (cases t) simp_all

lemma root_None_iff [simp]: "root t = None \<longleftrightarrow> t = Lf" "None = root t \<longleftrightarrow> t = Lf"
  by (cases t; simp)+

lemma root_in_inorder: "root t = Some a \<Longrightarrow> a \<in> set (inorder t)"
  by (cases t) auto

lemma up_in_ctx: "up k = Some a \<Longrightarrow> a \<in> ctx_addrs k"
  by (cases k rule: before.cases) auto

fun shape :: "(nat \<Rightarrow> rb_entry) \<Rightarrow> ptr \<Rightarrow> rbt \<Rightarrow> bool" where
  "shape m p Lf \<longleftrightarrow> True"
| "shape m p (Nd c l a r) \<longleftrightarrow>
     m a = \<lparr>rbe_left = root l, rbe_right = root r, rbe_parent = p, rbe_color = c\<rparr> \<and>
     shape m (Some a) l \<and> shape m (Some a) r"

fun shape_ctx :: "(nat \<Rightarrow> rb_entry) \<Rightarrow> ptr \<Rightarrow> frame list \<Rightarrow> bool" where
  "shape_ctx m p [] \<longleftrightarrow> True"
| "shape_ctx m p (LeftHole c a r # k) \<longleftrightarrow>
     m a = \<lparr>rbe_left = p, rbe_right = root r, rbe_parent = up k, rbe_color = c\<rparr> \<and>
     shape m (Some a) r \<and> shape_ctx m (Some a) k"
| "shape_ctx m p (RightHole c l a # k) \<longleftrightarrow>
     m a = \<lparr>rbe_left = root l, rbe_right = p, rbe_parent = up k, rbe_color = c\<rparr> \<and>
     shape m (Some a) l \<and> shape_ctx m (Some a) k"

definition top :: "frame list \<Rightarrow> ptr \<Rightarrow> ptr" where
  "top k p = (if k = [] then p else Some (frame_addr (last k)))"

lemma top_simps [simp]:
  "top [] p = p" "top [f] p = Some (frame_addr f)" "top (f # g # k) p = top (g # k) q"
  by (simp_all add: top_def)

lemma top_Cons: "top (f # k) p = top k (Some (frame_addr f))"
  by (simp add: top_def)

lemma root_plug: "root (plug k t) = top k (root t)"
  by (induction k t rule: plug.induct) (simp_all add: top_Cons)

lemma shape_plug: "shape m None (plug k t) \<longleftrightarrow> shape_ctx m (root t) k \<and> shape m (up k) t"
  by (induction k t rule: plug.induct) auto

definition rep :: "rb_head \<Rightarrow> rbt \<Rightarrow> bool" where
  "rep h t \<longleftrightarrow> rbh_root h = root t \<and> shape (rb_links h) None t \<and> distinct (inorder t)"

definition rep_at :: "rb_head \<Rightarrow> frame list \<Rightarrow> rbt \<Rightarrow> bool" where
  "rep_at h k t \<longleftrightarrow> rbh_root h = top k (root t) \<and> shape_ctx (rb_links h) (root t) k \<and>
     shape (rb_links h) (up k) t \<and> distinct (before k @ inorder t @ after k)"

lemma rep_plug: "rep h (plug k t) \<longleftrightarrow> rep_at h k t"
  by (auto simp: rep_def rep_at_def root_plug shape_plug inorder_plug)

lemma rep_at_LeftHole: "rep_at h (LeftHole c a r # k) t \<longleftrightarrow> rep_at h k (Nd c t a r)"
  by (metis rep_plug plug.simps(2))

lemma rep_at_RightHole: "rep_at h (RightHole c l a # k) t \<longleftrightarrow> rep_at h k (Nd c l a t)"
  by (metis rep_plug plug.simps(3))

section \<open>Frame rules\<close>

lemma shape_upd [simp]: "a \<notin> set (inorder t) \<Longrightarrow> shape (m(a := x)) p t = shape m p t"
  by (induction t arbitrary: p) auto

lemma shape_ctx_upd [simp]:
  "a \<notin> set (before k) \<Longrightarrow> a \<notin> set (after k) \<Longrightarrow> shape_ctx (m(a := x)) p k = shape_ctx m p k"
  by (induction k arbitrary: p rule: before.induct) auto

lemma shape_reparent:
  "shape m p (Nd c l a r) \<Longrightarrow> distinct (inorder (Nd c l a r)) \<Longrightarrow>
     shape (m(a := (m a)\<lparr>rbe_parent := q\<rparr>)) q (Nd c l a r)"
  by auto

section \<open>Reading and writing through pointers\<close>

named_theorems rb_ops \<open>the macros of tree.h at a non-null pointer\<close>

lemma rb_read [rb_ops]:
  "RB_LEFT h (Some a) = Some (rbe_left (rb_links h a))"
  "RB_RIGHT h (Some a) = Some (rbe_right (rb_links h a))"
  "RB_PARENT h (Some a) = Some (rbe_parent (rb_links h a))"
  "RB_COLOR h (Some a) = Some (rbe_color (rb_links h a))"
  by (simp_all add: RB_LEFT_def RB_RIGHT_def RB_PARENT_def RB_COLOR_def)

lemma rb_write [rb_ops]:
  "upd_link f h (Some a) = Some (h\<lparr>rb_links := (rb_links h)(a := f (rb_links h a))\<rparr>)"
  "set_left h (Some a) v = Some (h\<lparr>rb_links := (rb_links h)(a := (rb_links h a)\<lparr>rbe_left := v\<rparr>)\<rparr>)"
  "set_right h (Some a) v = Some (h\<lparr>rb_links := (rb_links h)(a := (rb_links h a)\<lparr>rbe_right := v\<rparr>)\<rparr>)"
  "set_parent h (Some a) v = Some (h\<lparr>rb_links := (rb_links h)(a := (rb_links h a)\<lparr>rbe_parent := v\<rparr>)\<rparr>)"
  "set_color h (Some a) c = Some (h\<lparr>rb_links := (rb_links h)(a := (rb_links h a)\<lparr>rbe_color := c\<rparr>)\<rparr>)"
  "set_parent_if h (Some a) v = Some (h\<lparr>rb_links := (rb_links h)(a := (rb_links h a)\<lparr>rbe_parent := v\<rparr>)\<rparr>)"
  "set_parent_if h None v = Some h"
  by (simp_all add: upd_link_def set_left_def set_right_def set_parent_def set_color_def
      set_parent_if_def)

lemma rb_is_red_shape:
  "shape (rb_links h) p t \<Longrightarrow> rb_is_red h (root t) \<longleftrightarrow> color_of t = RB_RED"
  by (cases t) (auto simp: rb_is_red_def)

section \<open>Rotations and colours\<close>

lemma rotate_left_rep:
  assumes "rep_at h k (Nd c l a (Nd d y b z))"
  shows "\<exists>h'. RB_ROTATE_LEFT h (Some a) = Some h' \<and> rep_at h' k (Nd d (Nd c l a y) b z)"
proof (cases k rule: before.cases)
  case 1
  then show ?thesis
    using assms by (cases y) (auto simp: rep_at_def RB_ROTATE_LEFT_def rb_relink_def rb_ops)
next
  case (2 e p r k')
  then show ?thesis
    using assms
    by (cases y) (auto simp: rep_at_def RB_ROTATE_LEFT_def rb_relink_def rb_ops top_Cons)
next
  case (3 e s p k')
  then have "root s \<noteq> Some a"
    using assms by (auto simp: rep_at_def dest: root_in_inorder)
  with 3 show ?thesis
    using assms
    by (cases y) (auto simp: rep_at_def RB_ROTATE_LEFT_def rb_relink_def rb_ops top_Cons)
qed

lemma rotate_right_rep:
  assumes "rep_at h k (Nd c (Nd d y b z) a r)"
  shows "\<exists>h'. RB_ROTATE_RIGHT h (Some a) = Some h' \<and> rep_at h' k (Nd d y b (Nd c z a r))"
proof (cases k rule: before.cases)
  case 1
  then show ?thesis
    using assms by (cases z) (auto simp: rep_at_def RB_ROTATE_RIGHT_def rb_relink_def rb_ops)
next
  case (2 e p r k')
  then show ?thesis
    using assms
    by (cases z) (auto simp: rep_at_def RB_ROTATE_RIGHT_def rb_relink_def rb_ops top_Cons)
next
  case (3 e s p k')
  then have "root s \<noteq> Some a"
    using assms by (auto simp: rep_at_def dest: root_in_inorder)
  with 3 show ?thesis
    using assms
    by (cases z) (auto simp: rep_at_def RB_ROTATE_RIGHT_def rb_relink_def rb_ops top_Cons)
qed

lemma set_color_rep:
  assumes "rep_at h k (Nd c l a r)"
  shows "\<exists>h'. set_color h (Some a) d = Some h' \<and> rep_at h' k (Nd d l a r)"
  using assms by (auto simp: rep_at_def rb_ops)

end
