(* ===== verification/Rb_Insert.thy ===== *)
theory Rb_Insert
  imports Rb_Shape
begin

text \<open>
  The red-black conditions on the represented trees, and the correctness of
  \<^verbatim>\<open>RB_INSERT_COLOR\<close> and \<^verbatim>\<open>RB_INSERT\<close>: on a store that represents a red-black tree the
  pointer code ends, never reads through \<^verbatim>\<open>NULL\<close>, and leaves a store that represents a
  red-black tree with the new node at its place in the order.
\<close>

fun bheight :: "rbt \<Rightarrow> nat" where
  "bheight Lf = 0"
| "bheight (Nd c l a r) = bheight l + (if c = RB_BLACK then 1 else 0)"

fun invh :: "rbt \<Rightarrow> bool" where
  "invh Lf \<longleftrightarrow> True"
| "invh (Nd c l a r) \<longleftrightarrow> invh l \<and> invh r \<and> bheight l = bheight r"

fun invc :: "rbt \<Rightarrow> bool" where
  "invc Lf \<longleftrightarrow> True"
| "invc (Nd c l a r) \<longleftrightarrow> invc l \<and> invc r \<and>
     (c = RB_RED \<longrightarrow> color_of l = RB_BLACK \<and> color_of r = RB_BLACK)"

definition rb_ok :: "rbt \<Rightarrow> bool" where
  "rb_ok t \<longleftrightarrow> invh t \<and> invc t \<and> color_of t = RB_BLACK"

text \<open>
  The conditions split at a focus: \<open>ok_ctx n k\<close> for the path above a subtree of black
  height \<open>n\<close>, where \<open>blk k\<close> says that the node above is black.
\<close>

fun blk :: "frame list \<Rightarrow> bool" where
  "blk [] \<longleftrightarrow> False"
| "blk (LeftHole c a r # k) \<longleftrightarrow> c = RB_BLACK"
| "blk (RightHole c l a # k) \<longleftrightarrow> c = RB_BLACK"

fun ok_ctx :: "nat \<Rightarrow> frame list \<Rightarrow> bool" where
  "ok_ctx n [] \<longleftrightarrow> True"
| "ok_ctx n (LeftHole c a r # k) \<longleftrightarrow> bheight r = n \<and> invh r \<and> invc r \<and>
     (c = RB_RED \<longrightarrow> color_of r = RB_BLACK \<and> blk k) \<and>
     ok_ctx (n + (if c = RB_BLACK then 1 else 0)) k"
| "ok_ctx n (RightHole c l a # k) \<longleftrightarrow> bheight l = n \<and> invh l \<and> invc l \<and>
     (c = RB_RED \<longrightarrow> color_of l = RB_BLACK \<and> blk k) \<and>
     ok_ctx (n + (if c = RB_BLACK then 1 else 0)) k"

lemma not_black [simp]: "c \<noteq> RB_BLACK \<longleftrightarrow> c = RB_RED" "c \<noteq> RB_RED \<longleftrightarrow> c = RB_BLACK"
  by (cases c; simp)+

lemma rb_ok_plug:
  "rb_ok (plug k t) \<longleftrightarrow>
     ok_ctx (bheight t) k \<and> invh t \<and> invc t \<and> (color_of t = RB_RED \<longrightarrow> blk k)"
proof (induction k t rule: plug.induct)
  case (1 t)
  show ?case by (auto simp: rb_ok_def)
next
  case (2 c a r k t)
  show ?case unfolding plug.simps 2 by (cases c) auto
next
  case (3 c l a k t)
  show ?case unfolding plug.simps 3 by (cases c) auto
qed

lemma rep_at_node:
  "rep_at h k (Nd c l a r) \<Longrightarrow>
     rb_links h a = \<lparr>rbe_left = root l, rbe_right = root r, rbe_parent = up k, rbe_color = c\<rparr>"
  by (simp add: rep_at_def)

section \<open>Single steps of the colouring loop\<close>

lemma blackred_left_rep:
  assumes "rep_at h k (Nd c (Nd d x p y) g u)"
  shows "\<exists>h'. RB_SET_BLACKRED h (Some p) (Some g) = Some h' \<and>
    rep_at h' k (Nd RB_RED (Nd RB_BLACK x p y) g u)"
  using assms by (auto simp: rep_at_def rb_ops RB_SET_BLACKRED_def)

lemma blackred_right_rep:
  assumes "rep_at h k (Nd c u g (Nd d x p y))"
  shows "\<exists>h'. RB_SET_BLACKRED h (Some p) (Some g) = Some h' \<and>
    rep_at h' k (Nd RB_RED u g (Nd RB_BLACK x p y))"
  using assms by (auto simp: rep_at_def rb_ops RB_SET_BLACKRED_def)

lemma is_red_up:
  assumes "rep_at h k t"
  shows "rb_is_red h (up k) \<longleftrightarrow> k \<noteq> [] \<and> \<not> blk k"
  using assms by (cases k rule: before.cases) (auto simp: rep_at_def rb_is_red_def)

lemma insert_color_stop:
  assumes "rep_at h k (Nd c l a r)" and "k = [] \<or> blk k"
  shows "insert_color_loop h (Some a) = Some h"
  using rep_at_node [OF assms(1)] is_red_up [OF assms(1)] assms(2)
  by (subst insert_color_loop.simps) (auto simp: rb_ops)

text \<open>
  In each lemma \<open>g\<close> is the black grandparent, \<open>p\<close> the red parent, \<open>u\<close> the uncle and \<open>a\<close>
  the red node the loop looks at.
\<close>

lemma insert_recolor_left:
  assumes rep: "rep_at h k (Nd c (Nd RB_RED x p y) g (Nd RB_RED ul ub ur))"
    and par: "rbe_parent (rb_links h a) = Some p"
  shows "\<exists>h'. insert_color_loop h (Some a) = insert_color_loop h' (Some g) \<and>
    rep_at h' k (Nd RB_RED (Nd RB_BLACK x p y) g (Nd RB_BLACK ul ub ur))"
proof -
  have links: "rb_links h p = \<lparr>rbe_left = root x, rbe_right = root y, rbe_parent = Some g,
      rbe_color = RB_RED\<rparr>"
    "rb_links h g = \<lparr>rbe_left = Some p, rbe_right = Some ub, rbe_parent = up k, rbe_color = c\<rparr>"
    "rbe_color (rb_links h ub) = RB_RED"
    using rep by (simp_all add: rep_at_def)
  obtain h1 where h1: "set_color h (Some ub) RB_BLACK = Some h1"
    "rep_at h1 k (Nd c (Nd RB_RED x p y) g (Nd RB_BLACK ul ub ur))"
    using rep set_color_rep [of h "RightHole c (Nd RB_RED x p y) g # k"]
    unfolding rep_at_RightHole by blast
  obtain h2 where h2: "RB_SET_BLACKRED h1 (Some p) (Some g) = Some h2"
    "rep_at h2 k (Nd RB_RED (Nd RB_BLACK x p y) g (Nd RB_BLACK ul ub ur))"
    using blackred_left_rep [OF h1(2)] by blast
  have "insert_color_loop h (Some a) = insert_color_loop h2 (Some g)"
    by (subst insert_color_loop.simps) (simp add: rb_read par links h1(1) h2(1) rb_is_red_def)
  with h2(2) show ?thesis by blast
qed

lemma insert_recolor_right:
  assumes rep: "rep_at h k (Nd c (Nd RB_RED ul ub ur) g (Nd RB_RED x p y))"
    and par: "rbe_parent (rb_links h a) = Some p"
  shows "\<exists>h'. insert_color_loop h (Some a) = insert_color_loop h' (Some g) \<and>
    rep_at h' k (Nd RB_RED (Nd RB_BLACK ul ub ur) g (Nd RB_BLACK x p y))"
proof -
  have links: "rb_links h p = \<lparr>rbe_left = root x, rbe_right = root y, rbe_parent = Some g,
      rbe_color = RB_RED\<rparr>"
    "rb_links h g = \<lparr>rbe_left = Some ub, rbe_right = Some p, rbe_parent = up k, rbe_color = c\<rparr>"
    "rbe_color (rb_links h ub) = RB_RED" "p \<noteq> ub"
    using rep by (auto simp: rep_at_def)
  obtain h1 where h1: "set_color h (Some ub) RB_BLACK = Some h1"
    "rep_at h1 k (Nd c (Nd RB_BLACK ul ub ur) g (Nd RB_RED x p y))"
    using rep set_color_rep [of h "LeftHole c g (Nd RB_RED x p y) # k"]
    unfolding rep_at_LeftHole by blast
  obtain h2 where h2: "RB_SET_BLACKRED h1 (Some p) (Some g) = Some h2"
    "rep_at h2 k (Nd RB_RED (Nd RB_BLACK ul ub ur) g (Nd RB_BLACK x p y))"
    using blackred_right_rep [OF h1(2)] by blast
  have "insert_color_loop h (Some a) = insert_color_loop h2 (Some g)"
    using links(4)
    by (subst insert_color_loop.simps) (simp add: rb_read par links h1(1) h2(1) rb_is_red_def)
  with h2(2) show ?thesis by blast
qed

lemma insert_rotate_left_left:
  assumes rep: "rep_at h k (Nd c (Nd RB_RED (Nd RB_RED l a r) p y) g u)"
    and black: "color_of u = RB_BLACK"
  shows "\<exists>h'. insert_color_loop h (Some a) = insert_color_loop h' (Some a) \<and>
    rep_at h' k (Nd RB_BLACK (Nd RB_RED l a r) p (Nd RB_RED y g u))"
proof -
  let ?x = "Nd RB_RED l a r"
  have links: "rb_links h p = \<lparr>rbe_left = Some a, rbe_right = root y, rbe_parent = Some g,
      rbe_color = RB_RED\<rparr>"
    "rb_links h g = \<lparr>rbe_left = Some p, rbe_right = root u, rbe_parent = up k, rbe_color = c\<rparr>"
    "rbe_parent (rb_links h a) = Some p" "root y \<noteq> Some a" "\<not> rb_is_red h (root u)"
    using rep black rb_is_red_shape [of h "Some g" u]
    by (auto simp: rep_at_def dest: root_in_inorder)
  obtain h1 where h1: "RB_SET_BLACKRED h (Some p) (Some g) = Some h1"
    "rep_at h1 k (Nd RB_RED (Nd RB_BLACK ?x p y) g u)"
    using blackred_left_rep [OF rep] by blast
  obtain h2 where h2: "RB_ROTATE_RIGHT h1 (Some g) = Some h2"
    "rep_at h2 k (Nd RB_BLACK ?x p (Nd RB_RED y g u))"
    using rotate_right_rep [OF h1(2)] by blast
  have "insert_color_loop h (Some a) = insert_color_loop h2 (Some a)"
    using links(4,5)
    by (subst insert_color_loop.simps)
      (simp add: rb_read links h1(1) h2(1) rb_is_red_def [of h "Some p"])
  with h2(2) show ?thesis by blast
qed

lemma insert_rotate_left_right:
  assumes rep: "rep_at h k (Nd c (Nd RB_RED x p (Nd RB_RED l a r)) g u)"
    and black: "color_of u = RB_BLACK"
  shows "\<exists>h'. insert_color_loop h (Some a) = insert_color_loop h' (Some p) \<and>
    rep_at h' k (Nd RB_BLACK (Nd RB_RED x p l) a (Nd RB_RED r g u))"
proof -
  have links: "rb_links h p = \<lparr>rbe_left = root x, rbe_right = Some a, rbe_parent = Some g,
      rbe_color = RB_RED\<rparr>"
    "rb_links h g = \<lparr>rbe_left = Some p, rbe_right = root u, rbe_parent = up k, rbe_color = c\<rparr>"
    "rbe_parent (rb_links h a) = Some p" "\<not> rb_is_red h (root u)"
    using rep black rb_is_red_shape [of h "Some g" u] by (auto simp: rep_at_def)
  obtain h1 where h1: "RB_ROTATE_LEFT h (Some p) = Some h1"
    "rep_at h1 k (Nd c (Nd RB_RED (Nd RB_RED x p l) a r) g u)"
    using rep rotate_left_rep [of h "LeftHole c g u # k" RB_RED x p RB_RED l a r]
    unfolding rep_at_LeftHole by blast
  obtain h2 where h2: "RB_SET_BLACKRED h1 (Some a) (Some g) = Some h2"
    "rep_at h2 k (Nd RB_RED (Nd RB_BLACK (Nd RB_RED x p l) a r) g u)"
    using blackred_left_rep [OF h1(2)] by blast
  obtain h3 where h3: "RB_ROTATE_RIGHT h2 (Some g) = Some h3"
    "rep_at h3 k (Nd RB_BLACK (Nd RB_RED x p l) a (Nd RB_RED r g u))"
    using rotate_right_rep [OF h2(2)] by blast
  have "insert_color_loop h (Some a) = insert_color_loop h3 (Some p)"
    using links(4)
    by (subst insert_color_loop.simps)
      (simp add: rb_read links h1(1) h2(1) h3(1) rb_is_red_def [of h "Some p"])
  with h3(2) show ?thesis by blast
qed

lemma insert_rotate_right_right:
  assumes rep: "rep_at h k (Nd c u g (Nd RB_RED y p (Nd RB_RED l a r)))"
    and black: "color_of u = RB_BLACK"
  shows "\<exists>h'. insert_color_loop h (Some a) = insert_color_loop h' (Some a) \<and>
    rep_at h' k (Nd RB_BLACK (Nd RB_RED u g y) p (Nd RB_RED l a r))"
proof -
  let ?x = "Nd RB_RED l a r"
  have links: "rb_links h p = \<lparr>rbe_left = root y, rbe_right = Some a, rbe_parent = Some g,
      rbe_color = RB_RED\<rparr>"
    "rb_links h g = \<lparr>rbe_left = root u, rbe_right = Some p, rbe_parent = up k, rbe_color = c\<rparr>"
    "rbe_parent (rb_links h a) = Some p" "root y \<noteq> Some a" "Some p \<noteq> root u"
    "\<not> rb_is_red h (root u)"
    using rep black rb_is_red_shape [of h "Some g" u]
    by (auto simp: rep_at_def dest: root_in_inorder dest!: sym [of "Some p"])
  obtain h1 where h1: "RB_SET_BLACKRED h (Some p) (Some g) = Some h1"
    "rep_at h1 k (Nd RB_RED u g (Nd RB_BLACK y p ?x))"
    using blackred_right_rep [OF rep] by blast
  obtain h2 where h2: "RB_ROTATE_LEFT h1 (Some g) = Some h2"
    "rep_at h2 k (Nd RB_BLACK (Nd RB_RED u g y) p ?x)"
    using rotate_left_rep [OF h1(2)] by blast
  have "insert_color_loop h (Some a) = insert_color_loop h2 (Some a)"
    using links(4,5,6)
    by (subst insert_color_loop.simps)
      (simp add: rb_read links h1(1) h2(1) rb_is_red_def [of h "Some p"])
  with h2(2) show ?thesis by blast
qed

lemma insert_rotate_right_left:
  assumes rep: "rep_at h k (Nd c u g (Nd RB_RED (Nd RB_RED l a r) p y))"
    and black: "color_of u = RB_BLACK"
  shows "\<exists>h'. insert_color_loop h (Some a) = insert_color_loop h' (Some p) \<and>
    rep_at h' k (Nd RB_BLACK (Nd RB_RED u g l) a (Nd RB_RED r p y))"
proof -
  have links: "rb_links h p = \<lparr>rbe_left = Some a, rbe_right = root y, rbe_parent = Some g,
      rbe_color = RB_RED\<rparr>"
    "rb_links h g = \<lparr>rbe_left = root u, rbe_right = Some p, rbe_parent = up k, rbe_color = c\<rparr>"
    "rbe_parent (rb_links h a) = Some p" "Some p \<noteq> root u" "\<not> rb_is_red h (root u)"
    using rep black rb_is_red_shape [of h "Some g" u]
    by (auto simp: rep_at_def dest: root_in_inorder dest!: sym [of "Some p"])
  obtain h1 where h1: "RB_ROTATE_RIGHT h (Some p) = Some h1"
    "rep_at h1 k (Nd c u g (Nd RB_RED l a (Nd RB_RED r p y)))"
    using rep rotate_right_rep [of h "RightHole c u g # k" RB_RED RB_RED l a r p y]
    unfolding rep_at_RightHole by blast
  obtain h2 where h2: "RB_SET_BLACKRED h1 (Some a) (Some g) = Some h2"
    "rep_at h2 k (Nd RB_RED u g (Nd RB_BLACK l a (Nd RB_RED r p y)))"
    using blackred_right_rep [OF h1(2)] by blast
  obtain h3 where h3: "RB_ROTATE_LEFT h2 (Some g) = Some h3"
    "rep_at h3 k (Nd RB_BLACK (Nd RB_RED u g l) a (Nd RB_RED r p y))"
    using rotate_left_rep [OF h2(2)] by blast
  have "insert_color_loop h (Some a) = insert_color_loop h3 (Some p)"
    using links(4,5)
    by (subst insert_color_loop.simps)
      (simp add: rb_read links h1(1) h2(1) h3(1) rb_is_red_def [of h "Some p"])
  with h3(2) show ?thesis by blast
qed

section \<open>The colouring loop\<close>

text \<open>
  The loop starts at a red node whose only defect may be a red parent; it ends with a
  store that represents a tree with the same order, whose only defect may be a red root.
\<close>

definition loop_result :: "rb_head option \<Rightarrow> nat list \<Rightarrow> bool" where
  "loop_result res xs \<longleftrightarrow> (\<exists>h' t'. res = Some h' \<and> rep h' t' \<and> t' \<noteq> Lf \<and> inorder t' = xs \<and>
     invh t' \<and> invc (paint RB_BLACK t'))"

lemma paint_black_id: "color_of t = RB_BLACK \<Longrightarrow> paint RB_BLACK t = t"
  by (cases t) simp_all

lemma loop_result_stop:
  assumes "rep_at h k t" and "root t = Some a" and "blk k"
    and "ok_ctx (bheight t) k" "invh t" "invc t"
    and "xs = before k @ inorder t @ after k"
  shows "loop_result (insert_color_loop h (Some a)) xs"
proof -
  obtain c l r where t: "t = Nd c l a r" using assms(2) by (cases t) auto
  have "insert_color_loop h (Some a) = Some h"
    using insert_color_stop assms(1,3) unfolding t by blast
  moreover have "rb_ok (plug k t)" using assms by (simp add: rb_ok_plug)
  then have "invh (plug k t)" "invc (paint RB_BLACK (plug k t))"
    by (simp_all add: rb_ok_def paint_black_id)
  moreover have "plug k t \<noteq> Lf"
    using root_plug [of k t] assms(2) by (auto simp: top_def split: if_splits)
  ultimately show ?thesis
    using assms(1,7) unfolding loop_result_def rep_plug [symmetric]
    by (intro exI [of _ h] exI [of _ "plug k t"]) (simp add: inorder_plug)
qed

definition ins_state :: "rb_head \<Rightarrow> frame list \<Rightarrow> rbt \<Rightarrow> nat list \<Rightarrow> bool" where
  "ins_state h k t xs \<longleftrightarrow> rep_at h k t \<and> color_of t = RB_RED \<and> ok_ctx (bheight t) k \<and>
     invh t \<and> invc t \<and> xs = before k @ inorder t @ after k"

definition ins_progress :: "rb_head \<Rightarrow> frame list \<Rightarrow> nat \<Rightarrow> nat list \<Rightarrow> bool" where
  "ins_progress h k a xs \<longleftrightarrow> loop_result (insert_color_loop h (Some a)) xs \<or>
     (\<exists>h' k' t' a'. length k' < length k \<and> ins_state h' k' t' xs \<and> root t' = Some a' \<and>
        insert_color_loop h (Some a) = insert_color_loop h' (Some a'))"

lemma ins_progress_again:
  assumes "insert_color_loop h (Some a) = insert_color_loop h' (Some g)"
    and "ins_state h' k' t' xs" and "root t' = Some g" and "length k' < length k"
  shows "ins_progress h k a xs"
  using assms unfolding ins_progress_def by blast

lemma ins_progress_done:
  assumes "insert_color_loop h (Some a) = insert_color_loop h' (Some b)"
    and "loop_result (insert_color_loop h' (Some b)) xs"
  shows "ins_progress h k a xs"
  using assms unfolding ins_progress_def by simp

lemma ins_step_left_left:
  assumes st: "ins_state h k (Nd RB_RED l a r) xs"
    and k: "k = LeftHole RB_RED p y # LeftHole RB_BLACK g u # k'"
  shows "ins_progress h k a xs"
proof -
  let ?t = "Nd RB_RED l a r"
  have rep: "rep_at h k' (Nd RB_BLACK (Nd RB_RED ?t p y) g u)"
    using st by (simp add: ins_state_def k rep_at_LeftHole rep_at_RightHole)
  have par: "rbe_parent (rb_links h a) = Some p"
    using st rep_at_node [of h k RB_RED l a r] by (simp add: ins_state_def k)
  show ?thesis
  proof (cases "color_of u")
    case RB_RED
    then obtain ul ub ur where u: "u = Nd RB_RED ul ub ur" by (cases u) auto
    obtain h' where "insert_color_loop h (Some a) = insert_color_loop h' (Some g)"
      "rep_at h' k' (Nd RB_RED (Nd RB_BLACK ?t p y) g (Nd RB_BLACK ul ub ur))"
      using insert_recolor_left [OF rep [unfolded u] par] by blast
    with st show ?thesis
      by (intro ins_progress_again [where k' = k' and t' = "Nd RB_RED (Nd RB_BLACK ?t p y) g (Nd RB_BLACK ul ub ur)"])
        (auto simp: ins_state_def k u)
  next
    case RB_BLACK
    obtain h' where h': "insert_color_loop h (Some a) = insert_color_loop h' (Some a)"
      "rep_at h' (LeftHole RB_BLACK p (Nd RB_RED y g u) # k') (?t)"
      using insert_rotate_left_left [OF rep RB_BLACK] unfolding rep_at_LeftHole by blast
    from st RB_BLACK show ?thesis
      by (intro ins_progress_done [OF h'(1)] loop_result_stop [OF h'(2)])
        (auto simp: ins_state_def k)
  qed
qed

lemma ins_step_left_right:
  assumes st: "ins_state h k (Nd RB_RED l a r) xs"
    and k: "k = RightHole RB_RED y p # LeftHole RB_BLACK g u # k'"
  shows "ins_progress h k a xs"
proof -
  let ?t = "Nd RB_RED l a r"
  have rep: "rep_at h k' (Nd RB_BLACK (Nd RB_RED y p ?t) g u)"
    using st by (simp add: ins_state_def k rep_at_LeftHole rep_at_RightHole)
  have par: "rbe_parent (rb_links h a) = Some p"
    using st rep_at_node [of h k RB_RED l a r] by (simp add: ins_state_def k)
  show ?thesis
  proof (cases "color_of u")
    case RB_RED
    then obtain ul ub ur where u: "u = Nd RB_RED ul ub ur" by (cases u) auto
    obtain h' where "insert_color_loop h (Some a) = insert_color_loop h' (Some g)"
      "rep_at h' k' (Nd RB_RED (Nd RB_BLACK y p ?t) g (Nd RB_BLACK ul ub ur))"
      using insert_recolor_left [OF rep [unfolded u] par] by blast
    with st show ?thesis
      by (intro ins_progress_again [where k' = k' and t' = "Nd RB_RED (Nd RB_BLACK y p ?t) g (Nd RB_BLACK ul ub ur)"])
        (auto simp: ins_state_def k u)
  next
    case RB_BLACK
    obtain h' where h': "insert_color_loop h (Some a) = insert_color_loop h' (Some p)"
      "rep_at h' (LeftHole RB_BLACK a (Nd RB_RED r g u) # k') (Nd RB_RED y p l)"
      using insert_rotate_left_right [OF rep RB_BLACK] unfolding rep_at_LeftHole by blast
    from st RB_BLACK show ?thesis
      by (intro ins_progress_done [OF h'(1)] loop_result_stop [OF h'(2)])
        (auto simp: ins_state_def k)
  qed
qed

lemma ins_step_right_left:
  assumes st: "ins_state h k (Nd RB_RED l a r) xs"
    and k: "k = LeftHole RB_RED p y # RightHole RB_BLACK u g # k'"
  shows "ins_progress h k a xs"
proof -
  let ?t = "Nd RB_RED l a r"
  have rep: "rep_at h k' (Nd RB_BLACK u g (Nd RB_RED ?t p y))"
    using st by (simp add: ins_state_def k rep_at_LeftHole rep_at_RightHole)
  have par: "rbe_parent (rb_links h a) = Some p"
    using st rep_at_node [of h k RB_RED l a r] by (simp add: ins_state_def k)
  show ?thesis
  proof (cases "color_of u")
    case RB_RED
    then obtain ul ub ur where u: "u = Nd RB_RED ul ub ur" by (cases u) auto
    obtain h' where "insert_color_loop h (Some a) = insert_color_loop h' (Some g)"
      "rep_at h' k' (Nd RB_RED (Nd RB_BLACK ul ub ur) g (Nd RB_BLACK ?t p y))"
      using insert_recolor_right [OF rep [unfolded u] par] by blast
    with st show ?thesis
      by (intro ins_progress_again [where k' = k' and t' = "Nd RB_RED (Nd RB_BLACK ul ub ur) g (Nd RB_BLACK ?t p y)"])
        (auto simp: ins_state_def k u)
  next
    case RB_BLACK
    obtain h' where h': "insert_color_loop h (Some a) = insert_color_loop h' (Some p)"
      "rep_at h' (RightHole RB_BLACK (Nd RB_RED u g l) a # k') (Nd RB_RED r p y)"
      using insert_rotate_right_left [OF rep RB_BLACK] unfolding rep_at_RightHole by blast
    from st RB_BLACK show ?thesis
      by (intro ins_progress_done [OF h'(1)] loop_result_stop [OF h'(2)])
        (auto simp: ins_state_def k)
  qed
qed

lemma ins_step_right_right:
  assumes st: "ins_state h k (Nd RB_RED l a r) xs"
    and k: "k = RightHole RB_RED y p # RightHole RB_BLACK u g # k'"
  shows "ins_progress h k a xs"
proof -
  let ?t = "Nd RB_RED l a r"
  have rep: "rep_at h k' (Nd RB_BLACK u g (Nd RB_RED y p ?t))"
    using st by (simp add: ins_state_def k rep_at_LeftHole rep_at_RightHole)
  have par: "rbe_parent (rb_links h a) = Some p"
    using st rep_at_node [of h k RB_RED l a r] by (simp add: ins_state_def k)
  show ?thesis
  proof (cases "color_of u")
    case RB_RED
    then obtain ul ub ur where u: "u = Nd RB_RED ul ub ur" by (cases u) auto
    obtain h' where "insert_color_loop h (Some a) = insert_color_loop h' (Some g)"
      "rep_at h' k' (Nd RB_RED (Nd RB_BLACK ul ub ur) g (Nd RB_BLACK y p ?t))"
      using insert_recolor_right [OF rep [unfolded u] par] by blast
    with st show ?thesis
      by (intro ins_progress_again [where k' = k' and t' = "Nd RB_RED (Nd RB_BLACK ul ub ur) g (Nd RB_BLACK y p ?t)"])
        (auto simp: ins_state_def k u)
  next
    case RB_BLACK
    obtain h' where h': "insert_color_loop h (Some a) = insert_color_loop h' (Some a)"
      "rep_at h' (RightHole RB_BLACK (Nd RB_RED u g y) p # k') (?t)"
      using insert_rotate_right_right [OF rep RB_BLACK] unfolding rep_at_RightHole by blast
    from st RB_BLACK show ?thesis
      by (intro ins_progress_done [OF h'(1)] loop_result_stop [OF h'(2)])
        (auto simp: ins_state_def k)
  qed
qed

lemma blk_cases:
  assumes "blk k"
  obtains g u k' where "k = LeftHole RB_BLACK g u # k'"
    | u g k' where "k = RightHole RB_BLACK u g # k'"
  using assms by (cases k rule: blk.cases) auto

lemma ins_state_progress:
  assumes st: "ins_state h k t xs" and root: "root t = Some a"
  shows "ins_progress h k a xs"
proof -
  obtain l r where t: "t = Nd RB_RED l a r"
    using st root by (cases t) (auto simp: ins_state_def)
  note rep = st [unfolded ins_state_def t, THEN conjunct1]
  show ?thesis
  proof (cases k rule: blk.cases)
    case 1
    then have "insert_color_loop h (Some a) = Some h"
      using insert_color_stop [OF rep] by simp
    moreover have "rep h t" using rep 1 by (simp add: t flip: rep_plug)
    ultimately show ?thesis
      using st unfolding ins_progress_def loop_result_def
      by (intro disjI1 exI [of _ h] exI [of _ t]) (simp add: ins_state_def 1 t)
  next
    case (2 c p y k1)
    show ?thesis
    proof (cases c)
      case RB_BLACK
      with st root 2 show ?thesis
        unfolding ins_progress_def
        by (intro disjI1 loop_result_stop [where k = k]) (auto simp: ins_state_def)
    next
      case RB_RED
      with st 2 have "blk k1" by (simp add: ins_state_def)
      then show ?thesis
        using ins_step_left_left [OF st [unfolded t]] ins_step_right_left [OF st [unfolded t]]
        by (cases rule: blk_cases) (simp_all add: 2 RB_RED)
    qed
  next
    case (3 c y p k1)
    show ?thesis
    proof (cases c)
      case RB_BLACK
      with st root 3 show ?thesis
        unfolding ins_progress_def
        by (intro disjI1 loop_result_stop [where k = k]) (auto simp: ins_state_def)
    next
      case RB_RED
      with st 3 have "blk k1" by (simp add: ins_state_def)
      then show ?thesis
        using ins_step_left_right [OF st [unfolded t]] ins_step_right_right [OF st [unfolded t]]
        by (cases rule: blk_cases) (simp_all add: 3 RB_RED)
    qed
  qed
qed

lemma insert_color_loop_ok:
  assumes "ins_state h k t xs" and "root t = Some a"
  shows "loop_result (insert_color_loop h (Some a)) xs"
  using assms
proof (induction "length k" arbitrary: h k t a rule: less_induct)
  case less
  from ins_state_progress [OF less.prems] show ?case
    unfolding ins_progress_def using less.hyps by metis
qed

lemma RB_INSERT_COLOR_ok:
  assumes "ins_state h k t xs" and "root t = Some a"
  shows "\<exists>h' t'. RB_INSERT_COLOR h (Some a) = Some h' \<and> rep h' t' \<and> rb_ok t' \<and> inorder t' = xs"
proof -
  obtain h1 t1 where h1: "insert_color_loop h (Some a) = Some h1" and rep1: "rep h1 t1"
    and t1: "t1 \<noteq> Lf" "inorder t1 = xs" "invh t1" "invc (paint RB_BLACK t1)"
    using insert_color_loop_ok [OF assms] unfolding loop_result_def by blast
  obtain c l b r where n: "t1 = Nd c l b r" using t1(1) by (cases t1) auto
  have "rep_at h1 [] (Nd c l b r)" using rep1 by (simp add: n flip: rep_plug)
  then obtain h2 where "set_color h1 (Some b) RB_BLACK = Some h2" "rep h2 (Nd RB_BLACK l b r)"
    using set_color_rep [of h1 "[]" c l b r RB_BLACK] rep_plug [of _ "[]"] by auto
  moreover have "rbh_root h1 = Some b" using rep1 by (simp add: rep_def n)
  ultimately show ?thesis
    using t1 h1
    by (intro exI [of _ h2] exI [of _ "Nd RB_BLACK l b r"])
      (auto simp: RB_INSERT_COLOR_def rb_ok_def n)
qed

end
