(* ===== verification/Rb_Search.thy ===== *)
theory Rb_Search
  imports Rb_Insert
begin

text \<open>
  Search, insertion and traversal of \<^verbatim>\<open>src/tree.h\<close> against the sequence of elements. The
  comparison of the wanted element with the elements of a tree must cut the sequence:
  \<open>cut cmp xs\<close> holds when every element after one that is not smaller is larger, which any
  strict order of the keys gives.
\<close>

definition cut :: "(nat \<Rightarrow> int) \<Rightarrow> nat list \<Rightarrow> bool" where
  "cut cmp xs \<longleftrightarrow> sorted_wrt (\<lambda>a b. cmp a \<le> 0 \<longrightarrow> cmp b < 0) xs"

lemma cut_append:
  "cut cmp (xs @ ys) \<longleftrightarrow> cut cmp xs \<and> cut cmp ys \<and>
     (\<forall>a\<in>set xs. \<forall>b\<in>set ys. cmp a \<le> 0 \<longrightarrow> cmp b < 0)"
  by (simp add: cut_def sorted_wrt_append)

lemma cut_Cons:
  "cut cmp (a # ys) \<longleftrightarrow> cut cmp ys \<and> (cmp a \<le> 0 \<longrightarrow> (\<forall>b\<in>set ys. cmp b < 0))"
  by (auto simp: cut_def)

lemma cut_before: "cut cmp (xs @ a # ys) \<Longrightarrow> 0 \<le> cmp a \<Longrightarrow> b \<in> set xs \<Longrightarrow> 0 < cmp b"
  unfolding cut_append by (meson linorder_not_less list.set_intros(1))

lemma cut_after: "cut cmp (xs @ a # ys) \<Longrightarrow> cmp a \<le> 0 \<Longrightarrow> b \<in> set ys \<Longrightarrow> cmp b < 0"
  unfolding cut_append cut_Cons by blast

text \<open>A comparison by a key, on a sequence that increases strictly in the key.\<close>

definition by_key :: "('k::linorder) \<Rightarrow> (nat \<Rightarrow> 'k) \<Rightarrow> (nat \<Rightarrow> int) \<Rightarrow> nat set \<Rightarrow> bool" where
  "by_key x key cmp A \<longleftrightarrow> (\<forall>a\<in>A. (cmp a < 0 \<longleftrightarrow> x < key a) \<and> (cmp a = 0 \<longleftrightarrow> x = key a))"

lemma by_key_cut:
  assumes "by_key x key cmp (set xs)" and "sorted_wrt (\<lambda>a b. key a < key b) xs"
  shows "cut cmp xs"
  unfolding cut_def
proof (rule sorted_wrt_mono_rel [OF _ assms(2)])
  fix a b
  assume ab: "a \<in> set xs" "b \<in> set xs" "key a < key b"
  then have "x \<le> key a" if "cmp a \<le> 0"
    using that assms(1) unfolding by_key_def by (metis order_le_less)
  with ab assms(1) show "cmp a \<le> 0 \<longrightarrow> cmp b < 0"
    unfolding by_key_def by (metis order_le_less_trans)
qed

section \<open>Search\<close>

lemma find_none: "(\<forall>a\<in>set xs. cmp a \<noteq> (0::int)) \<Longrightarrow> find (\<lambda>a. cmp a = 0) xs = None"
  by (simp add: find_None_iff)

lemma find_append:
  "find P (xs @ ys) = (case find P xs of None \<Rightarrow> find P ys | Some a \<Rightarrow> Some a)"
  by (induction xs) simp_all

lemma rb_find_loop_ok:
  assumes "shape (rb_links h) p t" and "cut cmp (inorder t)"
  shows "rb_find_loop cmp h (root t) = Some (find (\<lambda>a. cmp a = 0) (inorder t))"
  using assms
proof (induction t arbitrary: p)
  case Lf
  then show ?case by (subst rb_find_loop.simps) simp
next
  case (Nd c l a r)
  have links: "rbe_left (rb_links h a) = root l" "rbe_right (rb_links h a) = root r"
    using Nd.prems(1) by simp_all
  have IH: "rb_find_loop cmp h (root l) = Some (find (\<lambda>a. cmp a = 0) (inorder l))"
    "rb_find_loop cmp h (root r) = Some (find (\<lambda>a. cmp a = 0) (inorder r))"
    using Nd.prems by (intro Nd.IH [of "Some a"]; simp add: cut_append cut_Cons)+
  have l: "find (\<lambda>a. cmp a = 0) (inorder l) = None" if "cmp a \<ge> 0"
    using that cut_before [of cmp "inorder l" a "inorder r"] Nd.prems(2)
    by (intro find_none) force
  have r: "find (\<lambda>a. cmp a = 0) (inorder r) = None" if "cmp a < 0"
    using that cut_after [of cmp "inorder l" a "inorder r"] Nd.prems(2)
    by (intro find_none) force
  show ?case
    using l r
    by (subst rb_find_loop.simps) (auto simp: links IH find_append split: option.split)
qed

lemma RB_FIND_ok:
  assumes "rep h t" and "cut cmp (inorder t)"
  shows "RB_FIND cmp h = Some (find (\<lambda>a. cmp a = 0) (inorder t))"
  using assms rb_find_loop_ok [of h None t cmp] by (simp add: RB_FIND_def rep_def)

text \<open>A search for a key that no element has ends without a result, whatever the order.\<close>

lemma rb_find_loop_absent:
  assumes "shape (rb_links h) p t" and "\<forall>a\<in>set (inorder t). cmp a \<noteq> 0"
  shows "rb_find_loop cmp h (root t) = Some None"
  using assms
proof (induction t arbitrary: p)
  case (Nd c l a r)
  then have "rb_find_loop cmp h (root l) = Some None" "rb_find_loop cmp h (root r) = Some None"
    by (intro Nd.IH [of "Some a"]; simp)+
  with Nd.prems show ?case by (subst rb_find_loop.simps) auto
qed (subst rb_find_loop.simps, simp)

lemma RB_FIND_absent:
  "rep h t \<Longrightarrow> \<forall>a\<in>set (inorder t). cmp a \<noteq> 0 \<Longrightarrow> RB_FIND cmp h = Some None"
  using rb_find_loop_absent [of h None t cmp] by (simp add: RB_FIND_def rep_def)

lemma rb_nfind_loop_ok:
  assumes "shape (rb_links h) p t" and "cut cmp (inorder t)"
  shows "rb_nfind_loop cmp h (root t) res =
    Some (case find (\<lambda>a. cmp a \<le> 0) (inorder t) of None \<Rightarrow> res | Some a \<Rightarrow> Some a)"
  using assms
proof (induction t arbitrary: p res)
  case Lf
  then show ?case by (subst rb_nfind_loop.simps) simp
next
  case (Nd c l a r)
  have links: "rbe_left (rb_links h a) = root l" "rbe_right (rb_links h a) = root r"
    using Nd.prems(1) by simp_all
  have IH: "rb_nfind_loop cmp h (root l) res = Some (case find (\<lambda>a. cmp a \<le> 0) (inorder l) of
      None \<Rightarrow> res | Some a \<Rightarrow> Some a)"
    "rb_nfind_loop cmp h (root r) res = Some (case find (\<lambda>a. cmp a \<le> 0) (inorder r) of
      None \<Rightarrow> res | Some a \<Rightarrow> Some a)" for res
    using Nd.prems by (intro Nd.IH [of "Some a"]; simp add: cut_append cut_Cons)+
  have l: "find (\<lambda>a. cmp a \<le> 0) (inorder l) = None" if "cmp a \<ge> 0"
    using that cut_before [of cmp "inorder l" a "inorder r"] Nd.prems(2)
    by (force simp: find_None_iff)
  show ?case
    using l
    by (subst rb_nfind_loop.simps) (auto simp: links IH find_append split: option.split)
qed

lemma RB_NFIND_ok:
  assumes "rep h t" and "cut cmp (inorder t)"
  shows "RB_NFIND cmp h = Some (find (\<lambda>a. cmp a \<le> 0) (inorder t))"
proof -
  have "rb_nfind_loop cmp h (root t) None = Some (find (\<lambda>a. cmp a \<le> 0) (inorder t))"
    using assms by (subst rb_nfind_loop_ok) (auto simp: rep_def split: option.splits)
  then show ?thesis using assms(1) by (simp add: RB_NFIND_def rep_def)
qed

section \<open>Insertion\<close>

text \<open>
  The descent either stops at an equal element or at the place of the new one, between
  the smaller and the larger elements.
\<close>

definition hole_side :: "frame list \<Rightarrow> int \<Rightarrow> bool" where
  "hole_side k c \<longleftrightarrow>
     (case k of [] \<Rightarrow> True | LeftHole _ _ _ # _ \<Rightarrow> c < 0 | RightHole _ _ _ # _ \<Rightarrow> c > 0)"

definition ins_place ::
  "(nat \<Rightarrow> int) \<Rightarrow> rb_head \<Rightarrow> rbt \<Rightarrow> frame list \<Rightarrow> int \<Rightarrow> bool" where
  "ins_place cmp h T k c \<longleftrightarrow> rep_at h k Lf \<and> plug k Lf = T \<and>
     (\<forall>a\<in>set (before k). cmp a > 0) \<and> (\<forall>a\<in>set (after k). cmp a < 0) \<and>
     hole_side k c"

definition descended ::
  "(nat \<Rightarrow> int) \<Rightarrow> rb_head \<Rightarrow> rbt \<Rightarrow> nat set \<Rightarrow> ((ptr \<times> int) + nat) option \<Rightarrow> bool" where
  "descended cmp h T A res \<longleftrightarrow>
     (\<exists>a\<in>A. cmp a = 0 \<and> res = Some (Inr a)) \<or>
     (\<exists>k c. res = Some (Inl (up k, c)) \<and> ins_place cmp h T k c)"

lemma descended_mono: "descended cmp h T A res \<Longrightarrow> A \<subseteq> B \<Longrightarrow> descended cmp h T B res"
  by (auto simp: descended_def)

lemma insert_descend_ok:
  assumes "rep_at h k t" and "cut cmp (inorder t)"
    and "\<forall>a\<in>set (before k). cmp a > 0" and "\<forall>a\<in>set (after k). cmp a < 0"
    and "hole_side k c"
  shows "descended cmp h (plug k t) (set (inorder t)) (insert_descend cmp h (root t) (up k) c)"
  using assms
proof (induction t arbitrary: k c)
  case Lf
  then show ?case
    by (subst insert_descend.simps) (auto simp: ins_place_def descended_def hole_side_def)
next
  case (Nd d l a r)
  have links: "rbe_left (rb_links h a) = root l" "rbe_right (rb_links h a) = root r"
    using Nd.prems(1) by (simp_all add: rep_at_def)
  have cuts: "cut cmp (inorder l)" "cut cmp (inorder r)"
    using Nd.prems(2) by (simp_all add: cut_append cut_Cons)
  consider "cmp a < 0" | "cmp a > 0" | "cmp a = 0" by linarith
  then show ?case
  proof cases
    case 1
    have eq: "insert_descend cmp h (root (Nd d l a r)) (up k) c =
        insert_descend cmp h (root l) (up (LeftHole d a r # k)) (cmp a)"
      by (subst insert_descend.simps) (simp add: 1 links)
    have "\<forall>b\<in>set (inorder r). cmp b < 0"
      using Nd.prems(2) 1 by (simp add: cut_append cut_Cons)
    then have "descended cmp h (plug (LeftHole d a r # k) l) (set (inorder l))
        (insert_descend cmp h (root l) (up (LeftHole d a r # k)) (cmp a))"
      using Nd.prems 1 cuts(1)
      by (intro Nd.IH(1)) (auto simp: rep_at_LeftHole hole_side_def)
    then show ?thesis unfolding eq plug.simps by (rule descended_mono) auto
  next
    case 2
    have eq: "insert_descend cmp h (root (Nd d l a r)) (up k) c =
        insert_descend cmp h (root r) (up (RightHole d l a # k)) (cmp a)"
      using 2 by (subst insert_descend.simps) (simp add: links)
    have "\<forall>b\<in>set (inorder l). cmp b > 0"
      using Nd.prems(2) 2 cut_before [of cmp "inorder l" a "inorder r"] by simp
    then have "descended cmp h (plug (RightHole d l a # k) r) (set (inorder r))
        (insert_descend cmp h (root r) (up (RightHole d l a # k)) (cmp a))"
      using Nd.prems 2 cuts(2)
      by (intro Nd.IH(2)) (auto simp: rep_at_RightHole hole_side_def)
    then show ?thesis unfolding eq plug.simps by (rule descended_mono) auto
  next
    case 3
    then have "insert_descend cmp h (root (Nd d l a r)) (up k) c = Some (Inr a)"
      by (subst insert_descend.simps) simp
    with 3 show ?thesis by (simp add: descended_def)
  qed
qed

text \<open>Hanging a fresh red leaf at the place that the descent found.\<close>

definition hang :: "rb_head \<Rightarrow> nat \<Rightarrow> ptr \<Rightarrow> int \<Rightarrow> rb_head option" where
  "hang h e parent c = do {
     h \<leftarrow> RB_SET h (Some e) parent;
     if parent \<noteq> None then
       if c < 0 then set_left h parent (Some e) else set_right h parent (Some e)
     else Some (h\<lparr>rbh_root := Some e\<rparr>)
   }"

lemma RB_INSERT_hang:
  "RB_INSERT cmp h e =
     (case insert_descend cmp h (rbh_root h) None 0 of
        None \<Rightarrow> None
      | Some (Inr a) \<Rightarrow> Some (h, Some a)
      | Some (Inl (parent, c)) \<Rightarrow> do {
          h \<leftarrow> hang h e parent c;
          h \<leftarrow> RB_INSERT_COLOR h (Some e);
          Some (h, None)
        })"
  unfolding RB_INSERT_def hang_def
  by (auto split: option.split sum.split prod.split simp: bind_assoc)

lemma hang_rep:
  assumes "rep_at h k Lf" and "hole_side k c" and "e \<notin> ctx_addrs k"
  shows "\<exists>h'. hang h e (up k) c = Some h' \<and> rep_at h' k (Nd RB_RED Lf e Lf)"
  using assms
  by (cases k rule: before.cases)
    (auto simp: hang_def RB_SET_def rep_at_def rb_ops hole_side_def top_Cons)

theorem RB_INSERT_ok:
  assumes "rep h t" and "rb_ok t" and "cut cmp (inorder t)" and "e \<notin> set (inorder t)"
  shows "(\<exists>a\<in>set (inorder t). cmp a = 0 \<and> RB_INSERT cmp h e = Some (h, Some a)) \<or>
    (\<exists>h' t' xs ys. RB_INSERT cmp h e = Some (h', None) \<and> rep h' t' \<and> rb_ok t' \<and>
       inorder t = xs @ ys \<and> inorder t' = xs @ e # ys \<and>
       (\<forall>a\<in>set xs. cmp a > 0) \<and> (\<forall>a\<in>set ys. cmp a < 0))"
proof -
  have "descended cmp h t (set (inorder t)) (insert_descend cmp h (rbh_root h) None 0)"
    using assms insert_descend_ok [of h "[]" t cmp 0] rep_plug [of h "[]" t]
    by (simp add: hole_side_def rep_def)
  then consider a where "a \<in> set (inorder t)" "cmp a = 0"
      "insert_descend cmp h (rbh_root h) None 0 = Some (Inr a)"
    | k c where "insert_descend cmp h (rbh_root h) None 0 = Some (Inl (up k, c))"
      "ins_place cmp h t k c"
    unfolding descended_def by blast
  then show ?thesis
  proof cases
    case 1
    then show ?thesis by (auto simp: RB_INSERT_hang)
  next
    case 2
    then have t: "t = plug k Lf" by (simp add: ins_place_def)
    obtain h1 where h1: "hang h e (up k) c = Some h1" "rep_at h1 k (Nd RB_RED Lf e Lf)"
      using hang_rep [of h k c e] 2(2) assms(4)
      by (auto simp: ins_place_def t inorder_plug)
    have "ins_state h1 k (Nd RB_RED Lf e Lf) (before k @ e # after k)"
      using h1(2) assms(2) by (simp add: ins_state_def t rb_ok_plug)
    then obtain h' t' where "RB_INSERT_COLOR h1 (Some e) = Some h'" "rep h' t'" "rb_ok t'"
      "inorder t' = before k @ e # after k"
      using RB_INSERT_COLOR_ok [of h1 k _ _ e] by fastforce
    then have "RB_INSERT cmp h e = Some (h', None) \<and> rep h' t' \<and> rb_ok t' \<and>
       inorder t = before k @ after k \<and> inorder t' = before k @ e # after k \<and>
       (\<forall>a\<in>set (before k). cmp a > 0) \<and> (\<forall>a\<in>set (after k). cmp a < 0)"
      using 2 h1(1) by (simp add: RB_INSERT_hang ins_place_def t inorder_plug)
    then show ?thesis by blast
  qed
qed

text \<open>The same with the decision made: an equal element is there or is not.\<close>

lemma RB_INSERT_dup:
  assumes "rep h t" and "rb_ok t" and "cut cmp (inorder t)" and "e \<notin> set (inorder t)"
    and "a \<in> set (inorder t)" and "cmp a = 0"
  shows "RB_INSERT cmp h e = Some (h, Some a)"
proof -
  have "a' = a" if "a' \<in> set (inorder t)" "cmp a' = 0" for a'
    using that assms(3,5,6) unfolding cut_def
    by (metis less_irrefl order_refl sorted_wrt_iff_nth_less in_set_conv_nth nat_neq_iff)
  moreover have False if "inorder t = xs @ ys" "\<forall>a\<in>set xs. cmp a > 0" "\<forall>a\<in>set ys. cmp a < 0"
    for xs ys
    using that assms(5,6) by auto
  ultimately show ?thesis using RB_INSERT_ok [OF assms(1-4)] by blast
qed

lemma RB_INSERT_new:
  assumes "rep h t" and "rb_ok t" and "cut cmp (inorder t)" and "e \<notin> set (inorder t)"
    and "\<forall>a\<in>set (inorder t). cmp a \<noteq> 0"
  obtains h' t' xs ys where "RB_INSERT cmp h e = Some (h', None)" "rep h' t'" "rb_ok t'"
    "inorder t = xs @ ys" "inorder t' = xs @ e # ys"
    "\<forall>a\<in>set xs. cmp a > 0" "\<forall>a\<in>set ys. cmp a < 0"
  using RB_INSERT_ok [OF assms(1-4)] assms(5) by blast

end
