(* ===== verification/Rb_Traverse.thy ===== *)
theory Rb_Traverse
  imports Rb_Shape
begin

text \<open>
  The walks of \<^verbatim>\<open>src/tree.h\<close>: \<^verbatim>\<open>RB_MIN\<close>, \<^verbatim>\<open>RB_MAX\<close>, \<^verbatim>\<open>RB_NEXT\<close>, \<^verbatim>\<open>RB_PREV\<close> and the loop
  \<^verbatim>\<open>RB_FOREACH\<close> follow the sequence of elements of the represented tree.
\<close>

definition first :: "nat list \<Rightarrow> ptr" where
  "first xs = (case xs of [] \<Rightarrow> None | a # _ \<Rightarrow> Some a)"

definition final :: "nat list \<Rightarrow> ptr" where
  "final xs = first (rev xs)"

lemma first_simps [simp]: "first [] = None" "first (a # xs) = Some a"
  by (simp_all add: first_def)

lemma final_simps [simp]: "final [] = None" "final [a] = Some a" "final (xs @ [a]) = Some a"
  by (simp_all add: final_def)

lemma first_append: "first (xs @ ys) = (if xs = [] then first ys else first xs)"
  by (cases xs) simp_all

lemma final_append: "final (xs @ ys) = (if ys = [] then final xs else final ys)"
  by (simp add: final_def first_append)

lemma inorder_Nil_iff [simp]: "inorder t = [] \<longleftrightarrow> t = Lf"
  by (cases t) simp_all

lemma find_node: "a \<in> set (inorder t) \<Longrightarrow> \<exists>k c l r. t = plug k (Nd c l a r)"
proof (induction t)
  case Lf
  then show ?case by simp
next
  case (Nd d s b u)
  then consider "a = b" | "a \<in> set (inorder s)" | "a \<in> set (inorder u)" by auto
  then show ?case
  proof cases
    case 1
    then show ?thesis by (metis plug.simps(1))
  next
    case 2
    then obtain k c l r where "s = plug k (Nd c l a r)" using Nd.IH(1) by blast
    moreover have "plug (k @ [LeftHole d b u]) t = Nd d (plug k t) b u" for t
      by (induction k t rule: plug.induct) simp_all
    ultimately show ?thesis by metis
  next
    case 3
    then obtain k c l r where "u = plug k (Nd c l a r)" using Nd.IH(2) by blast
    moreover have "plug (k @ [RightHole d s b]) t = Nd d s b (plug k t)" for t
      by (induction k t rule: plug.induct) simp_all
    ultimately show ?thesis by metis
  qed
qed

lemma focus:
  assumes "rep h t" and "inorder t = xs @ a # ys"
  obtains k c l r where "t = plug k (Nd c l a r)" "rep_at h k (Nd c l a r)"
    "xs = before k @ inorder l" "ys = inorder r @ after k"
proof -
  obtain k c l r where t: "t = plug k (Nd c l a r)" using find_node [of a t] assms(2) by auto
  have "(before k @ inorder l) @ a # (inorder r @ after k) = xs @ a # ys"
    using assms(2) by (simp add: t inorder_plug)
  moreover have "distinct (before k @ inorder l @ a # inorder r @ after k)"
    using assms(1) by (simp add: rep_def t inorder_plug)
  ultimately have "xs = before k @ inorder l \<and> ys = inorder r @ after k"
    by (subst (asm) append_Cons_eq_iff) simp_all
  then show thesis using that t assms(1) rep_plug by blast
qed

lemma leftmost_ok:
  "shape (rb_links h) p t \<Longrightarrow> root t = Some a \<Longrightarrow> leftmost h a = first (inorder t)"
proof (induction t arbitrary: p a)
  case (Nd c l b r)
  then show ?case
    by (subst leftmost.simps) (cases l; auto simp: first_append)
qed simp

lemma rightmost_ok:
  "shape (rb_links h) p t \<Longrightarrow> root t = Some a \<Longrightarrow> rightmost h a = final (inorder t)"
proof (induction t arbitrary: p a)
  case (Nd c l b r)
  then show ?case
    by (subst rightmost.simps) (cases r; auto simp: final_append final_def first_append)
qed simp

lemma leftmost_first:
  assumes "shape (rb_links h) p t" and "root t = Some a"
  shows "map_option Some (leftmost h a) = Some (first (inorder t))"
proof -
  obtain b bs where "inorder t = b # bs" using assms(2) by (cases "inorder t") auto
  then show ?thesis using leftmost_ok [OF assms] by simp
qed

lemma rightmost_final:
  assumes "shape (rb_links h) p t" and "root t = Some a"
  shows "map_option Some (rightmost h a) = Some (final (inorder t))"
proof -
  obtain b bs where "inorder t = bs @ [b]" using assms(2) by (cases "inorder t" rule: rev_cases) auto
  then show ?thesis using rightmost_ok [OF assms] by simp
qed

lemma climb_right_ok:
  "rep_at h k t \<Longrightarrow> root t = Some a \<Longrightarrow> climb_right h a = Some (first (after k))"
proof (induction k t arbitrary: a rule: plug.induct)
  case (1 t)
  then show ?case by (subst climb_right.simps) (cases t; auto simp: rep_at_def)
next
  case (2 c b r k t)
  then have "root r \<noteq> Some a" by (auto simp: rep_at_def dest!: root_in_inorder)
  with 2 show ?case by (subst climb_right.simps) (cases t; auto simp: rep_at_def)
next
  case (3 c l b k t)
  then have "climb_right h b = Some (first (after k))" by (simp add: rep_at_RightHole)
  moreover have "rbe_parent (rb_links h a) = Some b" "rbe_right (rb_links h b) = Some a"
    using 3 by (cases t; auto simp: rep_at_def)+
  ultimately show ?case by (subst climb_right.simps) simp
qed

lemma climb_left_ok:
  "rep_at h k t \<Longrightarrow> root t = Some a \<Longrightarrow> climb_left h a = Some (final (before k))"
proof (induction k t arbitrary: a rule: plug.induct)
  case (1 t)
  then show ?case by (subst climb_left.simps) (cases t; auto simp: rep_at_def)
next
  case (2 c b r k t)
  then have "climb_left h b = Some (final (before k))" by (simp add: rep_at_LeftHole)
  moreover have "rbe_parent (rb_links h a) = Some b" "rbe_left (rb_links h b) = Some a"
    using 2 by (cases t; auto simp: rep_at_def)+
  ultimately show ?case by (subst climb_left.simps) simp
next
  case (3 c l b k t)
  then have "root l \<noteq> Some a" by (auto simp: rep_at_def dest!: root_in_inorder)
  with 3 show ?case
    by (subst climb_left.simps) (cases t; auto simp: rep_at_def final_append)
qed

theorem RB_NEXT_ok:
  assumes "rep h t" and "inorder t = xs @ a # ys"
  shows "RB_NEXT h a = Some (first ys)"
proof -
  obtain k c l r where f: "rep_at h k (Nd c l a r)" "ys = inorder r @ after k"
    using focus [OF assms] by metis
  have climb: "climb_right h a = Some (first (after k))"
    using climb_right_ok [OF f(1)] by simp
  show ?thesis
  proof (cases r)
    case Lf
    with f climb show ?thesis
      by (cases k rule: before.cases) (auto simp: RB_NEXT_def rep_at_def dest: root_in_inorder)
  next
    case (Nd d rl b rr)
    then have "map_option Some (leftmost h b) = Some (first (inorder r))"
      using f(1) by (intro leftmost_first [of h "Some a"]) (auto simp: rep_at_def)
    moreover have "rbe_right (rb_links h a) = Some b" using f(1) Nd by (simp add: rep_at_def)
    ultimately show ?thesis using f(2) Nd by (auto simp: RB_NEXT_def first_append)
  qed
qed

theorem RB_PREV_ok:
  assumes "rep h t" and "inorder t = xs @ a # ys"
  shows "RB_PREV h a = Some (final xs)"
proof -
  obtain k c l r where f: "rep_at h k (Nd c l a r)" "xs = before k @ inorder l"
    using focus [OF assms] by metis
  have climb: "climb_left h a = Some (final (before k))"
    using climb_left_ok [OF f(1)] by simp
  show ?thesis
  proof (cases l)
    case Lf
    with f climb show ?thesis
      by (cases k rule: before.cases) (auto simp: RB_PREV_def rep_at_def final_append dest: root_in_inorder)
  next
    case (Nd d ll b lr)
    then have "map_option Some (rightmost h b) = Some (final (inorder l))"
      using f(1) by (intro rightmost_final [of h "Some a"]) (auto simp: rep_at_def)
    moreover have "rbe_left (rb_links h a) = Some b" using f(1) Nd by (simp add: rep_at_def)
    ultimately show ?thesis using f(2) Nd by (auto simp: RB_PREV_def final_append)
  qed
qed

lemma RB_MIN_ok: "rep h t \<Longrightarrow> RB_MIN h = Some (first (inorder t))"
  using leftmost_first [of h None t] by (cases "root t") (auto simp: RB_MIN_def rep_def)

lemma RB_MAX_ok: "rep h t \<Longrightarrow> RB_MAX h = Some (final (inorder t))"
  using rightmost_final [of h None t] by (cases "root t") (auto simp: RB_MAX_def rep_def)

lemma foreach_from_ok:
  assumes "rep h t" and "inorder t = xs @ ys"
  shows "foreach_from h (first ys) = Some ys"
  using assms(2)
proof (induction ys arbitrary: xs)
  case Nil
  show ?case by (subst foreach_from.simps) simp
next
  case (Cons a ys)
  then have "foreach_from h (first ys) = Some ys" by (intro Cons.IH [of "xs @ [a]"]) simp
  with RB_NEXT_ok [OF assms(1) Cons.prems] show ?case
    by (subst foreach_from.simps) simp
qed

theorem RB_FOREACH_ok: "rep h t \<Longrightarrow> RB_FOREACH h = Some (inorder t)"
  using foreach_from_ok [of h t "[]"] by (simp add: RB_FOREACH_def RB_MIN_ok)

end
