(* ===== verification/Rb_Remove.thy ===== *)
theory Rb_Remove
  imports Rb_Insert Rb_Traverse
begin

text \<open>
  \<^verbatim>\<open>RB_REMOVE_COLOR\<close> and \<^verbatim>\<open>RB_REMOVE\<close> of \<^verbatim>\<open>src/tree.h\<close>: on a store that represents a
  red-black tree the removal of one of its nodes ends without a read through \<^verbatim>\<open>NULL\<close> and
  leaves a red-black tree of the other nodes in the same order.
\<close>

section \<open>The end of the colouring loop\<close>

text \<open>
  The loop works at a subtree \<open>t\<close> that is one black node too low for its place, unless it is
  red, in which case painting it black repairs it.
\<close>

definition del_state :: "rb_head \<Rightarrow> frame list \<Rightarrow> rbt \<Rightarrow> nat list \<Rightarrow> bool" where
  "del_state h k t xs \<longleftrightarrow> rep_at h k t \<and> ok_ctx (Suc (bheight t)) k \<and> invh t \<and>
     invc (paint RB_BLACK t) \<and> xs = before k @ inorder t @ after k"

definition del_done :: "rb_head option \<Rightarrow> nat list \<Rightarrow> bool" where
  "del_done res xs \<longleftrightarrow> (\<exists>h' t'. res = Some h' \<and> rep h' t' \<and> rb_ok t' \<and> inorder t' = xs)"

lemma del_doneI: "res = Some h' \<Longrightarrow> rep h' t' \<Longrightarrow> rb_ok t' \<Longrightarrow> inorder t' = xs \<Longrightarrow> del_done res xs"
  unfolding del_done_def by blast

lemma invh_paint [simp]: "invh (paint c t) = invh t"
  by (cases t) simp_all

lemma color_of_paint: "color_of (paint RB_BLACK t) = RB_BLACK"
  by (cases t) simp_all

lemma bheight_paint_red: "color_of t = RB_RED \<Longrightarrow> bheight (paint RB_BLACK t) = Suc (bheight t)"
  by (cases t) simp_all

lemma paint_root_rep:
  assumes "rep_at h k t"
  shows "\<exists>h'. (if root t \<noteq> None then set_color h (root t) c else Some h) = Some h' \<and>
    rep_at h' k (paint c t)"
  using assms set_color_rep by (cases t) auto

lemma remove_stop:
  assumes "del_state h k t xs" and "k = [] \<or> color_of t = RB_RED"
  shows "del_done (RB_REMOVE_COLOR h (up k) (root t)) xs"
proof -
  have rep: "rep_at h k t" using assms(1) by (simp add: del_state_def)
  have "rb_is_red h (root t) \<or> root t = rbh_root h"
    using assms rb_is_red_shape [of h "up k" t] by (auto simp: rep_at_def del_state_def)
  then have "remove_color_loop h (up k) (root t) = Some (h, root t)"
    by (subst remove_color_loop.simps) auto
  moreover obtain h' where
    h': "(if root t \<noteq> None then set_color h (root t) RB_BLACK else Some h) = Some h'"
    "rep_at h' k (paint RB_BLACK t)"
    using paint_root_rep [OF rep] by blast
  ultimately have "RB_REMOVE_COLOR h (up k) (root t) = Some h'"
    by (auto simp: RB_REMOVE_COLOR_def split: if_splits)
  moreover have "rb_ok (plug k (paint RB_BLACK t))"
    using assms by (auto simp: rb_ok_plug del_state_def color_of_paint bheight_paint_red)
  ultimately show ?thesis
    using h'(2) assms(1)
    by (intro del_doneI [where t' = "plug k (paint RB_BLACK t)"])
      (simp_all add: rep_plug inorder_plug del_state_def)
qed

lemma remove_finish:
  assumes "remove_color_loop h p e = Some (h', rbh_root h')" and "rep_at h' k t"
    and "rb_ok (plug k t)" and "xs = before k @ inorder t @ after k"
  shows "del_done (RB_REMOVE_COLOR h p e) xs"
proof -
  let ?T = "plug k t"
  have root: "rbh_root h' = root ?T" using assms(2) by (simp add: rep_plug [symmetric] rep_def)
  obtain h'' where
    h'': "(if root ?T \<noteq> None then set_color h' (root ?T) RB_BLACK else Some h') = Some h''"
    "rep_at h'' [] (paint RB_BLACK ?T)"
    using paint_root_rep [of h' "[]" ?T RB_BLACK] assms(2) rep_plug [of h' "[]" ?T]
    by (auto simp: rep_plug)
  have "RB_REMOVE_COLOR h p e = Some h''"
    using h''(1) by (auto simp: RB_REMOVE_COLOR_def assms(1) root split: if_splits)
  moreover have "paint RB_BLACK ?T = ?T"
    using assms(3) by (simp add: paint_black_id rb_ok_def)
  ultimately show ?thesis
    using h''(2) assms(3,4) rep_plug [of h'' "[]" ?T]
    by (intro del_doneI [where t' = ?T]) (simp_all add: inorder_plug)
qed

section \<open>A black sibling\<close>

text \<open>The rest of an iteration once the sibling is black, for a left and for a right child.\<close>

definition left_tail :: "rb_head \<Rightarrow> ptr \<Rightarrow> ptr \<Rightarrow> (rb_head \<times> ptr) option" where
  "left_tail h parent tmp = do {
     tl \<leftarrow> RB_LEFT h tmp;
     tr \<leftarrow> RB_RIGHT h tmp;
     if \<not> rb_is_red h tl \<and> \<not> rb_is_red h tr then do {
       h \<leftarrow> set_color h tmp RB_RED;
       up \<leftarrow> RB_PARENT h parent;
       remove_color_loop h up parent
     }
     else do {
       h' \<leftarrow> (if \<not> rb_is_red h tr then do {
              h \<leftarrow> (if tl \<noteq> None then set_color h tl RB_BLACK else Some h);
              h \<leftarrow> set_color h tmp RB_RED;
              RB_ROTATE_RIGHT h tmp
            } else Some h);
       tmp \<leftarrow> (if \<not> rb_is_red h tr then RB_RIGHT h' parent else Some tmp);
       pc \<leftarrow> RB_COLOR h' parent;
       h \<leftarrow> set_color h' tmp pc;
       h \<leftarrow> set_color h parent RB_BLACK;
       tr \<leftarrow> RB_RIGHT h tmp;
       h \<leftarrow> (if tr \<noteq> None then set_color h tr RB_BLACK else Some h);
       h \<leftarrow> RB_ROTATE_LEFT h parent;
       Some (h, rbh_root h)
     }
   }"

definition right_tail :: "rb_head \<Rightarrow> ptr \<Rightarrow> ptr \<Rightarrow> (rb_head \<times> ptr) option" where
  "right_tail h parent tmp = do {
     tl \<leftarrow> RB_LEFT h tmp;
     tr \<leftarrow> RB_RIGHT h tmp;
     if \<not> rb_is_red h tl \<and> \<not> rb_is_red h tr then do {
       h \<leftarrow> set_color h tmp RB_RED;
       up \<leftarrow> RB_PARENT h parent;
       remove_color_loop h up parent
     }
     else do {
       h' \<leftarrow> (if \<not> rb_is_red h tl then do {
              h \<leftarrow> (if tr \<noteq> None then set_color h tr RB_BLACK else Some h);
              h \<leftarrow> set_color h tmp RB_RED;
              RB_ROTATE_LEFT h tmp
            } else Some h);
       tmp \<leftarrow> (if \<not> rb_is_red h tl then RB_LEFT h' parent else Some tmp);
       pc \<leftarrow> RB_COLOR h' parent;
       h \<leftarrow> set_color h' tmp pc;
       h \<leftarrow> set_color h parent RB_BLACK;
       tl \<leftarrow> RB_LEFT h tmp;
       h \<leftarrow> (if tl \<noteq> None then set_color h tl RB_BLACK else Some h);
       h \<leftarrow> RB_ROTATE_RIGHT h parent;
       Some (h, rbh_root h)
     }
   }"

lemma remove_loop_left:
  assumes "\<not> rb_is_red h e" and "e \<noteq> rbh_root h" and "RB_LEFT h p = Some e"
  shows "remove_color_loop h p e = do {
    tmp \<leftarrow> RB_RIGHT h p;
    c \<leftarrow> RB_COLOR h tmp;
    h \<leftarrow> (if c = RB_RED then do {
           h \<leftarrow> RB_SET_BLACKRED h tmp p;
           RB_ROTATE_LEFT h p
         } else Some h);
    tmp \<leftarrow> (if c = RB_RED then RB_RIGHT h p else Some tmp);
    left_tail h p tmp }"
  using assms unfolding left_tail_def by (subst remove_color_loop.simps) simp

lemma remove_loop_right:
  assumes "\<not> rb_is_red h e" and "e \<noteq> rbh_root h" and "RB_LEFT h p = Some e'" and "e' \<noteq> e"
  shows "remove_color_loop h p e = do {
    tmp \<leftarrow> RB_LEFT h p;
    c \<leftarrow> RB_COLOR h tmp;
    h \<leftarrow> (if c = RB_RED then do {
           h \<leftarrow> RB_SET_BLACKRED h tmp p;
           RB_ROTATE_RIGHT h p
         } else Some h);
    tmp \<leftarrow> (if c = RB_RED then RB_LEFT h p else Some tmp);
    right_tail h p tmp }"
  using assms unfolding right_tail_def by (subst remove_color_loop.simps) simp

text \<open>
  Three cases of \<^verbatim>\<open>left_tail\<close> at a parent \<open>p\<close> with the low subtree \<open>t\<close> on its left and the
  sibling \<open>b\<close> on its right: no red nephew, a red far nephew, a red near nephew only.
\<close>

lemma frame_addr_in_ctx: "f \<in> set k \<Longrightarrow> frame_addr f \<in> ctx_addrs k"
  by (induction k rule: before.induct) auto

lemma root_neq_top:
  assumes "rep_at h (f # k) t"
  shows "root t \<noteq> rbh_root h"
proof
  assume "root t = rbh_root h"
  then have "root t = Some (frame_addr (last (f # k)))"
    using assms by (simp add: rep_at_def top_def)
  then have "frame_addr (last (f # k)) \<in> set (inorder t)" by (rule root_in_inorder)
  moreover have "frame_addr (last (f # k)) \<in> ctx_addrs (f # k)"
    by (intro frame_addr_in_ctx last_in_set) simp
  ultimately show False using assms by (auto simp: rep_at_def)
qed

lemma left_tail_recolor:
  assumes rep: "rep_at h k (Nd c t p (Nd d sl b sr))"
    and "color_of sl = RB_BLACK" and "color_of sr = RB_BLACK"
  shows "\<exists>h'. left_tail h (Some p) (Some b) = remove_color_loop h' (up k) (Some p) \<and>
    rep_at h' k (Nd c t p (Nd RB_RED sl b sr))"
proof -
  have links: "rb_links h b = \<lparr>rbe_left = root sl, rbe_right = root sr, rbe_parent = Some p,
      rbe_color = d\<rparr>" "\<not> rb_is_red h (root sl)" "\<not> rb_is_red h (root sr)"
    using assms rb_is_red_shape [of h "Some b"] by (auto simp: rep_at_def)
  obtain h1 where h1: "set_color h (Some b) RB_RED = Some h1"
    "rep_at h1 k (Nd c t p (Nd RB_RED sl b sr))"
    using rep set_color_rep [of h "RightHole c t p # k"] unfolding rep_at_RightHole by blast
  have "rbe_parent (rb_links h1 p) = up k" using rep_at_node [OF h1(2)] by simp
  then have "left_tail h (Some p) (Some b) = remove_color_loop h1 (up k) (Some p)"
    by (simp add: left_tail_def rb_read links h1(1))
  with h1(2) show ?thesis by blast
qed

lemma right_tail_recolor:
  assumes rep: "rep_at h k (Nd c (Nd d sl b sr) p t)"
    and "color_of sl = RB_BLACK" and "color_of sr = RB_BLACK"
  shows "\<exists>h'. right_tail h (Some p) (Some b) = remove_color_loop h' (up k) (Some p) \<and>
    rep_at h' k (Nd c (Nd RB_RED sl b sr) p t)"
proof -
  have links: "rb_links h b = \<lparr>rbe_left = root sl, rbe_right = root sr, rbe_parent = Some p,
      rbe_color = d\<rparr>" "\<not> rb_is_red h (root sl)" "\<not> rb_is_red h (root sr)"
    using assms rb_is_red_shape [of h "Some b"] by (auto simp: rep_at_def)
  obtain h1 where h1: "set_color h (Some b) RB_RED = Some h1"
    "rep_at h1 k (Nd c (Nd RB_RED sl b sr) p t)"
    using rep set_color_rep [of h "LeftHole c p t # k"] unfolding rep_at_LeftHole by blast
  have "rbe_parent (rb_links h1 p) = up k" using rep_at_node [OF h1(2)] by simp
  then have "right_tail h (Some p) (Some b) = remove_color_loop h1 (up k) (Some p)"
    by (simp add: right_tail_def rb_read links h1(1))
  with h1(2) show ?thesis by blast
qed

text \<open>The last steps of the rotation case, from the colours of parent and sibling on.\<close>

lemma left_rotation:
  assumes rep: "rep_at h k (Nd c t p (Nd d sl b sr))"
  shows "\<exists>h'. do {
      h \<leftarrow> set_color h (Some b) c;
      h \<leftarrow> set_color h (Some p) RB_BLACK;
      tr \<leftarrow> RB_RIGHT h (Some b);
      h \<leftarrow> (if tr \<noteq> None then set_color h tr RB_BLACK else Some h);
      h \<leftarrow> RB_ROTATE_LEFT h (Some p);
      Some (h, rbh_root h)
    } = Some (h', rbh_root h') \<and>
    rep_at h' k (Nd c (Nd RB_BLACK t p sl) b (paint RB_BLACK sr))"
proof -
  obtain h1 where h1: "set_color h (Some b) c = Some h1" "rep_at h1 k (Nd c t p (Nd c sl b sr))"
    using rep set_color_rep [of h "RightHole c t p # k"] unfolding rep_at_RightHole by blast
  obtain h2 where h2: "set_color h1 (Some p) RB_BLACK = Some h2"
    "rep_at h2 k (Nd RB_BLACK t p (Nd c sl b sr))"
    using set_color_rep [OF h1(2)] by blast
  have tr: "RB_RIGHT h2 (Some b) = Some (root sr)"
    using h2(2) by (simp add: rb_read rep_at_def)
  obtain h3 where h3: "(if root sr \<noteq> None then set_color h2 (root sr) RB_BLACK else Some h2) = Some h3"
    "rep_at h3 k (Nd RB_BLACK t p (Nd c sl b (paint RB_BLACK sr)))"
    using h2(2) paint_root_rep [of h2 "RightHole c sl b # RightHole RB_BLACK t p # k" sr]
    unfolding rep_at_RightHole by blast
  obtain h4 where h4: "RB_ROTATE_LEFT h3 (Some p) = Some h4"
    "rep_at h4 k (Nd c (Nd RB_BLACK t p sl) b (paint RB_BLACK sr))"
    using rotate_left_rep [OF h3(2)] by blast
  show ?thesis
    by (rule exI [of _ h4], simp only: h1(1) h2(1) tr bind.bind_lunit h3(1) h4 simp_thms)
qed

lemma right_rotation:
  assumes rep: "rep_at h k (Nd c (Nd d sl b sr) p t)"
  shows "\<exists>h'. do {
      h \<leftarrow> set_color h (Some b) c;
      h \<leftarrow> set_color h (Some p) RB_BLACK;
      tl \<leftarrow> RB_LEFT h (Some b);
      h \<leftarrow> (if tl \<noteq> None then set_color h tl RB_BLACK else Some h);
      h \<leftarrow> RB_ROTATE_RIGHT h (Some p);
      Some (h, rbh_root h)
    } = Some (h', rbh_root h') \<and>
    rep_at h' k (Nd c (paint RB_BLACK sl) b (Nd RB_BLACK sr p t))"
proof -
  obtain h1 where h1: "set_color h (Some b) c = Some h1" "rep_at h1 k (Nd c (Nd c sl b sr) p t)"
    using rep set_color_rep [of h "LeftHole c p t # k"] unfolding rep_at_LeftHole by blast
  obtain h2 where h2: "set_color h1 (Some p) RB_BLACK = Some h2"
    "rep_at h2 k (Nd RB_BLACK (Nd c sl b sr) p t)"
    using set_color_rep [OF h1(2)] by blast
  have tl: "RB_LEFT h2 (Some b) = Some (root sl)"
    using h2(2) by (simp add: rb_read rep_at_def)
  obtain h3 where h3: "(if root sl \<noteq> None then set_color h2 (root sl) RB_BLACK else Some h2) = Some h3"
    "rep_at h3 k (Nd RB_BLACK (Nd c (paint RB_BLACK sl) b sr) p t)"
    using h2(2) paint_root_rep [of h2 "LeftHole c b sr # LeftHole RB_BLACK p t # k" sl]
    unfolding rep_at_LeftHole by blast
  obtain h4 where h4: "RB_ROTATE_RIGHT h3 (Some p) = Some h4"
    "rep_at h4 k (Nd c (paint RB_BLACK sl) b (Nd RB_BLACK sr p t))"
    using rotate_right_rep [OF h3(2)] by blast
  show ?thesis
    by (rule exI [of _ h4], simp only: h1(1) h2(1) tl bind.bind_lunit h3(1) h4 simp_thms)
qed

lemma left_tail_far:
  assumes rep: "rep_at h k (Nd c t p (Nd d sl b sr))" and red: "color_of sr = RB_RED"
  shows "\<exists>h'. left_tail h (Some p) (Some b) = Some (h', rbh_root h') \<and>
    rep_at h' k (Nd c (Nd RB_BLACK t p sl) b (paint RB_BLACK sr))"
proof -
  have links: "rb_links h b = \<lparr>rbe_left = root sl, rbe_right = root sr, rbe_parent = Some p,
      rbe_color = d\<rparr>" "rb_is_red h (root sr)" "rbe_color (rb_links h p) = c"
    using assms rb_is_red_shape [of h "Some b" sr] by (auto simp: rep_at_def)
  have "left_tail h (Some p) (Some b) = do {
      h \<leftarrow> set_color h (Some b) c;
      h \<leftarrow> set_color h (Some p) RB_BLACK;
      tr \<leftarrow> RB_RIGHT h (Some b);
      h \<leftarrow> (if tr \<noteq> None then set_color h tr RB_BLACK else Some h);
      h \<leftarrow> RB_ROTATE_LEFT h (Some p);
      Some (h, rbh_root h)
    }"
    by (simp only: left_tail_def rb_read links rb_entry.select_convs bind.bind_lunit simp_thms if_False)
  with left_rotation [OF rep] show ?thesis by simp
qed

lemma right_tail_far:
  assumes rep: "rep_at h k (Nd c (Nd d sl b sr) p t)" and red: "color_of sl = RB_RED"
  shows "\<exists>h'. right_tail h (Some p) (Some b) = Some (h', rbh_root h') \<and>
    rep_at h' k (Nd c (paint RB_BLACK sl) b (Nd RB_BLACK sr p t))"
proof -
  have links: "rb_links h b = \<lparr>rbe_left = root sl, rbe_right = root sr, rbe_parent = Some p,
      rbe_color = d\<rparr>" "rb_is_red h (root sl)" "rbe_color (rb_links h p) = c"
    using assms rb_is_red_shape [of h "Some b" sl] by (auto simp: rep_at_def)
  have "right_tail h (Some p) (Some b) = do {
      h \<leftarrow> set_color h (Some b) c;
      h \<leftarrow> set_color h (Some p) RB_BLACK;
      tl \<leftarrow> RB_LEFT h (Some b);
      h \<leftarrow> (if tl \<noteq> None then set_color h tl RB_BLACK else Some h);
      h \<leftarrow> RB_ROTATE_RIGHT h (Some p);
      Some (h, rbh_root h)
    }"
    by (simp only: right_tail_def rb_read links rb_entry.select_convs bind.bind_lunit simp_thms if_False)
  with right_rotation [OF rep] show ?thesis by simp
qed

lemma left_tail_near:
  assumes rep: "rep_at h k (Nd c t p (Nd d (Nd RB_RED x q y) b sr))"
    and black: "color_of sr = RB_BLACK"
  shows "\<exists>h'. left_tail h (Some p) (Some b) = Some (h', rbh_root h') \<and>
    rep_at h' k (Nd c (Nd RB_BLACK t p x) q (Nd RB_BLACK y b sr))"
proof -
  have links: "rb_links h b = \<lparr>rbe_left = Some q, rbe_right = root sr, rbe_parent = Some p,
      rbe_color = d\<rparr>" "\<not> rb_is_red h (root sr)" "rb_is_red h (Some q)"
    using assms rb_is_red_shape [of h "Some b" sr] by (auto simp: rep_at_def rb_is_red_def)
  obtain h1 where h1: "set_color h (Some q) RB_BLACK = Some h1"
    "rep_at h1 k (Nd c t p (Nd d (Nd RB_BLACK x q y) b sr))"
    using rep set_color_rep [of h "LeftHole d b sr # RightHole c t p # k"]
    unfolding rep_at_RightHole rep_at_LeftHole by blast
  obtain h2 where h2: "set_color h1 (Some b) RB_RED = Some h2"
    "rep_at h2 k (Nd c t p (Nd RB_RED (Nd RB_BLACK x q y) b sr))"
    using h1(2) set_color_rep [of h1 "RightHole c t p # k"]
    unfolding rep_at_RightHole rep_at_LeftHole by blast
  obtain h3 where h3: "RB_ROTATE_RIGHT h2 (Some b) = Some h3"
    "rep_at h3 k (Nd c t p (Nd RB_BLACK x q (Nd RB_RED y b sr)))"
    using h2(2) rotate_right_rep [of h2 "RightHole c t p # k"]
    unfolding rep_at_RightHole by blast
  have p: "RB_RIGHT h3 (Some p) = Some (Some q)" "RB_COLOR h3 (Some p) = Some c"
    using h3(2) by (simp_all add: rb_read rep_at_def)
  have "left_tail h (Some p) (Some b) = do {
      h \<leftarrow> set_color h3 (Some q) c;
      h \<leftarrow> set_color h (Some p) RB_BLACK;
      tr \<leftarrow> RB_RIGHT h (Some q);
      h \<leftarrow> (if tr \<noteq> None then set_color h tr RB_BLACK else Some h);
      h \<leftarrow> RB_ROTATE_LEFT h (Some p);
      Some (h, rbh_root h)
    }"
    by (simp only: left_tail_def rb_read(1,2) [of h b] links rb_entry.select_convs
        bind.bind_lunit simp_thms if_False if_True h1(1) h2(1) h3(1) p option.distinct)
  with left_rotation [OF h3(2)] show ?thesis by simp
qed

lemma right_tail_near:
  assumes rep: "rep_at h k (Nd c (Nd d sl b (Nd RB_RED x q y)) p t)"
    and black: "color_of sl = RB_BLACK"
  shows "\<exists>h'. right_tail h (Some p) (Some b) = Some (h', rbh_root h') \<and>
    rep_at h' k (Nd c (Nd RB_BLACK sl b x) q (Nd RB_BLACK y p t))"
proof -
  have links: "rb_links h b = \<lparr>rbe_left = root sl, rbe_right = Some q, rbe_parent = Some p,
      rbe_color = d\<rparr>" "\<not> rb_is_red h (root sl)" "rb_is_red h (Some q)"
    using assms rb_is_red_shape [of h "Some b" sl] by (auto simp: rep_at_def rb_is_red_def)
  obtain h1 where h1: "set_color h (Some q) RB_BLACK = Some h1"
    "rep_at h1 k (Nd c (Nd d sl b (Nd RB_BLACK x q y)) p t)"
    using rep set_color_rep [of h "RightHole d sl b # LeftHole c p t # k"]
    unfolding rep_at_RightHole rep_at_LeftHole by blast
  obtain h2 where h2: "set_color h1 (Some b) RB_RED = Some h2"
    "rep_at h2 k (Nd c (Nd RB_RED sl b (Nd RB_BLACK x q y)) p t)"
    using h1(2) set_color_rep [of h1 "LeftHole c p t # k"]
    unfolding rep_at_RightHole rep_at_LeftHole by blast
  obtain h3 where h3: "RB_ROTATE_LEFT h2 (Some b) = Some h3"
    "rep_at h3 k (Nd c (Nd RB_BLACK (Nd RB_RED sl b x) q y) p t)"
    using h2(2) rotate_left_rep [of h2 "LeftHole c p t # k"]
    unfolding rep_at_LeftHole by blast
  have p: "RB_LEFT h3 (Some p) = Some (Some q)" "RB_COLOR h3 (Some p) = Some c"
    using h3(2) by (simp_all add: rb_read rep_at_def)
  have "right_tail h (Some p) (Some b) = do {
      h \<leftarrow> set_color h3 (Some q) c;
      h \<leftarrow> set_color h (Some p) RB_BLACK;
      tl \<leftarrow> RB_LEFT h (Some q);
      h \<leftarrow> (if tl \<noteq> None then set_color h tl RB_BLACK else Some h);
      h \<leftarrow> RB_ROTATE_RIGHT h (Some p);
      Some (h, rbh_root h)
    }"
    by (simp only: right_tail_def rb_read(1,2) [of h b] links rb_entry.select_convs
        bind.bind_lunit simp_thms if_False if_True h1(1) h2(1) h3(1) p option.distinct)
  with right_rotation [OF h3(2)] show ?thesis by simp
qed

section \<open>The loop\<close>

definition del_progress ::
  "rb_head \<Rightarrow> ptr \<Rightarrow> ptr \<Rightarrow> frame list \<Rightarrow> rb_color \<Rightarrow> nat list \<Rightarrow> bool" where
  "del_progress h p e k c xs \<longleftrightarrow> del_done (RB_REMOVE_COLOR h p e) xs \<or>
     (\<exists>h' t'. remove_color_loop h p e = remove_color_loop h' (up k) (root t') \<and>
        del_state h' k t' xs \<and> color_of t' = c)"

lemma del_progressI:
  assumes "remove_color_loop h p e = remove_color_loop h' (up k) (root t')"
    and "del_state h' k t' xs" and "color_of t' = c"
  shows "del_progress h p e k c xs"
  using assms unfolding del_progress_def by blast

lemma left_tail_ok:
  assumes eq: "remove_color_loop h0 P E = left_tail h (Some p) (Some b)"
    and st: "del_state h (LeftHole c p (Nd RB_BLACK sl b sr) # k) t xs"
    and black: "color_of t = RB_BLACK"
  shows "del_progress h0 P E k c xs"
proof -
  have rep: "rep_at h k (Nd c t p (Nd RB_BLACK sl b sr))"
    using st by (simp add: del_state_def rep_at_LeftHole)
  have t: "invc t" using st black by (simp add: del_state_def paint_black_id)
  consider (far) "color_of sr = RB_RED"
    | (near) x q y where "color_of sr = RB_BLACK" "sl = Nd RB_RED x q y"
    | (none) "color_of sr = RB_BLACK" "color_of sl = RB_BLACK"
    by (cases sl) (metis rb_color.exhaust color_of.simps)+
  then show ?thesis
  proof cases
    case far
    obtain h' where h': "remove_color_loop h0 P E = Some (h', rbh_root h')"
      "rep_at h' k (Nd c (Nd RB_BLACK t p sl) b (paint RB_BLACK sr))"
      using left_tail_far [OF rep far] eq by auto
    have "rb_ok (plug k (Nd c (Nd RB_BLACK t p sl) b (paint RB_BLACK sr)))"
      using st far t by (cases sr) (auto simp: rb_ok_plug del_state_def)
    then have "del_done (RB_REMOVE_COLOR h0 P E) xs"
      using st by (intro remove_finish [OF h']) (simp_all add: del_state_def)
    then show ?thesis by (simp add: del_progress_def)
  next
    case near
    obtain h' where h': "remove_color_loop h0 P E = Some (h', rbh_root h')"
      "rep_at h' k (Nd c (Nd RB_BLACK t p x) q (Nd RB_BLACK y b sr))"
      using left_tail_near [OF rep [unfolded near(2)] near(1)] eq by auto
    have "rb_ok (plug k (Nd c (Nd RB_BLACK t p x) q (Nd RB_BLACK y b sr)))"
      using st near t by (auto simp: rb_ok_plug del_state_def)
    then have "del_done (RB_REMOVE_COLOR h0 P E) xs"
      using st near(2) by (intro remove_finish [OF h']) (simp_all add: del_state_def)
    then show ?thesis by (simp add: del_progress_def)
  next
    case none
    obtain h' where h': "remove_color_loop h0 P E = remove_color_loop h' (up k) (Some p)"
      "rep_at h' k (Nd c t p (Nd RB_RED sl b sr))"
      using left_tail_recolor [OF rep none(2,1)] eq by auto
    have "del_state h' k (Nd c t p (Nd RB_RED sl b sr)) xs"
      using st none t black h'(2) by (auto simp: del_state_def)
    then show ?thesis by (rule del_progressI [rotated]) (simp_all add: h'(1))
  qed
qed

lemma right_tail_ok:
  assumes eq: "remove_color_loop h0 P E = right_tail h (Some p) (Some b)"
    and st: "del_state h (RightHole c (Nd RB_BLACK sl b sr) p # k) t xs"
    and black: "color_of t = RB_BLACK"
  shows "del_progress h0 P E k c xs"
proof -
  have rep: "rep_at h k (Nd c (Nd RB_BLACK sl b sr) p t)"
    using st by (simp add: del_state_def rep_at_RightHole)
  have t: "invc t" using st black by (simp add: del_state_def paint_black_id)
  consider (far) "color_of sl = RB_RED"
    | (near) x q y where "color_of sl = RB_BLACK" "sr = Nd RB_RED x q y"
    | (none) "color_of sl = RB_BLACK" "color_of sr = RB_BLACK"
    by (cases sr) (metis rb_color.exhaust color_of.simps)+
  then show ?thesis
  proof cases
    case far
    obtain h' where h': "remove_color_loop h0 P E = Some (h', rbh_root h')"
      "rep_at h' k (Nd c (paint RB_BLACK sl) b (Nd RB_BLACK sr p t))"
      using right_tail_far [OF rep far] eq by auto
    have "rb_ok (plug k (Nd c (paint RB_BLACK sl) b (Nd RB_BLACK sr p t)))"
      using st far t by (cases sl) (auto simp: rb_ok_plug del_state_def)
    then have "del_done (RB_REMOVE_COLOR h0 P E) xs"
      using st by (intro remove_finish [OF h']) (simp_all add: del_state_def)
    then show ?thesis by (simp add: del_progress_def)
  next
    case near
    obtain h' where h': "remove_color_loop h0 P E = Some (h', rbh_root h')"
      "rep_at h' k (Nd c (Nd RB_BLACK sl b x) q (Nd RB_BLACK y p t))"
      using right_tail_near [OF rep [unfolded near(2)] near(1)] eq by auto
    have "rb_ok (plug k (Nd c (Nd RB_BLACK sl b x) q (Nd RB_BLACK y p t)))"
      using st near t by (auto simp: rb_ok_plug del_state_def)
    then have "del_done (RB_REMOVE_COLOR h0 P E) xs"
      using st near(2) by (intro remove_finish [OF h']) (simp_all add: del_state_def)
    then show ?thesis by (simp add: del_progress_def)
  next
    case none
    obtain h' where h': "remove_color_loop h0 P E = remove_color_loop h' (up k) (Some p)"
      "rep_at h' k (Nd c (Nd RB_RED sl b sr) p t)"
      using right_tail_recolor [OF rep none] eq by auto
    have "del_state h' k (Nd c (Nd RB_RED sl b sr) p t) xs"
      using st none t black h'(2) by (auto simp: del_state_def)
    then show ?thesis by (rule del_progressI [rotated]) (simp_all add: h'(1))
  qed
qed

text \<open>A red parent after a rotation: one more look at the loop condition ends it.\<close>

lemma REMOVE_COLOR_cong:
  "remove_color_loop h p e = remove_color_loop h' p' e' \<Longrightarrow>
     RB_REMOVE_COLOR h p e = RB_REMOVE_COLOR h' p' e'"
  by (simp add: RB_REMOVE_COLOR_def)

lemma del_progress_red:
  "del_progress h p e k RB_RED xs \<Longrightarrow> del_done (RB_REMOVE_COLOR h p e) xs"
  unfolding del_progress_def using remove_stop REMOVE_COLOR_cong by metis

lemma del_step_left:
  assumes st: "del_state h (LeftHole c p s # k) t xs" and black: "color_of t = RB_BLACK"
  shows "del_done (RB_REMOVE_COLOR h (Some p) (root t)) xs \<or>
    del_progress h (Some p) (root t) k c xs"
proof -
  have rep: "rep_at h k (Nd c t p s)" using st by (simp add: del_state_def rep_at_LeftHole)
  obtain d sl b sr where s: "s = Nd d sl b sr"
    using st by (cases s) (auto simp: del_state_def)
  have ne: "root t \<noteq> rbh_root h" using st root_neq_top unfolding del_state_def by blast
  have links: "\<not> rb_is_red h (root t)" "root t \<noteq> rbh_root h" "RB_LEFT h (Some p) = Some (root t)"
    "RB_RIGHT h (Some p) = Some (Some b)" "RB_COLOR h (Some b) = Some d"
    using rep black rb_is_red_shape [of h "Some p" t] ne
    by (auto simp: rep_at_def rb_read s dest!: root_in_inorder)
  show ?thesis
  proof (cases d)
    case RB_BLACK
    have "remove_color_loop h (Some p) (root t) = left_tail h (Some p) (Some b)"
      using links by (subst remove_loop_left) (simp_all add: RB_BLACK)
    then show ?thesis
      using st left_tail_ok [OF _ _ black] unfolding s RB_BLACK by blast
  next
    case RB_RED
    have c: "c = RB_BLACK" using st by (auto simp: del_state_def s RB_RED)
    obtain h1 where h1: "RB_SET_BLACKRED h (Some b) (Some p) = Some h1"
      "rep_at h1 k (Nd RB_RED t p (Nd RB_BLACK sl b sr))"
      using blackred_right_rep [OF rep [unfolded s]] by blast
    obtain h2 where h2: "RB_ROTATE_LEFT h1 (Some p) = Some h2"
      "rep_at h2 k (Nd RB_BLACK (Nd RB_RED t p sl) b sr)"
      using rotate_left_rep [OF h1(2)] by blast
    obtain x q y where sl: "sl = Nd RB_BLACK x q y"
      using st by (cases sl) (auto simp: del_state_def s RB_RED)
    have "RB_RIGHT h2 (Some p) = Some (Some q)"
      using h2(2) by (simp add: rb_read rep_at_def sl)
    then have "remove_color_loop h (Some p) (root t) = left_tail h2 (Some p) (Some q)"
      using links by (subst remove_loop_left) (simp_all add: RB_RED h1(1) h2(1))
    moreover have "del_state h2 (LeftHole RB_RED p sl # LeftHole RB_BLACK b sr # k) t xs"
      using st h2(2) by (auto simp: del_state_def s RB_RED rep_at_LeftHole c)
    ultimately have "del_progress h (Some p) (root t) (LeftHole RB_BLACK b sr # k) RB_RED xs"
      using left_tail_ok [OF _ _ black] unfolding sl by blast
    then show ?thesis by (simp add: del_progress_red)
  qed
qed

lemma del_step_right:
  assumes st: "del_state h (RightHole c s p # k) t xs" and black: "color_of t = RB_BLACK"
  shows "del_done (RB_REMOVE_COLOR h (Some p) (root t)) xs \<or>
    del_progress h (Some p) (root t) k c xs"
proof -
  have rep: "rep_at h k (Nd c s p t)" using st by (simp add: del_state_def rep_at_RightHole)
  obtain d sl b sr where s: "s = Nd d sl b sr"
    using st by (cases s) (auto simp: del_state_def)
  have ne: "root t \<noteq> rbh_root h" using st root_neq_top unfolding del_state_def by blast
  have links: "\<not> rb_is_red h (root t)" "root t \<noteq> rbh_root h" "root t \<noteq> Some b"
    "RB_LEFT h (Some p) = Some (Some b)" "RB_COLOR h (Some b) = Some d"
    using rep black rb_is_red_shape [of h "Some p" t] ne
    by (auto simp: rep_at_def rb_read s dest!: root_in_inorder)
  show ?thesis
  proof (cases d)
    case RB_BLACK
    have "remove_color_loop h (Some p) (root t) = right_tail h (Some p) (Some b)"
      using links by (subst remove_loop_right) (auto simp: RB_BLACK)
    then show ?thesis
      using st right_tail_ok [OF _ _ black] unfolding s RB_BLACK by blast
  next
    case RB_RED
    have c: "c = RB_BLACK" using st by (auto simp: del_state_def s RB_RED)
    obtain h1 where h1: "RB_SET_BLACKRED h (Some b) (Some p) = Some h1"
      "rep_at h1 k (Nd RB_RED (Nd RB_BLACK sl b sr) p t)"
      using blackred_left_rep [OF rep [unfolded s]] by blast
    obtain h2 where h2: "RB_ROTATE_RIGHT h1 (Some p) = Some h2"
      "rep_at h2 k (Nd RB_BLACK sl b (Nd RB_RED sr p t))"
      using rotate_right_rep [OF h1(2)] by blast
    obtain x q y where sr: "sr = Nd RB_BLACK x q y"
      using st by (cases sr) (auto simp: del_state_def s RB_RED)
    have "RB_LEFT h2 (Some p) = Some (Some q)"
      using h2(2) by (simp add: rb_read rep_at_def sr)
    then have "remove_color_loop h (Some p) (root t) = right_tail h2 (Some p) (Some q)"
      using links by (subst remove_loop_right) (auto simp: RB_RED h1(1) h2(1))
    moreover have "del_state h2 (RightHole RB_RED sr p # RightHole RB_BLACK sl b # k) t xs"
      using st h2(2) by (auto simp: del_state_def s RB_RED rep_at_RightHole c)
    ultimately have "del_progress h (Some p) (root t) (RightHole RB_BLACK sl b # k) RB_RED xs"
      using right_tail_ok [OF _ _ black] unfolding sr by blast
    then show ?thesis by (simp add: del_progress_red)
  qed
qed

lemma RB_REMOVE_COLOR_ok:
  "del_state h k t xs \<Longrightarrow> del_done (RB_REMOVE_COLOR h (up k) (root t)) xs"
proof (induction k arbitrary: h t)
  case Nil
  then show ?case by (intro remove_stop) simp_all
next
  case (Cons f k)
  show ?case
  proof (cases "color_of t")
    case RB_RED
    with Cons.prems show ?thesis by (intro remove_stop) simp_all
  next
    case RB_BLACK
    have "\<exists>c. del_done (RB_REMOVE_COLOR h (up (f # k)) (root t)) xs \<or>
        del_progress h (up (f # k)) (root t) k c xs"
      using del_step_left del_step_right Cons.prems RB_BLACK
      by (cases f) (metis frame_addr.simps up.simps(2))+
    then show ?thesis
      using Cons.IH REMOVE_COLOR_cong unfolding del_progress_def by metis
  qed
qed

section \<open>Taking a node out\<close>

lemma before_append: "before (k @ k') = before k' @ before k"
  by (induction k rule: before.induct) simp_all

lemma after_append: "after (k @ k') = after k @ after k'"
  by (induction k rule: after.induct) simp_all

lemma plug_append: "plug (k @ k') t = plug k' (plug k t)"
  by (induction k t rule: plug.induct) simp_all

lemma rep_at_append: "rep_at h (k @ k') t \<longleftrightarrow> rep_at h k' (plug k t)"
  by (simp add: rep_plug [symmetric] plug_append)

text \<open>Unlinking a node \<open>a\<close> with one child \<open>s\<close> at most, which takes its place.\<close>

lemma unlink_rep_left:
  assumes "rep_at h k (Nd c Lf a s)"
  shows "\<exists>h'. rb_unlink h (Some a) (root s) = Some (h', up k, c) \<and> rep_at h' k s \<and>
    rb_links h' a = rb_links h a"
proof (cases k rule: before.cases)
  case 1
  with assms show ?thesis
    by (cases s) (auto simp: rep_at_def rb_unlink_def rb_relink_def rb_ops)
next
  case (2 d p u k')
  with assms show ?thesis
    by (cases s) (auto simp: rep_at_def rb_unlink_def rb_relink_def rb_ops top_Cons)
next
  case (3 d u p k')
  then have "root u \<noteq> Some a" "Some a \<noteq> root u"
    using assms by (auto simp: rep_at_def dest: root_in_inorder dest!: sym [of _ "root u"])
  with 3 assms show ?thesis
    by (cases s) (auto simp: rep_at_def rb_unlink_def rb_relink_def rb_ops top_Cons)
qed
lemma unlink_rep_right:
  assumes "rep_at h k (Nd c s a Lf)"
  shows "\<exists>h'. rb_unlink h (Some a) (root s) = Some (h', up k, c) \<and> rep_at h' k s \<and>
    rb_links h' a = rb_links h a"
proof (cases k rule: before.cases)
  case 1
  with assms show ?thesis
    by (cases s) (auto simp: rep_at_def rb_unlink_def rb_relink_def rb_ops)
next
  case (2 d p u k')
  with assms show ?thesis
    by (cases s) (auto simp: rep_at_def rb_unlink_def rb_relink_def rb_ops top_Cons)
next
  case (3 d u p k')
  then have "root u \<noteq> Some a" "Some a \<noteq> root u"
    using assms by (auto simp: rep_at_def dest: root_in_inorder dest!: sym [of _ "root u"])
  with 3 assms show ?thesis
    by (cases s) (auto simp: rep_at_def rb_unlink_def rb_relink_def rb_ops top_Cons)
qed
text \<open>Putting the address \<open>m\<close>, not in use, in the place of \<open>a\<close>.\<close>

definition rb_replace :: "rb_head \<Rightarrow> nat \<Rightarrow> nat \<Rightarrow> rb_head option" where
  "rb_replace h a m = do {
     h \<leftarrow> upd_link (\<lambda>_. rb_links h a) h (Some m);
     op \<leftarrow> RB_PARENT h (Some a);
     h \<leftarrow> rb_relink h op (Some a) (Some m);
     ol \<leftarrow> RB_LEFT h (Some a);
     h \<leftarrow> set_parent h ol (Some m);
     or \<leftarrow> RB_RIGHT h (Some a);
     set_parent_if h or (Some m)
   }"

lemma replace_rep:
  assumes "rep_at h k (Nd c l a r)" and "l \<noteq> Lf"
    and "m \<notin> ctx_addrs k" and "m \<notin> set (inorder (Nd c l a r))"
  shows "\<exists>h'. rb_replace h a m = Some h' \<and> rep_at h' k (Nd c l m r)"
proof (cases k rule: before.cases)
  case 1
  with assms show ?thesis
    by (cases l; cases r) (auto simp: rep_at_def rb_replace_def rb_relink_def rb_ops)
next
  case (2 d p u k')
  with assms show ?thesis
    by (cases l; cases r) (auto simp: rep_at_def rb_replace_def rb_relink_def rb_ops top_Cons)
next
  case (3 d u p k')
  then have "root u \<noteq> Some a"
    using assms by (auto simp: rep_at_def dest: root_in_inorder)
  with 3 assms show ?thesis
    by (cases l; cases r) (auto simp: rep_at_def rb_replace_def rb_relink_def rb_ops top_Cons)
qed

lemma leftmost_focus:
  assumes "t \<noteq> Lf"
  obtains k c m r where "t = plug k (Nd c Lf m r)" "before k = []"
  using assms
proof (induction t arbitrary: thesis)
  case (Nd c l a r)
  show ?case
  proof (cases "l = Lf")
    case True
    then show ?thesis using Nd.prems(1) [of "[]"] by simp
  next
    case False
    then obtain k d m u where k: "l = plug k (Nd d Lf m u)" "before k = []"
      using Nd.IH(1) by blast
    show ?thesis
      using Nd.prems(1) [of "k @ [LeftHole c a r]" d m u]
      by (simp add: plug_append before_append k)
  qed
qed simp

lemma blk_rename: "blk (k @ RightHole c l a # k') = blk (k @ RightHole c l b # k')"
  by (cases k rule: before.cases) simp_all

lemma ok_ctx_rename: "ok_ctx n (k @ RightHole c l a # k') = ok_ctx n (k @ RightHole c l b # k')"
proof (induction k arbitrary: n rule: before.induct)
  case 1
  show ?case by simp
next
  case (2 d x r k)
  then show ?case using blk_rename [of k c l a k' b] by simp
next
  case (3 d u x k)
  then show ?case using blk_rename [of k c l a k' b] by simp
qed

lemma RB_REMOVE_one_child:
  assumes rep: "rep_at h k (Nd c l a r)" and ok: "rb_ok (plug k (Nd c l a r))"
    and one: "l = Lf \<and> s = r \<or> r = Lf \<and> s = l"
  shows "del_done (RB_REMOVE h (Some a)) (before k @ inorder s @ after k)"
proof -
  have links: "RB_LEFT h (Some a) = Some (root l)" "RB_RIGHT h (Some a) = Some (root r)"
    using rep_at_node [OF rep] by (simp_all add: rb_read)
  obtain h' where h': "rb_unlink h (Some a) (root s) = Some (h', up k, c)" "rep_at h' k s"
    using one rep unlink_rep_left [of h k c a s] unlink_rep_right [of h k c s a] by blast
  have "(if root l = None then root r else root l) = root s" "root l = None \<or> root r = None"
    using one by auto
  then have eq: "RB_REMOVE h (Some a) =
      (if c = RB_BLACK then RB_REMOVE_COLOR h' (up k) (root s) else Some h')"
    unfolding RB_REMOVE_def links by (simp add: h'(1))
  show ?thesis
  proof (cases c)
    case RB_BLACK
    have "del_state h' k s (before k @ inorder s @ after k)"
      using ok one h'(2) RB_BLACK by (cases s) (auto simp: del_state_def rb_ok_plug)
    then show ?thesis using RB_REMOVE_COLOR_ok eq RB_BLACK by simp
  next
    case RB_RED
    have "rb_ok (plug k s)"
      using ok one RB_RED by (auto simp: rb_ok_plug)
    then show ?thesis
      using eq RB_RED h'(2) by (intro del_doneI [where t' = "plug k s"]) (simp_all add: rep_plug inorder_plug)
  qed
qed

text \<open>
  A node with two children: its successor \<open>m\<close>, the leftmost node of the right subtree, is
  unlinked and takes its place.
\<close>

lemma RB_REMOVE_splice:
  assumes rep: "rep_at h k (Nd c l a (plug k1 (Nd d Lf m s)))" and "l \<noteq> Lf" and "before k1 = []"
  shows "\<exists>h'. RB_REMOVE h (Some a) = (if d = RB_BLACK
      then RB_REMOVE_COLOR h' (up (k1 @ RightHole c l m # k)) (root s) else Some h') \<and>
    rep_at h' (k1 @ RightHole c l m # k) s"
proof -
  let ?r = "plug k1 (Nd d Lf m s)" and ?K = "k1 @ RightHole c l a # k"
  obtain b where b: "root ?r = Some b"
    by (cases "root ?r") (auto simp: root_plug top_def split: if_splits)
  have links: "rb_links h a = \<lparr>rbe_left = root l, rbe_right = Some b, rbe_parent = up k,
      rbe_color = c\<rparr>"
    using rep_at_node [OF rep] by (simp add: b)
  have m: "leftmost h b = Some m"
    using leftmost_ok [of h "Some a" ?r b] rep b assms(3)
    by (simp add: rep_at_def inorder_plug)
  have rep1: "rep_at h ?K (Nd d Lf m s)" using rep by (simp add: rep_at_append rep_at_RightHole)
  obtain h1 where h1: "rb_unlink h (Some m) (root s) = Some (h1, up ?K, d)" "rep_at h1 ?K s"
    "rb_links h1 m = rb_links h m"
    using unlink_rep_left [OF rep1] by blast
  have m1: "rb_links h m = \<lparr>rbe_left = None, rbe_right = root s, rbe_parent = up ?K,
      rbe_color = d\<rparr>"
    using rep_at_node [OF rep1] by simp
  have "rep_at h1 k (Nd c l a (plug k1 s))" using h1(2) by (simp add: rep_at_append rep_at_RightHole)
  moreover have "m \<notin> ctx_addrs k" "m \<notin> set (inorder (Nd c l a (plug k1 s)))"
    using rep by (auto simp: rep_at_def inorder_plug)
  ultimately obtain h2 where h2: "rb_replace h1 a m = Some h2" "rep_at h2 k (Nd c l m (plug k1 s))"
    using replace_rep [of h1 k c l a "plug k1 s" m] assms(2) by blast
  have parent: "(if up ?K = Some a then Some m else up ?K) = up (k1 @ RightHole c l m # k)"
  proof (cases k1)
    case (Cons f k2)
    have "frame_addr f \<in> set (inorder ?r)"
      using up_in_ctx [of k1] by (auto simp: Cons inorder_plug)
    then show ?thesis using rep Cons by (auto simp: rep_at_def)
  qed simp
  have "RB_REMOVE h (Some a) = (if d = RB_BLACK
      then RB_REMOVE_COLOR h2 (up (k1 @ RightHole c l m # k)) (root s) else Some h2)"
    using h2(1) assms(2)
    by (auto simp: RB_REMOVE_def rb_read links m m1 h1(1,3) parent [symmetric] rb_replace_def
        Let_def bind_eq_Some_iff)
  moreover have "rep_at h2 (k1 @ RightHole c l m # k) s"
    using h2(2) by (simp add: rep_at_append rep_at_RightHole)
  ultimately show ?thesis by blast
qed

lemma RB_REMOVE_two_children:
  assumes rep: "rep_at h k (Nd c l a (plug k1 (Nd d Lf m s)))" and "l \<noteq> Lf" and "before k1 = []"
    and ok: "rb_ok (plug k (Nd c l a (plug k1 (Nd d Lf m s))))"
  shows "del_done (RB_REMOVE h (Some a))
    (before k @ inorder l @ inorder (plug k1 (Nd d Lf m s)) @ after k)"
proof -
  let ?K = "k1 @ RightHole c l m # k"
  let ?xs = "before k @ inorder l @ inorder (plug k1 (Nd d Lf m s)) @ after k"
  obtain h' where eq: "RB_REMOVE h (Some a) = (if d = RB_BLACK
      then RB_REMOVE_COLOR h' (up ?K) (root s) else Some h')" and rep': "rep_at h' ?K s"
    using RB_REMOVE_splice [OF assms(1-3)] by blast
  have "rb_ok (plug (k1 @ RightHole c l a # k) (Nd d Lf m s))"
    using ok by (simp add: plug_append)
  then have ctx: "ok_ctx (bheight (Nd d Lf m s)) ?K" "invh s" "invc s" "bheight s = 0"
      "d = RB_RED \<Longrightarrow> color_of s = RB_BLACK"
    unfolding rb_ok_plug ok_ctx_rename [of _ k1 c l a k m] by auto
  have xs: "?xs = before ?K @ inorder s @ after ?K"
    using assms(3) by (simp add: before_append after_append inorder_plug)
  show ?thesis
  proof (cases d)
    case RB_BLACK
    have "invc (paint RB_BLACK s)" using ctx(3) by (cases s) simp_all
    then have "del_state h' ?K s ?xs"
      using ctx rep' unfolding xs del_state_def by (simp add: RB_BLACK)
    then show ?thesis using RB_REMOVE_COLOR_ok eq RB_BLACK by simp
  next
    case RB_RED
    then have "rb_ok (plug ?K s)" using ctx unfolding rb_ok_plug by simp
    then show ?thesis
      using eq RB_RED rep' unfolding xs
      by (intro del_doneI [where t' = "plug ?K s"]) (simp_all add: rep_plug inorder_plug)
  qed
qed

theorem RB_REMOVE_ok:
  assumes "rep h t" and "rb_ok t" and "inorder t = xs @ a # ys"
  shows "\<exists>h' t'. RB_REMOVE h (Some a) = Some h' \<and> rep h' t' \<and> rb_ok t' \<and> inorder t' = xs @ ys"
proof -
  obtain k c l r where f: "t = plug k (Nd c l a r)" "rep_at h k (Nd c l a r)"
    "xs = before k @ inorder l" "ys = inorder r @ after k"
    using focus [OF assms(1,3)] by metis
  have "del_done (RB_REMOVE h (Some a)) (xs @ ys)"
  proof (cases "l = Lf \<or> r = Lf")
    case True
    then obtain s where "l = Lf \<and> s = r \<or> r = Lf \<and> s = l" by blast
    moreover from this have "inorder s = inorder l @ inorder r" by auto
    ultimately show ?thesis
      using RB_REMOVE_one_child [OF f(2)] assms(2) f by auto
  next
    case False
    then obtain k1 d m s where "r = plug k1 (Nd d Lf m s)" "before k1 = []"
      using leftmost_focus by metis
    then show ?thesis
      using RB_REMOVE_two_children [of h k c l a k1 d m s] False assms(2) f by simp
  qed
  then show ?thesis by (simp add: del_done_def)
qed

end
