(* ===== verification/Rb_Index.thy ===== *)
theory Rb_Index
  imports Rb_Search Rb_Remove
begin

text \<open>
  What the clients of \<^verbatim>\<open>src/tree.h\<close> (the ARP cache, the routing table, the socket and
  connection tables, the reassembly buffers) rely on: an index of nodes in the order of a
  key. \<open>ordered_index\<close> is that interface, with the clients' lemmas about keys proved once;
  the red-black trees of \<open>Rb_Heap\<close> interpret it, and the four properties below state the
  correctness of the pointer code on the represented trees.
\<close>

section \<open>The interface\<close>

lemma split_by_key:
  fixes key :: "nat \<Rightarrow> 'k::linorder"
  assumes "sorted_wrt (\<lambda>a b. key a < key b) xs" and "\<forall>a\<in>set xs. key a \<noteq> k"
  shows "\<exists>ls rs. xs = ls @ rs \<and> (\<forall>a\<in>set ls. key a < k) \<and> (\<forall>a\<in>set rs. k < key a)"
  using assms
proof (induction xs)
  case (Cons a xs)
  show ?case
  proof (cases "key a < k")
    case True
    obtain ls rs where "xs = ls @ rs" "\<forall>a\<in>set ls. key a < k" "\<forall>a\<in>set rs. k < key a"
      using Cons by auto
    with True have "a # xs = (a # ls) @ rs \<and> (\<forall>b\<in>set (a # ls). key b < k) \<and> (\<forall>a\<in>set rs. k < key a)"
      by simp
    then show ?thesis by blast
  next
    case False
    then have "k < key a" using Cons.prems(2) by (auto simp: not_less le_less)
    moreover have "k < key b" if "b \<in> set xs" for b
      using Cons.prems(1) that calculation by (auto intro: less_trans)
    ultimately have "a # xs = [] @ (a # xs) \<and> (\<forall>b\<in>set []. key b < k) \<and> (\<forall>b\<in>set (a # xs). k < key b)"
      by simp
    then show ?thesis by blast
  qed
qed simp

lemma by_key_pos: "by_key x key cmp A \<Longrightarrow> a \<in> A \<Longrightarrow> key a < x \<Longrightarrow> 0 < cmp a"
  unfolding by_key_def by (metis less_asym less_irrefl linorder_neqE_linordered_idom)

locale ordered_index =
  fixes holds :: "'h \<Rightarrow> nat list \<Rightarrow> bool"
    and find :: "(nat \<Rightarrow> int) \<Rightarrow> 'h \<Rightarrow> nat option option"
    and insert :: "(nat \<Rightarrow> int) \<Rightarrow> 'h \<Rightarrow> nat \<Rightarrow> ('h \<times> nat option) option"
    and remove :: "'h \<Rightarrow> nat option \<Rightarrow> 'h option"
    and walk :: "'h \<Rightarrow> nat list option"
  assumes find: "holds h xs \<Longrightarrow> cut cmp xs \<Longrightarrow> find cmp h = Some (List.find (\<lambda>a. cmp a = 0) xs)"
    and find_absent: "holds h xs \<Longrightarrow> \<forall>a\<in>set xs. cmp a \<noteq> 0 \<Longrightarrow> find cmp h = Some None"
    and insert_dup: "holds h xs \<Longrightarrow> cut cmp xs \<Longrightarrow> e \<notin> set xs \<Longrightarrow> a \<in> set xs \<Longrightarrow> cmp a = 0 \<Longrightarrow>
      insert cmp h e = Some (h, Some a)"
    and insert_new: "holds h (xs @ ys) \<Longrightarrow> e \<notin> set xs \<Longrightarrow> e \<notin> set ys \<Longrightarrow>
      \<forall>a\<in>set xs. cmp a > 0 \<Longrightarrow> \<forall>a\<in>set ys. cmp a < 0 \<Longrightarrow>
      \<exists>h'. insert cmp h e = Some (h', None) \<and> holds h' (xs @ e # ys)"
    and remove: "holds h (xs @ a # ys) \<Longrightarrow> \<exists>h'. remove h (Some a) = Some h' \<and> holds h' (xs @ ys)"
    and walk: "holds h xs \<Longrightarrow> walk h = Some xs"
begin

text \<open>\<open>keyed key h A\<close>: the index \<open>h\<close> holds the nodes \<open>A\<close>, whose keys are different.\<close>

definition keyed :: "(nat \<Rightarrow> 'k::linorder) \<Rightarrow> 'h \<Rightarrow> nat set \<Rightarrow> bool" where
  "keyed key h A \<longleftrightarrow> (\<exists>xs. holds h xs \<and> set xs = A \<and> sorted_wrt (\<lambda>a b. key a < key b) xs)"

lemma keyedE:
  assumes "keyed key h A"
  obtains xs where "holds h xs" "set xs = A" "sorted_wrt (\<lambda>a b. key a < key b) xs"
  using assms unfolding keyed_def by blast

lemma keyed_cong:
  assumes "keyed key h A" and "\<And>a. a \<in> A \<Longrightarrow> key' a = key a"
  shows "keyed key' h A"
proof -
  obtain xs where xs: "holds h xs" "set xs = A" "sorted_wrt (\<lambda>a b. key a < key b) xs"
    using assms(1) by (rule keyedE)
  have "sorted_wrt (\<lambda>a b. key' a < key' b) xs"
    using xs assms(2) by (auto intro: sorted_wrt_mono_rel [OF _ xs(3)])
  with xs show ?thesis unfolding keyed_def by blast
qed

lemma keyed_inj:
  assumes "keyed key h A" and "a \<in> A" and "b \<in> A" and "key a = key b"
  shows "a = b"
proof -
  obtain xs where xs: "set xs = A" "sorted_wrt (\<lambda>a b. key a < key b) xs"
    using assms(1) by (rule keyedE)
  show ?thesis
    using assms(2-4) xs unfolding sorted_wrt_iff_nth_less
    by (metis in_set_conv_nth less_irrefl linorder_neqE_nat)
qed

lemma find_hit:
  assumes "keyed key h A" and "by_key x key cmp A" and "a \<in> A" and "key a = x"
  shows "find cmp h = Some (Some a)"
proof -
  obtain xs where xs: "holds h xs" "set xs = A" "sorted_wrt (\<lambda>a b. key a < key b) xs"
    using assms(1) by (rule keyedE)
  have "find cmp h = Some (List.find (\<lambda>a. cmp a = 0) xs)"
    using xs assms(2) by (intro find by_key_cut [of x key]) simp_all
  moreover obtain b where b: "List.find (\<lambda>a. cmp a = 0) xs = Some b"
    using assms(2-4) xs(2) by (cases "List.find (\<lambda>a. cmp a = 0) xs")
      (auto simp: find_None_iff by_key_def)
  then have "b \<in> A" "cmp b = 0" using xs(2) by (auto simp: find_Some_iff)
  then have "b = a" using assms keyed_inj [OF assms(1)] by (metis by_key_def)
  ultimately show ?thesis using b by simp
qed

lemma find_miss:
  assumes "keyed key h A" and "\<And>a. a \<in> A \<Longrightarrow> cmp a \<noteq> 0"
  shows "find cmp h = Some None"
  using keyedE [OF assms(1)] assms(2) find_absent by metis

lemma insert_key_dup:
  assumes "keyed key h A" and "by_key (key e) key cmp A" and "e \<notin> A" and "a \<in> A"
    and "key a = key e"
  shows "insert cmp h e = Some (h, Some a)"
proof -
  obtain xs where xs: "holds h xs" "set xs = A" "sorted_wrt (\<lambda>a b. key a < key b) xs"
    using assms(1) by (rule keyedE)
  then show ?thesis
    using assms by (intro insert_dup [of h xs] by_key_cut [of "key e" key]) (auto simp: by_key_def)
qed

lemma insert_key_new:
  assumes "keyed key h A" and "by_key (key e) key cmp A" and "e \<notin> A"
    and "\<And>a. a \<in> A \<Longrightarrow> key a \<noteq> key e"
  shows "\<exists>h'. insert cmp h e = Some (h', None) \<and> keyed key h' (A \<union> {e})"
proof -
  obtain xs where xs: "holds h xs" "set xs = A" "sorted_wrt (\<lambda>a b. key a < key b) xs"
    using assms(1) by (rule keyedE)
  obtain ls rs where s: "xs = ls @ rs" "\<forall>a\<in>set ls. key a < key e" "\<forall>a\<in>set rs. key e < key a"
    using split_by_key [OF xs(3), of "key e"] xs(2) assms(4) by blast
  have signs: "\<forall>a\<in>set ls. cmp a > 0" "\<forall>a\<in>set rs. cmp a < 0"
    using assms(2) s xs(2) by_key_pos [OF assms(2)] by (auto simp: by_key_def)
  obtain h' where h': "insert cmp h e = Some (h', None)" "holds h' (ls @ e # rs)"
    using insert_new [of h ls rs e cmp] xs(1,2) s(1) signs assms(3) by auto
  moreover have "sorted_wrt (\<lambda>a b. key a < key b) (ls @ e # rs)"
    using xs(3) s(2,3) unfolding s(1) sorted_wrt_append by auto
  moreover have "set (ls @ e # rs) = A \<union> {e}" using xs(2) s(1) by auto
  ultimately show ?thesis unfolding keyed_def by blast
qed

lemma remove_key:
  assumes "keyed key h A" and "a \<in> A"
  shows "\<exists>h'. remove h (Some a) = Some h' \<and> keyed key h' (A - {a})"
proof -
  obtain xs where xs: "holds h xs" "set xs = A" "sorted_wrt (\<lambda>a b. key a < key b) xs"
    using assms(1) by (rule keyedE)
  obtain ys zs where s: "xs = ys @ a # zs" using assms(2) xs(2) by (metis split_list)
  obtain h' where h': "remove h (Some a) = Some h'" "holds h' (ys @ zs)"
    using remove [of h ys a zs] xs(1) unfolding s by blast
  moreover have "a \<notin> set ys" "a \<notin> set zs" "sorted_wrt (\<lambda>a b. key a < key b) (ys @ zs)"
    using xs(3) unfolding s by (auto simp: sorted_wrt_append)
  moreover from this have "set (ys @ zs) = A - {a}" using xs(2) unfolding s by auto
  ultimately show ?thesis unfolding keyed_def by blast
qed

lemma walk_key:
  assumes "keyed key h A"
  shows "\<exists>xs. walk h = Some xs \<and> set xs = A \<and> sorted_wrt (\<lambda>a b. key a < key b) xs"
  using keyedE [OF assms] walk by metis

end

section \<open>The trees of tree.h as an index\<close>

definition rb_holds :: "rb_head \<Rightarrow> nat list \<Rightarrow> bool" where
  "rb_holds h xs \<longleftrightarrow> (\<exists>t. rep h t \<and> rb_ok t \<and> inorder t = xs)"

lemma split_unique:
  assumes "xs @ ys = xs' @ ys'" and "\<forall>a\<in>set xs \<union> set xs'. P a" and "\<forall>a\<in>set ys \<union> set ys'. \<not> P a"
  shows "xs = xs' \<and> ys = ys'"
  using assms by (auto simp: append_eq_append_conv2) (metis Un_iff append_Nil2 in_set_conv_decomp
      list.set_intros(1) neq_Nil_conv set_append)+

lemma rb_insert_new:
  assumes "rb_holds h (xs @ ys)" and "e \<notin> set xs" and "e \<notin> set ys"
    and "\<forall>a\<in>set xs. cmp a > 0" and "\<forall>a\<in>set ys. cmp a < 0"
  shows "\<exists>h'. RB_INSERT cmp h e = Some (h', None) \<and> rb_holds h' (xs @ e # ys)"
proof -
  obtain t where t: "rep h t" "rb_ok t" "inorder t = xs @ ys"
    using assms(1) unfolding rb_holds_def by blast
  have "cut cmp (inorder t)"
    using assms(4,5) unfolding t(3) cut_def sorted_wrt_append
    by (auto intro!: sorted_wrt_true [THEN sorted_wrt_mono_rel [rotated]])
  moreover have "e \<notin> set (inorder t)" using assms(2,3) t(3) by simp
  moreover have "\<forall>a\<in>set (inorder t). cmp a \<noteq> 0" using assms(4,5) t(3) by auto
  ultimately obtain h' t' xs' ys' where r: "RB_INSERT cmp h e = Some (h', None)" "rep h' t'"
    "rb_ok t'" "inorder t = xs' @ ys'" "inorder t' = xs' @ e # ys'"
    "\<forall>a\<in>set xs'. cmp a > 0" "\<forall>a\<in>set ys'. cmp a < 0"
    by (rule RB_INSERT_new [OF t(1,2)])
  have "xs = xs' \<and> ys = ys'"
    using r(4,6,7) t(3) assms(4,5)
    by (intro split_unique [where P = "\<lambda>a. cmp a > 0"]) auto
  with r show ?thesis unfolding rb_holds_def by auto
qed

interpretation rbi: ordered_index rb_holds RB_FIND RB_INSERT RB_REMOVE RB_FOREACH
proof (unfold_locales)
  show "RB_FIND cmp h = Some (List.find (\<lambda>a. cmp a = 0) xs)"
    if "rb_holds h xs" "cut cmp xs" for h xs cmp
    using that RB_FIND_ok unfolding rb_holds_def by blast
  show "RB_FIND cmp h = Some None" if "rb_holds h xs" "\<forall>a\<in>set xs. cmp a \<noteq> 0" for h xs cmp
    using that RB_FIND_absent unfolding rb_holds_def by blast
  show "RB_INSERT cmp h e = Some (h, Some a)"
    if "rb_holds h xs" "cut cmp xs" "e \<notin> set xs" "a \<in> set xs" "cmp a = 0" for h xs cmp e a
    using that RB_INSERT_dup unfolding rb_holds_def by blast
  show "\<exists>h'. RB_REMOVE h (Some a) = Some h' \<and> rb_holds h' (xs @ ys)"
    if "rb_holds h (xs @ a # ys)" for h xs a ys
    using that RB_REMOVE_ok unfolding rb_holds_def by metis
  show "RB_FOREACH h = Some xs" if "rb_holds h xs" for h xs
    using that RB_FOREACH_ok unfolding rb_holds_def by blast
qed (rule rb_insert_new)

text \<open>Links of nodes outside a tree, an empty tree, and addresses as keys.\<close>

lemma rb_holds_links_other:
  assumes "rb_holds h xs" and "a \<notin> set xs"
  shows "rb_holds (h\<lparr>rb_links := (rb_links h)(a := e)\<rparr>) xs"
proof -
  have "shape ((rb_links h)(a := e)) p t = shape (rb_links h) p t" if "a \<notin> set (inorder t)" for p t
    using that by (induction t arbitrary: p) auto
  with assms show ?thesis unfolding rb_holds_def rep_def by auto
qed

lemma rb_holds_RB_INIT: "rb_holds (RB_INIT h) []"
  by (auto simp: rb_holds_def rep_def RB_INIT_def rb_ok_def intro!: exI [of _ Lf])

lemma keyed_links_other:
  "rbi.keyed key h A \<Longrightarrow> a \<notin> A \<Longrightarrow> rbi.keyed key (h\<lparr>rb_links := (rb_links h)(a := e)\<rparr>) A"
  unfolding rbi.keyed_def using rb_holds_links_other by blast

lemma keyed_RB_INIT: "rbi.keyed key (RB_INIT h) {}"
  using rb_holds_RB_INIT by (auto simp: rbi.keyed_def intro!: exI [of _ "[]"])

lemma by_key_window:
  assumes "in_window b x" and "\<And>a. a \<in> A \<Longrightarrow> in_window b (f a)"
  shows "by_key (window_key b x) (\<lambda>a. window_key b (f a)) (\<lambda>a. sint (x - f a)) A"
  using assms by (auto simp: by_key_def sint_window_key)

section \<open>Correctness of the pointer code\<close>

text \<open>A small tree for the examples below: node 2 above the red nodes 1 and 3.\<close>

definition demo_rb :: rb_head where
  "demo_rb = \<lparr>rbh_root = Some 2, rb_links = (\<lambda>_. rb_zero)
     (1 := \<lparr>rbe_left = None, rbe_right = None, rbe_parent = Some 2, rbe_color = RB_RED\<rparr>,
      2 := \<lparr>rbe_left = Some 1, rbe_right = Some 3, rbe_parent = None, rbe_color = RB_BLACK\<rparr>,
      3 := \<lparr>rbe_left = None, rbe_right = None, rbe_parent = Some 2, rbe_color = RB_RED\<rparr>)\<rparr>"

definition demo_rbt :: rbt where
  "demo_rbt = Nd RB_BLACK (Nd RB_RED Lf 1 Lf) 2 (Nd RB_RED Lf 3 Lf)"

lemma demo_rep: "rep demo_rb demo_rbt" "rb_ok demo_rbt" "inorder demo_rbt = [1, 2, 3]"
  by (simp_all add: demo_rb_def demo_rbt_def rep_def rb_ok_def)

text \<open>
  C1: \<^verbatim>\<open>RB_INSERT\<close> of a node that is not in a tree kept in strict order of a key ends. If
  an element has the key of the new node, that element is returned and the tree is left as
  it is. Otherwise the result is a red-black tree, with every left, right and parent pointer
  right, that has the new node at its place in the order.
\<close>

theorem rb_insert_correct:
  fixes key :: "nat \<Rightarrow> 'k::linorder"
  assumes "rep h t" and "rb_ok t" and "sorted_wrt (\<lambda>a b. key a < key b) (inorder t)"
    and "by_key (key e) key cmp (set (inorder t))" and "e \<notin> set (inorder t)"
  shows "(\<exists>a\<in>set (inorder t). key a = key e \<and> RB_INSERT cmp h e = Some (h, Some a)) \<or>
    ((\<forall>a\<in>set (inorder t). key a \<noteq> key e) \<and>
     (\<exists>h' t'. RB_INSERT cmp h e = Some (h', None) \<and> rep h' t' \<and> rb_ok t' \<and>
        sorted_wrt (\<lambda>a b. key a < key b) (inorder t') \<and>
        set (inorder t') = Set.insert e (set (inorder t))))"
proof -
  have k: "rbi.keyed key h (set (inorder t))"
    using assms(1-3) unfolding rbi.keyed_def rb_holds_def by blast
  show ?thesis
  proof (cases "\<exists>a\<in>set (inorder t). key a = key e")
    case True
    then show ?thesis using rbi.insert_key_dup [OF k assms(4,5)] by blast
  next
    case False
    then obtain h' where "RB_INSERT cmp h e = Some (h', None)"
      "rbi.keyed key h' (set (inorder t) \<union> {e})"
      using rbi.insert_key_new [OF k assms(4,5)] by blast
    with False show ?thesis unfolding rbi.keyed_def rb_holds_def by auto
  qed
qed

theorem rb_insert_correct_witness:
  "rep demo_rb demo_rbt \<and> rb_ok demo_rbt \<and>
   (\<exists>h' t'. RB_INSERT (\<lambda>a. 7 - int a) demo_rb 7 = Some (h', None) \<and> rep h' t' \<and> rb_ok t' \<and>
      set (inorder t') = {1, 2, 3, 7})"
  using rb_insert_correct [of demo_rb demo_rbt "\<lambda>a. a" 7 "\<lambda>a. 7 - int a"]
  by (auto simp: demo_rep by_key_def)

text \<open>
  C2: \<^verbatim>\<open>RB_REMOVE\<close> of a node of a red-black tree ends and leaves a red-black tree of the
  other nodes in the same order, with every left, right and parent pointer right.
\<close>

theorem rb_remove_correct:
  assumes "rep h t" and "rb_ok t" and "inorder t = xs @ a # ys"
  shows "\<exists>h' t'. RB_REMOVE h (Some a) = Some h' \<and> rep h' t' \<and> rb_ok t' \<and> inorder t' = xs @ ys"
  using assms by (rule RB_REMOVE_ok)

theorem rb_remove_correct_witness:
  "rep demo_rb demo_rbt \<and>
   (\<exists>h' t'. RB_REMOVE demo_rb (Some 2) = Some h' \<and> rep h' t' \<and> rb_ok t' \<and> inorder t' = [1, 3])"
  using rb_remove_correct [of demo_rb demo_rbt "[1]" 2 "[3]"] by (simp add: demo_rep)

text \<open>
  C3: On a tree in strict order of a key, \<^verbatim>\<open>RB_FIND\<close> returns the node with the wanted key
  when there is one and \<^verbatim>\<open>NULL\<close> otherwise, \<^verbatim>\<open>RB_NFIND\<close> returns the first node whose key is
  not smaller, and both end.
\<close>

theorem rb_find_correct:
  fixes key :: "nat \<Rightarrow> 'k::linorder"
  assumes "rep h t" and "sorted_wrt (\<lambda>a b. key a < key b) (inorder t)"
    and "by_key x key cmp (set (inorder t))"
  shows "RB_FIND cmp h = Some (List.find (\<lambda>a. key a = x) (inorder t)) \<and>
    RB_NFIND cmp h = Some (List.find (\<lambda>a. x \<le> key a) (inorder t))"
proof -
  have cut: "cut cmp (inorder t)" using by_key_cut assms(2,3) by blast
  have "List.find (\<lambda>a. cmp a = 0) (inorder t) = List.find (\<lambda>a. key a = x) (inorder t)"
    using assms(3) by (intro find_cong) (auto simp: by_key_def)
  moreover have "List.find (\<lambda>a. cmp a \<le> 0) (inorder t) = List.find (\<lambda>a. x \<le> key a) (inorder t)"
    using assms(3) by (intro find_cong refl) (auto simp: by_key_def order_le_less)
  ultimately show ?thesis using RB_FIND_ok [OF assms(1) cut] RB_NFIND_ok [OF assms(1) cut] by simp
qed

theorem rb_find_correct_witness:
  "RB_FIND (\<lambda>a. 3 - int a) demo_rb = Some (Some 3) \<and>
   RB_NFIND (\<lambda>a. 3 - int a) demo_rb = Some (Some 3)"
  using rb_find_correct [of demo_rb demo_rbt "\<lambda>a. a" 3 "\<lambda>a. 3 - int a"]
  by (auto simp: demo_rep by_key_def)

text \<open>
  C4: \<^verbatim>\<open>RB_FOREACH\<close> visits the nodes of a represented tree in order, each once, and ends;
  \<^verbatim>\<open>RB_NEXT\<close> and \<^verbatim>\<open>RB_PREV\<close> step to the neighbours in that order.
\<close>

theorem rb_foreach_correct:
  assumes "rep h t"
  shows "RB_FOREACH h = Some (inorder t) \<and>
    (\<forall>xs a b ys. inorder t = xs @ a # b # ys \<longrightarrow>
       RB_NEXT h a = Some (Some b) \<and> RB_PREV h b = Some (Some a))"
proof -
  have "RB_PREV h b = Some (Some a)" if "inorder t = xs @ a # b # ys" for xs a b ys
    using RB_PREV_ok [OF assms, of "xs @ [a]" b ys] that by simp
  then show ?thesis using RB_FOREACH_ok [OF assms] RB_NEXT_ok [OF assms] by simp
qed

theorem rb_foreach_correct_witness:
  "RB_FOREACH demo_rb = Some [1, 2, 3] \<and> RB_NEXT demo_rb 1 = Some (Some 2)"
  using rb_foreach_correct [OF demo_rep(1)]
    rb_foreach_correct [OF demo_rep(1), THEN conjunct2, rule_format, of "[]" 1 2 "[3]"]
  by (simp add: demo_rep)

end
