(* ===== verification/Splay.thy ===== *)
theory Splay
  imports Rb_Index
begin

text \<open>
  The splay trees of \<^verbatim>\<open>src/tree.h\<close> (the macros \<^verbatim>\<open>SPLAY_*\<close>) at the level of pointers, in the manner of
  \<open>Rb_Heap\<close>. The top-down splay keeps a node \<^verbatim>\<open>__node\<close> on the stack whose links collect the two side
  trees; the variables \<^verbatim>\<open>__left\<close> and \<^verbatim>\<open>__right\<close> point to it or to an element, which is the datatype
  \<open>sp_ref\<close>. Every lookup changes the tree.
\<close>

datatype sp_ref = Stk | Elm nat

record sp_entry =
  spe_left :: ptr
  spe_right :: ptr

record sp_head =
  sph_root :: ptr
  sp_links :: "sp_ref \<Rightarrow> sp_entry"

definition SPLAY_INIT :: "sp_head \<Rightarrow> sp_head" where
  "SPLAY_INIT h = h\<lparr>sph_root := None\<rparr>"

definition SPLAY_LEFT :: "sp_head \<Rightarrow> sp_ref \<Rightarrow> ptr" where
  "SPLAY_LEFT h p = spe_left (sp_links h p)"

definition SPLAY_RIGHT :: "sp_head \<Rightarrow> sp_ref \<Rightarrow> ptr" where
  "SPLAY_RIGHT h p = spe_right (sp_links h p)"

definition SPLAY_EMPTY :: "sp_head \<Rightarrow> bool" where
  "SPLAY_EMPTY h \<longleftrightarrow> sph_root h = None"

definition sp_set_left :: "sp_head \<Rightarrow> sp_ref \<Rightarrow> ptr \<Rightarrow> sp_head" where
  "sp_set_left h p v = h\<lparr>sp_links := (sp_links h)(p := (sp_links h p)\<lparr>spe_left := v\<rparr>)\<rparr>"

definition sp_set_right :: "sp_head \<Rightarrow> sp_ref \<Rightarrow> ptr \<Rightarrow> sp_head" where
  "sp_set_right h p v = h\<lparr>sp_links := (sp_links h)(p := (sp_links h p)\<lparr>spe_right := v\<rparr>)\<rparr>"

definition SPLAY_ROTATE_RIGHT :: "sp_head \<Rightarrow> nat \<Rightarrow> sp_head option" where
  "SPLAY_ROTATE_RIGHT h tmp = do {
     root \<leftarrow> sph_root h;
     let h = sp_set_left h (Elm root) (SPLAY_RIGHT h (Elm tmp));
     let h = sp_set_right h (Elm tmp) (Some root);
     Some (h\<lparr>sph_root := Some tmp\<rparr>)
   }"

definition SPLAY_ROTATE_LEFT :: "sp_head \<Rightarrow> nat \<Rightarrow> sp_head option" where
  "SPLAY_ROTATE_LEFT h tmp = do {
     root \<leftarrow> sph_root h;
     let h = sp_set_right h (Elm root) (SPLAY_LEFT h (Elm tmp));
     let h = sp_set_left h (Elm tmp) (Some root);
     Some (h\<lparr>sph_root := Some tmp\<rparr>)
   }"

text \<open>With the new value of \<^verbatim>\<open>tmp\<close>.\<close>

definition SPLAY_LINKLEFT :: "sp_head \<Rightarrow> sp_ref \<Rightarrow> (sp_head \<times> sp_ref) option" where
  "SPLAY_LINKLEFT h tmp = do {
     root \<leftarrow> sph_root h;
     let h = sp_set_left h tmp (Some root);
     let tmp = Elm root;
     Some (h\<lparr>sph_root := SPLAY_LEFT h (Elm root)\<rparr>, tmp)
   }"

definition SPLAY_LINKRIGHT :: "sp_head \<Rightarrow> sp_ref \<Rightarrow> (sp_head \<times> sp_ref) option" where
  "SPLAY_LINKRIGHT h tmp = do {
     root \<leftarrow> sph_root h;
     let h = sp_set_right h tmp (Some root);
     let tmp = Elm root;
     Some (h\<lparr>sph_root := SPLAY_RIGHT h (Elm root)\<rparr>, tmp)
   }"

definition SPLAY_ASSEMBLE :: "sp_head \<Rightarrow> sp_ref \<Rightarrow> sp_ref \<Rightarrow> sp_ref \<Rightarrow> sp_head option" where
  "SPLAY_ASSEMBLE h node left right = do {
     root \<leftarrow> sph_root h;
     let h = sp_set_right h left (SPLAY_LEFT h (Elm root));
     let h = sp_set_left h right (SPLAY_RIGHT h (Elm root));
     let h = sp_set_left h (Elm root) (SPLAY_RIGHT h node);
     let h = sp_set_right h (Elm root) (SPLAY_LEFT h node);
     Some h
   }"

section \<open>The splay operation\<close>

text \<open>The loop of \<^verbatim>\<open>SPLAY\<close>, with the values of \<^verbatim>\<open>__left\<close> and \<^verbatim>\<open>__right\<close> after it.\<close>

partial_function (option) splay_loop ::
  "(nat \<Rightarrow> int) \<Rightarrow> sp_head \<Rightarrow> sp_ref \<Rightarrow> sp_ref \<Rightarrow> (sp_head \<times> sp_ref \<times> sp_ref) option" where
  "splay_loop cmp h left right = do {
     root \<leftarrow> sph_root h;
     if cmp root = 0 then Some (h, left, right)
     else if cmp root < 0 then
       (case SPLAY_LEFT h (Elm root) of
          None \<Rightarrow> Some (h, left, right)
        | Some tmp \<Rightarrow>
            if cmp tmp < 0 then do {
              h \<leftarrow> SPLAY_ROTATE_RIGHT h tmp;
              if SPLAY_LEFT h (Elm tmp) = None then Some (h, left, right)
              else do {
                (h, right) \<leftarrow> SPLAY_LINKLEFT h right;
                splay_loop cmp h left right
              }
            }
            else do {
              (h, right) \<leftarrow> SPLAY_LINKLEFT h right;
              splay_loop cmp h left right
            })
     else
       (case SPLAY_RIGHT h (Elm root) of
          None \<Rightarrow> Some (h, left, right)
        | Some tmp \<Rightarrow>
            if cmp tmp > 0 then do {
              h \<leftarrow> SPLAY_ROTATE_LEFT h tmp;
              if SPLAY_RIGHT h (Elm tmp) = None then Some (h, left, right)
              else do {
                (h, left) \<leftarrow> SPLAY_LINKRIGHT h left;
                splay_loop cmp h left right
              }
            }
            else do {
              (h, left) \<leftarrow> SPLAY_LINKRIGHT h left;
              splay_loop cmp h left right
            })
   }"

definition SPLAY :: "(nat \<Rightarrow> int) \<Rightarrow> sp_head \<Rightarrow> sp_head option" where
  "SPLAY cmp h = do {
     let h = sp_set_left (sp_set_right h Stk None) Stk None;
     (h, left, right) \<leftarrow> splay_loop cmp h Stk Stk;
     SPLAY_ASSEMBLE h Stk left right
   }"

text \<open>The loop of \<^verbatim>\<open>SPLAY_MINMAX\<close>, which tests \<^verbatim>\<open>__comp\<close> twice; it does not end for 0.\<close>

partial_function (option) splay_minmax_loop ::
  "int \<Rightarrow> sp_head \<Rightarrow> sp_ref \<Rightarrow> sp_ref \<Rightarrow> (sp_head \<times> sp_ref \<times> sp_ref) option" where
  "splay_minmax_loop dir h left right =
     (if dir < 0 then do {
        root \<leftarrow> sph_root h;
        case SPLAY_LEFT h (Elm root) of
          None \<Rightarrow> Some (h, left, right)
        | Some tmp \<Rightarrow>
            if dir < 0 then do {
              h \<leftarrow> SPLAY_ROTATE_RIGHT h tmp;
              if SPLAY_LEFT h (Elm tmp) = None then Some (h, left, right)
              else do {
                (h, right) \<leftarrow> SPLAY_LINKLEFT h right;
                splay_minmax_loop dir h left right
              }
            }
            else do {
              (h, right) \<leftarrow> SPLAY_LINKLEFT h right;
              splay_minmax_loop dir h left right
            }
      }
      else if dir > 0 then do {
        root \<leftarrow> sph_root h;
        case SPLAY_RIGHT h (Elm root) of
          None \<Rightarrow> Some (h, left, right)
        | Some tmp \<Rightarrow>
            if dir > 0 then do {
              h \<leftarrow> SPLAY_ROTATE_LEFT h tmp;
              if SPLAY_RIGHT h (Elm tmp) = None then Some (h, left, right)
              else do {
                (h, left) \<leftarrow> SPLAY_LINKRIGHT h left;
                splay_minmax_loop dir h left right
              }
            }
            else do {
              (h, left) \<leftarrow> SPLAY_LINKRIGHT h left;
              splay_minmax_loop dir h left right
            }
      }
      else splay_minmax_loop dir h left right)"

definition SPLAY_MINMAX :: "int \<Rightarrow> sp_head \<Rightarrow> sp_head option" where
  "SPLAY_MINMAX dir h = do {
     let h = sp_set_left (sp_set_right h Stk None) Stk None;
     (h, left, right) \<leftarrow> splay_minmax_loop dir h Stk Stk;
     SPLAY_ASSEMBLE h Stk left right
   }"

section \<open>The operations of a client\<close>

text \<open>\<open>cmp\<close> is the comparison with the element \<open>elm\<close>.\<close>

definition SPLAY_FIND :: "(nat \<Rightarrow> int) \<Rightarrow> sp_head \<Rightarrow> (sp_head \<times> ptr) option" where
  "SPLAY_FIND cmp h =
     (if SPLAY_EMPTY h then Some (h, None)
      else do {
        h \<leftarrow> SPLAY cmp h;
        root \<leftarrow> sph_root h;
        if cmp root = 0 then Some (h, Some root) else Some (h, None)
      })"

partial_function (option) splay_leftmost :: "sp_head \<Rightarrow> nat \<Rightarrow> nat option" where
  "splay_leftmost h elm =
     (case SPLAY_LEFT h (Elm elm) of
        None \<Rightarrow> Some elm
      | Some l \<Rightarrow> splay_leftmost h l)"

definition SPLAY_NEXT :: "(nat \<Rightarrow> int) \<Rightarrow> sp_head \<Rightarrow> nat \<Rightarrow> (sp_head \<times> ptr) option" where
  "SPLAY_NEXT cmp h elm = do {
     h \<leftarrow> SPLAY cmp h;
     case SPLAY_RIGHT h (Elm elm) of
       Some r \<Rightarrow> do {
         elm \<leftarrow> splay_leftmost h r;
         Some (h, Some elm)
       }
     | None \<Rightarrow> Some (h, None)
   }"

definition SPLAY_INSERT :: "(nat \<Rightarrow> int) \<Rightarrow> sp_head \<Rightarrow> nat \<Rightarrow> (sp_head \<times> ptr) option" where
  "SPLAY_INSERT cmp h elm =
     (if SPLAY_EMPTY h then
        (let h = sp_set_left (sp_set_right h (Elm elm) None) (Elm elm) None
         in Some (h\<lparr>sph_root := Some elm\<rparr>, None))
      else do {
        h \<leftarrow> SPLAY cmp h;
        root \<leftarrow> sph_root h;
        if cmp root < 0 then do {
          let h = sp_set_left h (Elm elm) (SPLAY_LEFT h (Elm root));
          let h = sp_set_right h (Elm elm) (Some root);
          let h = sp_set_left h (Elm root) None;
          Some (h\<lparr>sph_root := Some elm\<rparr>, None)
        }
        else if cmp root > 0 then do {
          let h = sp_set_right h (Elm elm) (SPLAY_RIGHT h (Elm root));
          let h = sp_set_left h (Elm elm) (Some root);
          let h = sp_set_right h (Elm root) None;
          Some (h\<lparr>sph_root := Some elm\<rparr>, None)
        }
        else Some (h, Some root)
      })"

definition SPLAY_REMOVE :: "(nat \<Rightarrow> int) \<Rightarrow> sp_head \<Rightarrow> nat \<Rightarrow> (sp_head \<times> ptr) option" where
  "SPLAY_REMOVE cmp h elm =
     (if SPLAY_EMPTY h then Some (h, None)
      else do {
        h \<leftarrow> SPLAY cmp h;
        root \<leftarrow> sph_root h;
        if cmp root = 0 then
          (if SPLAY_LEFT h (Elm root) = None
           then Some (h\<lparr>sph_root := SPLAY_RIGHT h (Elm root)\<rparr>, Some elm)
           else do {
             let tmp = SPLAY_RIGHT h (Elm root);
             h \<leftarrow> SPLAY cmp (h\<lparr>sph_root := SPLAY_LEFT h (Elm root)\<rparr>);
             root \<leftarrow> sph_root h;
             Some (sp_set_right h (Elm root) tmp, Some elm)
           })
        else Some (h, None)
      })"

definition SPLAY_MIN_MAX :: "int \<Rightarrow> sp_head \<Rightarrow> (sp_head \<times> ptr) option" where
  "SPLAY_MIN_MAX val h = do {
     h \<leftarrow> SPLAY_MINMAX val h;
     Some (h, sph_root h)
   }"

definition SPLAY_MIN :: "sp_head \<Rightarrow> (sp_head \<times> ptr) option" where
  "SPLAY_MIN h = (if SPLAY_EMPTY h then Some (h, None) else SPLAY_MIN_MAX (-1) h)"

definition SPLAY_MAX :: "sp_head \<Rightarrow> (sp_head \<times> ptr) option" where
  "SPLAY_MAX h = (if SPLAY_EMPTY h then Some (h, None) else SPLAY_MIN_MAX 1 h)"

text \<open>The elements that \<^verbatim>\<open>SPLAY_FOREACH\<close> visits; \<open>cmp a\<close> is the comparison with \<open>a\<close>.\<close>

partial_function (option) splay_from :: "(nat \<Rightarrow> nat \<Rightarrow> int) \<Rightarrow> sp_head \<Rightarrow> ptr \<Rightarrow> (sp_head \<times> nat list) option" where
  "splay_from cmp h x =
     (case x of
        None \<Rightarrow> Some (h, [])
      | Some a \<Rightarrow> do {
          (h, x) \<leftarrow> SPLAY_NEXT (cmp a) h a;
          (h, xs) \<leftarrow> splay_from cmp h x;
          Some (h, a # xs)
        })"

definition SPLAY_FOREACH :: "(nat \<Rightarrow> nat \<Rightarrow> int) \<Rightarrow> sp_head \<Rightarrow> (sp_head \<times> nat list) option" where
  "SPLAY_FOREACH cmp h = do {
     (h, x) \<leftarrow> SPLAY_MIN h;
     splay_from cmp h x
   }"

end
