(* ===== verification/Splay_Set.thy ===== *)
theory Splay_Set
  imports Splay
begin

text \<open>
  Correctness of the splay trees of \<open>Splay\<close>. During the loop the store represents three trees: the
  one at the head and the two side trees, each with one open link. Rotations, links and the
  final assembly are moves between such triples; the loop ends because the tree at the head
  gets smaller. The operations are then related to a list of the elements in key order.
\<close>

section \<open>Trees and their side trees\<close>

datatype spt = Tip | Bin spt nat spt

fun sp_root :: "spt \<Rightarrow> ptr" where
  "sp_root Tip = None"
| "sp_root (Bin l a r) = Some a"

fun sp_inorder :: "spt \<Rightarrow> nat list" where
  "sp_inorder Tip = []"
| "sp_inorder (Bin l a r) = sp_inorder l @ a # sp_inorder r"

fun sp_shape :: "(sp_ref \<Rightarrow> sp_entry) \<Rightarrow> spt \<Rightarrow> bool" where
  "sp_shape m Tip \<longleftrightarrow> True"
| "sp_shape m (Bin l a r) \<longleftrightarrow> m (Elm a) = \<lparr>spe_left = sp_root l, spe_right = sp_root r\<rparr> \<and> sp_shape m l \<and> sp_shape m r"

text \<open>
  The left side tree: nodes down its right spine with their left subtrees, the last one, to
  which \<^verbatim>\<open>__left\<close> points, first. Its own right link is still open. The right side tree is the mirror
  image.
\<close>

fun lref :: "(spt \<times> nat) list \<Rightarrow> sp_ref" where
  "lref [] = Stk"
| "lref ((l, a) # ls) = Elm a"

fun rref :: "(nat \<times> spt) list \<Rightarrow> sp_ref" where
  "rref [] = Stk"
| "rref ((a, r) # rs) = Elm a"

fun lside :: "(sp_ref \<Rightarrow> sp_entry) \<Rightarrow> (spt \<times> nat) list \<Rightarrow> bool" where
  "lside m [] \<longleftrightarrow> True"
| "lside m ((l, a) # ls) \<longleftrightarrow> spe_left (m (Elm a)) = sp_root l \<and> sp_shape m l \<and>
     spe_right (m (lref ls)) = Some a \<and> lside m ls"

fun rside :: "(sp_ref \<Rightarrow> sp_entry) \<Rightarrow> (nat \<times> spt) list \<Rightarrow> bool" where
  "rside m [] \<longleftrightarrow> True"
| "rside m ((a, r) # rs) \<longleftrightarrow> spe_right (m (Elm a)) = sp_root r \<and> sp_shape m r \<and>
     spe_left (m (rref rs)) = Some a \<and> rside m rs"

fun lplug :: "(spt \<times> nat) list \<Rightarrow> spt \<Rightarrow> spt" where
  "lplug [] t = t"
| "lplug ((l, a) # ls) t = lplug ls (Bin l a t)"

fun rplug :: "(nat \<times> spt) list \<Rightarrow> spt \<Rightarrow> spt" where
  "rplug [] t = t"
| "rplug ((a, r) # rs) t = rplug rs (Bin t a r)"

fun lnodes :: "(spt \<times> nat) list \<Rightarrow> nat list" where
  "lnodes [] = []"
| "lnodes ((l, a) # ls) = lnodes ls @ sp_inorder l @ [a]"

fun rnodes :: "(nat \<times> spt) list \<Rightarrow> nat list" where
  "rnodes [] = []"
| "rnodes ((a, r) # rs) = a # sp_inorder r @ rnodes rs"

lemma sp_inorder_lplug [simp]: "sp_inorder (lplug ls t) = lnodes ls @ sp_inorder t"
  by (induction ls t rule: lplug.induct) simp_all

lemma sp_inorder_rplug [simp]: "sp_inorder (rplug rs t) = sp_inorder t @ rnodes rs"
  by (induction rs t rule: rplug.induct) simp_all

lemma sp_root_None [simp]: "sp_root t = None \<longleftrightarrow> t = Tip" "None = sp_root t \<longleftrightarrow> t = Tip"
  by (cases t; simp)+

lemma sp_root_Some: "sp_root t = Some a \<Longrightarrow> \<exists>l r. t = Bin l a r"
  by (cases t) auto

lemma lref_in: "lref ls = Elm a \<Longrightarrow> a \<in> set (lnodes ls)" "rref rs = Elm a \<Longrightarrow> a \<in> set (rnodes rs)"
  by (cases ls rule: lref.cases, auto) (cases rs rule: rref.cases, auto)

lemma lref_Stk [simp]: "lref ls = Stk \<longleftrightarrow> ls = []" "Stk = lref ls \<longleftrightarrow> ls = []"
  by (cases ls rule: lref.cases; simp)+

lemma rref_Stk [simp]: "rref rs = Stk \<longleftrightarrow> rs = []" "Stk = rref rs \<longleftrightarrow> rs = []"
  by (cases rs rule: rref.cases; simp)+

lemma sp_shape_cong: "(\<And>a. a \<in> set (sp_inorder t) \<Longrightarrow> m' (Elm a) = m (Elm a)) \<Longrightarrow> sp_shape m t \<Longrightarrow> sp_shape m' t"
  by (induction t) auto

text \<open>A side tree does not depend on its open link.\<close>

lemma lside_same:
  assumes "\<And>a. a \<in> set (lnodes ls) \<Longrightarrow> m' (Elm a) = m (Elm a)" and "spe_right (m' Stk) = spe_right (m Stk)" and "lside m ls"
  shows "lside m' ls"
  using assms
proof (induction ls rule: lnodes.induct)
  case (2 l a ls)
  have "spe_right (m' (lref ls)) = spe_right (m (lref ls))"
    using 2(2,3) lref_in(1) [of ls] by (cases ls rule: lref.cases) auto
  moreover have "sp_shape m' l" using 2(2,4) by (intro sp_shape_cong [of l m' m]) auto
  ultimately show ?case using 2 by auto
qed simp

lemma rside_same:
  assumes "\<And>a. a \<in> set (rnodes rs) \<Longrightarrow> m' (Elm a) = m (Elm a)" and "spe_left (m' Stk) = spe_left (m Stk)" and "rside m rs"
  shows "rside m' rs"
  using assms
proof (induction rs rule: rnodes.induct)
  case (2 a r rs)
  have "spe_left (m' (rref rs)) = spe_left (m (rref rs))"
    using 2(2,3) lref_in(2) [of rs] by (cases rs rule: rref.cases) auto
  moreover have "sp_shape m' r" using 2(2,4) by (intro sp_shape_cong [of r m' m]) auto
  ultimately show ?case using 2 by auto
qed simp

lemma lside_open:
  assumes "lside m ls" and "distinct (lnodes ls)"
    and "\<And>a. a \<in> set (lnodes ls) \<Longrightarrow> Elm a \<noteq> lref ls \<Longrightarrow> m' (Elm a) = m (Elm a)"
    and "ls \<noteq> [] \<Longrightarrow> spe_left (m' (lref ls)) = spe_left (m (lref ls))" and "ls \<noteq> [] \<Longrightarrow> spe_right (m' Stk) = spe_right (m Stk)"
  shows "lside m' ls"
proof (cases ls rule: lref.cases)
  case (2 l a ks)
  have eq: "m' (Elm b) = m (Elm b)" if "b \<in> set (sp_inorder l) \<union> set (lnodes ks)" for b
    using that assms(2,3) 2 by auto
  have "spe_right (m' (lref ks)) = spe_right (m (lref ks))"
    using eq assms(5) 2 lref_in(1) [of ks] by (cases ks rule: lref.cases) auto
  moreover have "sp_shape m' l" using eq assms(1) 2 by (intro sp_shape_cong [of l m' m]) auto
  moreover have "lside m' ks" using eq assms(1,5) 2 by (intro lside_same [of ks m' m]) auto
  ultimately show ?thesis using assms(1,4) 2 by simp
qed simp

lemma rside_open:
  assumes "rside m rs" and "distinct (rnodes rs)"
    and "\<And>a. a \<in> set (rnodes rs) \<Longrightarrow> Elm a \<noteq> rref rs \<Longrightarrow> m' (Elm a) = m (Elm a)"
    and "rs \<noteq> [] \<Longrightarrow> spe_right (m' (rref rs)) = spe_right (m (rref rs))" and "rs \<noteq> [] \<Longrightarrow> spe_left (m' Stk) = spe_left (m Stk)"
  shows "rside m' rs"
proof (cases rs rule: rref.cases)
  case (2 a r ks)
  have eq: "m' (Elm b) = m (Elm b)" if "b \<in> set (sp_inorder r) \<union> set (rnodes ks)" for b
    using that assms(2,3) 2 by auto
  have "spe_left (m' (rref ks)) = spe_left (m (rref ks))"
    using eq assms(5) 2 lref_in(2) [of ks] by (cases ks rule: rref.cases) auto
  moreover have "sp_shape m' r" using eq assms(1) 2 by (intro sp_shape_cong [of r m' m]) auto
  moreover have "rside m' ks" using eq assms(1,5) 2 by (intro rside_same [of ks m' m]) auto
  ultimately show ?thesis using assms(1,4) 2 by simp
qed simp

text \<open>Once the open link is set the side tree is a tree, which hangs off the stack node.\<close>

lemma lside_closed:
  assumes "lside m ls" and "sp_shape m t" and "spe_right (m (lref ls)) = sp_root t"
  shows "sp_shape m (lplug ls t) \<and> spe_right (m Stk) = sp_root (lplug ls t)"
  using assms
proof (induction ls t rule: lplug.induct)
  case (2 l a ls t)
  then have "m (Elm a) = \<lparr>spe_left = sp_root l, spe_right = sp_root t\<rparr>" by (simp add: sp_entry.equality)
  with 2 show ?case by simp
qed simp

lemma rside_closed:
  assumes "rside m rs" and "sp_shape m t" and "spe_left (m (rref rs)) = sp_root t"
  shows "sp_shape m (rplug rs t) \<and> spe_left (m Stk) = sp_root (rplug rs t)"
  using assms
proof (induction rs t rule: rplug.induct)
  case (2 a r rs t)
  then have "m (Elm a) = \<lparr>spe_left = sp_root t, spe_right = sp_root r\<rparr>" by (simp add: sp_entry.equality)
  with 2 show ?case by simp
qed simp

text \<open>
  The tree at the head, the two side trees and, in \<open>g\<close>, the links of all other elements.
\<close>

definition sp_at :: "(nat \<Rightarrow> sp_entry) \<Rightarrow> sp_head \<Rightarrow> (spt \<times> nat) list \<Rightarrow> spt \<Rightarrow> (nat \<times> spt) list \<Rightarrow> bool" where
  "sp_at g h ls t rs \<longleftrightarrow> sph_root h = sp_root t \<and> sp_shape (sp_links h) t \<and> lside (sp_links h) ls \<and>
     rside (sp_links h) rs \<and> distinct (lnodes ls @ sp_inorder t @ rnodes rs) \<and>
     (\<forall>a. a \<notin> set (lnodes ls @ sp_inorder t @ rnodes rs) \<longrightarrow> sp_links h (Elm a) = g a)"

lemma sp_links_set [simp]:
  "sp_links (sp_set_left h p v) = (sp_links h)(p := (sp_links h p)\<lparr>spe_left := v\<rparr>)"
  "sp_links (sp_set_right h p v) = (sp_links h)(p := (sp_links h p)\<lparr>spe_right := v\<rparr>)"
  "sph_root (sp_set_left h p v) = sph_root h" "sph_root (sp_set_right h p v) = sph_root h"
  by (simp_all add: sp_set_left_def sp_set_right_def)

lemma sp_at_frame:
  assumes "sp_at g h ls t rs" and "sp_shape (sp_links h') t'" and "sph_root h' = sp_root t'"
    and "sp_inorder t' = sp_inorder t"
    and "\<And>p. p \<notin> Elm ` set (sp_inorder t) \<Longrightarrow> sp_links h' p = sp_links h p"
  shows "sp_at g h' ls t' rs"
proof -
  have "sp_links h' (Elm a) = sp_links h (Elm a)" if "a \<in> set (lnodes ls) \<union> set (rnodes rs)" for a
    using that assms(1) by (intro assms(5)) (auto simp: sp_at_def)
  moreover have "sp_links h' Stk = sp_links h Stk" by (rule assms(5)) auto
  ultimately have "lside (sp_links h') ls" "rside (sp_links h') rs"
    using assms(1) by (auto simp: sp_at_def intro: lside_same [of ls _ "sp_links h"] rside_same [of rs _ "sp_links h"])
  moreover have "sp_links h' (Elm a) = g a" if "a \<notin> set (lnodes ls @ sp_inorder t' @ rnodes rs)" for a
    using that assms(1,4) assms(5) [of "Elm a"] by (auto simp: sp_at_def)
  ultimately show ?thesis using assms(1-4) by (simp add: sp_at_def)
qed

lemma SPLAY_ROTATE_RIGHT_at:
  assumes "sp_at g h ls (Bin (Bin a y b) x c) rs"
  shows "\<exists>h'. SPLAY_ROTATE_RIGHT h y = Some h' \<and> sp_at g h' ls (Bin a y (Bin b x c)) rs"
proof -
  let ?h = "sp_set_right (sp_set_left h (Elm x) (sp_root b)) (Elm y) (Some x)\<lparr>sph_root := Some y\<rparr>"
  have f: "sph_root h = Some x" "sp_links h (Elm x) = \<lparr>spe_left = Some y, spe_right = sp_root c\<rparr>"
    "sp_links h (Elm y) = \<lparr>spe_left = sp_root a, spe_right = sp_root b\<rparr>"
    "sp_shape (sp_links h) a" "sp_shape (sp_links h) b" "sp_shape (sp_links h) c"
    "distinct (sp_inorder (Bin (Bin a y b) x c))"
    using assms by (auto simp: sp_at_def)
  have "SPLAY_ROTATE_RIGHT h y = Some ?h" using f by (simp add: SPLAY_ROTATE_RIGHT_def SPLAY_RIGHT_def)
  moreover have "sp_shape (sp_links ?h) a" by (rule sp_shape_cong [OF _ f(4)]) (use f(7) in auto)
  moreover have "sp_shape (sp_links ?h) b" by (rule sp_shape_cong [OF _ f(5)]) (use f(7) in auto)
  moreover have "sp_shape (sp_links ?h) c" by (rule sp_shape_cong [OF _ f(6)]) (use f(7) in auto)
  ultimately show ?thesis
    using f by (intro exI [of _ ?h] conjI sp_at_frame [OF assms]) auto
qed

lemma SPLAY_ROTATE_LEFT_at:
  assumes "sp_at g h ls (Bin a x (Bin b y c)) rs"
  shows "\<exists>h'. SPLAY_ROTATE_LEFT h y = Some h' \<and> sp_at g h' ls (Bin (Bin a x b) y c) rs"
proof -
  let ?h = "sp_set_left (sp_set_right h (Elm x) (sp_root b)) (Elm y) (Some x)\<lparr>sph_root := Some y\<rparr>"
  have f: "sph_root h = Some x" "sp_links h (Elm x) = \<lparr>spe_left = sp_root a, spe_right = Some y\<rparr>"
    "sp_links h (Elm y) = \<lparr>spe_left = sp_root b, spe_right = sp_root c\<rparr>"
    "sp_shape (sp_links h) a" "sp_shape (sp_links h) b" "sp_shape (sp_links h) c"
    "distinct (sp_inorder (Bin a x (Bin b y c)))"
    using assms by (auto simp: sp_at_def)
  have "SPLAY_ROTATE_LEFT h y = Some ?h" using f by (simp add: SPLAY_ROTATE_LEFT_def SPLAY_LEFT_def)
  moreover have "sp_shape (sp_links ?h) a" by (rule sp_shape_cong [OF _ f(4)]) (use f(7) in auto)
  moreover have "sp_shape (sp_links ?h) b" by (rule sp_shape_cong [OF _ f(5)]) (use f(7) in auto)
  moreover have "sp_shape (sp_links ?h) c" by (rule sp_shape_cong [OF _ f(6)]) (use f(7) in auto)
  ultimately show ?thesis
    using f by (intro exI [of _ ?h] conjI sp_at_frame [OF assms]) auto
qed

lemma SPLAY_LINKLEFT_at:
  assumes "sp_at g h ls (Bin l x r) rs"
  shows "\<exists>h'. SPLAY_LINKLEFT h (rref rs) = Some (h', rref ((x, r) # rs)) \<and> sp_at g h' ls l ((x, r) # rs)"
proof -
  let ?m = "(sp_links h)(rref rs := (sp_links h (rref rs))\<lparr>spe_left := Some x\<rparr>)"
  let ?h = "sp_set_left h (rref rs) (Some x)\<lparr>sph_root := sp_root l\<rparr>"
  have f: "sph_root h = Some x" "sp_links h (Elm x) = \<lparr>spe_left = sp_root l, spe_right = sp_root r\<rparr>"
    "sp_shape (sp_links h) l" "sp_shape (sp_links h) r" "lside (sp_links h) ls" "rside (sp_links h) rs"
    "distinct (lnodes ls @ sp_inorder (Bin l x r) @ rnodes rs)"
    using assms by (auto simp: sp_at_def)
  have apart: "Elm a \<noteq> rref rs" if "a \<in> set (lnodes ls) \<union> set (sp_inorder (Bin l x r))" for a
    using that f(7) lref_in(2) [of rs a] by auto
  have "SPLAY_LINKLEFT h (rref rs) = Some (?h, rref ((x, r) # rs))"
    using f(1,2) apart [of x] by (simp add: SPLAY_LINKLEFT_def SPLAY_LEFT_def)
  moreover have "sp_shape ?m l" "sp_shape ?m r"
    using f(3,4) apart by (auto intro!: sp_shape_cong [of _ ?m "sp_links h"])
  moreover have "lside ?m ls" using f(5) by (rule lside_same [rotated 2]) (use apart in auto)
  moreover have "rside ?m rs" using f(6) by (rule rside_open) (use f(7) in \<open>auto dest: lref_in(2)\<close>)
  ultimately show ?thesis using f apart [of x] assms lref_in by (auto simp: sp_at_def)
qed

lemma SPLAY_LINKRIGHT_at:
  assumes "sp_at g h ls (Bin l x r) rs"
  shows "\<exists>h'. SPLAY_LINKRIGHT h (lref ls) = Some (h', lref ((l, x) # ls)) \<and> sp_at g h' ((l, x) # ls) r rs"
proof -
  let ?m = "(sp_links h)(lref ls := (sp_links h (lref ls))\<lparr>spe_right := Some x\<rparr>)"
  let ?h = "sp_set_right h (lref ls) (Some x)\<lparr>sph_root := sp_root r\<rparr>"
  have f: "sph_root h = Some x" "sp_links h (Elm x) = \<lparr>spe_left = sp_root l, spe_right = sp_root r\<rparr>"
    "sp_shape (sp_links h) l" "sp_shape (sp_links h) r" "lside (sp_links h) ls" "rside (sp_links h) rs"
    "distinct (lnodes ls @ sp_inorder (Bin l x r) @ rnodes rs)"
    using assms by (auto simp: sp_at_def)
  have apart: "Elm a \<noteq> lref ls" if "a \<in> set (rnodes rs) \<union> set (sp_inorder (Bin l x r))" for a
    using that f(7) lref_in(1) [of ls a] by auto
  have "SPLAY_LINKRIGHT h (lref ls) = Some (?h, lref ((l, x) # ls))"
    using f(1,2) apart [of x] by (simp add: SPLAY_LINKRIGHT_def SPLAY_RIGHT_def)
  moreover have "sp_shape ?m l" "sp_shape ?m r"
    using f(3,4) apart by (auto intro!: sp_shape_cong [of _ ?m "sp_links h"])
  moreover have "rside ?m rs" using f(6) by (rule rside_same [rotated 2]) (use apart in auto)
  moreover have "lside ?m ls" using f(5) by (rule lside_open) (use f(7) in \<open>auto dest: lref_in(1)\<close>)
  ultimately show ?thesis using f apart [of x] assms lref_in by (auto simp: sp_at_def)
qed

definition sp_tree :: "sp_head \<Rightarrow> spt \<Rightarrow> bool" where
  "sp_tree h t \<longleftrightarrow> sph_root h = sp_root t \<and> sp_shape (sp_links h) t \<and> distinct (sp_inorder t)"

lemma SPLAY_ASSEMBLE_at:
  assumes "sp_at g h ls (Bin l x r) rs"
  shows "\<exists>h'. SPLAY_ASSEMBLE h Stk (lref ls) (rref rs) = Some h' \<and> sp_tree h' (Bin (lplug ls l) x (rplug rs r)) \<and>
    (\<forall>a. a \<notin> set (lnodes ls @ sp_inorder (Bin l x r) @ rnodes rs) \<longrightarrow> sp_links h' (Elm a) = g a)"
proof -
  have f: "sph_root h = Some x" "sp_links h (Elm x) = \<lparr>spe_left = sp_root l, spe_right = sp_root r\<rparr>"
    "sp_shape (sp_links h) l" "sp_shape (sp_links h) r" "lside (sp_links h) ls" "rside (sp_links h) rs"
    "distinct (lnodes ls @ sp_inorder (Bin l x r) @ rnodes rs)"
    using assms by (auto simp: sp_at_def)
  let ?h = "sp_set_left (sp_set_right h (lref ls) (sp_root l)) (rref rs) (sp_root r)"
  let ?m = "sp_links ?h"
  have al: "Elm a \<noteq> lref ls" if "a \<in> set (sp_inorder (Bin l x r)) \<union> set (rnodes rs)" for a
    using that f(7) lref_in(1) [of ls a] by auto
  have ar: "Elm a \<noteq> rref rs" if "a \<in> set (sp_inorder (Bin l x r)) \<union> set (lnodes ls)" for a
    using that f(7) lref_in(2) [of rs a] by auto
  have ne: "lref ls \<noteq> rref rs" if "ls \<noteq> [] \<or> rs \<noteq> []"
    using that ar al lref_in(1) [of ls] lref_in(2) [of rs] by (cases "lref ls"; cases "rref rs") auto
  have ends: "spe_right (?m (lref ls)) = sp_root l" "spe_left (?m (rref rs)) = sp_root r" using ne by auto
  have "lside ?m ls" using f(5) by (rule lside_open) (use f(7) ar ne in \<open>auto dest: lref_in(1)\<close>)
  moreover have "rside ?m rs" using f(6) by (rule rside_open) (use f(7) al ne in \<open>auto dest: lref_in(2)\<close>)
  moreover have "sp_shape ?m l" by (rule sp_shape_cong [OF _ f(3)]) (use al ar in auto)
  moreover have "sp_shape ?m r" by (rule sp_shape_cong [OF _ f(4)]) (use al ar in auto)
  ultimately have sides: "sp_shape ?m (lplug ls l)" "spe_right (?m Stk) = sp_root (lplug ls l)"
    "sp_shape ?m (rplug rs r)" "spe_left (?m Stk) = sp_root (rplug rs r)"
    using lside_closed [of ?m ls l] rside_closed [of ?m rs r] ends by blast+
  let ?h' = "sp_set_right (sp_set_left ?h (Elm x) (sp_root (lplug ls l))) (Elm x) (sp_root (rplug rs r))"
  have x: "?m (Elm x) = sp_links h (Elm x)" using al [of x] ar [of x] by simp
  have reads: "SPLAY_LEFT h (Elm x) = sp_root l" "SPLAY_RIGHT (sp_set_right h (lref ls) v) (Elm x) = sp_root r"
    "SPLAY_RIGHT ?h Stk = sp_root (lplug ls l)" "SPLAY_LEFT (sp_set_left ?h (Elm x) v) Stk = sp_root (rplug rs r)" for v
    using f(2) al [of x] sides(2,4) by (simp_all add: SPLAY_LEFT_def SPLAY_RIGHT_def del: fun_upd_apply) simp_all
  have "SPLAY_ASSEMBLE h Stk (lref ls) (rref rs) = Some ?h'"
    by (simp add: SPLAY_ASSEMBLE_def Let_def f(1) reads)
  moreover have "sp_shape (sp_links ?h') (lplug ls l)" by (rule sp_shape_cong [OF _ sides(1)]) (use f(7) in auto)
  moreover have "sp_shape (sp_links ?h') (rplug rs r)" by (rule sp_shape_cong [OF _ sides(3)]) (use f(7) in auto)
  moreover have "sp_links ?h' (Elm a) = g a" if "a \<notin> set (lnodes ls @ sp_inorder (Bin l x r) @ rnodes rs)" for a
    using that assms lref_in by (auto simp: sp_at_def)
  ultimately show ?thesis using f(1,2,7) x by (auto simp: sp_tree_def)
qed

section \<open>The loop\<close>

text \<open>Where the loop stops: at the wanted element, or where it would be below.\<close>

definition sp_stop :: "(nat \<Rightarrow> int) \<Rightarrow> spt \<Rightarrow> nat \<Rightarrow> spt \<Rightarrow> bool" where
  "sp_stop cmp l x r \<longleftrightarrow> cmp x = 0 \<or> cmp x < 0 \<and> l = Tip \<or> cmp x > 0 \<and> r = Tip"

text \<open>The side trees hold smaller and larger elements.\<close>

definition sp_signs :: "(nat \<Rightarrow> int) \<Rightarrow> (spt \<times> nat) list \<Rightarrow> (nat \<times> spt) list \<Rightarrow> bool" where
  "sp_signs cmp ls rs \<longleftrightarrow> (\<forall>a\<in>set (lnodes ls). 0 < cmp a) \<and> (\<forall>a\<in>set (rnodes rs). cmp a < 0)"

definition sp_result ::
  "(nat \<Rightarrow> sp_entry) \<Rightarrow> (nat \<Rightarrow> int) \<Rightarrow> (sp_head \<times> sp_ref \<times> sp_ref) option \<Rightarrow> nat list \<Rightarrow> bool" where
  "sp_result g cmp res xs \<longleftrightarrow> (\<exists>h ls l x r rs. res = Some (h, lref ls, rref rs) \<and> sp_at g h ls (Bin l x r) rs \<and>
     lnodes ls @ sp_inorder (Bin l x r) @ rnodes rs = xs \<and> sp_stop cmp l x r \<and> sp_signs cmp ls rs)"

lemma sp_resultI:
  assumes "sp_at g h ls (Bin l x r) rs" and "lnodes ls @ sp_inorder (Bin l x r) @ rnodes rs = xs" and "sp_stop cmp l x r"
    and "sp_signs cmp ls rs"
  shows "sp_result g cmp (Some (h, lref ls, rref rs)) xs"
  using assms unfolding sp_result_def by blast

lemma splay_link_left:
  assumes "sp_at g h ls (Bin l x r) rs" and "cmp x < 0" and "sp_signs cmp ls rs"
    and "cut cmp (lnodes ls @ sp_inorder (Bin l x r) @ rnodes rs)"
  shows "\<exists>h'. SPLAY_LINKLEFT h (rref rs) = Some (h', rref ((x, r) # rs)) \<and> sp_at g h' ls l ((x, r) # rs) \<and> sp_signs cmp ls ((x, r) # rs)"
proof -
  have "\<forall>a\<in>set (sp_inorder r). cmp a < 0" using assms(2,4) by (simp add: cut_append cut_Cons)
  then show ?thesis using SPLAY_LINKLEFT_at [OF assms(1)] assms(2,3) by (auto simp: sp_signs_def)
qed

lemma splay_link_right:
  assumes "sp_at g h ls (Bin l x r) rs" and "cmp x > 0" and "sp_signs cmp ls rs"
    and "cut cmp (lnodes ls @ sp_inorder (Bin l x r) @ rnodes rs)"
  shows "\<exists>h'. SPLAY_LINKRIGHT h (lref ls) = Some (h', lref ((l, x) # ls)) \<and> sp_at g h' ((l, x) # ls) r rs \<and> sp_signs cmp ((l, x) # ls) rs"
proof -
  have "\<forall>a\<in>set (sp_inorder l). cmp a > 0"
    using assms(2,4) cut_before [of cmp "lnodes ls @ sp_inorder l" x "sp_inorder r @ rnodes rs"] by simp
  then show ?thesis using SPLAY_LINKRIGHT_at [OF assms(1)] assms(2,3) by (auto simp: sp_signs_def)
qed

text \<open>
  What the loops of \<^verbatim>\<open>SPLAY\<close> and \<^verbatim>\<open>SPLAY_MINMAX\<close> share: one round, for a comparison \<open>cmp\<close>.
\<close>

locale splay_rounds =
  fixes cmp :: "nat \<Rightarrow> int"
    and loop :: "sp_head \<Rightarrow> sp_ref \<Rightarrow> sp_ref \<Rightarrow> (sp_head \<times> sp_ref \<times> sp_ref) option"
  assumes round: "loop h left right = do {
     root \<leftarrow> sph_root h;
     if cmp root = 0 then Some (h, left, right)
     else if cmp root < 0 then
       (case SPLAY_LEFT h (Elm root) of
          None \<Rightarrow> Some (h, left, right)
        | Some tmp \<Rightarrow>
            if cmp tmp < 0 then do {
              h \<leftarrow> SPLAY_ROTATE_RIGHT h tmp;
              if SPLAY_LEFT h (Elm tmp) = None then Some (h, left, right)
              else do {
                (h, right) \<leftarrow> SPLAY_LINKLEFT h right;
                loop h left right
              }
            }
            else do {
              (h, right) \<leftarrow> SPLAY_LINKLEFT h right;
              loop h left right
            })
     else
       (case SPLAY_RIGHT h (Elm root) of
          None \<Rightarrow> Some (h, left, right)
        | Some tmp \<Rightarrow>
            if cmp tmp > 0 then do {
              h \<leftarrow> SPLAY_ROTATE_LEFT h tmp;
              if SPLAY_RIGHT h (Elm tmp) = None then Some (h, left, right)
              else do {
                (h, left) \<leftarrow> SPLAY_LINKRIGHT h left;
                loop h left right
              }
            }
            else do {
              (h, left) \<leftarrow> SPLAY_LINKRIGHT h left;
              loop h left right
            })
   }"
begin

text \<open>One round of the loop to the left: it stops, or goes on with a smaller tree.\<close>

lemma round_left:
  assumes at: "sp_at g h ls (Bin l x r) rs" and neg: "cmp x < 0" and signs: "sp_signs cmp ls rs"
    and cut: "cut cmp (lnodes ls @ sp_inorder (Bin l x r) @ rnodes rs)"
    and IH: "\<And>h l' rs'. size l' < size (Bin l x r) \<Longrightarrow> l' \<noteq> Tip \<Longrightarrow> sp_at g h ls l' rs' \<Longrightarrow> sp_signs cmp ls rs' \<Longrightarrow>
      sp_inorder l' @ rnodes rs' = sp_inorder (Bin l x r) @ rnodes rs \<Longrightarrow>
      sp_result g cmp (loop h (lref ls) (rref rs')) (lnodes ls @ sp_inorder (Bin l x r) @ rnodes rs)"
  shows "sp_result g cmp (loop h (lref ls) (rref rs)) (lnodes ls @ sp_inorder (Bin l x r) @ rnodes rs)"
proof -
  have root: "sph_root h = Some x" "SPLAY_LEFT h (Elm x) = sp_root l"
    using at by (auto simp: sp_at_def SPLAY_LEFT_def)
  note run = round [of h "lref ls" "rref rs"]
  show ?thesis
  proof (cases l)
    case Tip
    then show ?thesis unfolding run using root neg sp_resultI [OF at _ _ signs] by (simp add: sp_stop_def)
  next
    case (Bin a y b)
    show ?thesis
    proof (cases "cmp y < 0")
      case True
      obtain h' where h': "SPLAY_ROTATE_RIGHT h y = Some h'" "sp_at g h' ls (Bin a y (Bin b x r)) rs"
        using SPLAY_ROTATE_RIGHT_at [OF at [unfolded Bin]] by blast
      have left: "SPLAY_LEFT h' (Elm y) = sp_root a" using h'(2) by (auto simp: sp_at_def SPLAY_LEFT_def)
      obtain h'' where h'': "SPLAY_LINKLEFT h' (rref rs) = Some (h'', rref ((y, Bin b x r) # rs))"
        "sp_at g h'' ls a ((y, Bin b x r) # rs)" "sp_signs cmp ls ((y, Bin b x r) # rs)"
        using splay_link_left [OF h'(2) True signs] cut Bin by auto
      show ?thesis
        unfolding run using root neg Bin True h'(1) left sp_resultI [OF h'(2) _ _ signs] h''(1) IH [OF _ _ h''(2,3)]
        by (cases a) (auto simp: sp_stop_def)
    next
      case False
      obtain h' where "SPLAY_LINKLEFT h (rref rs) = Some (h', rref ((x, r) # rs))" "sp_at g h' ls l ((x, r) # rs)"
        "sp_signs cmp ls ((x, r) # rs)"
        using splay_link_left [OF at neg signs cut] by blast
      then show ?thesis unfolding run using root neg Bin False IH [of l h' "(x, r) # rs"] by auto
    qed
  qed
qed

lemma round_right:
  assumes at: "sp_at g h ls (Bin l x r) rs" and pos: "cmp x > 0" and signs: "sp_signs cmp ls rs"
    and cut: "cut cmp (lnodes ls @ sp_inorder (Bin l x r) @ rnodes rs)"
    and IH: "\<And>h r' ls'. size r' < size (Bin l x r) \<Longrightarrow> r' \<noteq> Tip \<Longrightarrow> sp_at g h ls' r' rs \<Longrightarrow> sp_signs cmp ls' rs \<Longrightarrow>
      lnodes ls' @ sp_inorder r' = lnodes ls @ sp_inorder (Bin l x r) \<Longrightarrow>
      sp_result g cmp (loop h (lref ls') (rref rs)) (lnodes ls @ sp_inorder (Bin l x r) @ rnodes rs)"
  shows "sp_result g cmp (loop h (lref ls) (rref rs)) (lnodes ls @ sp_inorder (Bin l x r) @ rnodes rs)"
proof -
  have root: "sph_root h = Some x" "SPLAY_RIGHT h (Elm x) = sp_root r"
    using at by (auto simp: sp_at_def SPLAY_RIGHT_def)
  note run = round [of h "lref ls" "rref rs"]
  show ?thesis
  proof (cases r)
    case Tip
    then show ?thesis unfolding run using root pos sp_resultI [OF at _ _ signs] by (simp add: sp_stop_def)
  next
    case (Bin b y c)
    show ?thesis
    proof (cases "cmp y > 0")
      case True
      obtain h' where h': "SPLAY_ROTATE_LEFT h y = Some h'" "sp_at g h' ls (Bin (Bin l x b) y c) rs"
        using SPLAY_ROTATE_LEFT_at [OF at [unfolded Bin]] by blast
      have right: "SPLAY_RIGHT h' (Elm y) = sp_root c" using h'(2) by (auto simp: sp_at_def SPLAY_RIGHT_def)
      obtain h'' where h'': "SPLAY_LINKRIGHT h' (lref ls) = Some (h'', lref ((Bin l x b, y) # ls))"
        "sp_at g h'' ((Bin l x b, y) # ls) c rs" "sp_signs cmp ((Bin l x b, y) # ls) rs"
        using splay_link_right [OF h'(2) True signs] cut Bin by auto
      show ?thesis
        unfolding run using root pos Bin True h'(1) right sp_resultI [OF h'(2) _ _ signs] h''(1) IH [OF _ _ h''(2,3)]
        by (cases c) (auto simp: sp_stop_def)
    next
      case False
      obtain h' where "SPLAY_LINKRIGHT h (lref ls) = Some (h', lref ((l, x) # ls))" "sp_at g h' ((l, x) # ls) r rs"
        "sp_signs cmp ((l, x) # ls) rs"
        using splay_link_right [OF at pos signs cut] by blast
      then show ?thesis unfolding run using root pos Bin False IH [of r h' "(l, x) # ls"] by auto
    qed
  qed
qed

lemma loop_at:
  assumes "sp_at g h ls t rs" and "t \<noteq> Tip" and "sp_signs cmp ls rs" and "cut cmp (lnodes ls @ sp_inorder t @ rnodes rs)"
  shows "sp_result g cmp (loop h (lref ls) (rref rs)) (lnodes ls @ sp_inorder t @ rnodes rs)"
  using assms
proof (induction "size t" arbitrary: h ls t rs rule: less_induct)
  case less
  obtain l x r where t: "t = Bin l x r" using less.prems(2) by (cases t) auto
  consider "cmp x < 0" | "cmp x = 0" | "cmp x > 0" by linarith
  then show ?case
  proof cases
    case 1
    then show ?thesis
      unfolding t using less.prems [unfolded t] by (intro round_left) (use less.hyps t in \<open>metis\<close>)+
  next
    case 2
    have "sph_root h = Some x" using less.prems(1) t by (simp add: sp_at_def)
    then have "loop h (lref ls) (rref rs) = Some (h, lref ls, rref rs)" using 2 by (subst round) simp
    then show ?thesis unfolding t using sp_resultI [OF less.prems(1) [unfolded t] _ _ less.prems(3)] 2 by (simp add: sp_stop_def)
  next
    case 3
    then show ?thesis
      unfolding t using less.prems [unfolded t] by (intro round_right) (use less.hyps t in \<open>metis append.assoc\<close>)+
  qed
qed

end

interpretation sl: splay_rounds cmp "splay_loop cmp" for cmp
  by unfold_locales (rule splay_loop.simps)

interpretation smin: splay_rounds "\<lambda>_. -1" "splay_minmax_loop (-1)"
  by unfold_locales (subst splay_minmax_loop.simps, simp)

interpretation smax: splay_rounds "\<lambda>_. 1" "splay_minmax_loop 1"
  by unfold_locales (subst splay_minmax_loop.simps, simp)

section \<open>Splaying a tree\<close>

definition sp_holds :: "sp_head \<Rightarrow> nat list \<Rightarrow> bool" where
  "sp_holds h xs \<longleftrightarrow> (\<exists>t. sp_tree h t \<and> sp_inorder t = xs)"

lemma sp_start:
  assumes "sp_tree h t"
  shows "sp_at (\<lambda>a. sp_links h (Elm a)) (sp_set_left (sp_set_right h Stk None) Stk None) [] t []"
  using assms sp_shape_cong [of t "sp_links (sp_set_left (sp_set_right h Stk None) Stk None)" "sp_links h"]
  by (auto simp: sp_at_def sp_tree_def)

lemma splay_done:
  assumes "sp_result g cmp res xs" and "cut cmp xs"
  shows "\<exists>h' l x r. res \<bind> (\<lambda>(h, left, right). SPLAY_ASSEMBLE h Stk left right) = Some h' \<and> sp_tree h' (Bin l x r) \<and>
    sp_inorder l @ x # sp_inorder r = xs \<and> (\<forall>a\<in>set (sp_inorder l). 0 < cmp a) \<and> (\<forall>a\<in>set (sp_inorder r). cmp a < 0) \<and>
    (\<forall>a. a \<notin> set xs \<longrightarrow> sp_links h' (Elm a) = g a)"
proof -
  obtain h ls l x r rs where res: "res = Some (h, lref ls, rref rs)" and at: "sp_at g h ls (Bin l x r) rs"
    and xs: "lnodes ls @ sp_inorder (Bin l x r) @ rnodes rs = xs" and stop: "sp_stop cmp l x r" and signs: "sp_signs cmp ls rs"
    using assms(1) unfolding sp_result_def by blast
  obtain h' where h': "SPLAY_ASSEMBLE h Stk (lref ls) (rref rs) = Some h'" "sp_tree h' (Bin (lplug ls l) x (rplug rs r))"
    "\<forall>a. a \<notin> set xs \<longrightarrow> sp_links h' (Elm a) = g a"
    using SPLAY_ASSEMBLE_at [OF at] xs by auto
  have c: "cut cmp ((lnodes ls @ sp_inorder l) @ x # (sp_inorder r @ rnodes rs))" using assms(2) xs by simp
  have "\<forall>a\<in>set (sp_inorder l). 0 < cmp a" using stop cut_before [OF c] by (auto simp: sp_stop_def)
  moreover have "\<forall>a\<in>set (sp_inorder r). cmp a < 0" using stop c by (auto simp: sp_stop_def cut_append cut_Cons)
  ultimately show ?thesis
    using h' res xs signs by (intro exI [of _ h'] exI [of _ "lplug ls l"] exI [of _ x] exI [of _ "rplug rs r"]) (auto simp: sp_signs_def)
qed

text \<open>
  \<open>splayed h t cmp h'\<close>: \<open>h'\<close> holds the elements of the tree \<open>t\<close> of \<open>h\<close> in the same order, the root
  stands between the smaller and the larger ones, and no other element is touched.
\<close>

definition splayed :: "sp_head \<Rightarrow> spt \<Rightarrow> (nat \<Rightarrow> int) \<Rightarrow> sp_head \<Rightarrow> spt \<Rightarrow> nat \<Rightarrow> spt \<Rightarrow> bool" where
  "splayed h t cmp h' l x r \<longleftrightarrow> sp_tree h' (Bin l x r) \<and> sp_inorder l @ x # sp_inorder r = sp_inorder t \<and>
    (\<forall>a\<in>set (sp_inorder l). 0 < cmp a) \<and> (\<forall>a\<in>set (sp_inorder r). cmp a < 0) \<and>
    (\<forall>a. a \<notin> set (sp_inorder t) \<longrightarrow> sp_links h' (Elm a) = sp_links h (Elm a))"

lemma SPLAY_tree:
  assumes "sp_tree h t" and "t \<noteq> Tip" and "cut cmp (sp_inorder t)"
  shows "\<exists>h' l x r. SPLAY cmp h = Some h' \<and> splayed h t cmp h' l x r"
proof -
  let ?h = "sp_set_left (sp_set_right h Stk None) Stk None"
  have "sp_result (\<lambda>a. sp_links h (Elm a)) cmp (splay_loop cmp ?h (lref []) (rref [])) (lnodes [] @ sp_inorder t @ rnodes [])"
    by (rule sl.loop_at [OF sp_start [OF assms(1)] assms(2)]) (use assms(3) in \<open>simp_all add: sp_signs_def\<close>)
  then have "sp_result (\<lambda>a. sp_links h (Elm a)) cmp (splay_loop cmp ?h Stk Stk) (sp_inorder t)" by simp
  from splay_done [OF this assms(3)] show ?thesis unfolding SPLAY_def Let_def splayed_def .
qed

lemma SPLAY_MINMAX_tree:
  assumes "sp_tree h t" and "t \<noteq> Tip" and "dir = -1 \<or> dir = 1"
  shows "\<exists>h' l x r. SPLAY_MINMAX dir h = Some h' \<and> splayed h t (\<lambda>_. dir) h' l x r"
proof -
  let ?h = "sp_set_left (sp_set_right h Stk None) Stk None"
  have c: "cut (\<lambda>_. dir) (sp_inorder t)" using assms(3) by (auto simp: cut_def sorted_wrt_iff_nth_less)
  have "sp_result (\<lambda>a. sp_links h (Elm a)) (\<lambda>_. dir) (splay_minmax_loop dir ?h (lref []) (rref [])) (lnodes [] @ sp_inorder t @ rnodes [])"
    using assms(3) smin.loop_at [OF sp_start [OF assms(1)] assms(2)] smax.loop_at [OF sp_start [OF assms(1)] assms(2)] c
    by (auto simp: sp_signs_def)
  then have "sp_result (\<lambda>a. sp_links h (Elm a)) (\<lambda>_. dir) (splay_minmax_loop dir ?h Stk Stk) (sp_inorder t)" by simp
  from splay_done [OF this c] show ?thesis unfolding SPLAY_MINMAX_def Let_def splayed_def .
qed

section \<open>The operations\<close>

lemma sp_holdsE:
  assumes "sp_holds h xs" and "xs \<noteq> []" and "cut cmp xs"
  obtains h' l x r where "SPLAY cmp h = Some h'" "sp_tree h' (Bin l x r)" "sp_inorder l @ x # sp_inorder r = xs"
    "\<forall>a\<in>set (sp_inorder l). 0 < cmp a" "\<forall>a\<in>set (sp_inorder r). cmp a < 0"
    "\<forall>a. a \<notin> set xs \<longrightarrow> sp_links h' (Elm a) = sp_links h (Elm a)" "sph_root h' = Some x" "\<not> SPLAY_EMPTY h"
    "sp_links h' (Elm x) = \<lparr>spe_left = sp_root l, spe_right = sp_root r\<rparr>"
proof -
  obtain t where t: "sp_tree h t" "sp_inorder t = xs" using assms(1) by (auto simp: sp_holds_def)
  then have "t \<noteq> Tip" using assms(2) by auto
  with SPLAY_tree [OF t(1) this] t assms(3) obtain h' l x r where "SPLAY cmp h = Some h'" "splayed h t cmp h' l x r"
    by blast
  then show thesis
    using t \<open>t \<noteq> Tip\<close> by (intro that [of h' l x r]) (auto simp: splayed_def sp_tree_def SPLAY_EMPTY_def)
qed

lemma sp_holds_root: "sp_tree h' (Bin l x r) \<Longrightarrow> sp_holds h' (sp_inorder l @ x # sp_inorder r)"
  unfolding sp_holds_def by (metis sp_inorder.simps(2))

lemma sp_holds_empty: "sp_holds h [] \<longleftrightarrow> SPLAY_EMPTY h"
proof
  show "sp_holds h []" if "SPLAY_EMPTY h"
    using that unfolding sp_holds_def by (intro exI [of _ Tip]) (simp add: sp_tree_def SPLAY_EMPTY_def)
  show "SPLAY_EMPTY h" if "sp_holds h []"
    using that by (auto simp: sp_holds_def sp_tree_def SPLAY_EMPTY_def) (metis append_is_Nil_conv list.distinct(1) sp_inorder.elims sp_root.simps(1))
qed

lemma SPLAY_FIND_holds:
  assumes "sp_holds h xs" and "cut cmp xs"
  shows "\<exists>h'. SPLAY_FIND cmp h = Some (h', List.find (\<lambda>a. cmp a = 0) xs) \<and> sp_holds h' xs"
proof (cases "xs = []")
  case True
  then show ?thesis using assms(1) sp_holds_empty by (auto simp: SPLAY_FIND_def)
next
  case False
  obtain h' l x r where s: "SPLAY cmp h = Some h'" "sp_tree h' (Bin l x r)" "sp_inorder l @ x # sp_inorder r = xs"
    "\<forall>a\<in>set (sp_inorder l). 0 < cmp a" "\<forall>a\<in>set (sp_inorder r). cmp a < 0"
    "\<forall>a. a \<notin> set xs \<longrightarrow> sp_links h' (Elm a) = sp_links h (Elm a)" "sph_root h' = Some x" "\<not> SPLAY_EMPTY h"
    "sp_links h' (Elm x) = \<lparr>spe_left = sp_root l, spe_right = sp_root r\<rparr>"
    by (rule sp_holdsE [OF assms(1) False assms(2)])
  have "List.find (\<lambda>a. cmp a = 0) xs = (if cmp x = 0 then Some x else None)"
  proof (cases "cmp x = 0")
    case True
    have "List.find (\<lambda>a. cmp a = 0) (sp_inorder l) = None" using s(4) by (fastforce simp: find_None_iff)
    then show ?thesis using True unfolding s(3) [symmetric] by (simp add: find_append)
  next
    case False
    then show ?thesis using s(4,5) unfolding s(3) [symmetric] by (fastforce simp: find_None_iff)
  qed
  moreover have "SPLAY_FIND cmp h = Some (h', if cmp x = 0 then Some x else None)" using s(1,7,8) by (simp add: SPLAY_FIND_def)
  moreover have "sp_holds h' xs" using sp_holds_root [OF s(2)] unfolding s(3) .
  ultimately show ?thesis by auto
qed

text \<open>A sequence is divided by the signs in one way only.\<close>

lemma split_signs:
  fixes cmp :: "'a \<Rightarrow> int"
  assumes "xs @ ys = us @ vs" and "\<forall>a\<in>set xs. 0 < cmp a" and "\<forall>a\<in>set ys. cmp a < 0" and "\<forall>a\<in>set us. 0 < cmp a" and "\<forall>a\<in>set vs. cmp a < 0"
  shows "xs = us \<and> ys = vs"
proof -
  have f: "filter (\<lambda>a. 0 < cmp a) (ps @ qs) = ps" if "\<forall>a\<in>set ps. 0 < cmp a" "\<forall>a\<in>set qs. cmp a < 0" for ps qs
    using that by (auto simp: filter_empty_conv)
  have "xs = us" using f [OF assms(2,3)] f [OF assms(4,5)] assms(1) by metis
  with assms(1) show ?thesis by simp
qed

text \<open>A new root between a tree's root and one of its subtrees.\<close>

lemma sp_over_left:
  assumes "sp_tree h (Bin l x r)" and "e \<notin> set (sp_inorder l @ x # sp_inorder r)"
  shows "sp_tree (sp_set_left (sp_set_right (sp_set_left h (Elm e) (sp_root l)) (Elm e) (Some x)) (Elm x) None\<lparr>sph_root := Some e\<rparr>)
    (Bin l e (Bin Tip x r))" (is "sp_tree ?h _")
proof -
  have t: "sp_shape (sp_links h) l" "sp_shape (sp_links h) r" using assms(1) by (simp_all add: sp_tree_def)
  have "sp_shape (sp_links ?h) l" by (rule sp_shape_cong [OF _ t(1)]) (use assms in \<open>auto simp: sp_tree_def\<close>)
  moreover have "sp_shape (sp_links ?h) r" by (rule sp_shape_cong [OF _ t(2)]) (use assms in \<open>auto simp: sp_tree_def\<close>)
  ultimately show ?thesis using assms by (auto simp: sp_tree_def)
qed

lemma sp_over_right:
  assumes "sp_tree h (Bin l x r)" and "e \<notin> set (sp_inorder l @ x # sp_inorder r)"
  shows "sp_tree (sp_set_right (sp_set_left (sp_set_right h (Elm e) (sp_root r)) (Elm e) (Some x)) (Elm x) None\<lparr>sph_root := Some e\<rparr>)
    (Bin (Bin l x Tip) e r)" (is "sp_tree ?h _")
proof -
  have t: "sp_shape (sp_links h) l" "sp_shape (sp_links h) r" using assms(1) by (simp_all add: sp_tree_def)
  have "sp_shape (sp_links ?h) l" by (rule sp_shape_cong [OF _ t(1)]) (use assms in \<open>auto simp: sp_tree_def\<close>)
  moreover have "sp_shape (sp_links ?h) r" by (rule sp_shape_cong [OF _ t(2)]) (use assms in \<open>auto simp: sp_tree_def\<close>)
  ultimately show ?thesis using assms by (auto simp: sp_tree_def)
qed

lemma cut_signs:
  assumes "\<forall>a\<in>set xs. 0 < cmp a" and "\<forall>a\<in>set ys. cmp a < 0"
  shows "cut cmp (xs @ ys)"
proof -
  have "cut cmp xs" using assms(1) by (induction xs) (auto simp: cut_Cons, simp add: cut_def)
  moreover have "cut cmp ys" using assms(2) by (induction ys) (auto simp: cut_Cons, simp add: cut_def)
  ultimately show ?thesis using assms by (auto simp: cut_append)
qed

lemma SPLAY_INSERT_new:
  assumes "sp_holds h (xs @ ys)" and "e \<notin> set (xs @ ys)" and "\<forall>a\<in>set xs. 0 < cmp a" and "\<forall>a\<in>set ys. cmp a < 0"
  shows "\<exists>h'. SPLAY_INSERT cmp h e = Some (h', None) \<and> sp_holds h' (xs @ e # ys)"
proof (cases "xs @ ys = []")
  case True
  then have "SPLAY_EMPTY h" using assms(1) sp_holds_empty by simp
  moreover have "sp_tree (sp_set_left (sp_set_right h (Elm e) None) (Elm e) None\<lparr>sph_root := Some e\<rparr>) (Bin Tip e Tip)"
    by (simp add: sp_tree_def)
  ultimately show ?thesis using True sp_holds_root by (fastforce simp: SPLAY_INSERT_def Let_def)
next
  case False
  have c: "cut cmp (xs @ ys)" using assms(3,4) by (rule cut_signs)
  obtain h' l x r where s: "SPLAY cmp h = Some h'" "sp_tree h' (Bin l x r)" "sp_inorder l @ x # sp_inorder r = xs @ ys"
    "\<forall>a\<in>set (sp_inorder l). 0 < cmp a" "\<forall>a\<in>set (sp_inorder r). cmp a < 0"
    "\<forall>a. a \<notin> set (xs @ ys) \<longrightarrow> sp_links h' (Elm a) = sp_links h (Elm a)" "sph_root h' = Some x" "\<not> SPLAY_EMPTY h"
    "sp_links h' (Elm x) = \<lparr>spe_left = sp_root l, spe_right = sp_root r\<rparr>"
    by (rule sp_holdsE [OF assms(1) False c])
  have new: "e \<notin> set (sp_inorder l @ x # sp_inorder r)" using assms(2) s(3) by simp
  have "cmp x \<noteq> 0" using assms(3,4) s(3) by (metis UnE in_set_conv_decomp less_irrefl set_append)
  then consider "cmp x < 0" | "cmp x > 0" by linarith
  then show ?thesis
  proof cases
    case 1
    let ?h = "sp_set_left (sp_set_right (sp_set_left h' (Elm e) (sp_root l)) (Elm e) (Some x)) (Elm x) None\<lparr>sph_root := Some e\<rparr>"
    have parts: "xs = sp_inorder l" "ys = x # sp_inorder r"
      using split_signs [of xs ys "sp_inorder l" "x # sp_inorder r" cmp] s(3-5) assms(3,4) 1 by auto
    have run: "SPLAY_INSERT cmp h e = Some (?h, None)"
      using s(1,7,8) 1 s(9) by (simp add: SPLAY_INSERT_def Let_def SPLAY_LEFT_def)
    have "sp_tree ?h (Bin l e (Bin Tip x r))" using s(2) new by (rule sp_over_left)
    then show ?thesis using run sp_holds_root parts by fastforce
  next
    case 2
    let ?h = "sp_set_right (sp_set_left (sp_set_right h' (Elm e) (sp_root r)) (Elm e) (Some x)) (Elm x) None\<lparr>sph_root := Some e\<rparr>"
    have parts: "xs = sp_inorder l @ [x]" "ys = sp_inorder r"
      using split_signs [of xs ys "sp_inorder l @ [x]" "sp_inorder r" cmp] s(3-5) assms(3,4) 2 by auto
    have run: "SPLAY_INSERT cmp h e = Some (?h, None)"
      using s(1,7,8) 2 s(9) by (simp add: SPLAY_INSERT_def Let_def SPLAY_RIGHT_def)
    have "sp_tree ?h (Bin (Bin l x Tip) e r)" using s(2) new by (rule sp_over_right)
    then show ?thesis using run sp_holds_root parts by fastforce
  qed
qed

lemma cmp_unique:
  fixes cmp :: "nat \<Rightarrow> int"
  assumes "ls @ x # rs = xs @ a # ys" and "\<forall>b\<in>set ls. 0 < cmp b" and "\<forall>b\<in>set rs. cmp b < 0" and "cmp a = 0"
    and "distinct (xs @ a # ys)"
  shows "x = a \<and> ls = xs \<and> rs = ys"
proof -
  have "a \<in> set (ls @ x # rs)" unfolding assms(1) by simp
  with assms(2-4) have "x = a" by (metis UnE less_irrefl set_ConsD set_append)
  moreover have "distinct (ls @ x # rs)" unfolding assms(1) by (rule assms(5))
  ultimately show ?thesis using assms(1,5) by (metis append_Cons_eq_iff distinct_append distinct.simps(2) not_distinct_conv_prefix)
qed

lemma SPLAY_INSERT_dup:
  assumes "sp_holds h xs" and "cut cmp xs" and "a \<in> set xs" and "cmp a = 0"
  shows "\<exists>h'. SPLAY_INSERT cmp h e = Some (h', Some a) \<and> sp_holds h' xs"
proof -
  obtain h' l x r where s: "SPLAY cmp h = Some h'" "sp_tree h' (Bin l x r)" "sp_inorder l @ x # sp_inorder r = xs"
    "\<forall>a\<in>set (sp_inorder l). 0 < cmp a" "\<forall>a\<in>set (sp_inorder r). cmp a < 0"
    "\<forall>a. a \<notin> set xs \<longrightarrow> sp_links h' (Elm a) = sp_links h (Elm a)" "sph_root h' = Some x" "\<not> SPLAY_EMPTY h"
    "sp_links h' (Elm x) = \<lparr>spe_left = sp_root l, spe_right = sp_root r\<rparr>"
    by (rule sp_holdsE [OF assms(1) _ assms(2)]) (use assms(3) in auto)
  have "x = a" using assms(3,4) s(4,5) unfolding s(3) [symmetric] by (metis UnE less_irrefl set_ConsD set_append)
  moreover have "sp_holds h' xs" using sp_holds_root [OF s(2)] unfolding s(3) .
  ultimately show ?thesis using s(1,7,8) assms(4) by (simp add: SPLAY_INSERT_def)
qed

text \<open>The two parts around a removed root, joined under the last element of the left one.\<close>

lemma sp_join:
  assumes "splayed (h\<lparr>sph_root := sp_root l\<rparr>) l cmp h' m z Tip" and "sp_tree h (Bin l x r)"
  shows "sp_tree (sp_set_right h' (Elm z) (sp_root r)) (Bin m z r)"
proof -
  have d: "distinct (sp_inorder m) \<and> z \<notin> set (sp_inorder m)" "sp_inorder l = sp_inorder m @ [z]" "sp_shape (sp_links h') m"
    "sp_links h' (Elm z) = \<lparr>spe_left = sp_root m, spe_right = None\<rparr>" "sph_root h' = Some z"
    using assms(1) by (auto simp: splayed_def sp_tree_def)
  have r: "sp_shape (sp_links h) r" "set (sp_inorder l) \<inter> set (sp_inorder r) = {}" "distinct (sp_inorder r)"
    using assms(2) by (auto simp: sp_tree_def)
  let ?h = "sp_set_right h' (Elm z) (sp_root r)"
  have "sp_shape (sp_links ?h) m" by (rule sp_shape_cong [OF _ d(3)]) (use d(1) in auto)
  moreover have "sp_shape (sp_links ?h) r"
    by (rule sp_shape_cong [OF _ r(1)]) (use assms(1) d(2) r(2) in \<open>auto simp: splayed_def\<close>)
  ultimately show ?thesis using d r by (auto simp: sp_tree_def)
qed

lemma SPLAY_REMOVE_found:
  assumes "sp_holds h (xs @ a # ys)" and "cut cmp (xs @ a # ys)" and "cmp a = 0"
  shows "\<exists>h'. SPLAY_REMOVE cmp h e = Some (h', Some e) \<and> sp_holds h' (xs @ ys)"
proof -
  obtain h' l x r where s: "SPLAY cmp h = Some h'" "sp_tree h' (Bin l x r)" "sp_inorder l @ x # sp_inorder r = xs @ a # ys"
    "\<forall>a\<in>set (sp_inorder l). 0 < cmp a" "\<forall>a\<in>set (sp_inorder r). cmp a < 0"
    "\<forall>b. b \<notin> set (xs @ a # ys) \<longrightarrow> sp_links h' (Elm b) = sp_links h (Elm b)" "sph_root h' = Some x" "\<not> SPLAY_EMPTY h"
    "sp_links h' (Elm x) = \<lparr>spe_left = sp_root l, spe_right = sp_root r\<rparr>"
    by (rule sp_holdsE [OF assms(1) _ assms(2)]) simp_all
  have d: "distinct (xs @ a # ys)" using s(2,3) by (simp add: sp_tree_def)
  have eq: "x = a" "sp_inorder l = xs" "sp_inorder r = ys" using cmp_unique [OF s(3-5) assms(3) d] by simp_all
  note run = SPLAY_REMOVE_def [of cmp h e]
  show ?thesis
  proof (cases l)
    case Tip
    have "sp_tree (h'\<lparr>sph_root := sp_root r\<rparr>) r" using s(2) by (simp add: sp_tree_def)
    then have "sp_holds (h'\<lparr>sph_root := sp_root r\<rparr>) (xs @ ys)" using eq Tip unfolding sp_holds_def by auto
    then show ?thesis unfolding run using s(1,7-9) Tip eq assms(3) by (simp add: SPLAY_LEFT_def SPLAY_RIGHT_def)
  next
    case (Bin l1 y l2)
    let ?h = "h'\<lparr>sph_root := sp_root l\<rparr>"
    have t: "sp_tree ?h l" using s(2) by (simp add: sp_tree_def)
    have c: "cut cmp (sp_inorder l)" using cut_signs [of "sp_inorder l" cmp "[]"] s(4) by simp
    obtain h2 m z q where z: "SPLAY cmp ?h = Some h2" "splayed ?h l cmp h2 m z q" using SPLAY_tree [OF t _ c] Bin by blast
    have e: "sp_inorder l = sp_inorder m @ z # sp_inorder q" "\<forall>a\<in>set (sp_inorder q). cmp a < 0" using z(2) by (simp_all add: splayed_def)
    have q: "q = Tip" using s(4) e(2) unfolding e(1) by (cases q) auto
    have "sp_tree (sp_set_right h2 (Elm z) (sp_root r)) (Bin m z r)"
      using z(2) s(2) q by (intro sp_join) simp_all
    moreover have "sp_inorder m @ z # sp_inorder r = xs @ ys" using z(2) q eq by (auto simp: splayed_def)
    ultimately have "sp_holds (sp_set_right h2 (Elm z) (sp_root r)) (xs @ ys)" using sp_holds_root by metis
    moreover have "sph_root h2 = Some z" using z(2) by (simp add: splayed_def sp_tree_def)
    ultimately show ?thesis
      unfolding run using s(1,7-9) Bin eq assms(3) z(1) by (simp add: SPLAY_LEFT_def SPLAY_RIGHT_def)
  qed
qed

lemma SPLAY_REMOVE_absent:
  assumes "sp_holds h xs" and "cut cmp xs" and "\<forall>a\<in>set xs. cmp a \<noteq> 0"
  shows "\<exists>h'. SPLAY_REMOVE cmp h e = Some (h', None) \<and> sp_holds h' xs"
proof (cases "xs = []")
  case True
  then show ?thesis using assms(1) sp_holds_empty by (auto simp: SPLAY_REMOVE_def)
next
  case False
  obtain h' l x r where s: "SPLAY cmp h = Some h'" "sp_tree h' (Bin l x r)" "sp_inorder l @ x # sp_inorder r = xs"
    "\<forall>a\<in>set (sp_inorder l). 0 < cmp a" "\<forall>a\<in>set (sp_inorder r). cmp a < 0"
    "\<forall>b. b \<notin> set xs \<longrightarrow> sp_links h' (Elm b) = sp_links h (Elm b)" "sph_root h' = Some x" "\<not> SPLAY_EMPTY h"
    "sp_links h' (Elm x) = \<lparr>spe_left = sp_root l, spe_right = sp_root r\<rparr>"
    by (rule sp_holdsE [OF assms(1) False assms(2)])
  have "cmp x \<noteq> 0" using assms(3) s(3) by auto
  then show ?thesis using s(1,7,8) sp_holds_root [OF s(2)] unfolding s(3) by (simp add: SPLAY_REMOVE_def)
qed

lemma splay_leftmost_ok: "sp_shape (sp_links h) (Bin l a r) \<Longrightarrow> splay_leftmost h a = Some (hd (sp_inorder (Bin l a r)))"
proof (induction l arbitrary: a r)
  case Tip
  then show ?case by (subst splay_leftmost.simps) (simp add: SPLAY_LEFT_def)
next
  case (Bin l1 b l2)
  have "splay_leftmost h b = Some (hd (sp_inorder (Bin l1 b l2)))" using Bin.prems by (intro Bin.IH(1)) simp
  then show ?case using Bin.prems by (subst splay_leftmost.simps) (simp add: SPLAY_LEFT_def hd_append)
qed

lemma SPLAY_NEXT_holds:
  assumes "sp_holds h (xs @ a # ys)" and "cut cmp (xs @ a # ys)" and "cmp a = 0"
  shows "\<exists>h'. SPLAY_NEXT cmp h a = Some (h', case ys of [] \<Rightarrow> None | b # _ \<Rightarrow> Some b) \<and> sp_holds h' (xs @ a # ys)"
proof -
  obtain h' l x r where s: "SPLAY cmp h = Some h'" "sp_tree h' (Bin l x r)" "sp_inorder l @ x # sp_inorder r = xs @ a # ys"
    "\<forall>a\<in>set (sp_inorder l). 0 < cmp a" "\<forall>a\<in>set (sp_inorder r). cmp a < 0"
    "\<forall>b. b \<notin> set (xs @ a # ys) \<longrightarrow> sp_links h' (Elm b) = sp_links h (Elm b)" "sph_root h' = Some x" "\<not> SPLAY_EMPTY h"
    "sp_links h' (Elm x) = \<lparr>spe_left = sp_root l, spe_right = sp_root r\<rparr>"
    by (rule sp_holdsE [OF assms(1) _ assms(2)]) simp_all
  have d: "distinct (xs @ a # ys)" using s(2,3) by (simp add: sp_tree_def)
  have eq: "x = a" "sp_inorder r = ys" using cmp_unique [OF s(3-5) assms(3) d] by simp_all
  have "SPLAY_NEXT cmp h a = Some (h', case ys of [] \<Rightarrow> None | b # _ \<Rightarrow> Some b)"
  proof (cases r)
    case Tip
    then show ?thesis using s(1,9) eq by (simp add: SPLAY_NEXT_def SPLAY_RIGHT_def)
  next
    case (Bin r1 b r2)
    have "splay_leftmost h' b = Some (hd ys)" using splay_leftmost_ok [of h' r1 b r2] s(2) Bin eq(2) by (simp add: sp_tree_def)
    moreover have "ys \<noteq> []" using eq(2) Bin by auto
    ultimately show ?thesis using s(1,9) eq(1) Bin by (cases ys) (simp_all add: SPLAY_NEXT_def SPLAY_RIGHT_def)
  qed
  then show ?thesis using sp_holds_root [OF s(2)] unfolding s(3) by blast
qed

lemma splay_from_holds:
  assumes "sp_holds h (xs @ ys)" and "\<And>a. a \<in> set ys \<Longrightarrow> cut (cmp a) (xs @ ys) \<and> cmp a a = 0"
  shows "\<exists>h'. splay_from cmp h (case ys of [] \<Rightarrow> None | b # _ \<Rightarrow> Some b) = Some (h', ys) \<and> sp_holds h' (xs @ ys)"
  using assms
proof (induction ys arbitrary: h xs)
  case Nil
  then show ?case by (subst splay_from.simps) auto
next
  case (Cons a ys)
  obtain h1 where h1: "SPLAY_NEXT (cmp a) h a = Some (h1, case ys of [] \<Rightarrow> None | b # _ \<Rightarrow> Some b)" "sp_holds h1 (xs @ a # ys)"
    using SPLAY_NEXT_holds [OF Cons.prems(1)] Cons.prems(2) [of a] by auto
  obtain h2 where "splay_from cmp h1 (case ys of [] \<Rightarrow> None | b # _ \<Rightarrow> Some b) = Some (h2, ys)" "sp_holds h2 (xs @ a # ys)"
    using Cons.IH [of h1 "xs @ [a]"] h1(2) Cons.prems(2) by auto
  then show ?case using h1(1) by (subst splay_from.simps) simp
qed

lemma SPLAY_MIN_MAX_holds:
  assumes "sp_holds h xs" and "xs \<noteq> []"
  shows "\<exists>h'. SPLAY_MIN_MAX (-1) h = Some (h', Some (hd xs)) \<and> sp_holds h' xs"
    and "\<exists>h'. SPLAY_MIN_MAX 1 h = Some (h', Some (last xs)) \<and> sp_holds h' xs"
proof -
  obtain t where t: "sp_tree h t" "sp_inorder t = xs" using assms(1) by (auto simp: sp_holds_def)
  have ne: "t \<noteq> Tip" using t(2) assms(2) by auto
  obtain h' l x r where a: "SPLAY_MINMAX (-1) h = Some h'" "splayed h t (\<lambda>_. -1) h' l x r"
    using SPLAY_MINMAX_tree [OF t(1) ne, of "-1"] by blast
  have "sp_inorder l = []" using a(2) by (cases "sp_inorder l") (auto simp: splayed_def)
  moreover have e: "xs = sp_inorder l @ x # sp_inorder r" using a(2) t(2) by (auto simp: splayed_def)
  moreover have "sp_tree h' (Bin l x r)" using a(2) by (simp add: splayed_def)
  ultimately have "sph_root h' = Some (hd xs)" "sp_holds h' xs"
    using sp_holds_root [of h' l x r] unfolding e by (simp_all add: sp_tree_def)
  then show "\<exists>h'. SPLAY_MIN_MAX (-1) h = Some (h', Some (hd xs)) \<and> sp_holds h' xs" using a(1) by (simp add: SPLAY_MIN_MAX_def)
  obtain h' l x r where b: "SPLAY_MINMAX 1 h = Some h'" "splayed h t (\<lambda>_. 1) h' l x r"
    using SPLAY_MINMAX_tree [OF t(1) ne, of 1] by blast
  have "sp_inorder r = []" using b(2) by (cases "sp_inorder r") (auto simp: splayed_def)
  moreover have e: "xs = sp_inorder l @ x # sp_inorder r" using b(2) t(2) by (auto simp: splayed_def)
  moreover have "sp_tree h' (Bin l x r)" using b(2) by (simp add: splayed_def)
  ultimately have "sph_root h' = Some (last xs)" "sp_holds h' xs"
    using sp_holds_root [of h' l x r] unfolding e by (simp_all add: sp_tree_def)
  then show "\<exists>h'. SPLAY_MIN_MAX 1 h = Some (h', Some (last xs)) \<and> sp_holds h' xs" using b(1) by (simp add: SPLAY_MIN_MAX_def)
qed

lemma SPLAY_FOREACH_holds:
  assumes "sp_holds h xs" and "\<And>a. a \<in> set xs \<Longrightarrow> cut (cmp a) xs \<and> cmp a a = 0"
  shows "\<exists>h'. SPLAY_FOREACH cmp h = Some (h', xs) \<and> sp_holds h' xs"
proof (cases xs)
  case Nil
  then show ?thesis using assms(1) sp_holds_empty by (auto simp: SPLAY_FOREACH_def SPLAY_MIN_def splay_from.simps)
next
  case (Cons b ys)
  obtain h1 where h1: "SPLAY_MIN_MAX (-1) h = Some (h1, Some b)" "sp_holds h1 ([] @ xs)"
    using SPLAY_MIN_MAX_holds(1) [OF assms(1)] Cons by auto
  have "\<not> SPLAY_EMPTY h" using assms(1) Cons sp_holds_empty [of h] by (auto simp: sp_holds_def sp_tree_def SPLAY_EMPTY_def)
  then show ?thesis using h1(1) splay_from_holds [OF h1(2), of cmp] assms(2) Cons by (auto simp: SPLAY_FOREACH_def SPLAY_MIN_def)
qed

section \<open>A splay tree as an ordered set\<close>

datatype sp_op = Sp_find nat | Sp_insert nat | Sp_remove nat | Sp_min | Sp_max | Sp_walk

text \<open>An operation on the tree with the pointers it returns, and the same on the list of the elements
  in the order of their keys.\<close>

definition ptr_list :: "ptr \<Rightarrow> nat list" where
  "ptr_list p = (case p of None \<Rightarrow> [] | Some a \<Rightarrow> [a])"

fun sp_do :: "(nat \<Rightarrow> nat \<Rightarrow> int) \<Rightarrow> sp_op \<Rightarrow> sp_head \<Rightarrow> (sp_head \<times> nat list) option" where
  "sp_do cmp (Sp_find a) h = map_option (map_prod id ptr_list) (SPLAY_FIND (cmp a) h)"
| "sp_do cmp (Sp_insert a) h = map_option (map_prod id ptr_list) (SPLAY_INSERT (cmp a) h a)"
| "sp_do cmp (Sp_remove a) h = map_option (map_prod id ptr_list) (SPLAY_REMOVE (cmp a) h a)"
| "sp_do cmp Sp_min h = map_option (map_prod id ptr_list) (SPLAY_MIN h)"
| "sp_do cmp Sp_max h = map_option (map_prod id ptr_list) (SPLAY_MAX h)"
| "sp_do cmp Sp_walk h = SPLAY_FOREACH cmp h"

fun sp_spec :: "(nat \<Rightarrow> 'k::linorder) \<Rightarrow> sp_op \<Rightarrow> nat list \<Rightarrow> nat list \<times> nat list" where
  "sp_spec key (Sp_find a) xs = (xs, filter (\<lambda>b. key b = key a) xs)"
| "sp_spec key (Sp_insert a) xs =
     (if \<exists>b\<in>set xs. key b = key a then (xs, filter (\<lambda>b. key b = key a) xs) else (insort_key key a xs, []))"
| "sp_spec key (Sp_remove a) xs = (filter (\<lambda>b. key b \<noteq> key a) xs, if \<exists>b\<in>set xs. key b = key a then [a] else [])"
| "sp_spec key Sp_min xs = (xs, take 1 xs)"
| "sp_spec key Sp_max xs = (xs, if xs = [] then [] else [last xs])"
| "sp_spec key Sp_walk xs = (xs, xs)"

fun sp_run :: "(nat \<Rightarrow> nat \<Rightarrow> int) \<Rightarrow> sp_op list \<Rightarrow> sp_head \<Rightarrow> (sp_head \<times> nat list list) option" where
  "sp_run cmp [] h = Some (h, [])"
| "sp_run cmp (p # ps) h = do {
     (h, out) \<leftarrow> sp_do cmp p h;
     (h, outs) \<leftarrow> sp_run cmp ps h;
     Some (h, out # outs)
   }"

fun sp_specs :: "(nat \<Rightarrow> 'k::linorder) \<Rightarrow> sp_op list \<Rightarrow> nat list \<Rightarrow> nat list \<times> nat list list" where
  "sp_specs key [] xs = (xs, [])"
| "sp_specs key (p # ps) xs =
     (let (ys, out) = sp_spec key p xs; (zs, outs) = sp_specs key ps ys in (zs, out # outs))"

abbreviation (input) by_keys :: "(nat \<Rightarrow> 'k::linorder) \<Rightarrow> (nat \<Rightarrow> nat \<Rightarrow> int) \<Rightarrow> bool" where
  "by_keys key cmp \<equiv> \<forall>a b. (cmp a b < 0 \<longleftrightarrow> key a < key b) \<and> (cmp a b = 0 \<longleftrightarrow> key a = key b)"

abbreviation (input) in_order :: "(nat \<Rightarrow> 'k::linorder) \<Rightarrow> nat list \<Rightarrow> bool" where
  "in_order key xs \<equiv> sorted_wrt (\<lambda>a b. key a < key b) xs"

lemma by_keys_cut: "by_keys key cmp \<Longrightarrow> in_order key xs \<Longrightarrow> cut (cmp a) xs"
  by (rule by_key_cut [of "key a" key]) (simp_all add: by_key_def)

lemma filter_key:
  assumes "in_order key (xs @ a # ys)" and "key a = k"
  shows "filter (\<lambda>b. key b = k) (xs @ a # ys) = [a]" "filter (\<lambda>b. key b \<noteq> k) (xs @ a # ys) = xs @ ys"
proof -
  have "\<forall>b\<in>set xs. key b \<noteq> k" "\<forall>b\<in>set ys. key b \<noteq> k" using assms by (auto simp: sorted_wrt_append)
  then show "filter (\<lambda>b. key b = k) (xs @ a # ys) = [a]" "filter (\<lambda>b. key b \<noteq> k) (xs @ a # ys) = xs @ ys"
    using assms(2) by simp_all
qed

lemma find_filter:
  assumes "in_order key xs"
  shows "ptr_list (List.find (\<lambda>b. key b = k) xs) = filter (\<lambda>b. key b = k) xs"
proof (cases "\<exists>a\<in>set xs. key a = k")
  case True
  then obtain ys a zs where xs: "xs = ys @ a # zs" "key a = k" by (metis in_set_conv_decomp)
  then have "List.find (\<lambda>b. key b = k) ys = None" using assms by (auto simp: find_None_iff sorted_wrt_append)
  then show ?thesis using filter_key [of key ys a zs k] assms xs by (simp add: ptr_list_def find_append)
next
  case False
  then have "List.find (\<lambda>b. key b = k) xs = None" "filter (\<lambda>b. key b = k) xs = []" by (auto simp: find_None_iff filter_empty_conv)
  then show ?thesis by (simp add: ptr_list_def)
qed

lemma insort_between:
  assumes "\<forall>a\<in>set xs. key a < key e" and "\<forall>a\<in>set ys. key e < key a"
  shows "insort_key key e (xs @ ys) = xs @ e # ys"
proof -
  have "insort_key key e ys = e # ys" using assms(2) by (cases ys) (auto simp: less_imp_le)
  then show ?thesis using assms(1) by (induction xs) (auto simp: not_le)
qed

lemma sp_insert_step:
  assumes "by_keys key cmp" and "in_order key xs" and "sp_holds h xs"
  shows "\<exists>h'. sp_do cmp (Sp_insert a) h = Some (h', snd (sp_spec key (Sp_insert a) xs)) \<and> sp_holds h' (fst (sp_spec key (Sp_insert a) xs)) \<and>
    in_order key (fst (sp_spec key (Sp_insert a) xs))"
proof (cases "\<exists>b\<in>set xs. key b = key a")
  case True
  then obtain b ys zs where b: "xs = ys @ b # zs" "key b = key a" by (metis in_set_conv_decomp)
  have "cmp a b = 0" using assms(1) b(2) by auto
  then show ?thesis
    using SPLAY_INSERT_dup [OF assms(3) by_keys_cut [OF assms(1,2), of a], of b a] b True assms(2) filter_key(1) [of key ys b zs "key a"]
    by (auto simp: ptr_list_def)
next
  case False
  then obtain ls rs where xs: "xs = ls @ rs" "\<forall>b\<in>set ls. key b < key a" "\<forall>b\<in>set rs. key a < key b"
    using split_by_key [OF assms(2), of "key a"] by auto
  have "\<forall>b\<in>set ls. 0 < cmp a b" using assms(1) xs(2) by (metis less_asym less_irrefl linorder_neqE_linordered_idom)
  moreover have "\<forall>b\<in>set rs. cmp a b < 0" using assms(1) xs(3) by auto
  ultimately obtain h' where "SPLAY_INSERT (cmp a) h a = Some (h', None)" "sp_holds h' (ls @ a # rs)"
    using SPLAY_INSERT_new [of h ls rs a "cmp a"] assms(3) False xs(1) by auto
  moreover have "in_order key (ls @ a # rs)" using assms(2) xs by (auto simp: sorted_wrt_append)
  ultimately show ?thesis using False insort_between [OF xs(2,3)] xs(1) by (simp add: ptr_list_def)
qed

lemma sp_remove_step:
  assumes "by_keys key cmp" and "in_order key xs" and "sp_holds h xs"
  shows "\<exists>h'. sp_do cmp (Sp_remove a) h = Some (h', snd (sp_spec key (Sp_remove a) xs)) \<and> sp_holds h' (fst (sp_spec key (Sp_remove a) xs)) \<and>
    in_order key (fst (sp_spec key (Sp_remove a) xs))"
proof (cases "\<exists>b\<in>set xs. key b = key a")
  case True
  then obtain b ys zs where b: "xs = ys @ b # zs" "key b = key a" by (metis in_set_conv_decomp)
  have "cmp a b = 0" using assms(1) b(2) by auto
  then obtain h' where "SPLAY_REMOVE (cmp a) h a = Some (h', Some a)" "sp_holds h' (ys @ zs)"
    using SPLAY_REMOVE_found [of h ys b zs "cmp a" a] assms(3) by_keys_cut [OF assms(1,2), of a] b(1) by auto
  moreover have "in_order key (ys @ zs)" using assms(2) b(1) by (auto simp: sorted_wrt_append)
  ultimately show ?thesis using True b assms(2) filter_key(2) [of key ys b zs "key a"] by (simp add: ptr_list_def)
next
  case False
  then have "\<forall>b\<in>set xs. cmp a b \<noteq> 0" using assms(1) by auto
  moreover have "filter (\<lambda>b. key b \<noteq> key a) xs = xs" using False by (simp add: filter_id_conv)
  ultimately show ?thesis
    using SPLAY_REMOVE_absent [OF assms(3) by_keys_cut [OF assms(1,2), of a], of a] False assms(2) by (auto simp: ptr_list_def)
qed

lemma sp_read_step:
  assumes "by_keys key cmp" and "in_order key xs" and "sp_holds h xs"
  shows "\<exists>h'. sp_do cmp (Sp_find a) h = Some (h', filter (\<lambda>b. key b = key a) xs) \<and> sp_holds h' xs"
    and "\<exists>h'. sp_do cmp Sp_min h = Some (h', take 1 xs) \<and> sp_holds h' xs"
    and "\<exists>h'. sp_do cmp Sp_max h = Some (h', if xs = [] then [] else [last xs]) \<and> sp_holds h' xs"
    and "\<exists>h'. sp_do cmp Sp_walk h = Some (h', xs) \<and> sp_holds h' xs"
proof -
  have "(\<lambda>b. cmp a b = 0) = (\<lambda>b. key b = key a)" using assms(1) by auto
  then show "\<exists>h'. sp_do cmp (Sp_find a) h = Some (h', filter (\<lambda>b. key b = key a) xs) \<and> sp_holds h' xs"
    using SPLAY_FIND_holds [OF assms(3) by_keys_cut [OF assms(1,2), of a]] find_filter [OF assms(2), of "key a"] by auto
  have e: "SPLAY_EMPTY h \<longleftrightarrow> xs = []"
    using assms(3) sp_holds_empty [of h] by (cases xs) (auto simp: sp_holds_def sp_tree_def SPLAY_EMPTY_def)
  show "\<exists>h'. sp_do cmp Sp_min h = Some (h', take 1 xs) \<and> sp_holds h' xs"
    using e SPLAY_MIN_MAX_holds(1) [OF assms(3)] assms(3) by (cases xs) (auto simp: SPLAY_MIN_def ptr_list_def)
  show "\<exists>h'. sp_do cmp Sp_max h = Some (h', if xs = [] then [] else [last xs]) \<and> sp_holds h' xs"
    using e SPLAY_MIN_MAX_holds(2) [OF assms(3)] assms(3) by (cases xs) (auto simp: SPLAY_MAX_def ptr_list_def)
  show "\<exists>h'. sp_do cmp Sp_walk h = Some (h', xs) \<and> sp_holds h' xs"
    using SPLAY_FOREACH_holds [OF assms(3), of cmp] by_keys_cut [OF assms(1,2)] assms(1) by auto
qed

lemma sp_step:
  assumes "by_keys key cmp" and "in_order key xs" and "sp_holds h xs"
  shows "\<exists>h'. sp_do cmp p h = Some (h', snd (sp_spec key p xs)) \<and> sp_holds h' (fst (sp_spec key p xs)) \<and> in_order key (fst (sp_spec key p xs))"
  using sp_insert_step [OF assms] sp_remove_step [OF assms] sp_read_step [OF assms] assms(2) by (cases p) auto

lemma sp_run_specs:
  assumes "by_keys key cmp" and "in_order key xs" and "sp_holds h xs"
  shows "\<exists>h'. sp_run cmp ps h = Some (h', snd (sp_specs key ps xs)) \<and> sp_holds h' (fst (sp_specs key ps xs)) \<and> in_order key (fst (sp_specs key ps xs))"
  using assms(2,3)
proof (induction ps arbitrary: h xs)
  case (Cons p ps)
  obtain h1 where h1: "sp_do cmp p h = Some (h1, snd (sp_spec key p xs))" "sp_holds h1 (fst (sp_spec key p xs))"
    "in_order key (fst (sp_spec key p xs))"
    using sp_step [OF assms(1) Cons.prems, of p] by blast
  then show ?case using Cons.IH [OF h1(3,2)] by (auto simp: split_def Let_def)
qed simp

text \<open>
  C11: Splay trees: every sequence of lookups, insertions, removals, minima, maxima and walks on a tree that
  starts empty runs to its end, without a read through \<^verbatim>\<open>NULL\<close> and with every loop ending, and returns
  what the same operations return on a list of the elements sorted by their keys; an element
  whose key is already there is not inserted.
\<close>

theorem splay_refines_sorted_list:
  assumes "\<And>a b. (cmp a b < 0 \<longleftrightarrow> key a < key b) \<and> (cmp a b = 0 \<longleftrightarrow> key a = key b)"
  shows "\<exists>h'. sp_run cmp ps (SPLAY_INIT h) = Some (h', snd (sp_specs key ps [])) \<and> sp_holds h' (fst (sp_specs key ps [])) \<and>
    sorted_wrt (\<lambda>a b. key a < key b) (fst (sp_specs key ps []))"
proof -
  have "sp_holds (SPLAY_INIT h) []" by (simp add: sp_holds_empty SPLAY_INIT_def SPLAY_EMPTY_def)
  with sp_run_specs [of cmp key "[]" "SPLAY_INIT h" ps] assms show ?thesis by simp
qed

theorem splay_refines_sorted_list_witness:
  "\<exists>h' :: sp_head. sp_run (\<lambda>a b. int a - int b) [Sp_insert 5, Sp_insert 3, Sp_insert 9, Sp_find 4, Sp_remove 5, Sp_walk]
      (SPLAY_INIT \<lparr>sph_root = None, sp_links = (\<lambda>_. \<lparr>spe_left = None, spe_right = None\<rparr>)\<rparr>) =
    Some (h', [[], [], [], [], [5], [3, 9]])"
  using splay_refines_sorted_list [of "\<lambda>a b. int a - int b" id "[Sp_insert 5, Sp_insert 3, Sp_insert 9, Sp_find 4, Sp_remove 5, Sp_walk]"
      "\<lparr>sph_root = None, sp_links = (\<lambda>_. \<lparr>spe_left = None, spe_right = None\<rparr>)\<rparr>"]
  by auto

end
