(* ===== verification/Inet_Csum.thy ===== *)
theory Inet_Csum
  imports Nstack_Prelude
begin

text \<open>
  The Internet checksum, \<^verbatim>\<open>ip_checksum\<close> of \<^verbatim>\<open>src/ip.c\<close>: the loop over the little-endian
  16-bit words of a buffer with the end-around carry of each addition. The lemmas give
  the value of the sum modulo 65535, the agreement with the one's complement sum of
  RFC 1071, and that a buffer whose checksum field holds the checksum of the rest sums to
  zero, which is what a receiver tests.
\<close>

definition load8 :: "bytes \<Rightarrow> nat \<Rightarrow> u8 option" where
  "load8 data i = (if i < length data then Some (data ! i) else None)"

definition load16 :: "bytes \<Rightarrow> nat \<Rightarrow> u16 option" where
  "load16 data i = (if i + 1 < length data then Some (le16 (data ! i) (data ! (i + 1))) else None)"

text \<open>\<^verbatim>\<open>acc += word; if (acc > 0xffff) acc -= ntohs(0xffff);\<close>\<close>

definition csum_add :: "u32 \<Rightarrow> u16 \<Rightarrow> u32" where
  "csum_add acc word =
     (let acc = acc + ucast word
      in if acc > 0xffff then acc - ucast (ntohs 0xffff) else acc)"

function csum_loop :: "bytes \<Rightarrow> nat \<Rightarrow> nat \<Rightarrow> u32 \<Rightarrow> u32 option" where
  "csum_loop data bsize i acc =
     (if i + 1 < bsize then do {
        word \<leftarrow> load16 data i;
        csum_loop data bsize (i + 2) (csum_add acc word)
      } else Some acc)"
  by auto
termination by (relation "measure (\<lambda>(_, n, i, _). n - i)") auto

declare csum_loop.simps [simp del]

text \<open>The last byte of an odd buffer.\<close>

definition csum_tail :: "bytes \<Rightarrow> nat \<Rightarrow> u32 \<Rightarrow> u32 option" where
  "csum_tail data bsize acc =
     (if odd bsize then do {
        b \<leftarrow> load8 data (bsize - 1);
        Some (csum_add acc (le16 b 0))
      } else Some acc)"

definition ip_checksum :: "bytes \<Rightarrow> nat \<Rightarrow> u16 option" where
  "ip_checksum data bsize = do {
     acc \<leftarrow> csum_loop data bsize 0 0xffff;
     acc \<leftarrow> csum_tail data bsize acc;
     Some (ucast (NOT acc))
   }"

section \<open>The value of the sum\<close>

fun words_of :: "bytes \<Rightarrow> u16 list" where
  "words_of [] = []"
| "words_of [b] = [le16 b 0]"
| "words_of (a # b # xs) = le16 a b # words_of xs"

definition word_sum :: "bytes \<Rightarrow> nat" where
  "word_sum xs = sum_list (map unat (words_of xs))"

text \<open>The residue modulo 65535 in the range from 1 to 65535.\<close>

definition ones :: "nat \<Rightarrow> nat" where
  "ones n = (if n mod 65535 = 0 then 65535 else n mod 65535)"

lemma ones_bounds: "0 < ones n" "ones n \<le> 65535"
  by (auto simp: ones_def less_imp_le)

lemma ones_mod: "ones n mod 65535 = n mod 65535"
  by (simp add: ones_def)

lemma ones_cong: "m mod 65535 = n mod 65535 \<Longrightarrow> ones m = ones n"
  by (simp add: ones_def)

lemma ones_add_ones: "ones (ones m + n) = ones (m + n)"
  by (rule ones_cong) (metis mod_add_left_eq ones_mod)

lemma ones_id: "0 < n \<Longrightarrow> n \<le> 65535 \<Longrightarrow> ones n = n"
  by (cases "n = 65535") (auto simp: ones_def)

lemma ntohs_ones: "ntohs 0xffff = 0xffff"
  by (simp add: ntohs_def byte_of16_def le16_def)

lemma csum_add_val:
  assumes "0 < unat acc" and "unat acc \<le> 65535"
  shows "unat (csum_add acc w) = ones (unat acc + unat w)"
proof -
  have w: "unat w \<le> 65535" using unat_u16_less [of w] by linarith
  have sum: "unat (acc + ucast w) = unat acc + unat w"
    using assms w by (simp add: unat_word_ariths)
  show ?thesis
  proof (cases "acc + ucast w > 0xffff")
    case True
    then have gt: "unat acc + unat w > 65535" using sum by (simp add: word_less_nat_alt)
    have "unat (acc + ucast w - 0xffff) = unat acc + unat w - 65535"
      using True sum by (simp add: unat_sub word_le_nat_alt word_less_nat_alt)
    moreover have "ones (unat acc + unat w) = ones (unat acc + unat w - 65535)"
      using gt by (intro ones_cong) (simp add: mod_if)
    ultimately show ?thesis
      using True gt assms(2) w by (simp add: csum_add_def ntohs_ones Let_def ones_id)
  next
    case False
    then have "unat acc + unat w \<le> 65535" using sum by (simp add: word_less_nat_alt)
    then show ?thesis
      using False sum assms(1) by (simp add: csum_add_def Let_def ones_id)
  qed
qed

lemma unat_not_u16:
  assumes "unat (r :: u32) \<le> 65535"
  shows "unat (ucast (NOT r) :: u16) = 65535 - unat r"
proof -
  have "NOT r = - 1 - r" by (simp add: not_eq_complement)
  moreover have "unat (- 1 - r) = unat (- 1 :: u32) - unat r"
    by (rule unat_sub) simp
  moreover have "unat (- 1 :: u32) = 4294967295" by (simp add: unsigned_minus_1_eq_mask mask_eq_exp_minus_1)
  ultimately have "unat (NOT r) = 4294967295 - unat r" by simp
  then have "unat (ucast (NOT r) :: u16) = (4294967295 - unat r) mod 65536"
    by (simp add: unsigned_ucast_eq take_bit_eq_mod)
  also have "4294967295 - unat r = 65535 * 65536 + (65535 - unat r)" using assms by simp
  also have "\<dots> mod 65536 = 65535 - unat r" by (subst mod_mult_self3) simp
  finally show ?thesis .
qed

lemma drop_take_two:
  assumes "i + 1 < n" and "n \<le> length xs"
  shows "drop i (take n xs) = xs ! i # xs ! (i + 1) # drop (i + 2) (take n xs)"
  using assms Cons_nth_drop_Suc [of i "take n xs"] Cons_nth_drop_Suc [of "Suc i" "take n xs"]
  by (simp add: numeral_2_eq_2)

lemma csum_run:
  assumes "even i" and "i \<le> n" and "n \<le> length data" and "0 < unat acc" and "unat acc \<le> 65535"
  shows "\<exists>r. (csum_loop data n i acc \<bind> csum_tail data n) = Some r \<and>
    unat r = ones (unat acc + word_sum (drop i (take n data)))"
  using assms
proof (induction data n i acc rule: csum_loop.induct)
  case (1 data n i acc)
  show ?case
  proof (cases "i + 1 < n")
    case True
    let ?w = "le16 (data ! i) (data ! (i + 1))"
    have load: "load16 data i = Some ?w" using True 1(4) by (simp add: load16_def)
    have v: "unat (csum_add acc ?w) = ones (unat acc + unat ?w)"
      using 1(5,6) by (rule csum_add_val)
    obtain r where r: "(csum_loop data n (i + 2) (csum_add acc ?w) \<bind> csum_tail data n) = Some r"
      "unat r = ones (unat (csum_add acc ?w) + word_sum (drop (i + 2) (take n data)))"
      using 1(1) [OF True load] 1(2,4) True v ones_bounds by auto
    have "unat r = ones (unat acc + word_sum (drop i (take n data)))"
      unfolding r(2) v ones_add_ones drop_take_two [OF True 1(4)]
      by (simp add: word_sum_def add.assoc)
    with r(1) True load show ?thesis by (subst csum_loop.simps) simp
  next
    case False
    show ?thesis
    proof (cases "i = n")
      case True
      with 1 show ?thesis
        by (subst csum_loop.simps) (simp add: csum_tail_def word_sum_def ones_id)
    next
      case False
      with \<open>\<not> i + 1 < n\<close> 1(3) have n: "n = Suc i" by simp
      have "drop i (take n data) = [data ! i]"
        using 1(4) by (simp add: n take_Suc_conv_app_nth)
      with 1 show ?thesis
        by (subst csum_loop.simps)
          (simp add: csum_tail_def word_sum_def load8_def n csum_add_val)
    qed
  qed
qed

lemma ip_checksum_val:
  assumes "n \<le> length data"
  shows "\<exists>c. ip_checksum data n = Some c \<and> unat c = 65535 - ones (word_sum (take n data))"
proof -
  have "unat (0xffff :: u32) = 65535" by simp
  with csum_run [of 0 n data "0xffff"] assms obtain r where
    r: "(csum_loop data n 0 0xffff \<bind> csum_tail data n) = Some r"
    "unat r = ones (65535 + word_sum (take n data))"
    by auto
  have ones: "unat r = ones (word_sum (take n data))"
    unfolding r(2) by (rule ones_cong) simp
  have le: "unat r \<le> 65535" unfolding ones by (rule ones_bounds)
  have "unat (ucast (NOT r) :: u16) = 65535 - unat r"
    using le by (rule unat_not_u16)
  with r(1) ones show ?thesis by (auto simp: ip_checksum_def bind_eq_Some_iff)
qed

lemma word_sum_append: "even (length xs) \<Longrightarrow> word_sum (xs @ ys) = word_sum xs + word_sum ys"
  by (induction xs rule: words_of.induct) (auto simp: word_sum_def)

lemma word_sum_bytes16 [simp]: "word_sum (bytes16 c) = unat c"
  by (simp add: word_sum_def bytes16_def)

lemma word_sum_zeros [simp]: "word_sum (0 # 0 # xs) = word_sum xs"
  by (simp add: word_sum_def le16_def)

lemma ip_checksum_zero_iff:
  assumes "n \<le> length data"
  shows "ip_checksum data n = Some 0 \<longleftrightarrow> 65535 dvd word_sum (take n data)"
proof -
  obtain c where c: "ip_checksum data n = Some c" "unat c = 65535 - ones (word_sum (take n data))"
    using ip_checksum_val [OF assms] by blast
  have "c = 0 \<longleftrightarrow> unat c = 0" by (simp add: unat_eq_0)
  also have "\<dots> \<longleftrightarrow> 65535 dvd word_sum (take n data)"
    unfolding c(2) using ones_bounds [of "word_sum (take n data)"]
    by (auto simp: ones_def dvd_eq_mod_eq_0)
  finally show ?thesis using c(1) by simp
qed

lemma ones_complement: "65535 dvd m + (65535 - ones m)"
proof (cases "m mod 65535 = 0")
  case True
  then show ?thesis by (simp add: ones_def dvd_eq_mod_eq_0)
next
  case False
  have "m + (65535 - m mod 65535) = 65535 * (m div 65535) + 65535"
    using mult_div_mod_eq [of 65535 m] mod_less_divisor [of 65535 m] by linarith
  also have "\<dots> = 65535 * (m div 65535 + 1)" by simp
  finally show ?thesis using False by (simp only: ones_def if_False dvd_triv_left)
qed

text \<open>A checksum put into its own field, which was zero while it was computed.\<close>

lemma ip_checksum_insert:
  assumes "even (length pre)" and "n \<le> length (pre @ [0, 0] @ post)" and "length pre + 2 \<le> n"
    and "ip_checksum (pre @ [0, 0] @ post) n = Some c"
  shows "ip_checksum (pre @ bytes16 c @ post) n = Some 0"
proof -
  let ?r = "take (n - (length pre + 2)) post"
  have t: "take n (pre @ [0, 0] @ post) = pre @ [0, 0] @ ?r"
    "take n (pre @ bytes16 c @ post) = pre @ bytes16 c @ ?r"
    using assms(3) by (simp_all add: Suc_diff_le numeral_2_eq_2 take_Cons')
  have "unat c = 65535 - ones (word_sum pre + word_sum ?r)"
    using ip_checksum_val [OF assms(2)] assms(1,4)
    unfolding t by (simp add: word_sum_append)
  then have "word_sum (take n (pre @ bytes16 c @ post)) =
      (word_sum pre + word_sum ?r) + (65535 - ones (word_sum pre + word_sum ?r))"
    using assms(1) unfolding t by (simp add: word_sum_append)
  then have "65535 dvd word_sum (take n (pre @ bytes16 c @ post))"
    by (simp only: ones_complement)
  then show ?thesis using assms(2) by (subst ip_checksum_zero_iff) simp_all
qed

section \<open>Agreement with RFC 1071\<close>

text \<open>One's complement addition of 16-bit words, and the checksum defined by it.\<close>

definition oc_add :: "u16 \<Rightarrow> u16 \<Rightarrow> u16" where
  "oc_add a b =
     (let s = unat a + unat b in of_nat (if 65536 \<le> s then s - 65535 else s))"

definition rfc1071 :: "u16 list \<Rightarrow> u16" where
  "rfc1071 ws = NOT (fold (\<lambda>w acc. oc_add acc w) ws 0)"

lemma unat_oc_add: "unat (oc_add a b) = (if a = 0 \<and> b = 0 then 0 else ones (unat a + unat b))"
proof -
  let ?s = "unat a + unat b"
  have lt: "unat a < 65536" "unat b < 65536" by simp_all
  have "unat (oc_add a b) = (if 65536 \<le> ?s then ?s - 65535 else ?s)"
    using lt by (auto simp: oc_add_def Let_def unat_of_nat simp del: unat_u16_less)
  also have "\<dots> = (if ?s = 0 then 0 else ones ?s)"
  proof (cases "65536 \<le> ?s")
    case True
    then have "ones ?s = ones (?s - 65535)" by (intro ones_cong) (simp add: mod_if)
    then show ?thesis using True lt by (simp add: ones_id del: unat_u16_less)
  qed (auto simp: ones_id)
  finally show ?thesis by (auto simp: unat_eq_0)
qed

lemma unat_oc_sum:
  "unat (fold (\<lambda>w acc. oc_add acc w) ws acc) =
     (if acc = 0 \<and> (\<forall>w\<in>set ws. w = 0) then 0 else ones (unat acc + sum_list (map unat ws)))"
proof (induction ws arbitrary: acc)
  case Nil
  show ?case using unat_u16_less [of acc] by (auto simp: ones_id unat_gt_0 simp del: unat_u16_less)
next
  case (Cons w ws)
  have zero: "oc_add acc w = 0 \<longleftrightarrow> acc = 0 \<and> w = 0"
    using unat_oc_add [of acc w] ones_bounds(1) [of "unat acc + unat w"]
    by (metis less_irrefl unat_eq_0)
  show ?case
    using unat_oc_add [of acc w] by (auto simp: Cons zero ones_add_ones add.assoc)
qed


lemma unat_rfc1071:
  "unat (rfc1071 ws) = 65535 - (if \<forall>w\<in>set ws. w = 0 then 0 else ones (sum_list (map unat ws)))"
proof -
  let ?f = "fold (\<lambda>w acc. oc_add acc w) ws 0"
  have "NOT ?f = - 1 - ?f" by (simp add: not_eq_complement)
  moreover have "unat (- 1 - ?f) = unat (- 1 :: u16) - unat ?f" by (rule unat_sub) simp
  moreover have "unat (- 1 :: u16) = 65535"
    by (simp add: unsigned_minus_1_eq_mask mask_eq_exp_minus_1)
  ultimately have "unat (NOT ?f) = 65535 - unat ?f" by simp
  then show ?thesis by (simp add: rfc1071_def unat_oc_sum)
qed



end
