(* ===== verification/Ip_Header.thy ===== *)
theory Ip_Header
  imports Inet_Csum
begin

text \<open>
  The IPv4 header of \<^verbatim>\<open>src/nstack_ip.h\<close> and its conversions in \<^verbatim>\<open>src/ip.c\<close>: the packed
  struct as a record, its bytes in memory, \<^verbatim>\<open>ip_hton\<close>, \<^verbatim>\<open>ip_ntoh\<close> and \<^verbatim>\<open>ip_reply_header\<close>.
  The struct lies at the start of a packet buffer; the bytes after it (options and
  payload) are the argument \<open>rest\<close>, which the checksum covers up to the header length.
\<close>

record ip_hdr =
  ip_vhl :: u8
  ip_tos :: u8
  ip_len :: u16
  ip_id :: u16
  ip_foff :: u16
  ip_ttl :: u8
  ip_proto :: u8
  ip_csum :: u16
  ip_src :: u32
  ip_dst :: u32

definition ip_hdr_bytes :: "ip_hdr \<Rightarrow> bytes" where
  "ip_hdr_bytes h = [ip_vhl h, ip_tos h] @ bytes16 (ip_len h) @ bytes16 (ip_id h) @
     bytes16 (ip_foff h) @ [ip_ttl h, ip_proto h] @ bytes16 (ip_csum h) @
     bytes32 (ip_src h) @ bytes32 (ip_dst h)"

definition ip_hdr_at :: "bytes \<Rightarrow> ip_hdr option" where
  "ip_hdr_at b =
     (if 20 \<le> length b then Some
        \<lparr>ip_vhl = b ! 0, ip_tos = b ! 1, ip_len = le16 (b ! 2) (b ! 3),
         ip_id = le16 (b ! 4) (b ! 5), ip_foff = le16 (b ! 6) (b ! 7),
         ip_ttl = b ! 8, ip_proto = b ! 9, ip_csum = le16 (b ! 10) (b ! 11),
         ip_src = le32 (b ! 12) (b ! 13) (b ! 14) (b ! 15),
         ip_dst = le32 (b ! 16) (b ! 17) (b ! 18) (b ! 19)\<rparr>
      else None)"

definition ip_hdr_hlen :: "ip_hdr \<Rightarrow> nat" where
  "ip_hdr_hlen ip = unat (ip_vhl ip AND 0x0f) * 4"

text \<open>The fields of \<^verbatim>\<open>ip_hton\<close> before the checksum, which starts from zero.\<close>

definition ip_hton_fields :: "ip_hdr \<Rightarrow> ip_hdr" where
  "ip_hton_fields host =
     \<lparr>ip_vhl = ip_vhl host, ip_tos = ip_tos host, ip_len = htons (ip_len host),
      ip_id = htons (ip_id host), ip_foff = htons (ip_foff host), ip_ttl = ip_ttl host,
      ip_proto = ip_proto host, ip_csum = 0, ip_src = htonl (ip_src host),
      ip_dst = htonl (ip_dst host)\<rparr>"

definition ip_hton :: "ip_hdr \<Rightarrow> bytes \<Rightarrow> ip_hdr option" where
  "ip_hton host rest = do {
     let net = ip_hton_fields host;
     csum \<leftarrow> ip_checksum (ip_hdr_bytes net @ rest) (ip_hdr_hlen host);
     Some (net\<lparr>ip_csum := csum\<rparr>)
   }"

definition ip_ntoh :: "ip_hdr \<Rightarrow> ip_hdr \<times> nat" where
  "ip_ntoh net =
     (let host = \<lparr>ip_vhl = ip_vhl net, ip_tos = ip_tos net, ip_len = ntohs (ip_len net),
        ip_id = ntohs (ip_id net), ip_foff = ntohs (ip_foff net), ip_ttl = ip_ttl net,
        ip_proto = ip_proto net, ip_csum = ip_csum net, ip_src = ntohl (ip_src net),
        ip_dst = ntohl (ip_dst net)\<rparr>
      in (host, ip_hdr_hlen host))"

text \<open>The header is replaced by its reply in network order; the result is the packet size.\<close>

definition ip_reply_header :: "ip_hdr \<Rightarrow> bytes \<Rightarrow> nat \<Rightarrow> (ip_hdr \<times> nat) option" where
  "ip_reply_header ip rest bsize = do {
     let ip = ip\<lparr>ip_src := ip_dst ip, ip_dst := ip_src ip, ip_ttl := 64\<rparr>;
     let bsize = bsize + ip_hdr_hlen ip;
     let ip = ip\<lparr>ip_len := of_nat bsize\<rparr>;
     net \<leftarrow> ip_hton ip rest;
     Some (net, bsize)
   }"

lemma length_ip_hdr_bytes [simp]: "length (ip_hdr_bytes h) = 20"
  by (simp add: ip_hdr_bytes_def bytes16_def bytes32_def)

lemma ip_hdr_at_bytes [simp]: "ip_hdr_at (ip_hdr_bytes h @ rest) = Some h"
  by (simp add: ip_hdr_at_def ip_hdr_bytes_def bytes16_def bytes32_def)

lemma ip_hlen_bounds: "ip_hdr_hlen h \<le> 60"
proof -
  have "ip_vhl h AND 0x0f \<le> 0x0f" by (rule word_and_le1)
  then have "unat (ip_vhl h AND 0x0f) \<le> 15" by (simp add: word_le_nat_alt)
  then show ?thesis by (simp add: ip_hdr_hlen_def)
qed

lemma ip_hton_fields_simps [simp]:
  "ip_vhl (ip_hton_fields h) = ip_vhl h" "ip_hdr_hlen (ip_hton_fields h) = ip_hdr_hlen h"
  "ip_hdr_hlen (h\<lparr>ip_csum := c\<rparr>) = ip_hdr_hlen h"
  by (simp_all add: ip_hton_fields_def ip_hdr_hlen_def)

lemma ip_ntoh_hton_fields: "fst (ip_ntoh ((ip_hton_fields h)\<lparr>ip_csum := c\<rparr>)) = h\<lparr>ip_csum := c\<rparr>"
  by (simp add: ip_ntoh_def ip_hton_fields_def Let_def)

text \<open>The checksum field lies at the even offset 10.\<close>

lemma ip_hdr_bytes_csum:
  obtains pre post where "length pre = 10"
    "\<And>c. ip_hdr_bytes (h\<lparr>ip_csum := c\<rparr>) = pre @ bytes16 c @ post"
proof
  show "length ([ip_vhl h, ip_tos h] @ bytes16 (ip_len h) @ bytes16 (ip_id h) @
      bytes16 (ip_foff h) @ [ip_ttl h, ip_proto h]) = 10"
    by (simp add: bytes16_def)
  show "ip_hdr_bytes (h\<lparr>ip_csum := c\<rparr>) = ([ip_vhl h, ip_tos h] @ bytes16 (ip_len h) @
      bytes16 (ip_id h) @ bytes16 (ip_foff h) @ [ip_ttl h, ip_proto h]) @ bytes16 c @
      bytes32 (ip_src h) @ bytes32 (ip_dst h)" for c
    by (simp add: ip_hdr_bytes_def)
qed

lemma ip_hton_ok:
  assumes "20 \<le> ip_hdr_hlen host" and "ip_hdr_hlen host \<le> 20 + length rest"
  shows "\<exists>net. ip_hton host rest = Some net \<and>
    ip_checksum (ip_hdr_bytes net @ rest) (ip_hdr_hlen net) = Some 0 \<and>
    ip_ntoh net = (host\<lparr>ip_csum := ip_csum net\<rparr>, ip_hdr_hlen host)"
proof -
  let ?net = "ip_hton_fields host"
  obtain pre post where b: "length pre = 10"
    "\<And>c. ip_hdr_bytes (?net\<lparr>ip_csum := c\<rparr>) = pre @ bytes16 c @ post"
    using ip_hdr_bytes_csum [of ?net] by metis
  have zero: "ip_hdr_bytes ?net = pre @ [0, 0] @ post"
    using b(2) [of 0] by (simp add: ip_hton_fields_def bytes16_def byte_of16_def)
  obtain c where c: "ip_checksum (ip_hdr_bytes ?net @ rest) (ip_hdr_hlen host) = Some c"
    using ip_checksum_val [of "ip_hdr_hlen host" "ip_hdr_bytes ?net @ rest"] assms(2) by auto
  have "length (pre @ [0, 0] @ post) = 20" using zero by (metis length_ip_hdr_bytes)
  then have "ip_checksum (pre @ bytes16 c @ post @ rest) (ip_hdr_hlen host) = Some 0"
    using c assms b(1) unfolding zero
    by (intro ip_checksum_insert) simp_all
  moreover have "ip_ntoh (?net\<lparr>ip_csum := c\<rparr>) = (host\<lparr>ip_csum := c\<rparr>, ip_hdr_hlen host)"
    using ip_ntoh_hton_fields [of c host] by (simp add: ip_ntoh_def Let_def)
  ultimately show ?thesis using c b(2) [of c] by (simp add: ip_hton_def)
qed

lemma ip_reply_header_ok:
  assumes "20 \<le> ip_hdr_hlen ip" and "ip_hdr_hlen ip \<le> 20 + length rest"
  shows "\<exists>net. ip_reply_header ip rest n = Some (net, n + ip_hdr_hlen ip) \<and>
    ip_checksum (ip_hdr_bytes net @ rest) (ip_hdr_hlen net) = Some 0 \<and>
    fst (ip_ntoh net) = ip\<lparr>ip_src := ip_dst ip, ip_dst := ip_src ip, ip_ttl := 64,
      ip_len := of_nat (n + ip_hdr_hlen ip), ip_csum := ip_csum net\<rparr>"
proof -
  let ?ip = "ip\<lparr>ip_src := ip_dst ip, ip_dst := ip_src ip, ip_ttl := 64,
    ip_len := of_nat (n + ip_hdr_hlen ip)\<rparr>"
  have hlen: "ip_hdr_hlen ?ip = ip_hdr_hlen ip"
    "ip_hdr_hlen (ip\<lparr>ip_src := ip_dst ip, ip_dst := ip_src ip, ip_ttl := 64\<rparr>) = ip_hdr_hlen ip"
    by (simp_all add: ip_hdr_hlen_def)
  obtain net where "ip_hton ?ip rest = Some net"
    "ip_checksum (ip_hdr_bytes net @ rest) (ip_hdr_hlen net) = Some 0"
    "ip_ntoh net = (?ip\<lparr>ip_csum := ip_csum net\<rparr>, ip_hdr_hlen ip)"
    using ip_hton_ok [of ?ip rest] assms hlen by auto
  then show ?thesis by (simp add: ip_reply_header_def Let_def hlen)
qed

text \<open>
  C7: A header that \<^verbatim>\<open>ip_hton\<close> writes passes the checksum test of any receiver, and the
  receiver that reads the bytes and applies \<^verbatim>\<open>ip_ntoh\<close> gets the sender's fields back.
\<close>

theorem ip_header_roundtrip:
  assumes "20 \<le> ip_hdr_hlen host" and "ip_hdr_hlen host \<le> 20 + length rest"
  shows "\<exists>net. ip_hton host rest = Some net \<and>
    ip_checksum (ip_hdr_bytes net @ rest) (ip_hdr_hlen net) = Some 0 \<and>
    map_option ip_ntoh (ip_hdr_at (ip_hdr_bytes net @ rest)) =
      Some (host\<lparr>ip_csum := ip_csum net\<rparr>, ip_hdr_hlen host)"
  using ip_hton_ok [OF assms] by auto

definition demo_ip :: ip_hdr where
  "demo_ip = \<lparr>ip_vhl = 0x45, ip_tos = 0, ip_len = 84, ip_id = 7, ip_foff = 0, ip_ttl = 64,
     ip_proto = 1, ip_csum = 0, ip_src = 0x0a000002, ip_dst = 0x0a000001\<rparr>"

lemma demo_ip_hlen [simp]: "ip_hdr_hlen demo_ip = 20"
  by (simp add: ip_hdr_hlen_def demo_ip_def)

theorem ip_header_roundtrip_witness:
  "\<exists>net. ip_hton demo_ip [] = Some net \<and>
    ip_checksum (ip_hdr_bytes net) (ip_hdr_hlen net) = Some 0 \<and>
    map_option ip_ntoh (ip_hdr_at (ip_hdr_bytes net)) = Some (demo_ip\<lparr>ip_csum := ip_csum net\<rparr>, 20)"
  using ip_header_roundtrip [of demo_ip "[]"] by simp

text \<open>
  \<^verbatim>\<open>ip_reply_header\<close> turns a received header into one that goes back: addresses
  exchanged, a fresh time to live, the length of the reply, and a checksum that verifies.
\<close>

theorem ip_reply_header_correct:
  assumes "20 \<le> ip_hdr_hlen ip" and "ip_hdr_hlen ip \<le> 20 + length rest"
  shows "\<exists>net. ip_reply_header ip rest n = Some (net, n + ip_hdr_hlen ip) \<and>
    ip_checksum (ip_hdr_bytes net @ rest) (ip_hdr_hlen net) = Some 0 \<and>
    fst (ip_ntoh net) = ip\<lparr>ip_src := ip_dst ip, ip_dst := ip_src ip, ip_ttl := 64,
      ip_len := of_nat (n + ip_hdr_hlen ip), ip_csum := ip_csum net\<rparr>"
  by (rule ip_reply_header_ok [OF assms])

theorem ip_reply_header_correct_witness:
  "\<exists>net. ip_reply_header demo_ip (replicate 64 0) 64 = Some (net, 84) \<and>
    ip_checksum (ip_hdr_bytes net @ replicate 64 0) (ip_hdr_hlen net) = Some 0 \<and>
    ip_dst (fst (ip_ntoh net)) = 0x0a000002"
proof -
  from ip_reply_header_correct [of demo_ip "replicate 64 0" 64]
  obtain net where "ip_reply_header demo_ip (replicate 64 0) 64 = Some (net, 84)"
    "ip_checksum (ip_hdr_bytes net @ replicate 64 0) (ip_hdr_hlen net) = Some 0"
    "ip_dst (fst (ip_ntoh net)) = ip_src demo_ip"
    by auto
  then show ?thesis by (auto simp: demo_ip_def)
qed

end
