(* ===== verification/Ether_Fcs.thy ===== *)
theory Ether_Fcs
  imports Nstack_Prelude
begin

text \<open>
  The frame check sequence, \<^verbatim>\<open>ether_fcs\<close> of \<^verbatim>\<open>src/ether_fcs.c\<close>, and its agreement with the
  CRC-32 of IEEE 802.3 in its bit-by-bit form. The C code keeps the complement of the shift
  register, half a byte at a time, so that neither the initial value nor the final
  complement of the standard appears in it.
\<close>

definition crc_table :: "u32 list" where
  "crc_table = [
     0x4DBDF21C, 0x500AE278, 0x76D3D2D4, 0x6B64C2B0, 0x3B61B38C, 0x26D6A3E8,
     0x000F9344, 0x1DB88320, 0xA005713C, 0xBDB26158, 0x9B6B51F4, 0x86DC4190,
     0xD6D930AC, 0xCB6E20C8, 0xEDB71064, 0xF0000000]"

definition fcs_step :: "u32 \<Rightarrow> u8 \<Rightarrow> u32" where
  "fcs_step crc x = drop_bit 4 crc XOR crc_table ! unat ((crc XOR ucast x) AND 0x0F)"

definition fcs_byte :: "u32 \<Rightarrow> u8 \<Rightarrow> u32" where
  "fcs_byte crc b = (let crc = fcs_step crc (drop_bit 0 b) in fcs_step crc (drop_bit 4 b))"

definition ether_fcs :: "bytes \<Rightarrow> u32" where
  "ether_fcs data = foldl fcs_byte 0 data"

section \<open>CRC-32 bit by bit\<close>

definition crc_bit :: "u32 \<Rightarrow> u32" where
  "crc_bit x = (if bit x 0 then drop_bit 1 x XOR 0xEDB88320 else drop_bit 1 x)"

definition crc_byte :: "u32 \<Rightarrow> u8 \<Rightarrow> u32" where
  "crc_byte s b = (crc_bit ^^ 8) (s XOR ucast b)"

definition crc32 :: "bytes \<Rightarrow> u32" where
  "crc32 data = NOT (foldl crc_byte 0xFFFFFFFF data)"

lemma crc_bit_xor: "crc_bit (x XOR y) = crc_bit x XOR crc_bit y"
  by (auto simp: crc_bit_def bit_simps drop_bit_xor xor.assoc xor.commute xor.left_commute)

lemma crc_bits_xor: "(crc_bit ^^ n) (x XOR y) = (crc_bit ^^ n) x XOR (crc_bit ^^ n) y"
  by (induction n) (simp_all add: crc_bit_xor)

lemma crc_bit_even: "\<not> bit z 0 \<Longrightarrow> crc_bit z = drop_bit 1 z"
  by (simp add: crc_bit_def)

lemma crc_bits_shift: "(\<forall>i<n. \<not> bit z i) \<Longrightarrow> (crc_bit ^^ n) z = drop_bit n z"
proof (induction n)
  case (Suc n)
  then have "(crc_bit ^^ n) z = drop_bit n z" by simp
  moreover have "\<not> bit (drop_bit n z) 0" using Suc.prems by (simp add: bit_simps)
  ultimately show ?case by (simp add: crc_bit_even)
qed simp

text \<open>Low bits enter the register, high bits only shift.\<close>

lemma crc_bits_split:
  assumes "n \<le> 32"
  shows "(crc_bit ^^ n) (s XOR v) = (crc_bit ^^ n) (s XOR (v AND mask n)) XOR drop_bit n v"
proof -
  have v: "v = (v AND mask n) XOR (v AND NOT (mask n))"
    by (rule bit_word_eqI) (auto simp: bit_simps)
  have "(crc_bit ^^ n) (v AND NOT (mask n)) = drop_bit n (v AND NOT (mask n))"
    by (rule crc_bits_shift) (auto simp: bit_simps)
  also have "\<dots> = drop_bit n v"
    by (rule bit_word_eqI) (auto simp: bit_simps dest: bit_imp_le_length)
  finally have hi: "(crc_bit ^^ n) (v AND NOT (mask n)) = drop_bit n v" .
  have "s XOR v = (s XOR (v AND mask n)) XOR (v AND NOT (mask n))"
    by (subst (1) v) (simp add: xor.assoc)
  then show ?thesis by (simp add: crc_bits_xor [of n "s XOR (v AND mask n)"] hi)
qed

definition crc_nibble :: "u32 \<Rightarrow> u32" where
  "crc_nibble i = (crc_bit ^^ 4) i"

lemma crc_four: "(crc_bit ^^ 4) x = drop_bit 4 x XOR crc_nibble (x AND 0x0F)"
  using crc_bits_split [of 4 0 x] by (simp add: crc_nibble_def mask_eq_exp_minus_1 xor.commute)

section \<open>The table\<close>

lemma crc_table_entries:
  "list_all (\<lambda>k. crc_table ! (15 - k) = crc_nibble (of_nat k) XOR 0xF0000000) [0..<16]"
  by code_simp

lemma crc_table_entry:
  "k < 16 \<Longrightarrow> crc_table ! (15 - k) = crc_nibble (of_nat k) XOR 0xF0000000"
  using crc_table_entries by (simp add: list_all_iff)

lemma low_nibble: "unat (x AND 0x0F :: u32) < 16"
proof -
  have "x AND 0x0F \<le> 0x0F" by (rule word_and_le1)
  then show ?thesis by (simp add: word_le_nat_alt)
qed

lemma low_nibble_not: "unat (NOT x AND 0x0F :: u32) = 15 - unat (x AND 0x0F)"
proof -
  have "(x AND 0x0F) + (NOT x AND 0x0F) = (x AND 0x0F) OR (NOT x AND 0x0F)"
    by (rule disjunctive_add) (auto simp: bit_simps)
  also have "\<dots> = 0x0F"
    by (rule bit_word_eqI) (auto simp: bit_simps)
  finally have "NOT x AND 0x0F = 0x0F - (x AND 0x0F)" by (simp add: algebra_simps)
  then show ?thesis by (simp add: unat_sub word_and_le1)
qed

lemma drop_bit_not: "drop_bit 4 (NOT s :: u32) = NOT (drop_bit 4 s) XOR 0xF0000000"
proof -
  have c: "(0xF0000000 :: u32) = push_bit 28 (mask 4)"
    by (simp add: push_bit_eq_mult mask_eq_exp_minus_1)
  show ?thesis
    unfolding c by (rule bit_word_eqI) (auto simp: bit_simps dest: bit_imp_le_length)
qed

lemma fcs_step_not:
  "fcs_step (NOT s) x = NOT (drop_bit 4 s XOR crc_nibble ((s XOR ucast x) AND 0x0F))"
proof -
  let ?y = "(s XOR ucast x) AND 0x0F :: u32"
  have "NOT s XOR ucast x = NOT (s XOR ucast x)" by simp
  then have "unat ((NOT s XOR ucast x) AND 0x0F) = 15 - unat ?y"
    by (simp only: low_nibble_not)
  then have "crc_table ! unat ((NOT s XOR ucast x) AND 0x0F) = crc_nibble ?y XOR 0xF0000000"
    using crc_table_entry [of "unat ?y"] low_nibble by simp
  then show ?thesis
    unfolding fcs_step_def drop_bit_not
    by (simp add: xor.assoc xor.commute xor.left_commute)
qed

lemma fcs_byte_not: "fcs_byte (NOT s) b = NOT (crc_byte s b)"
proof -
  let ?t = "drop_bit 4 s XOR crc_nibble ((s XOR ucast b) AND 0x0F)"
  have "(crc_bit ^^ 4) (s XOR ucast b) = ?t XOR ucast (drop_bit 4 b)"
    by (simp add: crc_four drop_bit_xor ucast_drop_bit_eq xor.assoc xor.commute xor.left_commute)
  then have "crc_byte s b = (crc_bit ^^ 4) (?t XOR ucast (drop_bit 4 b))"
    unfolding crc_byte_def by (simp add: funpow_add [of 4 4, simplified])
  also have "\<dots> = drop_bit 4 ?t XOR crc_nibble ((?t XOR ucast (drop_bit 4 b)) AND 0x0F)"
  proof -
    have "drop_bit 4 (ucast (drop_bit 4 b) :: u32) = 0"
      by (rule bit_word_eqI) (auto simp: bit_simps)
    then show ?thesis unfolding crc_four by (simp add: drop_bit_xor)
  qed
  finally show ?thesis by (simp add: fcs_byte_def Let_def fcs_step_not)
qed

lemma not_all_ones: "NOT (0xFFFFFFFF :: u32) = 0"
  by code_simp

lemma ether_fcs_crc32: "ether_fcs data = crc32 data"
proof -
  have "foldl fcs_byte (NOT s) data = NOT (foldl crc_byte s data)" for s
    by (induction data arbitrary: s) (simp_all add: fcs_byte_not)
  from this [of "0xFFFFFFFF"] show ?thesis
    unfolding not_all_ones by (simp add: ether_fcs_def crc32_def)
qed

section \<open>A frame with its check sequence\<close>

lemma crc_byte_of32:
  "crc_byte s (byte_of32 k v) XOR drop_bit (8 * k + 8) v = (crc_bit ^^ 8) (s XOR drop_bit (8 * k) v)"
proof -
  let ?v = "drop_bit (8 * k) v"
  have "ucast (byte_of32 k v) = ?v AND mask 8"
    unfolding byte_of32_def by (rule bit_word_eqI) (auto simp: bit_simps)
  moreover have "drop_bit 8 ?v = drop_bit (8 * k + 8) v" by (simp add: add.commute)
  ultimately show ?thesis using crc_bits_split [of 8 s ?v] by (simp add: crc_byte_def)
qed

lemma crc_bytes32: "foldl crc_byte s (bytes32 v) = (crc_bit ^^ 32) (s XOR v)"
proof -
  define s1 where "s1 = crc_byte s (byte_of32 0 v)"
  define s2 where "s2 = crc_byte s1 (byte_of32 1 v)"
  define s3 where "s3 = crc_byte s2 (byte_of32 2 v)"
  define s4 where "s4 = crc_byte s3 (byte_of32 3 v)"
  have "s1 XOR drop_bit 8 v = (crc_bit ^^ 8) (s XOR v)"
    using crc_byte_of32 [of s 0 v] by (simp add: s1_def)
  moreover have "s2 XOR drop_bit 16 v = (crc_bit ^^ 8) (s1 XOR drop_bit 8 v)"
    using crc_byte_of32 [of s1 1 v] by (simp add: s2_def)
  moreover have "s3 XOR drop_bit 24 v = (crc_bit ^^ 8) (s2 XOR drop_bit 16 v)"
    using crc_byte_of32 [of s2 2 v] by (simp add: s3_def)
  moreover have "s4 = (crc_bit ^^ 8) (s3 XOR drop_bit 24 v)"
    using crc_byte_of32 [of s3 3 v] by (simp add: s4_def)
  ultimately have "s4 = (crc_bit ^^ 8) ((crc_bit ^^ 8) ((crc_bit ^^ 8) ((crc_bit ^^ 8) (s XOR v))))"
    by simp
  also have "\<dots> = (crc_bit ^^ 32) (s XOR v)"
    using funpow_add [of 16 16 crc_bit] funpow_add [of 8 8 crc_bit] by simp
  finally show ?thesis by (simp add: bytes32_def s1_def s2_def s3_def s4_def)
qed

text \<open>The remainder that every frame with a right check sequence leaves.\<close>

definition crc_residue :: u32 where
  "crc_residue = 0x2144DF1C"

text \<open>The register after each half byte of the check sequence.\<close>

lemma crc_residue_steps:
  "(crc_bit ^^ 4) 0xFFFFFFFF = 0xB2420DE3"
  "(crc_bit ^^ 4) 0xB2420DE3 = 0x2DFD1072"
  "(crc_bit ^^ 4) 0x2DFD1072 = 0x39B1F1CF"
  "(crc_bit ^^ 4) 0x39B1F1CF = 0xBE26ED00"
  "(crc_bit ^^ 4) 0xBE26ED00 = 0x0BE26ED0"
  "(crc_bit ^^ 4) 0x0BE26ED0 = 0x00BE26ED"
  "(crc_bit ^^ 4) 0x00BE26ED = 0x86D830BA"
  "(crc_bit ^^ 4) 0x86D830BA = 0xDEBB20E3"
  by code_simp+

lemma crc_residue_val: "NOT ((crc_bit ^^ 32) 0xFFFFFFFF) = crc_residue"
proof -
  have "(crc_bit ^^ 32) 0xFFFFFFFF = 0xDEBB20E3"
    using funpow_add [of 16 16 crc_bit] funpow_add [of 8 8 crc_bit] funpow_add [of 4 4 crc_bit]
    by (simp add: crc_residue_steps)
  then show ?thesis by (simp add: crc_residue_def)
qed

lemma ether_fcs_residue: "ether_fcs (data @ bytes32 (ether_fcs data)) = crc_residue"
proof -
  let ?s = "foldl crc_byte 0xFFFFFFFF data"
  have "?s XOR NOT ?s = - 1" by simp
  also have "\<dots> = 0xFFFFFFFF" by code_simp
  finally have "?s XOR NOT ?s = 0xFFFFFFFF" .
  then have "foldl crc_byte ?s (bytes32 (NOT ?s)) = (crc_bit ^^ 32) 0xFFFFFFFF"
    by (simp only: crc_bytes32)
  then show ?thesis
    by (simp only: ether_fcs_crc32 crc32_def foldl_append crc_residue_val)
qed

text \<open>
  C8: \<^verbatim>\<open>ether_fcs\<close>, with its table of sixteen entries and its complemented register, computes
  the CRC-32 of IEEE 802.3 bit by bit, and a receiver that runs it over the data and the
  appended check sequence gets the fixed residue.
\<close>

theorem ether_fcs_is_crc32:
  "ether_fcs data = crc32 data \<and> ether_fcs (data @ bytes32 (ether_fcs data)) = crc_residue"
  using ether_fcs_crc32 ether_fcs_residue by blast

end
