(* ===== verification/Ether.thy ===== *)
theory Ether
  imports Ether_Fcs
begin

text \<open>
  The link layer: \<^verbatim>\<open>src/linux/ether.c\<close> (interfaces, frames out and in) and \<^verbatim>\<open>src/ether.c\<close>
  (the protocol dispatch of received frames). The state that the C files keep in static
  variables is a record that the upper layers extend. The system calls \<^verbatim>\<open>sendto\<close> and
  \<^verbatim>\<open>recvfrom\<close> are outside the sources: \<open>sendto\<close> is an argument that maps the frames sent so
  far and the next frame to a return value and an error number, and the results of
  \<^verbatim>\<open>recvfrom\<close> are a list that the reader consumes.
\<close>

text \<open>Of \<^verbatim>\<open>struct ifreq\<close> the name and the index. The socket address that goes to \<^verbatim>\<open>sendto\<close> with a frame
  repeats the frame's destination and protocol beside this index, and is left out.\<close>

record ifreq =
  ifr_name :: string
  ifr_ifindex :: int

record ether_linux =
  el_fd :: int
  el_mac :: mac_addr_t
  el_if_idx :: ifreq

record io_st =
  io_errno :: int
  io_tx :: "(int \<times> bytes) list"

record ether_st = io_st +
  ether_if :: "ether_linux list"
  ether_next_handle :: int

type_synonym os_sendto = "(int \<times> bytes) list \<Rightarrow> int \<Rightarrow> bytes \<Rightarrow> int \<times> int"

record ether_hdr =
  h_dst :: mac_addr_t
  h_src :: mac_addr_t
  h_proto :: u16

abbreviation (input) ETHER_MAX_IF :: int where "ETHER_MAX_IF \<equiv> 1"
abbreviation (input) ETHER_HEADER_LEN :: nat where "ETHER_HEADER_LEN \<equiv> 14"
abbreviation (input) ETHER_FCS_LEN :: nat where "ETHER_FCS_LEN \<equiv> 4"
abbreviation (input) ETHER_MINLEN :: nat where "ETHER_MINLEN \<equiv> 60"
abbreviation (input) ETHER_MAXLEN :: nat where "ETHER_MAXLEN \<equiv> 1514"
abbreviation (input) ETHER_DATA_LEN :: nat where "ETHER_DATA_LEN \<equiv> 1500"
abbreviation (input) ETHER_PROTO_IPV4 :: u16 where "ETHER_PROTO_IPV4 \<equiv> 0x0800"
abbreviation (input) ETHER_PROTO_ARP :: u16 where "ETHER_PROTO_ARP \<equiv> 0x0806"

definition mac_broadcast_addr :: mac_addr_t where
  "mac_broadcast_addr = [0xff, 0xff, 0xff, 0xff, 0xff, 0xff]"

text \<open>A negative handle indexes outside the array.\<close>

definition ether_handle2eth ::
  "'a ether_st_scheme \<Rightarrow> int \<Rightarrow> ('a ether_st_scheme \<times> ether_linux option) option" where
  "ether_handle2eth s handle =
     (if handle \<ge> ETHER_MAX_IF then Some (s\<lparr>io_errno := ENODEV\<rparr>, None)
      else if 0 \<le> handle \<and> nat handle < length (ether_if s)
      then Some (s, Some (ether_if s ! nat handle))
      else None)"

text \<open>The result is the return value and, on success, the address written.\<close>

definition ether_handle2addr ::
  "'a ether_st_scheme \<Rightarrow> int \<Rightarrow> ('a ether_st_scheme \<times> int \<times> mac_addr_t option) option" where
  "ether_handle2addr s handle = do {
     (s, eth) \<leftarrow> ether_handle2eth s handle;
     case eth of
       None \<Rightarrow> Some (s\<lparr>io_errno := ENODEV\<rparr>, -1, None)
     | Some eth \<Rightarrow> Some (s, 0, Some (el_mac eth))
   }"

definition ether_addr2handle :: "mac_addr_t \<Rightarrow> int" where
  "ether_addr2handle addr = 0"

section \<open>Sending\<close>

text \<open>\<^verbatim>\<open>max\<close> of \<^verbatim>\<open>nstack_util.h\<close> takes \<^verbatim>\<open>unsigned int\<close>, so the size is cut to 32 bits.\<close>

definition frame_size :: "nat \<Rightarrow> nat" where
  "frame_size bsize =
     ETHER_HEADER_LEN + max (bsize mod 2 ^ 32) (ETHER_MINLEN - ETHER_FCS_LEN) + ETHER_FCS_LEN"

definition ether_frame :: "mac_addr_t \<Rightarrow> mac_addr_t \<Rightarrow> u16 \<Rightarrow> bytes \<Rightarrow> bytes" where
  "ether_frame dst src proto data =
     (let frame = dst @ src @ bytes16 (htons proto) @ data @
        replicate (frame_size (length data) - ETHER_HEADER_LEN - ETHER_FCS_LEN - length data) 0
      in frame @ bytes32 (ether_fcs frame))"

definition ether_send ::
  "os_sendto \<Rightarrow> 'a ether_st_scheme \<Rightarrow> int \<Rightarrow> mac_addr_t \<Rightarrow> u16 \<Rightarrow> bytes \<Rightarrow> nat \<Rightarrow>
   ('a ether_st_scheme \<times> int) option" where
  "ether_send sendto s handle dst proto buf bsize =
     (if frame_size bsize > ETHER_MAXLEN + ETHER_FCS_LEN then Some (s, - EMSGSIZE)
      else do {
        (s, eth) \<leftarrow> ether_handle2eth s handle;
        case eth of
          None \<Rightarrow> Some (s, - io_errno s)
        | Some eth \<Rightarrow> do {
            data \<leftarrow> read_at buf 0 bsize;
            if ETHER_HEADER_LEN + bsize + ETHER_FCS_LEN \<le> frame_size bsize then do {
              let frame = ether_frame dst (el_mac eth) proto data;
              let (ret, err) = sendto (io_tx s) (el_fd eth) frame;
              let s = s\<lparr>io_tx := io_tx s @ [(el_fd eth, frame)]\<rparr>;
              if ret < 0 then Some (s\<lparr>io_errno := err\<rparr>, - err) else Some (s, ret)
            } else None
          }
      })"

section \<open>Receiving\<close>

datatype rx_result = RxFrame bytes | RxError int

text \<open>
  \<^verbatim>\<open>recvfrom\<close> fills the start of the buffer \<open>frame\<close> with at most 1514 bytes. The loop skips
  the frames that this interface sent itself.
\<close>

fun ether_rx :: "mac_addr_t \<Rightarrow> bytes \<Rightarrow> rx_result list \<Rightarrow> ((int \<times> bytes + int) \<times> rx_result list) option" where
  "ether_rx mac frame [] = None"
| "ether_rx mac frame (RxError e # rx) = Some (Inr e, rx)"
| "ether_rx mac frame (RxFrame f # rx) =
     (let f = take ETHER_MAXLEN f; frame = f @ drop (length f) frame
      in if take 6 (drop 6 frame) = mac then ether_rx mac frame rx
         else Some (Inl (int (length f), frame), rx))"

text \<open>
  The result is the rest of the input, the return value and, for a frame, the header and
  the bytes written to \<^verbatim>\<open>buf\<close>. A frame shorter than a header makes the length negative,
  which \<^verbatim>\<open>min\<close> takes for a large unsigned value.
\<close>

definition ether_receive ::
  "'a ether_st_scheme \<Rightarrow> rx_result list \<Rightarrow> bytes \<Rightarrow> int \<Rightarrow> nat \<Rightarrow>
   ('a ether_st_scheme \<times> rx_result list \<times> int \<times> (ether_hdr \<times> bytes) option) option" where
  "ether_receive s rx frame handle bsize = do {
     (s, eth) \<leftarrow> ether_handle2eth s handle;
     case eth of
       None \<Rightarrow> Some (s, rx, -1, None)
     | Some eth \<Rightarrow> do {
         (res, rx) \<leftarrow> ether_rx (el_mac eth) frame rx;
         case res of
           Inr e \<Rightarrow>
             (let s = s\<lparr>io_errno := e\<rparr>
              in if e = EAGAIN \<or> e = EINPROGRESS then Some (s, rx, 0, None)
                 else Some (s, rx, -1, None))
         | Inl (len, frame) \<Rightarrow> do {
             let hdr = \<lparr>h_dst = take 6 frame, h_src = take 6 (drop 6 frame),
                        h_proto = ntohs (le16 (frame ! 12) (frame ! 13))\<rparr>;
             let retval = len - int ETHER_HEADER_LEN;
             let n = (if retval < 0 then bsize else min (nat retval) bsize);
             data \<leftarrow> read_at frame ETHER_HEADER_LEN n;
             Some (s, rx, retval, Some (hdr, data))
           }
       }
   }"

section \<open>Dispatch\<close>

text \<open>
  The handlers of a linker set, in link order: a protocol number and the handler, which
  may change the state and the payload in place.
\<close>

type_synonym ('s, 'h) handler = "'s \<Rightarrow> 'h \<Rightarrow> bytes \<Rightarrow> nat \<Rightarrow> ('s \<times> bytes \<times> int) option"

definition ether_input ::
  "(u16 \<times> ('a io_st_scheme, ether_hdr) handler) list \<Rightarrow>
   'a io_st_scheme \<Rightarrow> ether_hdr \<Rightarrow> bytes \<Rightarrow> nat \<Rightarrow> ('a io_st_scheme \<times> bytes \<times> int) option" where
  "ether_input handlers s hdr payload bsize =
     (case find (\<lambda>(proto_id, fn). proto_id = h_proto hdr) handlers of
        Some (proto_id, fn) \<Rightarrow> do {
          (s, payload, retval) \<leftarrow> fn s hdr payload bsize;
          if retval < 0 then Some (s\<lparr>io_errno := - retval\<rparr>, payload, -1)
          else Some (s, payload, retval)
        }
      | None \<Rightarrow> Some (s\<lparr>io_errno := EPROTONOSUPPORT\<rparr>, payload, -1))"

definition ether_output_reply ::
  "os_sendto \<Rightarrow> 'a ether_st_scheme \<Rightarrow> int \<Rightarrow> ether_hdr \<Rightarrow> bytes \<Rightarrow> nat \<Rightarrow>
   ('a ether_st_scheme \<times> int) option" where
  "ether_output_reply sendto s handle hdr payload bsize = do {
     (s, retval) \<leftarrow> ether_send sendto s handle (h_src hdr) (h_proto hdr) payload bsize;
     if retval < 0 then Some (s\<lparr>io_errno := - retval\<rparr>, -1) else Some (s, retval)
   }"

section \<open>Properties\<close>

lemma frame_size_small: "n \<le> ETHER_DATA_LEN \<Longrightarrow> frame_size n = 18 + max n 56"
  by (simp add: frame_size_def)

lemma frame_size_large: "frame_size n > 1518 \<longleftrightarrow> 1500 < n mod 2 ^ 32"
  by (auto simp: frame_size_def max_def)

lemma length_ether_frame:
  assumes "length dst = 6" and "length src = 6" and "length data \<le> ETHER_DATA_LEN"
  shows "length (ether_frame dst src proto data) = 18 + max (length data) 56"
  using assms by (simp add: ether_frame_def Let_def frame_size_small)

lemma ether_frame_fcs: "ether_fcs (ether_frame dst src proto data) = crc_residue"
  by (simp only: ether_frame_def Let_def ether_fcs_residue)

text \<open>The fields of a frame, whatever follows the data.\<close>

lemma ether_frame_split:
  assumes "length data \<le> ETHER_DATA_LEN"
  obtains pad where "ether_frame dst src proto data = dst @ src @ bytes16 (htons proto) @ data @ pad"
    "length pad = 4 + (56 - length data)"
proof -
  have "ether_frame dst src proto data = dst @ src @ bytes16 (htons proto) @ data @
      (replicate (max (length data) 56 - length data) 0 @ bytes32 (ether_fcs (dst @ src @
        bytes16 (htons proto) @ data @ replicate (max (length data) 56 - length data) 0)))"
    using assms by (simp add: ether_frame_def Let_def frame_size_small)
  then show thesis by (rule that) (simp add: max_def)
qed

lemma ether_send_ok:
  assumes "ether_if s = [eth]" and "bsize \<le> ETHER_DATA_LEN" and "bsize \<le> length buf"
  shows "ether_send sendto s 0 dst proto buf bsize =
    (let frame = ether_frame dst (el_mac eth) proto (take bsize buf);
         (ret, err) = sendto (io_tx s) (el_fd eth) frame;
         s' = s\<lparr>io_tx := io_tx s @ [(el_fd eth, frame)]\<rparr>
     in if ret < 0 then Some (s'\<lparr>io_errno := err\<rparr>, - err) else Some (s', ret))"
proof -
  have "\<not> frame_size bsize > 1518" using assms(2) unfolding frame_size_large by simp
  moreover have "14 + bsize + 4 \<le> frame_size bsize" using assms(2) by (simp add: frame_size_small)
  ultimately show ?thesis
    using assms(1,3)
    by (simp add: ether_send_def ether_handle2eth_def read_at_def Let_def split: prod.splits)
qed

lemma ether_receive_frame:
  assumes "ether_if s = [eth]" and "length dst = 6" and "length src = 6" and "src \<noteq> el_mac eth"
    and "length data \<le> ETHER_DATA_LEN" and "length frame = ETHER_MAXLEN"
    and "ETHER_DATA_LEN \<le> bsize"
  shows "\<exists>payload. ether_receive s (RxFrame (ether_frame dst src proto data) # rx) frame 0 bsize =
      Some (s, rx, int (length payload), Some (\<lparr>h_dst = dst, h_src = src, h_proto = proto\<rparr>, payload)) \<and>
    take (length data) payload = data \<and> length payload \<ge> 56 \<and> length payload \<le> ETHER_DATA_LEN"
proof -
  obtain pad where pad: "ether_frame dst src proto data =
      dst @ src @ bytes16 (htons proto) @ data @ pad" "length pad = 4 + (56 - length data)"
    using assms(5) by (rule ether_frame_split)
  define body where "body = take 1500 (data @ pad)"
  let ?f = "dst @ src @ bytes16 (htons proto) @ body"
  have f: "take 1514 (ether_frame dst src proto data) = ?f"
    using assms(2,3) unfolding pad(1) body_def by (simp add: bytes16_def)
  have body: "take (length data) body = data" "length body \<ge> 56" "length body \<le> 1500"
    using assms(5) pad(2) by (auto simp: body_def)
  have rx: "ether_rx (el_mac eth) frame (RxFrame (ether_frame dst src proto data) # rx) =
      Some (Inl (int (length ?f), ?f @ drop (length ?f) frame), rx)"
    using assms(2-4) by (simp add: f Let_def)
  have "ether_receive s (RxFrame (ether_frame dst src proto data) # rx) frame 0 bsize =
      Some (s, rx, int (length body), Some (\<lparr>h_dst = dst, h_src = src, h_proto = proto\<rparr>, body))"
    using assms(1-3,6,7) body(3)
    by (simp add: ether_receive_def ether_handle2eth_def rx Let_def read_at_def nth_append
        bytes16_def del: ether_rx.simps)
  with body show ?thesis by blast
qed

text \<open>
  C9: What \<^verbatim>\<open>ether_send\<close> hands to the system is one frame of 74 to 1518 bytes whose check
  sequence is right, and a station with another hardware address that receives the frame
  with \<^verbatim>\<open>ether_receive\<close> gets the sender's address, the protocol number and a payload that
  starts with the data sent.
\<close>

theorem ether_link_roundtrip:
  assumes "ether_if s = [eth]" and "ether_if r = [eth']"
    and "length (el_mac eth) = 6" and "length dst = 6" and "el_mac eth \<noteq> el_mac eth'"
    and "bsize \<le> ETHER_DATA_LEN" and "bsize \<le> length buf" and "length fb = ETHER_MAXLEN"
    and "\<And>tx fd f. fst (sendto tx fd f) = int (length f)"
  shows "\<exists>s' frame payload.
    ether_send sendto s 0 dst proto buf bsize = Some (s', int (length frame)) \<and>
    io_tx s' = io_tx s @ [(el_fd eth, frame)] \<and>
    74 \<le> length frame \<and> length frame \<le> 1518 \<and> ether_fcs frame = crc_residue \<and>
    ether_receive r (RxFrame frame # rx) fb 0 ETHER_MAXLEN =
      Some (r, rx, int (length payload),
        Some (\<lparr>h_dst = dst, h_src = el_mac eth, h_proto = proto\<rparr>, payload)) \<and>
    take bsize payload = take bsize buf"
proof -
  let ?data = "take bsize buf"
  let ?f = "ether_frame dst (el_mac eth) proto ?data"
  have len: "length ?data = bsize" using assms(7) by simp
  have "ether_send sendto s 0 dst proto buf bsize =
      Some (s\<lparr>io_tx := io_tx s @ [(el_fd eth, ?f)]\<rparr>, int (length ?f))"
    using assms(9) [of "io_tx s" "el_fd eth" ?f]
    by (cases "sendto (io_tx s) (el_fd eth) ?f") (simp add: ether_send_ok [OF assms(1,6,7)] Let_def)
  moreover have "length ?f = 18 + max bsize 56"
    using length_ether_frame [of dst "el_mac eth" ?data proto] assms(3,4,6) len by simp
  moreover obtain payload where "ether_receive r (RxFrame ?f # rx) fb 0 ETHER_MAXLEN =
      Some (r, rx, int (length payload),
        Some (\<lparr>h_dst = dst, h_src = el_mac eth, h_proto = proto\<rparr>, payload))"
    "take (length ?data) payload = ?data"
    using ether_receive_frame [of r eth' dst "el_mac eth" ?data fb ETHER_MAXLEN proto rx] assms len
    by auto
  ultimately show ?thesis
    using assms(6) ether_frame_fcs [of dst "el_mac eth" proto ?data] unfolding len
    by (intro exI [of _ "s\<lparr>io_tx := io_tx s @ [(el_fd eth, ?f)]\<rparr>"] exI [of _ ?f]
        exI [of _ payload]) simp
qed

definition demo_if :: ifreq where
  "demo_if = \<lparr>ifr_name = ''eth0'', ifr_ifindex = 2\<rparr>"

definition demo_eth :: "u8 \<Rightarrow> ether_st" where
  "demo_eth b = \<lparr>io_errno = 0, io_tx = [], ether_if = [\<lparr>el_fd = 3, el_mac = [2, 0, 0, 0, 0, b], el_if_idx = demo_if\<rparr>],
     ether_next_handle = 1\<rparr>"

theorem ether_link_roundtrip_witness:
  "\<exists>s' frame payload.
    ether_send (\<lambda>tx fd f. (int (length f), 0)) (demo_eth 1) 0 [2, 0, 0, 0, 0, 2] 0x0800 [7, 8, 9] 3 =
      Some (s', int (length frame)) \<and>
    ether_receive (demo_eth 2) [RxFrame frame] (replicate 1514 0) 0 1514 =
      Some (demo_eth 2, [], int (length payload),
        Some (\<lparr>h_dst = [2, 0, 0, 0, 0, 2], h_src = [2, 0, 0, 0, 0, 1], h_proto = 0x0800\<rparr>, payload)) \<and>
    take 3 payload = [7, 8, 9]"
  using ether_link_roundtrip [of "demo_eth 1" "\<lparr>el_fd = 3, el_mac = [2, 0, 0, 0, 0, 1], el_if_idx = demo_if\<rparr>" "demo_eth 2"
      "\<lparr>el_fd = 3, el_mac = [2, 0, 0, 0, 0, 2], el_if_idx = demo_if\<rparr>" "[2, 0, 0, 0, 0, 2]" 3 "[7, 8, 9]"
      "replicate 1514 0" "\<lambda>tx fd f. (int (length f), 0)" "0x0800" "[]"]
  by (simp add: demo_eth_def) blast

end
