(* ===== verification/Icmp.thy ===== *)
theory Icmp
  imports Ip_Header Ether
begin

text \<open>
  ICMP of \<^verbatim>\<open>src/icmp.c\<close>: the echo responder and the destination unreachable message. A
  message is the payload of an IP packet; \<^verbatim>\<open>icmp_generate_dest_unreachable\<close> also rewrites
  the IP header in front of it, which it gets in host order as the record \<open>ip\<close> with the
  bytes after the struct (options and payload) as \<open>rest\<close>.
\<close>

record icmp =
  icmp_type :: u8
  icmp_code :: u8
  icmp_csum :: u16
  icmp_rest :: u32

abbreviation (input) ICMP_TYPE_ECHO_REPLY :: u8 where "ICMP_TYPE_ECHO_REPLY \<equiv> 0"
abbreviation (input) ICMP_TYPE_DESTUNREAC :: u8 where "ICMP_TYPE_DESTUNREAC \<equiv> 3"
abbreviation (input) ICMP_TYPE_ECHO_REQUEST :: u8 where "ICMP_TYPE_ECHO_REQUEST \<equiv> 8"
abbreviation (input) ICMP_CODE_HOSTUNREAC :: u8 where "ICMP_CODE_HOSTUNREAC \<equiv> 1"
abbreviation (input) ICMP_CODE_PROTOUNREAC :: u8 where "ICMP_CODE_PROTOUNREAC \<equiv> 2"
abbreviation (input) ICMP_CODE_PORTUNREAC :: u8 where "ICMP_CODE_PORTUNREAC \<equiv> 3"
abbreviation (input) IP_PROTO_ICMP :: u8 where "IP_PROTO_ICMP \<equiv> 1"

definition icmp_bytes :: "icmp \<Rightarrow> bytes" where
  "icmp_bytes m = [icmp_type m, icmp_code m] @ bytes16 (icmp_csum m) @ bytes32 (icmp_rest m)"

definition icmp_at :: "bytes \<Rightarrow> icmp option" where
  "icmp_at b =
     (if 8 \<le> length b then Some
        \<lparr>icmp_type = b ! 0, icmp_code = b ! 1, icmp_csum = le16 (b ! 2) (b ! 3),
         icmp_rest = le32 (b ! 4) (b ! 5) (b ! 6) (b ! 7)\<rparr>
      else None)"

text \<open>The conversions copy three fields as they are.\<close>

definition icmp_hton :: "icmp \<Rightarrow> icmp \<Rightarrow> icmp" where
  "icmp_hton host net =
     net\<lparr>icmp_type := icmp_type host, icmp_code := icmp_code host, icmp_csum := icmp_csum host\<rparr>"

definition icmp_ntoh :: "icmp \<Rightarrow> icmp \<Rightarrow> icmp" where
  "icmp_ntoh net host =
     host\<lparr>icmp_type := icmp_type net, icmp_code := icmp_code net, icmp_csum := icmp_csum net\<rparr>"

definition icmp_input :: "('s, ip_hdr) handler" where
  "icmp_input s ip_hdr payload bsize =
     (if bsize < 8 then Some (s, payload, - EBADMSG)
      else do {
        net_msg \<leftarrow> icmp_at payload;
        let hdr = icmp_ntoh net_msg net_msg;
        if icmp_type hdr = ICMP_TYPE_ECHO_REQUEST then do {
          let net_msg = net_msg\<lparr>icmp_type := ICMP_TYPE_ECHO_REPLY, icmp_csum := 0\<rparr>;
          csum \<leftarrow> ip_checksum (icmp_bytes net_msg @ drop 8 payload) bsize;
          Some (s, icmp_bytes (net_msg\<lparr>icmp_csum := csum\<rparr>) @ drop 8 payload, int bsize)
        }
        else Some (s, payload, - ENOMSG)
      })"

text \<open>
  The message lies at the packet's payload: the ICMP header, the old IP header at offset 8,
  the start of the old payload at offset 28. The sizes are those of the structs.
\<close>

definition destunreac_at :: "ip_hdr \<Rightarrow> u8 \<Rightarrow> bytes \<Rightarrow> nat \<Rightarrow> (bytes \<times> nat) option" where
  "destunreac_at hdr code buf bsize = do {
     let bsize = min 8 (bsize mod 2 ^ 32);
     let msg_size = 36 + bsize;
     data \<leftarrow> read_at buf 0 bsize;
     buf \<leftarrow> memcpy_at buf 28 data;
     let icmp = \<lparr>icmp_type = ICMP_TYPE_DESTUNREAC, icmp_code = code, icmp_csum = 0, icmp_rest = 0\<rparr>;
     let icmp = icmp_hton icmp icmp;
     buf \<leftarrow> memcpy_at buf 0 (icmp_bytes icmp);
     csum \<leftarrow> ip_checksum buf msg_size;
     buf \<leftarrow> memcpy_at buf 0 (icmp_bytes (icmp\<lparr>icmp_csum := csum\<rparr>));
     old \<leftarrow> ip_hton hdr (drop 28 buf);
     buf \<leftarrow> memcpy_at buf 8 (ip_hdr_bytes old);
     Some (buf, msg_size)
   }"

definition icmp_generate_dest_unreachable ::
  "ip_hdr \<Rightarrow> bytes \<Rightarrow> u8 \<Rightarrow> nat \<Rightarrow> nat \<Rightarrow> (ip_hdr \<times> bytes \<times> int) option" where
  "icmp_generate_dest_unreachable ip rest code hlen bsize = do {
     (buf, msg_size) \<leftarrow> destunreac_at ip code (drop (hlen - 20) rest) bsize;
     let rest = take (hlen - 20) rest @ buf;
     let ip = ip\<lparr>ip_vhl := 0x45, ip_tos := 0, ip_proto := IP_PROTO_ICMP\<rparr>;
     (net, size) \<leftarrow> ip_reply_header ip rest msg_size;
     Some (net, rest, int (msg_size + size))
   }"

section \<open>Properties\<close>

lemma length_icmp_bytes [simp]: "length (icmp_bytes m) = 8"
  by (simp add: icmp_bytes_def)

lemma icmp_at_bytes [simp]: "icmp_at (icmp_bytes m @ data) = Some m"
  by (simp add: icmp_at_def icmp_bytes_def bytes16_def bytes32_def)

lemma icmp_at_split: "8 \<le> length b \<Longrightarrow> \<exists>m. b = icmp_bytes m @ drop 8 b"
proof -
  assume "8 \<le> length b"
  then obtain m where m: "icmp_at b = Some m" by (simp add: icmp_at_def)
  have "take 8 b = [b ! 0, b ! 1, b ! 2, b ! 3, b ! 4, b ! 5, b ! 6, b ! 7]"
    using \<open>8 \<le> length b\<close> by (intro nth_equalityI) (auto simp: less_Suc_eq numeral_eq_Suc)
  moreover have "icmp_bytes m = [b ! 0, b ! 1, b ! 2, b ! 3, b ! 4, b ! 5, b ! 6, b ! 7]"
    using m \<open>8 \<le> length b\<close> by (auto simp: icmp_at_def icmp_bytes_def bytes16_def bytes32_def)
  ultimately show ?thesis using append_take_drop_id [of 8 b] by (metis)
qed

lemma icmp_echo:
  assumes "8 + length data \<ge> bsize" and "8 \<le> bsize" and "icmp_type m = ICMP_TYPE_ECHO_REQUEST"
  obtains c where "icmp_input s hdr (icmp_bytes m @ data) bsize =
      Some (s, icmp_bytes (m\<lparr>icmp_type := ICMP_TYPE_ECHO_REPLY, icmp_csum := c\<rparr>) @ data, int bsize)"
    and "ip_checksum (icmp_bytes (m\<lparr>icmp_type := ICMP_TYPE_ECHO_REPLY, icmp_csum := c\<rparr>) @ data) bsize = Some 0"
proof -
  let ?m = "\<lambda>c. m\<lparr>icmp_type := ICMP_TYPE_ECHO_REPLY, icmp_csum := c\<rparr>"
  have b: "icmp_bytes (?m c) @ data = [0, icmp_code m] @ bytes16 c @ (bytes32 (icmp_rest m) @ data)" for c
    by (simp add: icmp_bytes_def)
  have zero: "icmp_bytes (?m 0) @ data = [0, icmp_code m] @ [0, 0] @ (bytes32 (icmp_rest m) @ data)"
    unfolding b by (simp add: bytes16_def byte_of16_def)
  obtain c where c: "ip_checksum (icmp_bytes (?m 0) @ data) bsize = Some c"
    using ip_checksum_val [of bsize "icmp_bytes (?m 0) @ data"] assms(1) by auto
  have "ip_checksum (icmp_bytes (?m c) @ data) bsize = Some 0"
    unfolding b by (rule ip_checksum_insert) (use c assms(1,2) in \<open>simp_all add: zero\<close>)
  then show thesis
    using that [of c] assms c by (simp add: icmp_input_def icmp_ntoh_def)
qed

text \<open>
  \<^verbatim>\<open>icmp_input\<close> answers an echo request in place: the type becomes that of a reply, the
  identifier, sequence number and data stay, the checksum of the message is right, and the
  result is the size of the message.
\<close>

theorem icmp_echo_reply:
  assumes "8 \<le> bsize" and "bsize \<le> length payload" and "icmp_at payload = Some m"
    and "icmp_type m = ICMP_TYPE_ECHO_REQUEST"
  shows "\<exists>payload' c. icmp_input s hdr payload bsize = Some (s, payload', int bsize) \<and>
    icmp_at payload' = Some (m\<lparr>icmp_type := ICMP_TYPE_ECHO_REPLY, icmp_csum := c\<rparr>) \<and>
    drop 8 payload' = drop 8 payload \<and> length payload' = length payload \<and>
    ip_checksum payload' bsize = Some 0"
proof -
  have "8 \<le> length payload" using assms(1,2) by simp
  then obtain m' where "payload = icmp_bytes m' @ drop 8 payload" using icmp_at_split by blast
  with assms(3) have p: "payload = icmp_bytes m @ drop 8 payload" by (metis icmp_at_bytes option.inject)
  have "bsize \<le> 8 + length (drop 8 payload)" using assms(1,2) by simp
  then obtain c where c:
    "icmp_input s hdr (icmp_bytes m @ drop 8 payload) bsize =
      Some (s, icmp_bytes (m\<lparr>icmp_type := ICMP_TYPE_ECHO_REPLY, icmp_csum := c\<rparr>) @ drop 8 payload, int bsize)"
    "ip_checksum (icmp_bytes (m\<lparr>icmp_type := ICMP_TYPE_ECHO_REPLY, icmp_csum := c\<rparr>) @ drop 8 payload) bsize = Some 0"
    using assms(1,4) by (rule icmp_echo)
  show ?thesis
    using c p \<open>8 \<le> length payload\<close>
    by (intro exI [of _ "icmp_bytes (m\<lparr>icmp_type := ICMP_TYPE_ECHO_REPLY, icmp_csum := c\<rparr>) @ drop 8 payload"]
        exI [of _ c]) simp
qed

definition demo_ping :: bytes where
  "demo_ping = [8, 0, 0, 0, 0, 1, 0, 7, 1, 2, 3]"

theorem icmp_echo_reply_witness:
  "\<exists>payload'. icmp_input () demo_ip demo_ping 11 = Some ((), payload', 11) \<and>
    drop 8 payload' = [1, 2, 3] \<and> ip_checksum payload' 11 = Some 0"
  using icmp_echo_reply [of 11 demo_ping "\<lparr>icmp_type = 8, icmp_code = 0, icmp_csum = 0, icmp_rest = le32 0 1 0 7\<rparr>"
      "()" demo_ip]
  by (auto simp: demo_ping_def icmp_at_def le16_def)

section \<open>Destination unreachable\<close>

lemma memcpy_at_mid: "length a = i \<Longrightarrow> length b = length xs \<Longrightarrow> memcpy_at (a @ b @ c) i xs = Some (a @ xs @ c)"
  by (simp add: memcpy_at_def)

lemma cut3:
  assumes "i + j \<le> length xs"
  shows "xs = take i xs @ take j (drop i xs) @ drop (i + j) xs"
  by (metis add.commute append_take_drop_id drop_drop)

lemma destunreac_ok:
  assumes "ip_hdr_hlen ip = 20" and n: "n = min 8 (bsize mod 2 ^ 32)" and "36 + n \<le> length buf"
  obtains c old where "destunreac_at ip code buf bsize =
      Some (icmp_bytes \<lparr>icmp_type = ICMP_TYPE_DESTUNREAC, icmp_code = code, icmp_csum = c, icmp_rest = 0\<rparr> @
        ip_hdr_bytes old @ take n buf @ drop (28 + n) buf, 36 + n)"
    and "fst (ip_ntoh old) = ip\<lparr>ip_csum := ip_csum old\<rparr>"
proof -
  let ?i = "\<lambda>c. icmp_bytes \<lparr>icmp_type = ICMP_TYPE_DESTUNREAC, icmp_code = code, icmp_csum = c, icmp_rest = 0\<rparr>"
  define b0 b1 b2 b3 where b: "b0 = take 8 buf" "b1 = take 20 (drop 8 buf)" "b2 = take n (drop 28 buf)"
    "b3 = drop (28 + n) buf"
  have buf: "buf = b0 @ b1 @ b2 @ b3"
    using cut3 [of 8 20 buf] cut3 [of 0 n "drop 28 buf"] assms(3) by (simp add: b add.commute)
  have len: "length b0 = 8" "length b1 = 20" "length b2 = n" "length (b0 @ b1) = 28"
    using assms(3) by (auto simp: b)
  let ?d = "take n buf"
  have d: "length ?d = n" using assms(3) by simp
  have 1: "memcpy_at buf 28 ?d = Some (b0 @ b1 @ ?d @ b3)"
    using memcpy_at_mid [of "b0 @ b1" 28 b2 ?d b3] len d by (simp add: buf [symmetric])
  have 2: "memcpy_at (b0 @ b1 @ ?d @ b3) 0 (?i 0) = Some (?i 0 @ b1 @ ?d @ b3)"
    using memcpy_at_mid [of "[]" 0 b0 "?i 0"] len by simp
  obtain c where c: "ip_checksum (?i 0 @ b1 @ ?d @ b3) (36 + n) = Some c"
    using ip_checksum_val [of "36 + n" "?i 0 @ b1 @ ?d @ b3"] len d assms(3) by (auto simp: b)
  have 3: "memcpy_at (?i 0 @ b1 @ ?d @ b3) 0 (?i c) = Some (?i c @ b1 @ ?d @ b3)"
    using memcpy_at_mid [of "[]" 0 "?i 0" "?i c"] by simp
  have "drop 28 (?i c @ b1 @ ?d @ b3) = ?d @ b3" using len by simp
  obtain old where old: "ip_hton ip (?d @ b3) = Some old" "fst (ip_ntoh old) = ip\<lparr>ip_csum := ip_csum old\<rparr>"
    using ip_hton_ok [of ip "?d @ b3"] assms(1) by auto
  have 4: "memcpy_at (?i c @ b1 @ ?d @ b3) 8 (ip_hdr_bytes old) = Some (?i c @ ip_hdr_bytes old @ ?d @ b3)"
    using memcpy_at_mid [of "?i c" 8 b1 "ip_hdr_bytes old"] len by simp
  have "destunreac_at ip code buf bsize = Some (?i c @ ip_hdr_bytes old @ ?d @ b3, 36 + n)"
    using 1 2 3 4 c old(1) \<open>drop 28 _ = _\<close> assms(3)
    unfolding destunreac_at_def n [symmetric] Let_def
    by (simp add: read_at_def icmp_hton_def del: take_append drop_append)
  then show thesis using that old(2) by (simp add: b)
qed

text \<open>
  C25: The destination unreachable message for a packet with a plain header. The header of the
  packet is turned around and says that the packet has 56 bytes and the first \<open>n \<le> 8\<close> of the
  old payload; the message quotes the old header and those \<open>n\<close> bytes. The size returned,
  which is how much is sent, counts the message twice.
\<close>

theorem dest_unreachable_message:
  assumes "ip_hdr_hlen ip = 20" and n: "n = min 8 (bsize mod 2 ^ 32)" and "36 + n \<le> length rest"
  shows "\<exists>net rest' m old. icmp_generate_dest_unreachable ip rest code 20 bsize = Some (net, rest', int (92 + 2 * n)) \<and>
    ip_checksum (ip_hdr_bytes net @ rest') 20 = Some 0 \<and> unat (ip_len (fst (ip_ntoh net))) = 56 + n \<and>
    ip_src (fst (ip_ntoh net)) = ip_dst ip \<and> ip_dst (fst (ip_ntoh net)) = ip_src ip \<and>
    icmp_at rest' = Some m \<and> icmp_type m = ICMP_TYPE_DESTUNREAC \<and> icmp_code m = code \<and>
    ip_hdr_at (drop 8 rest') = Some old \<and> fst (ip_ntoh old) = ip\<lparr>ip_csum := ip_csum old\<rparr> \<and>
    take n (drop 28 rest') = take n rest"
proof -
  obtain c old where u: "destunreac_at ip code rest bsize =
      Some (icmp_bytes \<lparr>icmp_type = ICMP_TYPE_DESTUNREAC, icmp_code = code, icmp_csum = c, icmp_rest = 0\<rparr> @
        ip_hdr_bytes old @ take n rest @ drop (28 + n) rest, 36 + n)"
    and old: "fst (ip_ntoh old) = ip\<lparr>ip_csum := ip_csum old\<rparr>"
    by (rule destunreac_ok [OF assms])
  let ?m = "\<lparr>icmp_type = ICMP_TYPE_DESTUNREAC, icmp_code = code, icmp_csum = c, icmp_rest = 0\<rparr>"
  let ?r = "icmp_bytes ?m @ ip_hdr_bytes old @ take n rest @ drop (28 + n) rest"
  let ?ip = "ip\<lparr>ip_vhl := 0x45, ip_tos := 0, ip_proto := IP_PROTO_ICMP\<rparr>"
  have hl: "ip_hdr_hlen ?ip = 20" by (simp add: ip_hdr_hlen_def)
  obtain net where net: "ip_reply_header ?ip ?r (36 + n) = Some (net, 56 + n)"
    "ip_checksum (ip_hdr_bytes net @ ?r) (ip_hdr_hlen net) = Some 0"
    "fst (ip_ntoh net) = ?ip\<lparr>ip_src := ip_dst ip, ip_dst := ip_src ip, ip_ttl := 64,
      ip_len := of_nat (56 + n), ip_csum := ip_csum net\<rparr>"
    using ip_reply_header_ok [of ?ip ?r "36 + n"] hl by (auto simp: add.commute)
  have "ip_hdr_hlen net = 20"
    using arg_cong [OF net(3), of ip_hdr_hlen] by (simp add: ip_ntoh_def Let_def ip_hdr_hlen_def)
  moreover have "unat (of_nat (56 + n) :: u16) = 56 + n" using n by (simp add: unat_of_nat del: of_nat_add)
  moreover have "icmp_generate_dest_unreachable ip rest code 20 bsize = Some (net, ?r, int (92 + 2 * n))"
    using u net(1) by (simp add: icmp_generate_dest_unreachable_def)
  ultimately show ?thesis using net old assms(3)
    by (intro exI [of _ net] exI [of _ ?r] exI [of _ ?m] exI [of _ old] conjI) simp_all
qed

theorem dest_unreachable_message_witness:
  "\<exists>net rest'. icmp_generate_dest_unreachable demo_ip (replicate 60 7) 1 20 40 = Some (net, rest', 108) \<and>
    unat (ip_len (fst (ip_ntoh net))) = 64 \<and> take 8 (drop 28 rest') = replicate 8 7"
proof -
  have "ip_hdr_hlen demo_ip = 20" by (simp add: demo_ip_def ip_hdr_hlen_def)
  from dest_unreachable_message [OF this, of 8 40 "replicate 60 7" 1] show ?thesis by auto
qed

end
