(* ===== verification/Ip_Route.thy ===== *)
theory Ip_Route
  imports Ether Slist Rb_Index
begin

text \<open>
  The routing table of \<^verbatim>\<open>src/ip_route.c\<close>: an array of five entries, a free list, and two
  red-black trees over the entries in use, by network and by interface address. The array
  index is the address of an entry in the trees and in the free list; each tree and the
  list has links of its own in the C struct, so each has a store of its own here.
\<close>

record ip_route =
  r_network :: in_addr_t
  r_netmask :: in_addr_t
  r_gw :: in_addr_t
  r_iface :: in_addr_t
  r_iface_handle :: int

record route_st = ether_st +
  rib :: "nat \<Rightarrow> ip_route"
  rib_routetree :: rb_head
  rib_sourcetree :: rb_head
  rib_freelist :: slist

abbreviation (input) NSTACK_IP_RIB_SIZE :: nat where "NSTACK_IP_RIB_SIZE \<equiv> 5"

definition zero_route :: ip_route where
  "zero_route = \<lparr>r_network = 0, r_netmask = 0, r_gw = 0, r_iface = 0, r_iface_handle = 0\<rparr>"

text \<open>The unsigned difference of two addresses, returned as a signed \<^verbatim>\<open>int\<close>.\<close>

definition route_network_cmp :: "ip_route \<Rightarrow> ip_route \<Rightarrow> int" where
  "route_network_cmp a b = sint (r_network a - r_network b)"

definition route_iface_cmp :: "ip_route \<Rightarrow> ip_route \<Rightarrow> int" where
  "route_iface_cmp a b = sint (r_iface a - r_iface b)"

text \<open>\<^verbatim>\<open>SLIST_REMOVE_HEAD\<close> reads the first element before the caller tests it.\<close>

definition ip_route_entry_alloc ::
  "'a route_st_scheme \<Rightarrow> ('a route_st_scheme \<times> nat option) option" where
  "ip_route_entry_alloc s = do {
     let entry = SLIST_FIRST (rib_freelist s);
     l \<leftarrow> SLIST_REMOVE_HEAD (rib_freelist s);
     Some (s\<lparr>rib_freelist := l\<rparr>, entry)
   }"

definition ip_route_entry_free :: "'a route_st_scheme \<Rightarrow> nat \<Rightarrow> 'a route_st_scheme" where
  "ip_route_entry_free s entry = s\<lparr>rib_freelist := SLIST_INSERT_HEAD (rib_freelist s) entry\<rparr>"

definition ip_route_tree_insert ::
  "'a route_st_scheme \<Rightarrow> nat \<Rightarrow> 'a route_st_scheme option" where
  "ip_route_tree_insert s entry = do {
     (t, _) \<leftarrow> RB_INSERT (\<lambda>a. route_network_cmp (rib s entry) (rib s a)) (rib_routetree s) entry;
     let s = s\<lparr>rib_routetree := t\<rparr>;
     (t, _) \<leftarrow> RB_INSERT (\<lambda>a. route_iface_cmp (rib s entry) (rib s a)) (rib_sourcetree s) entry;
     Some (s\<lparr>rib_sourcetree := t\<rparr>)
   }"

definition ip_route_tree_remove ::
  "'a route_st_scheme \<Rightarrow> nat \<Rightarrow> 'a route_st_scheme option" where
  "ip_route_tree_remove s entry = do {
     t \<leftarrow> RB_REMOVE (rib_routetree s) (Some entry);
     let s = s\<lparr>rib_routetree := t\<rparr>;
     t \<leftarrow> RB_REMOVE (rib_sourcetree s) (Some entry);
     Some (s\<lparr>rib_sourcetree := t\<rparr>)
   }"

definition ip_route_add ::
  "'a route_st_scheme \<Rightarrow> ip_route \<Rightarrow> ('a route_st_scheme \<times> int) option" where
  "ip_route_add s route = do {
     (s, entry) \<leftarrow> ip_route_entry_alloc s;
     case entry of
       None \<Rightarrow> Some (s\<lparr>io_errno := ENOMEM\<rparr>, -1)
     | Some entry \<Rightarrow> do {
         let s = s\<lparr>rib := (rib s)(entry := route)\<rparr>;
         s \<leftarrow> ip_route_tree_insert s entry;
         Some (s, 0)
       }
   }"

definition ip_route_update ::
  "'a route_st_scheme \<Rightarrow> ip_route \<Rightarrow> ('a route_st_scheme \<times> int) option" where
  "ip_route_update s route = do {
     entry \<leftarrow> RB_FIND (\<lambda>a. route_network_cmp route (rib s a)) (rib_routetree s);
     case entry of
       Some entry \<Rightarrow> do {
         s \<leftarrow> ip_route_tree_remove s entry;
         let s = s\<lparr>rib := (rib s)(entry := route)\<rparr>;
         s \<leftarrow> ip_route_tree_insert s entry;
         Some (s, 0)
       }
     | None \<Rightarrow> do {
         (s, r) \<leftarrow> ip_route_add s route;
         if r \<noteq> 0 then Some (s, -1) else Some (s, 0)
       }
   }"

text \<open>\<^verbatim>\<open>memset(entry, 0, sizeof(struct ip_route_entry))\<close> clears the route and all links.\<close>

definition ip_route_clear :: "'a route_st_scheme \<Rightarrow> nat \<Rightarrow> 'a route_st_scheme" where
  "ip_route_clear s entry =
     s\<lparr>rib := (rib s)(entry := zero_route),
       rib_routetree := rib_routetree s\<lparr>rb_links := (rb_links (rib_routetree s))(entry := rb_zero)\<rparr>,
       rib_sourcetree := rib_sourcetree s\<lparr>rb_links := (rb_links (rib_sourcetree s))(entry := rb_zero)\<rparr>,
       rib_freelist := rib_freelist s\<lparr>sle_next := (sle_next (rib_freelist s))(entry := None)\<rparr>\<rparr>"

definition ip_route_remove ::
  "'a route_st_scheme \<Rightarrow> ip_route \<Rightarrow> ('a route_st_scheme \<times> int) option" where
  "ip_route_remove s route = do {
     entry \<leftarrow> RB_FIND (\<lambda>a. route_network_cmp route (rib s a)) (rib_routetree s);
     case entry of
       None \<Rightarrow> Some (s\<lparr>io_errno := ENOENT\<rparr>, -1)
     | Some entry \<Rightarrow> do {
         s \<leftarrow> ip_route_tree_remove s entry;
         Some (ip_route_entry_free (ip_route_clear s entry) entry, 0)
       }
   }"

text \<open>The search with network masks: the first entry in tree order that matches.\<close>

definition route_matches :: "in_addr_t \<Rightarrow> ip_route \<Rightarrow> bool" where
  "route_matches addr r \<longleftrightarrow> r_network r = (addr AND r_netmask r)"

partial_function (option) route_match_from ::
  "rb_head \<Rightarrow> (nat \<Rightarrow> bool) \<Rightarrow> nat option \<Rightarrow> nat option option" where
  "route_match_from t matches entry =
     (case entry of
        None \<Rightarrow> Some None
      | Some a \<Rightarrow>
          (if matches a then Some (Some a)
           else do {
             n \<leftarrow> RB_NEXT t a;
             route_match_from t matches n
           }))"

text \<open>The result is the return value and, on success, the route copied out.\<close>

definition ip_route_find_by_network ::
  "'a route_st_scheme \<Rightarrow> in_addr_t \<Rightarrow> ('a route_st_scheme \<times> int \<times> ip_route option) option" where
  "ip_route_find_by_network s addr = do {
     entry \<leftarrow> RB_FIND (\<lambda>a. route_network_cmp (zero_route\<lparr>r_network := addr\<rparr>) (rib s a))
       (rib_routetree s);
     entry \<leftarrow> (if entry \<noteq> None then Some entry
       else do {
         first \<leftarrow> RB_MIN (rib_routetree s);
         entry \<leftarrow> route_match_from (rib_routetree s) (\<lambda>a. route_matches addr (rib s a)) first;
         if entry \<noteq> None then Some entry
         else RB_FIND (\<lambda>a. route_network_cmp zero_route (rib s a)) (rib_routetree s)
       });
     case entry of
       None \<Rightarrow> Some (s\<lparr>io_errno := ENOENT\<rparr>, -1, None)
     | Some a \<Rightarrow> Some (s, 0, Some (rib s a))
   }"

definition ip_route_find_by_iface ::
  "'a route_st_scheme \<Rightarrow> in_addr_t \<Rightarrow> ('a route_st_scheme \<times> int \<times> ip_route option) option" where
  "ip_route_find_by_iface s addr = do {
     entry \<leftarrow> RB_FIND (\<lambda>a. route_iface_cmp (zero_route\<lparr>r_iface := addr\<rparr>) (rib s a))
       (rib_sourcetree s);
     case entry of
       None \<Rightarrow> Some (s\<lparr>io_errno := ENOENT\<rparr>, -1, None)
     | Some a \<Rightarrow> Some (s, 0, Some (rib s a))
   }"

definition ip_route_init :: "'a route_st_scheme \<Rightarrow> 'a route_st_scheme" where
  "ip_route_init s =
     (let s = s\<lparr>rib_routetree := RB_INIT (rib_routetree s),
                rib_sourcetree := RB_INIT (rib_sourcetree s),
                rib_freelist := SLIST_INIT (rib_freelist s)\<rparr>
      in foldl (\<lambda>s i. s\<lparr>rib_freelist := SLIST_INSERT_HEAD (rib_freelist s) i\<rparr>) s
           [0..<NSTACK_IP_RIB_SIZE])"

section \<open>The table of routes\<close>

definition route_trees :: "u32 \<Rightarrow> u32 \<Rightarrow> 'a route_st_scheme \<Rightarrow> nat set \<Rightarrow> bool" where
  "route_trees bn bi s A \<longleftrightarrow>
     rbi.keyed (\<lambda>a. window_key bn (r_network (rib s a))) (rib_routetree s) A \<and>
     rbi.keyed (\<lambda>a. window_key bi (r_iface (rib s a))) (rib_sourcetree s) A \<and>
     (\<forall>a\<in>A. in_window bn (r_network (rib s a)) \<and> in_window bi (r_iface (rib s a)))"

definition route_free :: "'a route_st_scheme \<Rightarrow> nat set \<Rightarrow> bool" where
  "route_free s F \<longleftrightarrow> (\<exists>xs. sl_holds (rib_freelist s) xs \<and> set xs = F)"

definition route_table :: "u32 \<Rightarrow> u32 \<Rightarrow> 'a route_st_scheme \<Rightarrow> ip_route set \<Rightarrow> bool" where
  "route_table bn bi s R \<longleftrightarrow> (\<exists>A. A \<subseteq> {..<NSTACK_IP_RIB_SIZE} \<and> route_trees bn bi s A \<and>
     route_free s ({..<NSTACK_IP_RIB_SIZE} - A) \<and> R = rib s ` A)"

text \<open>The rest of the state is left alone.\<close>

definition route_frame :: "'a route_st_scheme \<Rightarrow> 'a route_st_scheme \<Rightarrow> bool" where
  "route_frame s s' \<longleftrightarrow> s' = s\<lparr>rib := rib s', rib_routetree := rib_routetree s',
     rib_sourcetree := rib_sourcetree s', rib_freelist := rib_freelist s'\<rparr>"

lemma route_frame_fields:
  assumes "route_frame s s'"
  shows "ether_if s' = ether_if s" "io_tx s' = io_tx s" "io_errno s' = io_errno s"
    "route_st.more s' = route_st.more s"
  using assms [unfolded route_frame_def, THEN arg_cong, of ether_if]
    assms [unfolded route_frame_def, THEN arg_cong, of io_tx]
    assms [unfolded route_frame_def, THEN arg_cong, of io_errno]
    assms [unfolded route_frame_def, THEN arg_cong, of route_st.more]
  by simp_all

lemma sint_zero_iff: "sint (x - y :: u32) = 0 \<longleftrightarrow> x = y"
  by (simp add: signed_eq_0_iff)

lemma route_trees_by_key:
  assumes "route_trees bn bi s A"
  shows "in_window bn x \<Longrightarrow>
      by_key (window_key bn x) (\<lambda>a. window_key bn (r_network (rib s a))) (\<lambda>a. sint (x - r_network (rib s a))) A"
    and "in_window bi x \<Longrightarrow>
      by_key (window_key bi x) (\<lambda>a. window_key bi (r_iface (rib s a))) (\<lambda>a. sint (x - r_iface (rib s a))) A"
  using assms by (auto simp: route_trees_def intro!: by_key_window)

lemma route_trees_inj:
  assumes "route_trees bn bi s A" and "a \<in> A" and "b \<in> A"
  shows "r_network (rib s a) = r_network (rib s b) \<Longrightarrow> a = b"
    and "r_iface (rib s a) = r_iface (rib s b) \<Longrightarrow> a = b"
  using assms rbi.keyed_inj [of "\<lambda>a. window_key bn (r_network (rib s a))" "rib_routetree s" A a b]
    rbi.keyed_inj [of "\<lambda>a. window_key bi (r_iface (rib s a))" "rib_sourcetree s" A a b]
  by (auto simp: route_trees_def)

lemma route_find_network:
  assumes "route_trees bn bi s A"
  shows "a \<in> A \<Longrightarrow> r_network (rib s a) = r_network route \<Longrightarrow>
      RB_FIND (\<lambda>a. route_network_cmp route (rib s a)) (rib_routetree s) = Some (Some a)"
    and "(\<And>a. a \<in> A \<Longrightarrow> r_network (rib s a) \<noteq> r_network route) \<Longrightarrow>
      RB_FIND (\<lambda>a. route_network_cmp route (rib s a)) (rib_routetree s) = Some None"
proof -
  show "RB_FIND (\<lambda>a. route_network_cmp route (rib s a)) (rib_routetree s) = Some (Some a)"
    if "a \<in> A" "r_network (rib s a) = r_network route"
  proof -
    have "in_window bn (r_network route)" using assms that by (auto simp: route_trees_def)
    from route_trees_by_key(1) [OF assms this] that assms show ?thesis
      unfolding route_network_cmp_def route_trees_def by (intro rbi.find_hit) auto
  qed
  show "RB_FIND (\<lambda>a. route_network_cmp route (rib s a)) (rib_routetree s) = Some None"
    if "\<And>a. a \<in> A \<Longrightarrow> r_network (rib s a) \<noteq> r_network route"
    using assms that [THEN not_sym] unfolding route_network_cmp_def route_trees_def
    by (intro rbi.find_miss) (auto simp: sint_zero_iff)
qed

lemma route_find_iface:
  assumes "route_trees bn bi s A"
  shows "a \<in> A \<Longrightarrow> r_iface (rib s a) = r_iface route \<Longrightarrow>
      RB_FIND (\<lambda>a. route_iface_cmp route (rib s a)) (rib_sourcetree s) = Some (Some a)"
    and "(\<And>a. a \<in> A \<Longrightarrow> r_iface (rib s a) \<noteq> r_iface route) \<Longrightarrow>
      RB_FIND (\<lambda>a. route_iface_cmp route (rib s a)) (rib_sourcetree s) = Some None"
proof -
  show "RB_FIND (\<lambda>a. route_iface_cmp route (rib s a)) (rib_sourcetree s) = Some (Some a)"
    if "a \<in> A" "r_iface (rib s a) = r_iface route"
  proof -
    have "in_window bi (r_iface route)" using assms that by (auto simp: route_trees_def)
    from route_trees_by_key(2) [OF assms this] that assms show ?thesis
      unfolding route_iface_cmp_def route_trees_def by (intro rbi.find_hit) auto
  qed
  show "RB_FIND (\<lambda>a. route_iface_cmp route (rib s a)) (rib_sourcetree s) = Some None"
    if "\<And>a. a \<in> A \<Longrightarrow> r_iface (rib s a) \<noteq> r_iface route"
    using assms that [THEN not_sym] unfolding route_iface_cmp_def route_trees_def
    by (intro rbi.find_miss) (auto simp: sint_zero_iff)
qed

lemma ip_route_tree_remove_ok:
  assumes "route_trees bn bi s A" and "a \<in> A"
  shows "\<exists>t u. ip_route_tree_remove s a = Some (s\<lparr>rib_routetree := t, rib_sourcetree := u\<rparr>) \<and>
    route_trees bn bi (s\<lparr>rib_routetree := t, rib_sourcetree := u\<rparr>) (A - {a})"
  using assms(1) rbi.remove_key [OF _ assms(2), of _ "rib_routetree s"]
    rbi.remove_key [OF _ assms(2), of _ "rib_sourcetree s"]
  unfolding route_trees_def ip_route_tree_remove_def by fastforce

lemma ip_route_tree_insert_ok:
  assumes "route_trees bn bi s A" and "a \<notin> A"
    and "in_window bn (r_network (rib s a))" and "in_window bi (r_iface (rib s a))"
    and "\<And>b. b \<in> A \<Longrightarrow> r_network (rib s b) \<noteq> r_network (rib s a)"
    and "\<And>b. b \<in> A \<Longrightarrow> r_iface (rib s b) \<noteq> r_iface (rib s a)"
  shows "\<exists>t u. ip_route_tree_insert s a = Some (s\<lparr>rib_routetree := t, rib_sourcetree := u\<rparr>) \<and>
    route_trees bn bi (s\<lparr>rib_routetree := t, rib_sourcetree := u\<rparr>) (A \<union> {a})"
proof -
  have k: "rbi.keyed (\<lambda>a. window_key bn (r_network (rib s a))) (rib_routetree s) A"
    "rbi.keyed (\<lambda>a. window_key bi (r_iface (rib s a))) (rib_sourcetree s) A"
    using assms(1) by (simp_all add: route_trees_def)
  obtain t where t: "RB_INSERT (\<lambda>b. sint (r_network (rib s a) - r_network (rib s b))) (rib_routetree s) a =
      Some (t, None)" "rbi.keyed (\<lambda>a. window_key bn (r_network (rib s a))) t (A \<union> {a})"
    using rbi.insert_key_new [OF k(1) route_trees_by_key(1) [OF assms(1,3)] assms(2)] assms(5)
    by (auto simp: window_key_eq_iff)
  obtain u where u: "RB_INSERT (\<lambda>b. sint (r_iface (rib s a) - r_iface (rib s b))) (rib_sourcetree s) a =
      Some (u, None)" "rbi.keyed (\<lambda>a. window_key bi (r_iface (rib s a))) u (A \<union> {a})"
    using rbi.insert_key_new [OF k(2) route_trees_by_key(2) [OF assms(1,4)] assms(2)] assms(6)
    by (auto simp: window_key_eq_iff)
  show ?thesis
    using t u assms(1,3,4)
    by (intro exI [of _ t] exI [of _ u])
      (auto simp: ip_route_tree_insert_def route_trees_def route_network_cmp_def route_iface_cmp_def)
qed

lemma route_free_upd [simp]:
  "route_free (s\<lparr>rib_routetree := t\<rparr>) F = route_free s F"
  "route_free (s\<lparr>rib_sourcetree := u\<rparr>) F = route_free s F"
  "route_free (s\<lparr>rib := f\<rparr>) F = route_free s F"
  by (simp_all add: route_free_def)

lemma route_trees_upd [simp]:
  "route_trees bn bi (s\<lparr>rib_freelist := l\<rparr>) A = route_trees bn bi s A"
  by (simp add: route_trees_def)

lemma route_trees_rib:
  "a \<notin> A \<Longrightarrow> route_trees bn bi (s\<lparr>rib := (rib s)(a := r)\<rparr>) A = route_trees bn bi s A"
proof -
  assume a: "a \<notin> A"
  have "rbi.keyed (\<lambda>b. window_key w (f (((rib s)(a := r)) b))) t A =
      rbi.keyed (\<lambda>b. window_key w (f (rib s b))) t A" for w f t
    using a by (auto elim!: rbi.keyed_cong)
  then show ?thesis using a by (auto simp: route_trees_def)
qed

text \<open>Storing a route in an entry that is in neither tree.\<close>

lemma route_put:
  assumes "route_trees bn bi s A" and "a \<notin> A"
    and "in_window bn (r_network route)" and "in_window bi (r_iface route)"
    and "\<And>b. b \<in> A \<Longrightarrow> r_network (rib s b) \<noteq> r_network route"
    and "\<And>b. b \<in> A \<Longrightarrow> r_iface (rib s b) \<noteq> r_iface route"
  shows "\<exists>t u. ip_route_tree_insert (s\<lparr>rib := (rib s)(a := route)\<rparr>) a =
      Some (s\<lparr>rib := (rib s)(a := route), rib_routetree := t, rib_sourcetree := u\<rparr>) \<and>
    route_trees bn bi (s\<lparr>rib := (rib s)(a := route), rib_routetree := t, rib_sourcetree := u\<rparr>)
      (A \<union> {a})"
proof -
  let ?s = "s\<lparr>rib := (rib s)(a := route)\<rparr>"
  have "b \<noteq> a" if "b \<in> A" for b using assms(2) that by blast
  then have "\<exists>t u. ip_route_tree_insert ?s a = Some (?s\<lparr>rib_routetree := t, rib_sourcetree := u\<rparr>) \<and>
      route_trees bn bi (?s\<lparr>rib_routetree := t, rib_sourcetree := u\<rparr>) (A \<union> {a})"
    using assms by (intro ip_route_tree_insert_ok) (simp_all add: route_trees_rib)
  then show ?thesis by simp
qed

lemma route_tableI:
  assumes "A \<subseteq> {..<NSTACK_IP_RIB_SIZE}" and "route_trees bn bi s A"
    and "route_free s ({..<NSTACK_IP_RIB_SIZE} - A)" and "rib s ` A = R"
  shows "route_table bn bi s R"
  using assms unfolding route_table_def by blast

lemma ip_route_update_old:
  assumes "route_table bn bi s R" and "in_window bn (r_network route)"
    and "in_window bi (r_iface route)"
    and "\<And>r. r \<in> R \<Longrightarrow> r_network r \<noteq> r_network route \<Longrightarrow> r_iface r \<noteq> r_iface route"
    and "r \<in> R" and "r_network r = r_network route"
  shows "\<exists>s'. ip_route_update s route = Some (s', 0) \<and> route_frame s s' \<and>
    route_table bn bi s' ({r \<in> R. r_network r \<noteq> r_network route} \<union> {route})"
proof -
  obtain A where A: "A \<subseteq> {..<5}" "route_trees bn bi s A" "route_free s ({..<5} - A)" "R = rib s ` A"
    using assms(1) unfolding route_table_def by auto
  obtain a where a: "a \<in> A" "r = rib s a" using assms(5) A(4) by blast
  have others: "r_network (rib s b) \<noteq> r_network route" if "b \<in> A - {a}" for b
    using that route_trees_inj(1) [OF A(2)] a assms(6) by auto
  obtain t u where tu: "ip_route_tree_remove s a = Some (s\<lparr>rib_routetree := t, rib_sourcetree := u\<rparr>)"
    "route_trees bn bi (s\<lparr>rib_routetree := t, rib_sourcetree := u\<rparr>) (A - {a})"
    using ip_route_tree_remove_ok [OF A(2) a(1)] by blast
  obtain t' u' where put: "ip_route_tree_insert (s\<lparr>rib_routetree := t, rib_sourcetree := u,
      rib := (rib s)(a := route)\<rparr>) a = Some (s\<lparr>rib := (rib s)(a := route), rib_routetree := t',
      rib_sourcetree := u'\<rparr>)"
    "route_trees bn bi (s\<lparr>rib := (rib s)(a := route), rib_routetree := t', rib_sourcetree := u'\<rparr>)
      (A - {a} \<union> {a})"
    using route_put [OF tu(2), of a route] assms(2-4) others A(4) by auto
  have un: "A - {a} \<union> {a} = A" using a(1) by blast
  let ?s = "s\<lparr>rib := (rib s)(a := route), rib_routetree := t', rib_sourcetree := u'\<rparr>"
  have "route_table bn bi ?s ({r \<in> R. r_network r \<noteq> r_network route} \<union> {route})"
    using A(1,3) put(2) a others assms(6) unfolding un
    by (intro route_tableI) (auto simp: A(4))
  moreover have "ip_route_update s route = Some (?s, 0)"
    using route_find_network(1) [OF A(2) a(1)] a(2) assms(6) tu(1) put(1)
    by (simp add: ip_route_update_def Let_def)
  ultimately show ?thesis by (intro exI [of _ ?s]) (simp add: route_frame_def)
qed

lemma ip_route_update_new:
  assumes "route_table bn bi s R" and "in_window bn (r_network route)"
    and "in_window bi (r_iface route)"
    and "\<And>r. r \<in> R \<Longrightarrow> r_network r \<noteq> r_network route \<and> r_iface r \<noteq> r_iface route"
    and "card R < NSTACK_IP_RIB_SIZE"
  shows "\<exists>s'. ip_route_update s route = Some (s', 0) \<and> route_frame s s' \<and>
    route_table bn bi s' (R \<union> {route})"
proof -
  obtain A where A: "A \<subseteq> {..<5}" "route_trees bn bi s A" "route_free s ({..<5} - A)" "R = rib s ` A"
    using assms(1) unfolding route_table_def by auto
  have "inj_on (rib s) A" using route_trees_inj(1) [OF A(2)] by (auto simp: inj_on_def)
  then have "card A < 5" using assms(5) A(4) card_image by fastforce
  then have "{..<5} - A \<noteq> {}" using A(1) by (metis Diff_eq_empty_iff card_lessThan less_irrefl subset_antisym)
  then obtain a xs where xs: "sl_holds (rib_freelist s) (a # xs)" "set (a # xs) = {..<5} - A"
    using A(3) unfolding route_free_def by (metis empty_set list.exhaust)
  obtain l where l: "SLIST_REMOVE_HEAD (rib_freelist s) = Some l" "sl_holds l xs"
    using SLIST_REMOVE_HEAD_holds [OF xs(1)] by blast
  have a: "a < 5" "a \<notin> A" "a \<notin> set xs" using xs by (auto simp: sl_holds_def)
  let ?s0 = "s\<lparr>rib_freelist := l\<rparr>"
  obtain t u where put: "ip_route_tree_insert (?s0\<lparr>rib := (rib s)(a := route)\<rparr>) a =
      Some (?s0\<lparr>rib := (rib s)(a := route), rib_routetree := t, rib_sourcetree := u\<rparr>)"
    "route_trees bn bi (?s0\<lparr>rib := (rib s)(a := route), rib_routetree := t, rib_sourcetree := u\<rparr>)
      (A \<union> {a})"
    using route_put [of bn bi ?s0 A a route] assms(2-4) A(2,4) a(2) by auto
  let ?s = "?s0\<lparr>rib := (rib s)(a := route), rib_routetree := t, rib_sourcetree := u\<rparr>"
  have "set xs = {..<5} - (A \<union> {a})" using xs(2) a(2,3) by auto
  then have "route_table bn bi ?s (R \<union> {route})"
    using A(1) put(2) a l(2)
    by (intro route_tableI [of "A \<union> {a}"]) (auto simp: A(4) route_free_def)
  moreover have "ip_route_update s route = Some (?s, 0)"
    using route_find_network(2) [OF A(2)] assms(4) A(4) put(1) l(1) SLIST_FIRST_holds [OF xs(1)]
    by (simp add: ip_route_update_def ip_route_add_def ip_route_entry_alloc_def Let_def)
  ultimately show ?thesis by (intro exI [of _ ?s]) (simp add: route_frame_def)
qed

lemma ip_route_update_full:
  assumes "route_table bn bi s R" and "card R = NSTACK_IP_RIB_SIZE"
    and "\<And>r. r \<in> R \<Longrightarrow> r_network r \<noteq> r_network route"
  shows "ip_route_update s route = None"
proof -
  obtain A where A: "A \<subseteq> {..<5}" "route_trees bn bi s A" "route_free s ({..<5} - A)" "R = rib s ` A"
    using assms(1) unfolding route_table_def by auto
  have "finite A" using A(1) finite_subset by blast
  then have "5 \<le> card A" using assms(2) A(4) card_image_le [of A "rib s"] by simp
  then have "A = {..<5}" using A(1) by (intro card_subset_eq) (auto dest: card_mono [rotated])
  then have "sl_holds (rib_freelist s) []" using A(3) by (auto simp: route_free_def)
  then have "SLIST_REMOVE_HEAD (rib_freelist s) = None" by (rule SLIST_REMOVE_HEAD_empty)
  then show ?thesis
    using route_find_network(2) [OF A(2)] assms(3) A(4)
    by (simp add: ip_route_update_def ip_route_add_def ip_route_entry_alloc_def)
qed

lemma ip_route_remove_ok:
  assumes "route_table bn bi s R" and "r \<in> R" and "r_network r = r_network route"
  shows "\<exists>s'. ip_route_remove s route = Some (s', 0) \<and> route_frame s s' \<and>
    route_table bn bi s' {r \<in> R. r_network r \<noteq> r_network route}"
proof -
  obtain A where A: "A \<subseteq> {..<5}" "route_trees bn bi s A" "route_free s ({..<5} - A)" "R = rib s ` A"
    using assms(1) unfolding route_table_def by auto
  obtain a where a: "a \<in> A" "r = rib s a" using assms(2) A(4) by blast
  have others: "r_network (rib s b) \<noteq> r_network route" if "b \<in> A - {a}" for b
    using that route_trees_inj(1) [OF A(2)] a assms(3) by auto
  obtain t u where tu: "ip_route_tree_remove s a = Some (s\<lparr>rib_routetree := t, rib_sourcetree := u\<rparr>)"
    "route_trees bn bi (s\<lparr>rib_routetree := t, rib_sourcetree := u\<rparr>) (A - {a})"
    using ip_route_tree_remove_ok [OF A(2) a(1)] by blast
  let ?s = "ip_route_entry_free (ip_route_clear (s\<lparr>rib_routetree := t, rib_sourcetree := u\<rparr>) a) a"
  have "rbi.keyed (\<lambda>b. window_key w (f (((rib s)(a := zero_route)) b)))
      (t\<lparr>rb_links := (rb_links t)(a := rb_zero)\<rparr>) (A - {a})"
    if "rbi.keyed (\<lambda>b. window_key w (f (rib s b))) t (A - {a})" for w f t
    by (rule rbi.keyed_cong [OF keyed_links_other [OF that]]) auto
  then have "route_trees bn bi ?s (A - {a})"
    using tu(2) by (auto simp: route_trees_def ip_route_clear_def ip_route_entry_free_def)
  moreover obtain xs where "sl_holds (rib_freelist s) xs" "set xs = {..<5} - A"
    using A(3) by (auto simp: route_free_def)
  then have "sl_holds (rib_freelist ?s) (a # xs)" "set (a # xs) = {..<5} - (A - {a})"
    using a(1) A(1) by (auto simp: ip_route_clear_def ip_route_entry_free_def sl_holds_def
        SLIST_INSERT_HEAD_def SLIST_FIRST_def)
  then have "route_free ?s ({..<5} - (A - {a}))" unfolding route_free_def by blast
  moreover have "rib ?s ` (A - {a}) = {r \<in> R. r_network r \<noteq> r_network route}"
    using others a assms(3)
    by (auto simp: A(4) ip_route_clear_def ip_route_entry_free_def image_iff)
  ultimately have "route_table bn bi ?s {r \<in> R. r_network r \<noteq> r_network route}"
    using A(1) by (intro route_tableI) auto
  moreover have "ip_route_remove s route = Some (?s, 0)"
    using route_find_network(1) [OF A(2) a(1)] a(2) assms(3) tu(1)
    by (simp add: ip_route_remove_def Let_def)
  moreover have "route_frame s ?s"
    by (simp add: route_frame_def ip_route_clear_def ip_route_entry_free_def)
  ultimately show ?thesis by blast
qed

lemma ip_route_remove_none:
  assumes "route_table bn bi s R" and "\<And>r. r \<in> R \<Longrightarrow> r_network r \<noteq> r_network route"
  shows "ip_route_remove s route = Some (s\<lparr>io_errno := ENOENT\<rparr>, -1)"
proof -
  obtain A where A: "route_trees bn bi s A" "R = rib s ` A"
    using assms(1) unfolding route_table_def by auto
  show ?thesis
    using route_find_network(2) [OF A(1), of route] assms(2) A(2) by (simp add: ip_route_remove_def)
qed

lemma ip_route_find_by_iface_ok:
  assumes "route_table bn bi s R"
  shows "r \<in> R \<Longrightarrow> r_iface r = addr \<Longrightarrow> ip_route_find_by_iface s addr = Some (s, 0, Some r)"
    and "(\<And>r. r \<in> R \<Longrightarrow> r_iface r \<noteq> addr) \<Longrightarrow>
      ip_route_find_by_iface s addr = Some (s\<lparr>io_errno := ENOENT\<rparr>, -1, None)"
proof -
  obtain A where A: "route_trees bn bi s A" "R = rib s ` A"
    using assms(1) unfolding route_table_def by auto
  note f = route_find_iface(1) [OF A(1), of _ "zero_route\<lparr>r_iface := addr\<rparr>", simplified]
    route_find_iface(2) [OF A(1), of "zero_route\<lparr>r_iface := addr\<rparr>", simplified]
  show "ip_route_find_by_iface s addr = Some (s, 0, Some r)" if "r \<in> R" "r_iface r = addr"
    using that f(1) A(2) by (auto simp: ip_route_find_by_iface_def)
  show "ip_route_find_by_iface s addr = Some (s\<lparr>io_errno := ENOENT\<rparr>, -1, None)"
    if "\<And>r. r \<in> R \<Longrightarrow> r_iface r \<noteq> addr"
    using that f(2) A(2) by (auto simp: ip_route_find_by_iface_def)
qed

lemma route_match_from_ok:
  assumes "rep t u" and "inorder u = xs @ ys"
  shows "route_match_from t P (first ys) = Some (List.find P ys)"
  using assms(2)
proof (induction ys arbitrary: xs)
  case Nil
  show ?case by (subst route_match_from.simps) simp
next
  case (Cons a ys)
  then have "route_match_from t P (first ys) = Some (List.find P ys)"
    by (intro Cons.IH [of "xs @ [a]"]) simp
  with RB_NEXT_ok [OF assms(1) Cons.prems] show ?case
    by (subst route_match_from.simps) simp
qed

lemma route_match_first:
  "rb_holds t xs \<Longrightarrow> RB_MIN t \<bind> route_match_from t P = Some (List.find P xs)"
  using RB_MIN_ok route_match_from_ok [of t _ "[]"] by (fastforce simp: rb_holds_def)

lemma find_sorted_least:
  assumes "sorted_wrt (\<lambda>a b. key a < (key b :: nat)) xs" and "List.find P xs = Some a"
  shows "a \<in> set xs \<and> P a \<and> (\<forall>b\<in>set xs. P b \<longrightarrow> key a \<le> key b)"
proof -
  obtain i where i: "i < length xs" "P (xs ! i)" "a = xs ! i" "\<forall>j<i. \<not> P (xs ! j)"
    using assms(2) by (auto simp: find_Some_iff)
  have "key a \<le> key b" if b: "b \<in> set xs" "P b" for b
  proof -
    obtain j where j: "j < length xs" "xs ! j = b" using b(1) unfolding in_set_conv_nth by blast
    then have "i \<le> j" using i(4) b(2) by (metis not_less)
    then show ?thesis
      using sorted_wrt_nth_less [OF assms(1), of i j] i(3) j by (cases "i = j") auto
  qed
  with i show ?thesis by auto
qed

lemma ip_route_find_exact:
  assumes "route_table bn bi s R" and "r \<in> R" and "r_network r = addr"
  shows "ip_route_find_by_network s addr = Some (s, 0, Some r)"
proof -
  obtain A where A: "route_trees bn bi s A" "R = rib s ` A"
    using assms(1) unfolding route_table_def by auto
  obtain a where "a \<in> A" "r = rib s a" using A(2) assms(2) by blast
  then show ?thesis
    using route_find_network(1) [OF A(1), of a "zero_route\<lparr>r_network := addr\<rparr>"] assms(3)
    by (simp add: ip_route_find_by_network_def)
qed

lemma ip_route_find_masked:
  assumes "route_table bn bi s R" and "\<And>r. r \<in> R \<Longrightarrow> r_network r \<noteq> addr"
    and "q \<in> R" and "route_matches addr q"
  shows "\<exists>r\<in>R. ip_route_find_by_network s addr = Some (s, 0, Some r) \<and> route_matches addr r \<and>
    (\<forall>q\<in>R. route_matches addr q \<longrightarrow> window_key bn (r_network r) \<le> window_key bn (r_network q))"
proof -
  obtain A where A: "route_trees bn bi s A" "R = rib s ` A"
    using assms(1) unfolding route_table_def by auto
  obtain xs where xs: "rb_holds (rib_routetree s) xs" "set xs = A"
    "sorted_wrt (\<lambda>a b. window_key bn (r_network (rib s a)) < window_key bn (r_network (rib s b))) xs"
    using A(1) unfolding route_trees_def by (auto elim: rbi.keyedE)
  obtain a where a: "List.find (\<lambda>a. route_matches addr (rib s a)) xs = Some a"
    using assms(3,4) A(2) xs(2)
    by (cases "List.find (\<lambda>a. route_matches addr (rib s a)) xs") (auto simp: find_None_iff)
  note least = find_sorted_least [OF xs(3) a]
  obtain m where "RB_MIN (rib_routetree s) = Some m"
    "route_match_from (rib_routetree s) (\<lambda>a. route_matches addr (rib s a)) m = Some (Some a)"
    using route_match_first [OF xs(1), of "\<lambda>a. route_matches addr (rib s a)"] a
    by (auto simp: bind_eq_Some_iff)
  then have "ip_route_find_by_network s addr = Some (s, 0, Some (rib s a))"
    using route_find_network(2) [OF A(1), of "zero_route\<lparr>r_network := addr\<rparr>"] assms(2) A(2)
    by (simp add: ip_route_find_by_network_def)
  with least A(2) xs(2) show ?thesis by auto
qed

lemma ip_route_find_none:
  assumes "route_table bn bi s R" and "\<And>r. r \<in> R \<Longrightarrow> r_network r \<noteq> addr"
    and "\<And>r. r \<in> R \<Longrightarrow> \<not> route_matches addr r"
  shows "r \<in> R \<Longrightarrow> r_network r = 0 \<Longrightarrow> ip_route_find_by_network s addr = Some (s, 0, Some r)"
    and "(\<And>r. r \<in> R \<Longrightarrow> r_network r \<noteq> 0) \<Longrightarrow>
      ip_route_find_by_network s addr = Some (s\<lparr>io_errno := ENOENT\<rparr>, -1, None)"
proof -
  obtain A where A: "route_trees bn bi s A" "R = rib s ` A"
    using assms(1) unfolding route_table_def by auto
  obtain xs where xs: "rb_holds (rib_routetree s) xs" "set xs = A"
    using A(1) unfolding route_trees_def by (auto elim: rbi.keyedE)
  have miss: "RB_FIND (\<lambda>a. route_network_cmp (zero_route\<lparr>r_network := addr\<rparr>) (rib s a))
      (rib_routetree s) = Some None"
    using route_find_network(2) [OF A(1), of "zero_route\<lparr>r_network := addr\<rparr>"] assms(2) A(2) by auto
  have "List.find (\<lambda>a. route_matches addr (rib s a)) xs = None"
    using assms(3) A(2) xs(2) by (auto simp: find_None_iff)
  with route_match_first [OF xs(1), of "\<lambda>a. route_matches addr (rib s a)"]
  obtain m where m: "RB_MIN (rib_routetree s) = Some m"
    "route_match_from (rib_routetree s) (\<lambda>a. route_matches addr (rib s a)) m = Some None"
    by (auto simp: bind_eq_Some_iff)
  have z: "r_network zero_route = 0" by (simp add: zero_route_def)
  show "ip_route_find_by_network s addr = Some (s, 0, Some r)" if "r \<in> R" "r_network r = 0"
    using that A(2) miss m route_find_network(1) [OF A(1), of _ zero_route] z
    by (auto simp: ip_route_find_by_network_def)
  show "ip_route_find_by_network s addr = Some (s\<lparr>io_errno := ENOENT\<rparr>, -1, None)"
    if "\<And>r. r \<in> R \<Longrightarrow> r_network r \<noteq> 0"
    using that A(2) miss m route_find_network(2) [OF A(1), of zero_route] z
    by (auto simp: ip_route_find_by_network_def)
qed

lemma ip_route_init_ok: "route_table bn bi (ip_route_init s) {}"
proof -
  have "sl_holds (rib_freelist (ip_route_init s)) [4, 3, 2, 1, 0]"
    by (simp add: ip_route_init_def Let_def upt_rec sl_holds_def SLIST_INSERT_HEAD_def
        SLIST_FIRST_def SLIST_INIT_def)
  moreover have "set [4, 3, 2, 1, 0] = {..<5 :: nat} - {}" by auto
  ultimately have "route_free (ip_route_init s) ({..<5} - {})" unfolding route_free_def by metis
  moreover have "rib_routetree (ip_route_init s) = RB_INIT (rib_routetree s)"
    "rib_sourcetree (ip_route_init s) = RB_INIT (rib_sourcetree s)"
    by (simp_all add: ip_route_init_def Let_def upt_rec)
  then have "route_trees bn bi (ip_route_init s) {}"
    by (simp add: route_trees_def keyed_RB_INIT)
  ultimately show ?thesis by (intro route_tableI [of "{}"]) auto
qed

lemma ip_route_init_ether [simp]:
  "ether_if (ip_route_init s) = ether_if s" "io_tx (ip_route_init s) = io_tx s"
  "route_st.more (ip_route_init s) = route_st.more s"
  by (simp_all add: ip_route_init_def Let_def upt_rec)

definition demo_route_st :: route_st where
  "demo_route_st = ip_route_init \<lparr>io_errno = 0, io_tx = [],
     ether_if = [\<lparr>el_fd = 3, el_mac = [2, 0, 0, 0, 0, 1], el_if_idx = demo_if\<rparr>], ether_next_handle = 1,
     rib = (\<lambda>_. zero_route), rib_routetree = \<lparr>rbh_root = None, rb_links = (\<lambda>_. rb_zero)\<rparr>,
     rib_sourcetree = \<lparr>rbh_root = None, rb_links = (\<lambda>_. rb_zero)\<rparr>,
     rib_freelist = \<lparr>slh_first = None, sle_next = (\<lambda>_. None)\<rparr>\<rparr>"

definition demo_route :: ip_route where
  "demo_route = \<lparr>r_network = 0x0a000000, r_netmask = 0xffffff00, r_gw = 0,
     r_iface = 0x0a000002, r_iface_handle = 0\<rparr>"

text \<open>A route whose interface another entry has: the second tree stays as it is.\<close>

lemma route_put_shared:
  assumes "route_trees bn bi s A" and "a \<notin> A"
    and "in_window bn (r_network route)" and "in_window bi (r_iface route)"
    and "\<And>b. b \<in> A \<Longrightarrow> r_network (rib s b) \<noteq> r_network route"
    and "c \<in> A" and "r_iface (rib s c) = r_iface route"
  shows "\<exists>t. ip_route_tree_insert (s\<lparr>rib := (rib s)(a := route)\<rparr>) a =
      Some (s\<lparr>rib := (rib s)(a := route), rib_routetree := t\<rparr>) \<and>
    rbi.keyed (\<lambda>b. window_key bn (r_network (((rib s)(a := route)) b))) t (A \<union> {a}) \<and>
    rbi.keyed (\<lambda>b. window_key bi (r_iface (((rib s)(a := route)) b))) (rib_sourcetree s) A"
proof -
  let ?s = "s\<lparr>rib := (rib s)(a := route)\<rparr>"
  have trees: "route_trees bn bi ?s A" using assms(1,2) by (simp add: route_trees_rib)
  then have k: "rbi.keyed (\<lambda>a. window_key bn (r_network (rib ?s a))) (rib_routetree s) A"
    "rbi.keyed (\<lambda>a. window_key bi (r_iface (rib ?s a))) (rib_sourcetree s) A"
    by (simp_all add: route_trees_def)
  have w: "in_window bn (r_network (rib ?s a))" "in_window bi (r_iface (rib ?s a))" using assms(3,4) by simp_all
  have ne: "b \<noteq> a" if "b \<in> A" for b using that assms(2) by blast
  obtain t where t: "RB_INSERT (\<lambda>b. sint (r_network (rib ?s a) - r_network (rib ?s b))) (rib_routetree s) a =
      Some (t, None)" "rbi.keyed (\<lambda>a. window_key bn (r_network (rib ?s a))) t (A \<union> {a})"
    using rbi.insert_key_new [OF k(1) route_trees_by_key(1) [OF trees w(1)] assms(2)] assms(5) ne
    by (auto simp: window_key_eq_iff)
  have "RB_INSERT (\<lambda>b. sint (r_iface (rib ?s a) - r_iface (rib ?s b))) (rib_sourcetree s) a =
      Some (rib_sourcetree s, Some c)"
    using rbi.insert_key_dup [OF k(2) route_trees_by_key(2) [OF trees w(2)] assms(2,6)] assms(7) ne [OF assms(6)]
    by simp
  with t k(2) show ?thesis
    by (intro exI [of _ t]) (simp add: ip_route_tree_insert_def route_network_cmp_def route_iface_cmp_def)
qed


lemma keyed_find_network:
  assumes "rbi.keyed (\<lambda>a. window_key bn (r_network (rib s a))) (rib_routetree s) B"
    and "\<And>b. b \<in> B \<Longrightarrow> in_window bn (r_network (rib s b))" and "a \<in> B"
  shows "ip_route_find_by_network s (r_network (rib s a)) = Some (s, 0, Some (rib s a))"
proof -
  have "by_key (window_key bn (r_network (rib s a))) (\<lambda>b. window_key bn (r_network (rib s b)))
      (\<lambda>b. sint (r_network (rib s a) - r_network (rib s b))) B"
    using assms(2,3) by (intro by_key_window) auto
  from rbi.find_hit [OF assms(1) this assms(3)] show ?thesis
    by (simp add: ip_route_find_by_network_def route_network_cmp_def)
qed

lemma keyed_find_iface:
  assumes "rbi.keyed (\<lambda>a. window_key bi (r_iface (rib s a))) (rib_sourcetree s) B"
    and "\<And>b. b \<in> B \<Longrightarrow> in_window bi (r_iface (rib s b))" and "a \<in> B"
  shows "ip_route_find_by_iface s (r_iface (rib s a)) = Some (s, 0, Some (rib s a))"
proof -
  have "by_key (window_key bi (r_iface (rib s a))) (\<lambda>b. window_key bi (r_iface (rib s b)))
      (\<lambda>b. sint (r_iface (rib s a) - r_iface (rib s b))) B"
    using assms(2,3) by (intro by_key_window) auto
  from rbi.find_hit [OF assms(1) this assms(3)] show ?thesis
    by (simp add: ip_route_find_by_iface_def route_iface_cmp_def)
qed

text \<open>What the lookups find: \<open>N\<close> by network and \<open>I\<close> by interface.\<close>

definition route_finds :: "'a route_st_scheme \<Rightarrow> ip_route set \<Rightarrow> ip_route set \<Rightarrow> bool" where
  "route_finds s N I \<longleftrightarrow>
     (\<forall>r\<in>N. ip_route_find_by_network s (r_network r) = Some (s, 0, Some r)) \<and>
     (\<forall>r\<in>I. ip_route_find_by_iface s (r_iface r) = Some (s, 0, Some r))"

lemma route_table_finds: "route_table bn bi s R \<Longrightarrow> route_finds s R R"
  using ip_route_find_exact [of bn bi s R] ip_route_find_by_iface_ok(1) [of bn bi s R]
  by (auto simp: route_finds_def)

lemma route_put_shared_finds:
  assumes "route_trees bn bi s A" and "a \<notin> A"
    and "in_window bn (r_network route)" and "in_window bi (r_iface route)"
    and "\<And>b. b \<in> A \<Longrightarrow> r_network (rib s b) \<noteq> r_network route"
    and "c \<in> A" and "r_iface (rib s c) = r_iface route"
  shows "\<exists>t. ip_route_tree_insert (s\<lparr>rib := (rib s)(a := route)\<rparr>) a =
      Some (s\<lparr>rib := (rib s)(a := route), rib_routetree := t\<rparr>) \<and>
    route_finds (s\<lparr>rib := (rib s)(a := route), rib_routetree := t\<rparr>) (rib s ` A \<union> {route}) (rib s ` A)"
proof -
  obtain t where t: "ip_route_tree_insert (s\<lparr>rib := (rib s)(a := route)\<rparr>) a =
      Some (s\<lparr>rib := (rib s)(a := route), rib_routetree := t\<rparr>)"
    "rbi.keyed (\<lambda>b. window_key bn (r_network (((rib s)(a := route)) b))) t (A \<union> {a})"
    "rbi.keyed (\<lambda>b. window_key bi (r_iface (((rib s)(a := route)) b))) (rib_sourcetree s) A"
    using route_put_shared [OF assms] by blast
  let ?s = "s\<lparr>rib := (rib s)(a := route), rib_routetree := t\<rparr>"
  have k: "rbi.keyed (\<lambda>b. window_key bn (r_network (rib ?s b))) (rib_routetree ?s) (A \<union> {a})"
    "rbi.keyed (\<lambda>b. window_key bi (r_iface (rib ?s b))) (rib_sourcetree ?s) A"
    using t(2,3) by simp_all
  have w: "in_window bn (r_network (rib ?s b))" if "b \<in> A \<union> {a}" for b
    using that assms(1,3) by (auto simp: route_trees_def)
  have v: "in_window bi (r_iface (rib ?s b))" if "b \<in> A" for b
    using that assms(1,2) by (auto simp: route_trees_def)
  have "ip_route_find_by_network ?s (r_network r) = Some (?s, 0, Some r)" if r: "r \<in> rib s ` A \<union> {route}" for r
  proof -
    have "\<exists>b\<in>A \<union> {a}. rib ?s b = r" using r assms(2) by auto
    then show ?thesis using keyed_find_network [OF k(1) w] by blast
  qed
  moreover have "ip_route_find_by_iface ?s (r_iface r) = Some (?s, 0, Some r)" if r: "r \<in> rib s ` A" for r
  proof -
    have "\<exists>b\<in>A. rib ?s b = r" using r assms(2) by auto
    then show ?thesis using keyed_find_iface [OF k(2) v] by blast
  qed
  ultimately show ?thesis using t(1) by (intro exI [of _ t]) (simp add: route_finds_def)
qed


text \<open>A free entry, when the table is not full.\<close>

lemma route_table_room:
  assumes "A \<subseteq> {..<NSTACK_IP_RIB_SIZE}" and "route_trees bn bi s A"
    and "route_free s ({..<NSTACK_IP_RIB_SIZE} - A)" and "card (rib s ` A) < NSTACK_IP_RIB_SIZE"
  obtains a l where "SLIST_FIRST (rib_freelist s) = Some a" "SLIST_REMOVE_HEAD (rib_freelist s) = Some l" "a \<notin> A"
proof -
  have "inj_on (rib s) A" using route_trees_inj(1) [OF assms(2)] by (auto simp: inj_on_def)
  then have "card A < 5" using assms(4) card_image by fastforce
  then have "{..<5} - A \<noteq> {}" using assms(1) by (metis Diff_eq_empty_iff card_lessThan less_irrefl subset_antisym)
  then obtain a xs where xs: "sl_holds (rib_freelist s) (a # xs)" "set (a # xs) = {..<5} - A"
    using assms(3) unfolding route_free_def by (metis empty_set list.exhaust)
  obtain l where l: "SLIST_REMOVE_HEAD (rib_freelist s) = Some l" using SLIST_REMOVE_HEAD_holds [OF xs(1)] by blast
  show thesis using that [OF SLIST_FIRST_holds [OF xs(1)] l] xs(2) by auto
qed

lemma ip_route_update_shared:
  assumes "route_table bn bi s R" and "in_window bn (r_network route)" and "in_window bi (r_iface route)"
    and "q \<in> R" and "r_network q \<noteq> r_network route" and "r_iface q = r_iface route"
    and "(\<exists>r\<in>R. r_network r = r_network route) \<or> card R < NSTACK_IP_RIB_SIZE"
  shows "\<exists>s'. ip_route_update s route = Some (s', 0) \<and> route_frame s s' \<and>
    route_finds s' ({r \<in> R. r_network r \<noteq> r_network route} \<union> {route}) {r \<in> R. r_network r \<noteq> r_network route}"
proof -
  obtain A where A: "A \<subseteq> {..<5}" "route_trees bn bi s A" "route_free s ({..<5} - A)" "R = rib s ` A"
    using assms(1) unfolding route_table_def by auto
  obtain c where c: "c \<in> A" "q = rib s c" using assms(4) A(4) by blast
  show ?thesis
  proof (cases "\<exists>a\<in>A. r_network (rib s a) = r_network route")
    case True
    then obtain a where a: "a \<in> A" "r_network (rib s a) = r_network route" by blast
    have others: "r_network (rib s b) \<noteq> r_network route" if "b \<in> A - {a}" for b
      using that route_trees_inj(1) [OF A(2)] a by auto
    obtain t u where tu: "ip_route_tree_remove s a = Some (s\<lparr>rib_routetree := t, rib_sourcetree := u\<rparr>)"
      "route_trees bn bi (s\<lparr>rib_routetree := t, rib_sourcetree := u\<rparr>) (A - {a})"
      using ip_route_tree_remove_ok [OF A(2) a(1)] by blast
    let ?s = "s\<lparr>rib_routetree := t, rib_sourcetree := u\<rparr>"
    have "c \<in> A - {a}" using c a(2) assms(5) by auto
    then obtain t' where put: "ip_route_tree_insert (?s\<lparr>rib := (rib s)(a := route)\<rparr>) a =
        Some (?s\<lparr>rib := (rib s)(a := route), rib_routetree := t'\<rparr>)"
      "route_finds (?s\<lparr>rib := (rib s)(a := route), rib_routetree := t'\<rparr>) (rib s ` (A - {a}) \<union> {route}) (rib s ` (A - {a}))"
      using route_put_shared_finds [OF tu(2) _ assms(2,3), of a c] others assms(6) c(2) by auto
    have "{r \<in> R. r_network r \<noteq> r_network route} = rib s ` (A - {a})" using a others by (auto simp: A(4))
    moreover have "ip_route_update s route = Some (?s\<lparr>rib := (rib s)(a := route), rib_routetree := t'\<rparr>, 0)"
      using route_find_network(1) [OF A(2) a(1)] a(2) tu(1) put(1) by (simp add: ip_route_update_def Let_def)
    moreover have "route_frame s (?s\<lparr>rib := (rib s)(a := route), rib_routetree := t'\<rparr>)"
      by (simp add: route_frame_def)
    ultimately show ?thesis using put(2) by auto
  next
    case False
    then have "card (rib s ` A) < 5" using assms(7) A(4) by auto
    from route_table_room [OF A(1-3) this] obtain a l where al: "SLIST_FIRST (rib_freelist s) = Some a"
      "SLIST_REMOVE_HEAD (rib_freelist s) = Some l" "a \<notin> A" .
    let ?s = "s\<lparr>rib_freelist := l\<rparr>"
    obtain t where put: "ip_route_tree_insert (?s\<lparr>rib := (rib s)(a := route)\<rparr>) a =
        Some (?s\<lparr>rib := (rib s)(a := route), rib_routetree := t\<rparr>)"
      "route_finds (?s\<lparr>rib := (rib s)(a := route), rib_routetree := t\<rparr>) (rib s ` A \<union> {route}) (rib s ` A)"
      using route_put_shared_finds [of bn bi ?s A a route c] A(2) al(3) assms(2,3,6) False c by auto
    have "{r \<in> R. r_network r \<noteq> r_network route} = rib s ` A" using False by (auto simp: A(4))
    moreover have "ip_route_update s route = Some (?s\<lparr>rib := (rib s)(a := route), rib_routetree := t\<rparr>, 0)"
      using route_find_network(2) [OF A(2)] False put(1) al(1,2)
      by (simp add: ip_route_update_def ip_route_add_def ip_route_entry_alloc_def Let_def)
    moreover have "route_frame s (?s\<lparr>rib := (rib s)(a := route), rib_routetree := t\<rparr>)"
      by (simp add: route_frame_def)
    ultimately show ?thesis using put(2) by auto
  qed
qed

text \<open>The routes of other networks.\<close>

definition other_routes :: "ip_route \<Rightarrow> ip_route set \<Rightarrow> ip_route set" where
  "other_routes route R = {r \<in> R. r_network r \<noteq> r_network route}"

lemma route_table_card: "route_table bn bi s R \<Longrightarrow> card R \<le> NSTACK_IP_RIB_SIZE"
  unfolding route_table_def by (metis card_image_le card_lessThan card_mono finite_lessThan finite_subset le_trans)




text \<open>The example table: one route.\<close>

lemma demo_table:
  obtains s where "route_table 0 0 s {demo_route}"
    "ip_route_update demo_route_st demo_route = Some (s, 0)"
  using ip_route_update_new [of 0 0 demo_route_st "{}" demo_route] ip_route_init_ok
  by (auto simp: demo_route_st_def demo_route_def in_window_def window_key_def)

text \<open>
  C15: \<^verbatim>\<open>ip_route_remove\<close> takes the route of the given network out of both trees and returns its
  entry to the free list, so that a later update can use it; without such a route it reports
  \<^verbatim>\<open>ENOENT\<close> and changes nothing else.
\<close>

theorem ip_route_remove_correct:
  assumes "route_table bn bi s R"
  shows "(\<exists>r\<in>R. r_network r = r_network route) \<and>
      (\<exists>s'. ip_route_remove s route = Some (s', 0) \<and> route_frame s s' \<and>
        route_table bn bi s' {r \<in> R. r_network r \<noteq> r_network route}) \<or>
    (\<forall>r\<in>R. r_network r \<noteq> r_network route) \<and>
      ip_route_remove s route = Some (s\<lparr>io_errno := ENOENT\<rparr>, -1)"
  using ip_route_remove_ok [OF assms] ip_route_remove_none [OF assms] by blast

theorem ip_route_remove_correct_witness:
  "\<exists>s s'. ip_route_update demo_route_st demo_route = Some (s, 0) \<and>
    ip_route_remove s demo_route = Some (s', 0) \<and> route_table 0 0 s' {}"
proof -
  obtain s where s: "route_table 0 0 s {demo_route}"
    "ip_route_update demo_route_st demo_route = Some (s, 0)"
    by (rule demo_table)
  have none: "{r \<in> {demo_route}. r_network r \<noteq> r_network demo_route} = {}" by auto
  show ?thesis using ip_route_remove_correct [OF s(1), of demo_route] s(2) unfolding none by auto
qed

text \<open>
  C16: \<^verbatim>\<open>ip_route_find_by_network\<close> answers for every address, also one outside the window of
  the table: the route to exactly that address; otherwise the route first in tree order among
  those whose network is the address under their mask; otherwise the route of network zero;
  otherwise \<^verbatim>\<open>ENOENT\<close>.
\<close>

theorem ip_route_find_by_network_correct:
  assumes "route_table bn bi s R"
  shows "if \<exists>r\<in>R. r_network r = addr
    then \<exists>r\<in>R. r_network r = addr \<and> ip_route_find_by_network s addr = Some (s, 0, Some r)
    else if \<exists>r\<in>R. route_matches addr r
    then \<exists>r\<in>R. route_matches addr r \<and> ip_route_find_by_network s addr = Some (s, 0, Some r) \<and>
      (\<forall>q\<in>R. route_matches addr q \<longrightarrow>
         window_key bn (r_network r) \<le> window_key bn (r_network q))
    else if \<exists>r\<in>R. r_network r = 0
    then \<exists>r\<in>R. r_network r = 0 \<and> ip_route_find_by_network s addr = Some (s, 0, Some r)
    else ip_route_find_by_network s addr = Some (s\<lparr>io_errno := ENOENT\<rparr>, -1, None)"
proof (cases "\<exists>r\<in>R. r_network r = addr")
  case True
  then show ?thesis using ip_route_find_exact [OF assms] by auto
next
  case exact: False
  then have ne: "r_network r \<noteq> addr" if "r \<in> R" for r using that by blast
  show ?thesis
  proof (cases "\<exists>r\<in>R. route_matches addr r")
    case True
    then obtain r where "r \<in> R" "route_matches addr r"
      "ip_route_find_by_network s addr = Some (s, 0, Some r)"
      "\<forall>q\<in>R. route_matches addr q \<longrightarrow> window_key bn (r_network r) \<le> window_key bn (r_network q)"
      using ip_route_find_masked [OF assms ne] by blast
    with exact True show ?thesis by auto
  next
    case False
    then show ?thesis
      using exact ip_route_find_none [OF assms ne] by auto
  qed
qed

theorem ip_route_find_by_network_correct_witness:
  "\<exists>s. ip_route_update demo_route_st demo_route = Some (s, 0) \<and>
    ip_route_find_by_network s 0x0a000007 = Some (s, 0, Some demo_route) \<and>
    ip_route_find_by_network s 0xc0a80001 = Some (s\<lparr>io_errno := ENOENT\<rparr>, -1, None)"
proof -
  obtain s where s: "route_table 0 0 s {demo_route}"
    "ip_route_update demo_route_st demo_route = Some (s, 0)"
    by (rule demo_table)
  have "ip_route_find_by_network s 0x0a000007 = Some (s, 0, Some demo_route)"
    using ip_route_find_by_network_correct [OF s(1), of "0x0a000007"]
    by (simp add: demo_route_def route_matches_def)
  moreover have "ip_route_find_by_network s 0xc0a80001 = Some (s\<lparr>io_errno := ENOENT\<rparr>, -1, None)"
    using ip_route_find_by_network_correct [OF s(1), of "0xc0a80001"]
    by (simp add: demo_route_def route_matches_def)
  ultimately show ?thesis using s(2) by blast
qed

text \<open>
  A route of network 0.0.0.0 with mask 0.0.0.0, the default route, takes every address
  that is not itself the network of a route, also where a network route matches: it is the
  first match in tree order when the window starts at zero, before the search comes to the
  step that checks for a default gateway.
\<close>

theorem default_route_shadows:
  assumes "route_table 0 bi s R" and "d \<in> R" and "r_network d = 0" and "r_netmask d = 0"
    and "\<And>r. r \<in> R \<Longrightarrow> r_network r \<noteq> addr"
  shows "ip_route_find_by_network s addr = Some (s, 0, Some d)"
proof -
  have "route_matches addr d" using assms(3,4) by (simp add: route_matches_def)
  then obtain r where r: "r \<in> R" "ip_route_find_by_network s addr = Some (s, 0, Some r)"
    "window_key 0 (r_network r) \<le> window_key 0 (r_network d)"
    using ip_route_find_masked [OF assms(1,5,2)] assms(2) by blast
  have eq: "r_network r = r_network d"
    using r(3) assms(3) by (simp add: window_key_def unat_eq_0)
  obtain A where A: "route_trees 0 bi s A" "R = rib s ` A"
    using assms(1) unfolding route_table_def by auto
  obtain a b where ab: "a \<in> A" "r = rib s a" "b \<in> A" "d = rib s b" using r(1) assms(2) A(2) by blast
  then have "a = b" using route_trees_inj(1) [OF A(1) ab(1,3)] eq by simp
  then have "r = d" using ab by simp
  with r(2) show ?thesis by simp
qed

definition demo_default :: ip_route where
  "demo_default = \<lparr>r_network = 0, r_netmask = 0, r_gw = 0x0a000001, r_iface = 0x0a000003,
     r_iface_handle = 0\<rparr>"

theorem default_route_shadows_witness:
  "\<exists>s :: route_st. route_table 0 0 s {demo_route, demo_default} \<and> route_matches 0x0a000007 demo_route \<and>
    ip_route_find_by_network s 0x0a000007 = Some (s, 0, Some demo_default)"
proof -
  obtain s :: route_st where s: "route_table 0 0 s {demo_route}" using demo_table by blast
  have "\<exists>s'. ip_route_update s demo_default = Some (s', 0) \<and> route_frame s s' \<and>
      route_table 0 0 s' ({demo_route} \<union> {demo_default})"
    by (rule ip_route_update_new [OF s])
      (auto simp: demo_route_def demo_default_def in_window_def window_key_def)
  then obtain s' :: route_st where s': "route_table 0 0 s' {demo_route, demo_default}"
    by (auto simp: insert_commute)
  have "ip_route_find_by_network s' 0x0a000007 = Some (s', 0, Some demo_default)"
    by (rule default_route_shadows [OF s']) (auto simp: demo_route_def demo_default_def)
  with s' show ?thesis by (auto simp: demo_route_def route_matches_def)
qed

text \<open>
  With all five entries in use, adding a route to a new network reads the first element
  of the empty free list, a null pointer, before the test that would report \<^verbatim>\<open>ENOMEM\<close>: the
  call has no defined result.
\<close>

theorem ip_route_update_when_full:
  assumes "route_table bn bi s R" and "card R = NSTACK_IP_RIB_SIZE"
    and "\<And>r. r \<in> R \<Longrightarrow> r_network r \<noteq> r_network route"
  shows "ip_route_update s route = None"
  by (rule ip_route_update_full [OF assms])

definition demo_routes :: "nat \<Rightarrow> ip_route" where
  "demo_routes i = \<lparr>r_network = of_nat i, r_netmask = 0xffffffff, r_gw = 0, r_iface = of_nat i,
     r_iface_handle = 0\<rparr>"

lemma demo_routes_fill:
  "n \<le> 5 \<Longrightarrow> \<exists>s :: route_st. route_table 0 0 s (demo_routes ` {..<n})"
proof (induction n)
  case 0
  show ?case using ip_route_init_ok [of 0 0 demo_route_st] by auto
next
  case (Suc n)
  then obtain s :: route_st where s: "route_table 0 0 s (demo_routes ` {..<n})" by auto
  have u: "unat (of_nat i :: u32) = i" if "i \<le> 5" for i
    using that by (simp add: unat_of_nat)
  have inj: "(of_nat i :: u32) \<noteq> of_nat n" if "i < n" for i
    using that Suc.prems u [of i] u [of n] by (metis Suc_leD le_trans less_imp_le less_irrefl)
  have "card (demo_routes ` {..<n}) < 5"
    using card_image_le [of "{..<n}" demo_routes] Suc.prems by simp
  then have "\<exists>s'. ip_route_update s (demo_routes n) = Some (s', 0) \<and> route_frame s s' \<and>
      route_table 0 0 s' (demo_routes ` {..<n} \<union> {demo_routes n})"
    using Suc.prems u [of n] inj
    by (intro ip_route_update_new [OF s]) (auto simp: demo_routes_def in_window_def window_key_def)
  moreover have "demo_routes ` {..<Suc n} = demo_routes ` {..<n} \<union> {demo_routes n}"
    by (auto simp: less_Suc_eq)
  ultimately show ?case by auto
qed

theorem ip_route_update_when_full_witness:
  "\<exists>s :: route_st. route_table 0 0 s (demo_routes ` {..<5}) \<and> ip_route_update s demo_route = None"
proof -
  obtain s :: route_st where s: "route_table 0 0 s (demo_routes ` {..<5})"
    using demo_routes_fill [of 5] by auto
  have "{..<5} = {0, 1, 2, 3, 4 :: nat}" by auto
  then have "card (demo_routes ` {..<5}) = 5" by (simp add: demo_routes_def card_insert_if)
  then have "ip_route_update s demo_route = None"
    by (rule ip_route_update_when_full [OF s])
      (auto simp: demo_routes_def demo_route_def word_eq_iff_unsigned [where 'a = nat] unat_of_nat)
  with s show ?thesis by blast
qed

end
