(* ===== verification/Arp.thy ===== *)
theory Arp
  imports Ip_Route
begin

text \<open>
  The ARP cache and the ARP messages that \<^verbatim>\<open>src/arp.c\<close> sends. The cache is an array of fifty
  entries with a red-black tree over them by address; the array index is the address of an
  entry. An entry whose age is -2 is free, -1 is static, and a dynamic entry counts seconds.
  The input handler, which also runs the deferred transmissions, is in \<^verbatim>\<open>Arp_Input\<close>.
\<close>

record arp_ip =
  arp_htype :: u16
  arp_ptype :: u16
  arp_hlen :: u8
  arp_plen :: u8
  arp_oper :: u16
  arp_sha :: mac_addr_t
  arp_spa :: u32
  arp_tha :: mac_addr_t
  arp_tpa :: u32

record arp_cache_entry =
  ip_addr :: in_addr_t
  haddr :: mac_addr_t
  age :: int

record arp_st = route_st +
  arp_cache :: "nat \<Rightarrow> arp_cache_entry"
  arp_cache_head :: rb_head

abbreviation (input) ARP_HTYPE_ETHER :: u16 where "ARP_HTYPE_ETHER \<equiv> 1"
abbreviation (input) ARP_OPER_REQUEST :: u16 where "ARP_OPER_REQUEST \<equiv> 1"
abbreviation (input) ARP_OPER_REPLY :: u16 where "ARP_OPER_REPLY \<equiv> 2"
abbreviation (input) ARP_CACHE_FREE :: int where "ARP_CACHE_FREE \<equiv> - 2"
abbreviation (input) ARP_CACHE_STATIC :: int where "ARP_CACHE_STATIC \<equiv> - 1"
abbreviation (input) ARP_CACHE_DYN :: int where "ARP_CACHE_DYN \<equiv> 0"
abbreviation (input) ARP_CACHE_AGE_MAX :: int where "ARP_CACHE_AGE_MAX \<equiv> 72000"
abbreviation (input) NSTACK_ARP_CACHE_SIZE :: nat where "NSTACK_ARP_CACHE_SIZE \<equiv> 50"

section \<open>Messages\<close>

text \<open>The packed struct in memory; its conversions exchange the byte order of every number.\<close>

definition arp_ip_bytes :: "arp_ip \<Rightarrow> bytes" where
  "arp_ip_bytes m = bytes16 (arp_htype m) @ bytes16 (arp_ptype m) @ [arp_hlen m, arp_plen m] @
     bytes16 (arp_oper m) @ arp_sha m @ bytes32 (arp_spa m) @ arp_tha m @ bytes32 (arp_tpa m)"

definition arp_ip_at :: "bytes \<Rightarrow> arp_ip option" where
  "arp_ip_at b =
     (if 28 \<le> length b then Some
        \<lparr>arp_htype = le16 (b ! 0) (b ! 1), arp_ptype = le16 (b ! 2) (b ! 3),
         arp_hlen = b ! 4, arp_plen = b ! 5, arp_oper = le16 (b ! 6) (b ! 7),
         arp_sha = take 6 (drop 8 b), arp_spa = le32 (b ! 14) (b ! 15) (b ! 16) (b ! 17),
         arp_tha = take 6 (drop 18 b), arp_tpa = le32 (b ! 24) (b ! 25) (b ! 26) (b ! 27)\<rparr>
      else None)"

definition arp_hton :: "arp_ip \<Rightarrow> arp_ip" where
  "arp_hton host =
     \<lparr>arp_htype = htons (arp_htype host), arp_ptype = htons (arp_ptype host),
      arp_hlen = arp_hlen host, arp_plen = arp_plen host, arp_oper = htons (arp_oper host),
      arp_sha = arp_sha host, arp_spa = ntohl (arp_spa host),
      arp_tha = arp_tha host, arp_tpa = ntohl (arp_tpa host)\<rparr>"

definition arp_ntoh :: "arp_ip \<Rightarrow> arp_ip" where
  "arp_ntoh net =
     \<lparr>arp_htype = htons (arp_htype net), arp_ptype = htons (arp_ptype net),
      arp_hlen = arp_hlen net, arp_plen = arp_plen net, arp_oper = htons (arp_oper net),
      arp_sha = arp_sha net, arp_spa = ntohl (arp_spa net),
      arp_tha = arp_tha net, arp_tpa = ntohl (arp_tpa net)\<rparr>"

text \<open>A message that asks for \<open>tpa\<close>; the interface address stays zero for a bad handle.\<close>

definition arp_query :: "mac_addr_t option \<Rightarrow> in_addr_t \<Rightarrow> in_addr_t \<Rightarrow> arp_ip" where
  "arp_query sha spa tpa =
     \<lparr>arp_htype = ARP_HTYPE_ETHER, arp_ptype = ETHER_PROTO_IPV4, arp_hlen = 6, arp_plen = 4,
      arp_oper = ARP_OPER_REQUEST,
      arp_sha = (case sha of Some m \<Rightarrow> m | None \<Rightarrow> replicate 6 0), arp_spa = spa,
      arp_tha = replicate 6 0, arp_tpa = tpa\<rparr>"

definition arp_request ::
  "os_sendto \<Rightarrow> 'a ether_st_scheme \<Rightarrow> int \<Rightarrow> in_addr_t \<Rightarrow> in_addr_t \<Rightarrow>
   ('a ether_st_scheme \<times> int) option" where
  "arp_request sendto s ether_handle spa tpa = do {
     (s, _, sha) \<leftarrow> ether_handle2addr s ether_handle;
     let msg = arp_hton (arp_query sha spa tpa);
     (s, retval) \<leftarrow> ether_send sendto s ether_handle mac_broadcast_addr ETHER_PROTO_ARP
       (arp_ip_bytes msg) 28;
     Some (s, if retval < 0 then retval else 0)
   }"

definition arp_gratuitous ::
  "os_sendto \<Rightarrow> 'a ether_st_scheme \<Rightarrow> int \<Rightarrow> in_addr_t \<Rightarrow> ('a ether_st_scheme \<times> int) option" where
  "arp_gratuitous sendto s ether_handle spa = do {
     (s, _, sha) \<leftarrow> ether_handle2addr s ether_handle;
     let msg = arp_hton (arp_query sha spa spa);
     (s, retval) \<leftarrow> ether_send sendto s ether_handle mac_broadcast_addr ETHER_PROTO_ARP
       (arp_ip_bytes msg) 28;
     Some (s, 0)
   }"

section \<open>The cache\<close>

definition arp_cache_cmp :: "arp_cache_entry \<Rightarrow> arp_cache_entry \<Rightarrow> int" where
  "arp_cache_cmp a b = sint (ip_addr a - ip_addr b)"

definition arp_cache_get_entry :: "'a arp_st_scheme \<Rightarrow> in_addr_t \<Rightarrow> nat option option" where
  "arp_cache_get_entry s ip =
     RB_FIND (\<lambda>a. arp_cache_cmp \<lparr>ip_addr = ip, haddr = replicate 6 0, age = 0\<rparr> (arp_cache s a))
       (arp_cache_head s)"

text \<open>The scan for a slot: the last free one, otherwise one of smallest age.\<close>

definition arp_pick :: "(nat \<Rightarrow> arp_cache_entry) \<Rightarrow> nat option \<Rightarrow> nat \<Rightarrow> nat option" where
  "arp_pick cache entry i =
     (if age (cache i) = ARP_CACHE_FREE then Some i
      else case entry of
        Some e \<Rightarrow> if age (cache e) > age (cache i) then Some i else entry
      | None \<Rightarrow> if age (cache i) \<ge> 0 then Some i else None)"

definition arp_victim :: "(nat \<Rightarrow> arp_cache_entry) \<Rightarrow> nat option" where
  "arp_victim cache = foldl (arp_pick cache) None [0..<NSTACK_ARP_CACHE_SIZE]"

definition arp_set_age :: "'a arp_st_scheme \<Rightarrow> nat \<Rightarrow> int \<Rightarrow> 'a arp_st_scheme" where
  "arp_set_age s e n = s\<lparr>arp_cache := (arp_cache s)(e := (arp_cache s e)\<lparr>age := n\<rparr>)\<rparr>"

definition arp_cache_insert ::
  "'a arp_st_scheme \<Rightarrow> in_addr_t \<Rightarrow> mac_addr_t \<Rightarrow> int \<Rightarrow> ('a arp_st_scheme \<times> int) option" where
  "arp_cache_insert s ip mac type =
     (if ip = 0 then Some (s, 0)
      else do {
        entry \<leftarrow> arp_cache_get_entry s ip;
        case entry of
          Some e \<Rightarrow> Some (arp_set_age s e type, 0)
        | None \<Rightarrow>
            (case arp_victim (arp_cache s) of
               None \<Rightarrow> Some (s\<lparr>io_errno := ENOMEM\<rparr>, -1)
             | Some e \<Rightarrow> do {
                 t \<leftarrow> (if age (arp_cache s e) \<ge> 0 then RB_REMOVE (arp_cache_head s) (Some e)
                      else Some (arp_cache_head s));
                 let cache = (arp_cache s)(e := \<lparr>ip_addr = ip, haddr = mac, age = type\<rparr>);
                 (t, _) \<leftarrow> RB_INSERT (\<lambda>a. arp_cache_cmp (cache e) (cache a)) t e;
                 Some (s\<lparr>arp_cache := cache, arp_cache_head := t\<rparr>, 0)
               })
      })"

definition arp_cache_remove :: "'a arp_st_scheme \<Rightarrow> in_addr_t \<Rightarrow> 'a arp_st_scheme option" where
  "arp_cache_remove s ip = do {
     entry \<leftarrow> arp_cache_get_entry s ip;
     t \<leftarrow> RB_REMOVE (arp_cache_head s) entry;
     let s = s\<lparr>arp_cache_head := t\<rparr>;
     Some (case entry of Some e \<Rightarrow> arp_set_age s e ARP_CACHE_FREE | None \<Rightarrow> s)
   }"

text \<open>Without a usable entry the address is asked for on the interface of the route.\<close>

definition arp_resolve ::
  "os_sendto \<Rightarrow> 'a arp_st_scheme \<Rightarrow> in_addr_t \<Rightarrow> in_addr_t \<Rightarrow>
   ('a arp_st_scheme \<times> int \<times> mac_addr_t option) option" where
  "arp_resolve sendto s iface ip = do {
     (s, r, route) \<leftarrow> ip_route_find_by_iface s iface;
     case route of
       Some route \<Rightarrow> do {
         (s, r) \<leftarrow> arp_request sendto s (r_iface_handle route) (r_iface route) ip;
         Some (if r = 0 then s\<lparr>io_errno := EHOSTUNREACH\<rparr> else s, -1, None)
       }
     | None \<Rightarrow> Some (s, -1, None)
   }"

text \<open>The result is the return value and, on success, the hardware address copied out.\<close>

definition arp_cache_get_haddr ::
  "os_sendto \<Rightarrow> 'a arp_st_scheme \<Rightarrow> in_addr_t \<Rightarrow> in_addr_t \<Rightarrow>
   ('a arp_st_scheme \<times> int \<times> mac_addr_t option) option" where
  "arp_cache_get_haddr sendto s iface ip = do {
     entry \<leftarrow> arp_cache_get_entry s ip;
     case entry of
       Some e \<Rightarrow>
         (if age (arp_cache s e) \<ge> 0 then Some (s, 0, Some (haddr (arp_cache s e)))
          else arp_resolve sendto s iface ip)
     | None \<Rightarrow> arp_resolve sendto s iface ip
   }"

definition arp_cache_update_task :: "'a arp_st_scheme \<Rightarrow> int \<Rightarrow> 'a arp_st_scheme" where
  "arp_cache_update_task s delta_time =
     foldl (\<lambda>s i.
       if age (arp_cache s i) > ARP_CACHE_AGE_MAX then arp_set_age s i ARP_CACHE_FREE
       else if age (arp_cache s i) \<ge> 0 then arp_set_age s i (age (arp_cache s i) + delta_time)
       else s) s [0..<NSTACK_ARP_CACHE_SIZE]"

section \<open>What is sent\<close>

lemma length_arp_ip_bytes [simp]:
  "length (arp_sha m) = 6 \<Longrightarrow> length (arp_tha m) = 6 \<Longrightarrow> length (arp_ip_bytes m) = 28"
  by (simp add: arp_ip_bytes_def)

lemma arp_ip_at_bytes:
  "length (arp_sha m) = 6 \<Longrightarrow> length (arp_tha m) = 6 \<Longrightarrow> arp_ip_at (arp_ip_bytes m @ rest) = Some m"
  by (simp add: arp_ip_at_def arp_ip_bytes_def bytes16_def bytes32_def nth_append)

lemma arp_ntoh_hton [simp]: "arp_ntoh (arp_hton m) = m"
  using htonl_ntohl [of "arp_spa m"] htonl_ntohl [of "arp_tpa m"]
  by (simp add: arp_ntoh_def arp_hton_def ntohl_def htons_def)

lemma arp_hton_fields [simp]:
  "arp_sha (arp_hton m) = arp_sha m" "arp_tha (arp_hton m) = arp_tha m"
  by (simp_all add: arp_hton_def)

text \<open>A frame that carries an ARP request.\<close>

definition arp_frame :: "mac_addr_t \<Rightarrow> in_addr_t \<Rightarrow> in_addr_t \<Rightarrow> bytes" where
  "arp_frame mac spa tpa = ether_frame mac_broadcast_addr mac ETHER_PROTO_ARP
     (arp_ip_bytes (arp_hton (arp_query (Some mac) spa tpa)))"

lemma arp_request_ok:
  assumes "ether_if s = [eth]" and "length (el_mac eth) = 6"
    and "fst (sendto (io_tx s) (el_fd eth) (arp_frame (el_mac eth) spa tpa)) \<ge> 0"
  shows "arp_request sendto s 0 spa tpa =
    Some (s\<lparr>io_tx := io_tx s @ [(el_fd eth, arp_frame (el_mac eth) spa tpa)]\<rparr>, 0)"
proof -
  let ?m = "arp_hton (arp_query (Some (el_mac eth)) spa tpa)"
  have len: "length (arp_ip_bytes ?m) = 28" using assms(2) by (simp add: arp_query_def)
  have send: "ether_send sendto s 0 mac_broadcast_addr ETHER_PROTO_ARP (arp_ip_bytes ?m) 28 =
    (let (ret, err) = sendto (io_tx s) (el_fd eth) (arp_frame (el_mac eth) spa tpa);
         s' = s\<lparr>io_tx := io_tx s @ [(el_fd eth, arp_frame (el_mac eth) spa tpa)]\<rparr>
     in if ret < 0 then Some (s'\<lparr>io_errno := err\<rparr>, - err) else Some (s', ret))"
    using len by (subst ether_send_ok [OF assms(1)]) (simp_all add: arp_frame_def Let_def)
  show ?thesis
    using assms(1,3)
    by (cases "sendto (io_tx s) (el_fd eth) (arp_frame (el_mac eth) spa tpa)")
      (simp add: arp_request_def ether_handle2addr_def ether_handle2eth_def send Let_def)
qed

section \<open>The cache as an index\<close>

definition arp_index :: "u32 \<Rightarrow> 'a arp_st_scheme \<Rightarrow> nat set \<Rightarrow> bool" where
  "arp_index b s A \<longleftrightarrow> rbi.keyed (\<lambda>a. window_key b (ip_addr (arp_cache s a))) (arp_cache_head s) A \<and>
     (\<forall>a\<in>A. in_window b (ip_addr (arp_cache s a)))"

lemma arp_get_entry_hit:
  assumes "arp_index b s A" and "a \<in> A" and "ip_addr (arp_cache s a) = ip"
  shows "arp_cache_get_entry s ip = Some (Some a)"
  unfolding arp_cache_get_entry_def arp_cache_cmp_def
proof (rule rbi.find_hit)
  show "rbi.keyed (\<lambda>a. window_key b (ip_addr (arp_cache s a))) (arp_cache_head s) A"
    using assms(1) by (simp add: arp_index_def)
  show "by_key (window_key b ip) (\<lambda>a. window_key b (ip_addr (arp_cache s a)))
      (\<lambda>a. sint (ip_addr \<lparr>ip_addr = ip, haddr = replicate 6 0, age = 0\<rparr> - ip_addr (arp_cache s a))) A"
    using by_key_window [of b ip A "\<lambda>a. ip_addr (arp_cache s a)"] assms
    by (auto simp: arp_index_def)
qed (use assms in simp_all)

lemma arp_get_entry_miss:
  assumes "arp_index b s A" and "\<And>a. a \<in> A \<Longrightarrow> ip_addr (arp_cache s a) \<noteq> ip"
  shows "arp_cache_get_entry s ip = Some None"
  unfolding arp_cache_get_entry_def arp_cache_cmp_def
  using assms(1) assms(2) [THEN not_sym]
  by (intro rbi.find_miss [of "\<lambda>a. window_key b (ip_addr (arp_cache s a))" _ A])
    (auto simp: arp_index_def sint_zero_iff)

lemma arp_index_ages [simp]:
  "arp_index b (arp_set_age s e n) A = arp_index b s A"
proof -
  have "(\<lambda>a. ip_addr (arp_cache (arp_set_age s e n) a)) = (\<lambda>a. ip_addr (arp_cache s a))"
    by (auto simp: arp_set_age_def)
  moreover have "arp_cache_head (arp_set_age s e n) = arp_cache_head s" by (simp add: arp_set_age_def)
  ultimately show ?thesis unfolding arp_index_def by metis
qed


lemma arp_put:
  assumes "rbi.keyed (\<lambda>a. window_key b (ip_addr (cache a))) t A" and "e \<notin> A"
    and "\<forall>a\<in>A. in_window b (ip_addr (cache a))"
    and "in_window b ip" and "\<And>a. a \<in> A \<Longrightarrow> ip_addr (cache a) \<noteq> ip" and "ip_addr x = ip"
  shows "\<exists>t'. RB_INSERT (\<lambda>a. arp_cache_cmp x ((cache(e := x)) a)) t e = Some (t', None) \<and>
    rbi.keyed (\<lambda>a. window_key b (ip_addr ((cache(e := x)) a))) t' (A \<union> {e})"
proof -
  let ?c = "cache(e := x)"
  have same: "?c a = cache a" if "a \<in> A" for a using that assms(2) by auto
  have "rbi.keyed (\<lambda>a. window_key b (ip_addr (?c a))) t A"
    by (rule rbi.keyed_cong [OF assms(1)]) (simp only: same)
  moreover have "by_key (window_key b ip) (\<lambda>a. window_key b (ip_addr (?c a)))
      (\<lambda>a. sint (ip - ip_addr (?c a))) A"
    using assms(3,4) same by (intro by_key_window) auto
  ultimately show ?thesis
    using rbi.insert_key_new [of "\<lambda>a. window_key b (ip_addr (?c a))" t A e
        "\<lambda>a. sint (ip - ip_addr (?c a))"] assms(2,5,6) same
    by (auto simp: arp_cache_cmp_def window_key_eq_iff)
qed

text \<open>\<^verbatim>\<open>RB_REMOVE\<close> of a node that was never in a tree makes the tree empty.\<close>

lemma RB_REMOVE_zero:
  assumes "rb_links h a = rb_zero"
  shows "RB_REMOVE h (Some a) = Some (h\<lparr>rbh_root := None\<rparr>)"
proof -
  have loop: "remove_color_loop (h\<lparr>rbh_root := None\<rparr>) None None = Some (h\<lparr>rbh_root := None\<rparr>, None)"
    by (subst remove_color_loop.simps) simp
  show ?thesis
    using assms by (simp add: RB_REMOVE_def RB_LEFT_def RB_RIGHT_def RB_PARENT_def RB_COLOR_def rb_zero_def
      rb_unlink_def rb_relink_def set_parent_if_def RB_REMOVE_COLOR_def loop)
qed

lemma keyed_empty: "rbi.keyed key (h\<lparr>rbh_root := None\<rparr>) {}"
proof -
  have "rep (h\<lparr>rbh_root := None\<rparr>) Lf" by (simp add: rep_def)
  then show ?thesis
    by (auto simp: rbi.keyed_def rb_holds_def rb_ok_def intro!: exI [of _ "[]"] exI [of _ Lf])
qed

section \<open>The slot that is replaced\<close>

lemma arp_scan:
  assumes "\<forall>i<p. age (c i) = - 1" and "\<forall>i. p \<le> i \<and> i < n \<longrightarrow> age (c i) = - 2 \<or> 0 \<le> age (c i)"
  shows "case foldl (arp_pick c) None [0..<n] of
      None \<Rightarrow> n \<le> p
    | Some v \<Rightarrow> p \<le> v \<and> v < n \<and> (age (c v) = - 2 \<or>
        (\<forall>i. p \<le> i \<and> i < n \<longrightarrow> 0 \<le> age (c v) \<and> age (c v) \<le> age (c i) \<and> (age (c i) = age (c v) \<longrightarrow> v \<le> i)))"
  using assms(2)
proof (induction n)
  case (Suc n)
  then have IH: "case foldl (arp_pick c) None [0..<n] of
      None \<Rightarrow> n \<le> p
    | Some v \<Rightarrow> p \<le> v \<and> v < n \<and> (age (c v) = - 2 \<or>
        (\<forall>i. p \<le> i \<and> i < n \<longrightarrow> 0 \<le> age (c v) \<and> age (c v) \<le> age (c i) \<and> (age (c i) = age (c v) \<longrightarrow> v \<le> i)))"
    by simp
  show ?case
  proof (cases "foldl (arp_pick c) None [0..<n]")
    case None
    with IH have "n \<le> p" by simp
    have step: "foldl (arp_pick c) None [0..<Suc n] = arp_pick c None n" using None by simp
    show ?thesis
      unfolding step using \<open>n \<le> p\<close> assms(1) Suc.prems by (cases "n = p") (auto simp: arp_pick_def le_Suc_eq less_Suc_eq_le dest: le_antisym)
  next
    case (Some v)
    with IH have v: "p \<le> v" "v < n" "age (c v) = - 2 \<or> (\<forall>i. p \<le> i \<and> i < n \<longrightarrow>
        0 \<le> age (c v) \<and> age (c v) \<le> age (c i) \<and> (age (c i) = age (c v) \<longrightarrow> v \<le> i))"
      by auto
    have n: "age (c n) = - 2 \<or> 0 \<le> age (c n)" using Suc.prems v by simp
    have step: "foldl (arp_pick c) None [0..<Suc n] = arp_pick c (Some v) n" using Some by simp
    show ?thesis unfolding step using v n by (auto simp: arp_pick_def less_Suc_eq split: if_splits)
  qed
qed simp

lemma arp_victim_ok:
  assumes "\<forall>i<p. age (c i) = - 1" and "\<forall>i. p \<le> i \<and> i < 50 \<longrightarrow> age (c i) = - 2 \<or> 0 \<le> age (c i)"
    and "p < 50"
  obtains v where "arp_victim c = Some v" "p \<le> v" "v < 50"
    "age (c v) = - 2 \<or> (\<forall>i. p \<le> i \<and> i < 50 \<longrightarrow>
       0 \<le> age (c v) \<and> age (c v) \<le> age (c i) \<and> (age (c i) = age (c v) \<longrightarrow> v \<le> i))"
  using arp_scan [OF assms(1,2)] assms(3) that unfolding arp_victim_def
  by (cases "foldl (arp_pick c) None [0..<50]") auto

section \<open>Insertion\<close>

text \<open>The state after an insertion into slot \<open>v\<close>, with the tree that results.\<close>

definition arp_stored ::
  "'a arp_st_scheme \<Rightarrow> nat \<Rightarrow> in_addr_t \<Rightarrow> mac_addr_t \<Rightarrow> int \<Rightarrow> rb_head \<Rightarrow> 'a arp_st_scheme" where
  "arp_stored s v ip mac type t =
     s\<lparr>arp_cache := (arp_cache s)(v := \<lparr>ip_addr = ip, haddr = mac, age = type\<rparr>), arp_cache_head := t\<rparr>"

text \<open>
  The three ways an insertion of a new address goes: into a slot outside the tree, into a
  slot whose old entry is removed from the tree, and into a slot that was never used, which
  empties the tree.
\<close>

lemma arp_cache_insert_new:
  assumes "arp_index b s A" and "ip \<noteq> 0" and "in_window b ip"
    and "\<And>a. a \<in> A \<Longrightarrow> ip_addr (arp_cache s a) \<noteq> ip" and "arp_victim (arp_cache s) = Some v"
    and "age (arp_cache s v) < 0 \<and> v \<notin> A \<and> A' = A \<or> 0 \<le> age (arp_cache s v) \<and> v \<in> A \<and> A' = A - {v} \<or>
      0 \<le> age (arp_cache s v) \<and> v \<notin> A \<and> rb_links (arp_cache_head s) v = rb_zero \<and> A' = {}"
  shows "\<exists>t. arp_cache_insert s ip mac type = Some (arp_stored s v ip mac type t, 0) \<and>
    arp_index b (arp_stored s v ip mac type t) (A' \<union> {v})"
proof -
  let ?key = "\<lambda>a. window_key b (ip_addr (arp_cache s a))"
  let ?x = "\<lparr>ip_addr = ip, haddr = mac, age = type\<rparr>"
  have k: "rbi.keyed ?key (arp_cache_head s) A" and w: "\<forall>a\<in>A. in_window b (ip_addr (arp_cache s a))"
    using assms(1) by (simp_all add: arp_index_def)
  have sub: "A' \<subseteq> A" "v \<notin> A'" using assms(6) by auto
  obtain t where t: "(if age (arp_cache s v) \<ge> 0 then RB_REMOVE (arp_cache_head s) (Some v)
      else Some (arp_cache_head s)) = Some t" "rbi.keyed ?key t A'"
    using assms(6) k rbi.remove_key [OF k, of v] RB_REMOVE_zero [of "arp_cache_head s" v]
      keyed_empty [of ?key "arp_cache_head s"]
    by auto
  obtain t' where t': "RB_INSERT (\<lambda>a. arp_cache_cmp ?x (((arp_cache s)(v := ?x)) a)) t v = Some (t', None)"
    "rbi.keyed (\<lambda>a. window_key b (ip_addr (((arp_cache s)(v := ?x)) a))) t' (A' \<union> {v})"
    using arp_put [OF t(2) sub(2), of ip ?x] w sub(1) assms(3,4) by auto
  have "arp_cache_insert s ip mac type = Some (arp_stored s v ip mac type t', 0)"
    using assms(2,5) arp_get_entry_miss [OF assms(1,4)] t(1) t'(1)
    by (simp add: arp_cache_insert_def arp_stored_def Let_def)
  moreover have "arp_index b (arp_stored s v ip mac type t') (A' \<union> {v})"
    using t'(2) w sub assms(3) by (auto simp: arp_index_def arp_stored_def)
  ultimately show ?thesis by blast
qed

lemma arp_cache_insert_known:
  assumes "arp_index b s A" and "ip \<noteq> 0" and "a \<in> A" and "ip_addr (arp_cache s a) = ip"
  shows "arp_cache_insert s ip mac type = Some (arp_set_age s a type, 0)"
  using assms(2) arp_get_entry_hit [OF assms(1,3,4)] by (simp add: arp_cache_insert_def)

section \<open>The cache as a map\<close>

text \<open>The hardware address that \<^verbatim>\<open>arp_cache_get_haddr\<close> would return without asking.\<close>

definition arp_view :: "'a arp_st_scheme \<Rightarrow> in_addr_t \<rightharpoonup> mac_addr_t" where
  "arp_view s ip =
     (case arp_cache_get_entry s ip of
        Some (Some e) \<Rightarrow> if age (arp_cache s e) \<ge> 0 then Some (haddr (arp_cache s e)) else None
      | _ \<Rightarrow> None)"

lemma arp_set_age_simps [simp]:
  "arp_cache (arp_set_age s e n) i = (if i = e then (arp_cache s e)\<lparr>age := n\<rparr> else arp_cache s i)"
  "arp_cache_head (arp_set_age s e n) = arp_cache_head s"
  "arp_cache_get_entry (arp_set_age s e n) ip = arp_cache_get_entry s ip"
proof -
  have "arp_cache_cmp x (arp_cache (arp_set_age s e n) a) = arp_cache_cmp x (arp_cache s a)" for x a
    by (simp add: arp_set_age_def arp_cache_cmp_def)
  then show "arp_cache_get_entry (arp_set_age s e n) ip = arp_cache_get_entry s ip"
    by (simp add: arp_cache_get_entry_def) (simp add: arp_set_age_def)
qed (simp_all add: arp_set_age_def)

lemma arp_view_hit:
  "arp_index b s A \<Longrightarrow> a \<in> A \<Longrightarrow> ip_addr (arp_cache s a) = ip \<Longrightarrow>
   arp_view s ip = (if age (arp_cache s a) \<ge> 0 then Some (haddr (arp_cache s a)) else None)"
  by (simp add: arp_view_def arp_get_entry_hit)

lemma arp_view_miss:
  "arp_index b s A \<Longrightarrow> (\<And>a. a \<in> A \<Longrightarrow> ip_addr (arp_cache s a) \<noteq> ip) \<Longrightarrow> arp_view s ip = None"
  by (simp add: arp_view_def arp_get_entry_miss)

lemma arp_index_inj:
  "arp_index b s A \<Longrightarrow> a \<in> A \<Longrightarrow> a' \<in> A \<Longrightarrow> ip_addr (arp_cache s a) = ip_addr (arp_cache s a') \<Longrightarrow> a = a'"
  using rbi.keyed_inj [of "\<lambda>a. window_key b (ip_addr (arp_cache s a))" "arp_cache_head s" A a a']
  by (auto simp: arp_index_def)

text \<open>The contents after an insertion into slot \<open>v\<close>.\<close>

lemma arp_view_stored:
  assumes "arp_index b (arp_stored s v ip mac type t) (A' \<union> {v})" and "arp_index b s A"
    and "A' \<subseteq> A - {v}" and "0 \<le> type"
    and "\<And>a. a \<in> A \<Longrightarrow> ip_addr (arp_cache s a) \<noteq> ip"
  shows "arp_view (arp_stored s v ip mac type t) q =
    (if q = ip then Some mac
     else if \<exists>a\<in>A'. ip_addr (arp_cache s a) = q then arp_view s q else None)"
proof -
  let ?s = "arp_stored s v ip mac type t"
  have c: "arp_cache ?s a = arp_cache s a" if "a \<in> A'" for a
    using that assms(3) by (auto simp: arp_stored_def)
  have cv: "arp_cache ?s v = \<lparr>ip_addr = ip, haddr = mac, age = type\<rparr>" by (simp add: arp_stored_def)
  consider "q = ip" | a where "q \<noteq> ip" "a \<in> A'" "ip_addr (arp_cache s a) = q"
    | "q \<noteq> ip" "\<forall>a\<in>A'. ip_addr (arp_cache s a) \<noteq> q"
    by blast
  then show ?thesis
  proof cases
    case 1
    then show ?thesis using arp_view_hit [OF assms(1), of v q] cv assms(4) by simp
  next
    case 2
    then have "arp_view ?s q = arp_view s q"
      using arp_view_hit [OF assms(1), of a q] arp_view_hit [OF assms(2), of a q] c assms(3) by auto
    with 2 show ?thesis by auto
  next
    case 3
    then have "arp_view ?s q = None" using c cv by (intro arp_view_miss [OF assms(1)]) auto
    with 3 show ?thesis by auto
  qed
qed

definition arp_zero :: arp_cache_entry where
  "arp_zero = \<lparr>ip_addr = 0, haddr = replicate 6 0, age = 0\<rparr>"

section \<open>The cache as it starts\<close>

text \<open>
  The array starts as zeroes, so every unused slot looks like a dynamic entry of age 0. Slot
  \<open>v\<close> is the one that the scan picks: it is the first after the static entries and no slot is
  younger. It is either the only slot in the tree, or it was never used.
\<close>

definition arp_boot :: "u32 \<Rightarrow> 'a arp_st_scheme \<Rightarrow> bool" where
  "arp_boot b s \<longleftrightarrow> (\<exists>v\<le>1. (\<forall>i<v. age (arp_cache s i) = ARP_CACHE_STATIC) \<and>
     (\<forall>i. v \<le> i \<and> i < NSTACK_ARP_CACHE_SIZE \<longrightarrow>
        0 \<le> age (arp_cache s v) \<and> age (arp_cache s v) \<le> age (arp_cache s i)) \<and>
     (arp_index b s {v} \<or>
      (\<exists>A\<subseteq>{..<v}. arp_index b s A) \<and> rb_links (arp_cache_head s) v = rb_zero))"

lemma arp_boot_victim:
  assumes "v \<le> 1" and "\<forall>i<v. age (c i) = - 1"
    and "\<forall>i. v \<le> i \<and> i < 50 \<longrightarrow> 0 \<le> age (c v) \<and> age (c v) \<le> age (c i)"
  shows "arp_victim c = Some v"
proof -
  have ages: "\<forall>i. v \<le> i \<and> i < 50 \<longrightarrow> age (c i) = - 2 \<or> 0 \<le> age (c i)"
    using assms(3) by (meson order_trans)
  obtain w where w: "arp_victim c = Some w" "v \<le> w" "w < 50"
    "age (c w) = - 2 \<or> (\<forall>i. v \<le> i \<and> i < 50 \<longrightarrow>
       0 \<le> age (c w) \<and> age (c w) \<le> age (c i) \<and> (age (c i) = age (c w) \<longrightarrow> w \<le> i))"
    by (rule arp_victim_ok [OF assms(2) ages]) (use assms(1) in auto)
  have v: "0 \<le> age (c v)" "age (c v) \<le> age (c w)" using assms(3) w(2,3) by auto
  then have "age (c w) \<le> age (c v) \<and> (age (c v) = age (c w) \<longrightarrow> w \<le> v)" using w(2-4) assms(1) by auto
  with v w(2) have "w = v" by auto
  with w(1) show ?thesis by simp
qed

lemma arp_boot_insert:
  assumes "arp_boot b s" and "ip \<noteq> 0" and "in_window b ip"
  shows "\<exists>s' m. arp_cache_insert s ip mac ARP_CACHE_DYN = Some (s', 0) \<and> arp_boot b s' \<and>
    arp_view s' = [ip \<mapsto> m] \<and> (arp_cache_get_entry s ip = Some None \<longrightarrow> m = mac)"
proof -
  obtain v where v: "v \<le> 1" "\<forall>i<v. age (arp_cache s i) = - 1"
    "\<forall>i. v \<le> i \<and> i < 50 \<longrightarrow> 0 \<le> age (arp_cache s v) \<and> age (arp_cache s v) \<le> age (arp_cache s i)"
    "arp_index b s {v} \<or> (\<exists>A\<subseteq>{..<v}. arp_index b s A) \<and> rb_links (arp_cache_head s) v = rb_zero"
    using assms(1) unfolding arp_boot_def by blast
  obtain A where A: "arp_index b s A" "A = {v} \<or> A \<subseteq> {..<v} \<and> rb_links (arp_cache_head s) v = rb_zero"
    using v(4) by blast
  show ?thesis
  proof (cases "\<exists>a\<in>A. ip_addr (arp_cache s a) = ip")
    case True
    then obtain a where a: "a \<in> A" "ip_addr (arp_cache s a) = ip" by blast
    let ?s = "arp_set_age s a 0"
    have "{..<v} \<subseteq> {0}" using v(1) by auto
    then have "a \<le> v" "A = {a}" using a(1) A(2) by auto
    have "0 \<le> age (arp_cache s i)" if "a < i" "i < 50" for i
      using that v(1) v(3) [rule_format, of i] by linarith
    with \<open>a \<le> v\<close> \<open>A = {a}\<close> have "arp_boot b ?s"
      using v(1,2) A(1) by (auto simp: arp_boot_def intro!: exI [of _ a])
    moreover have "arp_view ?s = [ip \<mapsto> haddr (arp_cache s a)]"
      using arp_view_hit [of b ?s A a ip] arp_view_miss [of b ?s A] A(1) a \<open>A = {a}\<close>
      by (auto simp: fun_eq_iff)
    ultimately show ?thesis
      using arp_cache_insert_known [OF A(1) assms(2) a] arp_get_entry_hit [OF A(1) a] by auto
  next
    case False
    then have new: "ip_addr (arp_cache s a) \<noteq> ip" if "a \<in> A" for a using that by blast
    have vic: "arp_victim (arp_cache s) = Some v" by (rule arp_boot_victim [OF v(1-3)])
    have "0 \<le> age (arp_cache s v)" using v(1,3) by auto
    then obtain t where t: "arp_cache_insert s ip mac 0 = Some (arp_stored s v ip mac 0 t, 0)"
      "arp_index b (arp_stored s v ip mac 0 t) ({} \<union> {v})"
      using arp_cache_insert_new [OF A(1) assms(2,3) new vic, of "{}" mac 0] A(2) by auto
    have "arp_boot b (arp_stored s v ip mac 0 t)"
      using v t(2) by (auto simp: arp_boot_def arp_stored_def intro!: exI [of _ v]) 
    moreover have "arp_view (arp_stored s v ip mac 0 t) = [ip \<mapsto> mac]"
      using arp_view_stored [OF t(2) A(1) _ _ new] by (auto simp: fun_eq_iff)
    ultimately show ?thesis using t(1) by blast
  qed
qed

definition demo_boot_st :: arp_st where
  "demo_boot_st = route_st.extend demo_route_st
     \<lparr>arp_cache = (\<lambda>_. arp_zero), arp_cache_head = \<lparr>rbh_root = None, rb_links = (\<lambda>_. rb_zero)\<rparr>\<rparr>"

lemma arp_boot_start:
  assumes "arp_cache s = (\<lambda>_. arp_zero)" and "rbh_root (arp_cache_head s) = None"
    and "rb_links (arp_cache_head s) 0 = rb_zero"
  shows "arp_boot b s"
proof -
  have "arp_cache_head s = (arp_cache_head s)\<lparr>rbh_root := None\<rparr>" using assms(2) by simp
  then have "arp_index b s {}" by (metis arp_index_def empty_iff keyed_empty)
  then show ?thesis
    using assms(1,3) by (auto simp: arp_boot_def arp_zero_def intro!: exI [of _ 0])
qed

section \<open>Aging and lookup\<close>

definition arp_aged :: "int \<Rightarrow> arp_cache_entry \<Rightarrow> arp_cache_entry" where
  "arp_aged d e = e\<lparr>age := (if age e > ARP_CACHE_AGE_MAX then ARP_CACHE_FREE
     else if age e \<ge> 0 then age e + d else age e)\<rparr>"

lemma arp_cache_update_task_ok:
  "arp_cache_update_task s d = s\<lparr>arp_cache :=
     (\<lambda>i. if i < NSTACK_ARP_CACHE_SIZE then arp_aged d (arp_cache s i) else arp_cache s i)\<rparr>"
proof -
  let ?f = "\<lambda>s i. if age (arp_cache s i) > ARP_CACHE_AGE_MAX then arp_set_age s i ARP_CACHE_FREE
       else if age (arp_cache s i) \<ge> 0 then arp_set_age s i (age (arp_cache s i) + d) else s"
  have "foldl ?f s [0..<n] = s\<lparr>arp_cache := (\<lambda>i. if i < n then arp_aged d (arp_cache s i) else arp_cache s i)\<rparr>"
    for n
    by (induction n) (auto simp: arp_set_age_def arp_aged_def less_Suc_eq fun_eq_iff
        intro!: arp_st.equality)
  then show ?thesis by (simp add: arp_cache_update_task_def)
qed

section \<open>Runs of the cache\<close>

text \<open>
  The events that change the cache once the program runs: a neighbour is seen in an ARP message
  or an IP packet, and the timer reports the seconds since its last report. \<open>arp_run\<close> gives the
  state and the values that the insertions return.
\<close>

datatype arp_ev = Arp_Seen in_addr_t mac_addr_t | Arp_Tick int

fun arp_run :: "arp_ev list \<Rightarrow> 'a arp_st_scheme \<Rightarrow> ('a arp_st_scheme \<times> int list) option" where
  "arp_run [] s = Some (s, [])"
| "arp_run (Arp_Seen ip mac # es) s = do {
     (s, r) \<leftarrow> arp_cache_insert s ip mac ARP_CACHE_DYN;
     (s, rs) \<leftarrow> arp_run es s;
     Some (s, r # rs)
   }"
| "arp_run (Arp_Tick d # es) s = arp_run es (arp_cache_update_task s d)"

text \<open>Neighbours have an address of their own, in one half of the circle of addresses with \<open>own\<close>.\<close>

primrec arp_ev_ok :: "u32 \<Rightarrow> in_addr_t \<Rightarrow> arp_ev \<Rightarrow> bool" where
  "arp_ev_ok b own (Arp_Seen ip mac) \<longleftrightarrow> ip \<noteq> 0 \<and> ip \<noteq> own \<and> in_window b ip"
| "arp_ev_ok b own (Arp_Tick d) \<longleftrightarrow> 0 \<le> d"

primrec arp_ev_time :: "arp_ev \<Rightarrow> int" where
  "arp_ev_time (Arp_Seen ip mac) = 0"
| "arp_ev_time (Arp_Tick d) = d"

definition arp_time :: "arp_ev list \<Rightarrow> int" where
  "arp_time es = (\<Sum>e\<leftarrow>es. arp_ev_time e)"

text \<open>
  Two specifications of what resolves: only the neighbour seen last, and every neighbour that was
  seen. In both an address that resolves keeps its hardware address.
\<close>

primrec arp_one :: "(in_addr_t \<rightharpoonup> mac_addr_t) \<Rightarrow> arp_ev \<Rightarrow> (in_addr_t \<rightharpoonup> mac_addr_t)" where
  "arp_one m (Arp_Seen ip mac) = (if m ip = None then [ip \<mapsto> mac] else m)"
| "arp_one m (Arp_Tick d) = m"

primrec arp_all :: "(in_addr_t \<rightharpoonup> mac_addr_t) \<Rightarrow> arp_ev \<Rightarrow> (in_addr_t \<rightharpoonup> mac_addr_t)" where
  "arp_all m (Arp_Seen ip mac) = (if m ip = None then m(ip \<mapsto> mac) else m)"
| "arp_all m (Arp_Tick d) = m"

lemma arp_time_simps [simp]:
  "arp_time [] = 0" "arp_time (e # es) = arp_ev_time e + arp_time es"
  by (simp_all add: arp_time_def)

lemma arp_time_pos: "\<forall>e\<in>set es. arp_ev_ok b own e \<Longrightarrow> 0 \<le> arp_time es"
proof (induction es)
  case (Cons e es)
  then show ?case by (cases e) auto
qed simp

text \<open>The cache as the program starts, with all bytes zero and an empty tree.\<close>

definition arp_start :: "'a arp_st_scheme \<Rightarrow> bool" where
  "arp_start s \<longleftrightarrow> arp_cache s = (\<lambda>_. arp_zero) \<and> arp_cache_head s = \<lparr>rbh_root = None, rb_links = (\<lambda>_. rb_zero)\<rparr>"

lemma arp_update_fields:
  "arp_cache (arp_cache_update_task s d) i =
     (if i < NSTACK_ARP_CACHE_SIZE then arp_aged d (arp_cache s i) else arp_cache s i)"
  "arp_cache_head (arp_cache_update_task s d) = arp_cache_head s"
  "ip_addr (arp_cache (arp_cache_update_task s d) i) = ip_addr (arp_cache s i)"
  "haddr (arp_cache (arp_cache_update_task s d) i) = haddr (arp_cache s i)"
  "arp_index b (arp_cache_update_task s d) A = arp_index b s A"
  by (simp_all add: arp_cache_update_task_ok arp_index_def arp_aged_def if_distrib cong: if_cong)

lemma arp_aged_simps:
  "age e < 0 \<Longrightarrow> arp_aged d e = e" "0 \<le> age e \<Longrightarrow> age e \<le> 72000 \<Longrightarrow> arp_aged d e = e\<lparr>age := age e + d\<rparr>"
  "72000 < age e \<Longrightarrow> arp_aged d e = e\<lparr>age := - 2\<rparr>"
  by (simp_all add: arp_aged_def)

text \<open>
  The cache while no slot has expired. Slot 0 has the entry of the interface and slot 1 is the
  one that the scan picks; the tree has one of the two.
\<close>

definition arp_early :: "u32 \<Rightarrow> in_addr_t \<Rightarrow> int \<Rightarrow> 'a arp_st_scheme \<Rightarrow> (in_addr_t \<rightharpoonup> mac_addr_t) \<Rightarrow> bool" where
  "arp_early b own T s m \<longleftrightarrow> age (arp_cache s 0) = ARP_CACHE_STATIC \<and>
     (\<forall>i. 1 \<le> i \<and> i < NSTACK_ARP_CACHE_SIZE \<longrightarrow> 0 \<le> age (arp_cache s 1) \<and>
        age (arp_cache s 1) \<le> age (arp_cache s i) \<and> age (arp_cache s i) \<le> T) \<and>
     (m = Map.empty \<and> arp_index b s {0} \<and> ip_addr (arp_cache s 0) = own \<and>
        rb_links (arp_cache_head s) 1 = rb_zero \<or>
      arp_index b s {1} \<and> m = [ip_addr (arp_cache s 1) \<mapsto> haddr (arp_cache s 1)])"

lemma arp_early_view:
  assumes "arp_early b own T s m" shows "arp_view s = m"
proof -
  have a: "age (arp_cache s 0) = - 1" "0 \<le> age (arp_cache s 1)"
    using assms by (auto simp: arp_early_def dest: spec [of _ 1])
  show ?thesis
  proof
    fix q
    show "arp_view s q = m q"
      using assms a arp_view_hit [of b s "{0}" 0 q] arp_view_miss [of b s "{0}" q]
        arp_view_hit [of b s "{1}" 1 q] arp_view_miss [of b s "{1}" q]
      by (cases "ip_addr (arp_cache s 0) = q"; cases "ip_addr (arp_cache s 1) = q")
        (auto simp: arp_early_def)
  qed
qed

lemma arp_early_tick:
  assumes "arp_early b own T s m" and "T \<le> 72000" and "0 \<le> d"
  shows "arp_early b own (T + d) (arp_cache_update_task s d) m"
proof -
  have age: "age (arp_cache (arp_cache_update_task s d) i) = age (arp_cache s i) + d" if "1 \<le> i" "i < 50" for i
  proof -
    have "0 \<le> age (arp_cache s i)" "age (arp_cache s i) \<le> 72000"
      using that assms(1,2) unfolding arp_early_def by (auto dest!: spec [of _ i])
    then show ?thesis using that by (simp add: arp_update_fields arp_aged_simps)
  qed
  have "arp_cache (arp_cache_update_task s d) 0 = arp_cache s 0"
    using assms(1) by (simp add: arp_update_fields arp_early_def arp_aged_simps)
  moreover have "age (arp_cache (arp_cache_update_task s d) 1) = age (arp_cache s 1) + d" by (rule age) auto
  ultimately show ?thesis
    using assms(1,3) age unfolding arp_early_def arp_update_fields(2-5)
    by (auto dest: spec [of _ 1])
qed

lemma arp_early_insert:
  assumes "arp_early b own T s m" and "0 \<le> T" and "ip \<noteq> 0" and "ip \<noteq> own" and "in_window b ip"
  shows "\<exists>s'. arp_cache_insert s ip mac ARP_CACHE_DYN = Some (s', 0) \<and>
    arp_early b own T s' (arp_one m (Arp_Seen ip mac))"
proof -
  have ages: "age (arp_cache s 0) = - 1"
      "\<forall>i. 1 \<le> i \<and> i < 50 \<longrightarrow> 0 \<le> age (arp_cache s 1) \<and> age (arp_cache s 1) \<le> age (arp_cache s i)"
      "\<forall>i. 1 \<le> i \<and> i < 50 \<longrightarrow> age (arp_cache s i) \<le> T"
    using assms(1) by (auto simp: arp_early_def)
  have one: "0 \<le> age (arp_cache s 1)" "1 < (50 :: nat)" using ages(2) by (auto dest: spec [of _ 1])
  then have pos: "0 \<le> age (arp_cache s i)" if "1 \<le> i" "i < 50" for i
    using ages(2) that by (metis order_trans)
  obtain A where A: "arp_index b s A" "m = Map.empty \<and> A = {0} \<and> ip_addr (arp_cache s 0) = own \<and>
        rb_links (arp_cache_head s) 1 = rb_zero \<or>
      A = {1} \<and> m = [ip_addr (arp_cache s 1) \<mapsto> haddr (arp_cache s 1)]"
    using assms(1) by (auto simp: arp_early_def)
  show ?thesis
  proof (cases "m ip = None")
    case False
    then have a: "A = {1}" "ip_addr (arp_cache s 1) = ip" using A(2) by (auto split: if_splits)
    then have "arp_early b own T (arp_set_age s 1 0) m"
      using A ages pos assms(2) by (auto simp: arp_early_def)
    with False show ?thesis using arp_cache_insert_known [OF A(1) assms(3), of 1] a by auto
  next
    case True
    then have new: "ip_addr (arp_cache s a) \<noteq> ip" if "a \<in> A" for a
      using that A(2) assms(4) by (auto split: if_splits)
    have vic: "arp_victim (arp_cache s) = Some 1" by (rule arp_boot_victim) (use ages in auto)
    obtain t where t: "arp_cache_insert s ip mac 0 = Some (arp_stored s 1 ip mac 0 t, 0)"
      "arp_index b (arp_stored s 1 ip mac 0 t) ({} \<union> {1})"
      using arp_cache_insert_new [OF A(1) assms(3,5) new vic, of "{}" mac 0] A(2) one by auto
    have "arp_early b own T (arp_stored s 1 ip mac 0 t) [ip \<mapsto> mac]"
      using t(2) ages(1,3) assms(2) pos by (auto simp: arp_early_def arp_stored_def)
    with True t(1) show ?thesis by auto
  qed
qed

lemma arp_early_run:
  assumes "arp_early b own T s m" and "0 \<le> T" and "\<forall>e\<in>set es. arp_ev_ok b own e"
    and "T + arp_time es \<le> ARP_CACHE_AGE_MAX"
  shows "\<exists>s' rs. arp_run es s = Some (s', rs) \<and> set rs \<subseteq> {0} \<and> arp_view s' = foldl arp_one m es"
  using assms
proof (induction es arbitrary: s m T)
  case Nil
  then show ?case by (simp add: arp_early_view)
next
  case (Cons e es)
  have time: "0 \<le> arp_time es" using Cons.prems(3) by (intro arp_time_pos) auto
  show ?case
  proof (cases e)
    case (Arp_Seen ip mac)
    obtain s1 where "arp_cache_insert s ip mac 0 = Some (s1, 0)" "arp_early b own T s1 (arp_one m e)"
      using arp_early_insert [OF Cons.prems(1,2), of ip mac] Cons.prems(3) Arp_Seen by auto
    then show ?thesis
      using Cons.IH [of T s1 "arp_one m e"] Cons.prems(2-4) Arp_Seen by auto
  next
    case (Arp_Tick d)
    then have "arp_early b own (T + d) (arp_cache_update_task s d) m"
      using Cons.prems time by (intro arp_early_tick) auto
    then show ?thesis
      using Cons.IH [of "T + d" "arp_cache_update_task s d" m] Cons.prems(2-4) Arp_Tick by auto
  qed
qed

text \<open>The entry of the interface goes to slot 0.\<close>

lemma RB_INSERT_empty:
  assumes "rbh_root h = None"
  obtains t where "RB_INSERT c h a = Some (t, None)" "\<And>i. i \<noteq> a \<Longrightarrow> rb_links t i = rb_links h i"
proof -
  let ?l = "\<lparr>rbe_left = None, rbe_right = None, rbe_parent = None, rbe_color = RB_RED\<rparr>"
  let ?h = "h\<lparr>rb_links := (rb_links h)(a := ?l), rbh_root := Some a\<rparr>"
  have "insert_descend c h None None 0 = Some (Inl (None, 0))" by (simp add: insert_descend.simps)
  moreover have "insert_color_loop ?h (Some a) = Some ?h"
    by (subst insert_color_loop.simps) (simp add: RB_PARENT_def rb_is_red_def)
  ultimately have "\<exists>t. RB_INSERT c h a = Some (t, None) \<and> (\<forall>i. i \<noteq> a \<longrightarrow> rb_links t i = rb_links h i)"
    using assms by (simp add: RB_INSERT_def RB_SET_def RB_INSERT_COLOR_def set_color_def upd_link_def)
  then show thesis using that by blast
qed

lemma arp_start_config:
  assumes "arp_start s" and "own \<noteq> 0" and "in_window b own"
  obtains s0 where "arp_cache_insert s own omac ARP_CACHE_STATIC = Some (s0, 0)"
    "arp_cache s0 = (\<lambda>_. arp_zero)(0 := \<lparr>ip_addr = own, haddr = omac, age = ARP_CACHE_STATIC\<rparr>)"
    "arp_index b s0 {0}" "rb_links (arp_cache_head s0) 1 = rb_zero"
proof -
  have h: "arp_cache s = (\<lambda>_. arp_zero)" "arp_cache_head s = \<lparr>rbh_root = None, rb_links = (\<lambda>_. rb_zero)\<rparr>"
    using assms(1) by (auto simp: arp_start_def)
  have idx: "arp_index b s {}"
    using keyed_empty [of _ "\<lparr>rbh_root = None, rb_links = (\<lambda>_. rb_zero)\<rparr>"] h by (simp add: arp_index_def)
  have vic: "arp_victim (arp_cache s) = Some 0" by (rule arp_boot_victim) (auto simp: h arp_zero_def)
  obtain t where t: "arp_cache_insert s own omac (-1) = Some (arp_stored s 0 own omac (-1) t, 0)"
    "arp_index b (arp_stored s 0 own omac (-1) t) ({} \<union> {0})"
    using arp_cache_insert_new [OF idx assms(2,3) _ vic, of "{}" omac "-1"] h by (auto simp: arp_zero_def)
  have "rb_links t 1 = rb_zero"
  proof -
    let ?x = "\<lparr>ip_addr = own, haddr = omac, age = - 1\<rparr>"
    let ?h = "\<lparr>rbh_root = None, rb_links = (\<lambda>_. rb_zero)\<rparr>"
    obtain t' where t': "RB_INSERT (\<lambda>a. arp_cache_cmp ?x (((\<lambda>_. arp_zero)(0 := ?x)) a)) ?h 0 = Some (t', None)"
      "rb_links t' 1 = rb_zero"
      by (rule RB_INSERT_empty [of ?h _ 0]) auto
    have "arp_cache_insert s own omac (-1) = Some (arp_stored s 0 own omac (-1) t', 0)"
      using assms(2) arp_get_entry_miss [OF idx, of own] vic RB_REMOVE_zero [of ?h 0] t'(1)
      by (simp add: arp_cache_insert_def arp_stored_def h Let_def arp_zero_def)
    then have "arp_stored s 0 own omac (-1) t' = arp_stored s 0 own omac (-1) t" using t(1) by simp
    then have "arp_cache_head (arp_stored s 0 own omac (-1) t') = arp_cache_head (arp_stored s 0 own omac (-1) t)"
      by simp
    with t'(2) show ?thesis by (simp add: arp_stored_def)
  qed
  then show thesis using t h by (intro that [of "arp_stored s 0 own omac (-1) t"]) (auto simp: arp_stored_def)
qed

section \<open>A cache whose unused slots are free\<close>

text \<open>
  Slot 0 has the entry of the interface, the other slots in the tree have dynamic entries of
  age at most \<open>T\<close>, and all slots outside the tree are marked free.
\<close>

definition arp_warm :: "u32 \<Rightarrow> in_addr_t \<Rightarrow> int \<Rightarrow> 'a arp_st_scheme \<Rightarrow> nat set \<Rightarrow> bool" where
  "arp_warm b own T s A \<longleftrightarrow> arp_index b s A \<and> 0 \<in> A \<and> A \<subseteq> {..<NSTACK_ARP_CACHE_SIZE} \<and>
     age (arp_cache s 0) = ARP_CACHE_STATIC \<and> ip_addr (arp_cache s 0) = own \<and>
     (\<forall>i. 1 \<le> i \<and> i < NSTACK_ARP_CACHE_SIZE \<longrightarrow>
        (if i \<in> A then 0 \<le> age (arp_cache s i) \<and> age (arp_cache s i) \<le> T
         else age (arp_cache s i) = ARP_CACHE_FREE))"

lemma arp_warm_age:
  assumes "arp_warm b own T s A" and "a \<in> A" and "a \<noteq> 0"
  shows "0 \<le> age (arp_cache s a)" "age (arp_cache s a) \<le> T" "a < 50"
  using assms unfolding arp_warm_def by (auto dest!: spec [of _ a])

lemma arp_warm_none:
  assumes "arp_warm b own T s A"
  shows "arp_view s q = None \<longleftrightarrow> (\<forall>a\<in>A - {0}. ip_addr (arp_cache s a) \<noteq> q)"
proof -
  have idx: "arp_index b s A" and 0: "0 \<in> A" "age (arp_cache s 0) = - 1" using assms by (auto simp: arp_warm_def)
  show ?thesis
  proof (cases "\<exists>a\<in>A. ip_addr (arp_cache s a) = q")
    case True
    then obtain a where a: "a \<in> A" "ip_addr (arp_cache s a) = q" by blast
    then have "(\<forall>a\<in>A - {0}. ip_addr (arp_cache s a) \<noteq> q) \<longleftrightarrow> a = 0"
      using 0(1) arp_index_inj [OF idx] by blast
    then show ?thesis using arp_view_hit [OF idx a] arp_warm_age(1) [OF assms a(1)] 0(2) by auto
  next
    case False
    then show ?thesis using arp_view_miss [OF idx, of q] by auto
  qed
qed

lemma arp_warm_dom:
  assumes "arp_warm b own T s A"
  shows "dom (arp_view s) = (\<lambda>a. ip_addr (arp_cache s a)) ` (A - {0})"
  using arp_warm_none [OF assms] by (auto simp: dom_def)

lemma arp_warm_card:
  assumes "arp_warm b own T s A"
  shows "card A = card (dom (arp_view s)) + 1"
proof -
  have "inj_on (\<lambda>a. ip_addr (arp_cache s a)) (A - {0})"
    using arp_index_inj [of b s A] assms by (auto simp: arp_warm_def inj_on_def)
  then have "card (dom (arp_view s)) = card (A - {0})" by (simp add: arp_warm_dom [OF assms] card_image)
  moreover have "finite A" "0 \<in> A" using assms finite_subset by (auto simp: arp_warm_def)
  ultimately show ?thesis by (metis Suc_eq_plus1 card.remove)
qed

lemma arp_warm_victim:
  assumes "arp_warm b own T s A"
  obtains v where "arp_victim (arp_cache s) = Some v" "1 \<le> v" "v < NSTACK_ARP_CACHE_SIZE"
    "v \<notin> A \<and> age (arp_cache s v) = ARP_CACHE_FREE \<or>
     A = {..<NSTACK_ARP_CACHE_SIZE} \<and> 0 \<le> age (arp_cache s v) \<and>
       (\<forall>i\<in>A - {0}. age (arp_cache s v) \<le> age (arp_cache s i))"
proof -
  have slot: "if i \<in> A then 0 \<le> age (arp_cache s i) else age (arp_cache s i) = - 2" if "1 \<le> i" "i < 50" for i
    using assms that by (auto simp: arp_warm_def)
  have 0: "0 \<in> A" "A \<subseteq> {..<50}" "\<forall>i<1. age (arp_cache s i) = - 1" using assms by (auto simp: arp_warm_def)
  have ages: "\<forall>i. 1 \<le> i \<and> i < 50 \<longrightarrow> age (arp_cache s i) = - 2 \<or> 0 \<le> age (arp_cache s i)"
    using slot by (metis (full_types))
  obtain v where v: "arp_victim (arp_cache s) = Some v" "1 \<le> v" "v < 50"
    "age (arp_cache s v) = - 2 \<or> (\<forall>i. 1 \<le> i \<and> i < 50 \<longrightarrow> 0 \<le> age (arp_cache s v) \<and>
       age (arp_cache s v) \<le> age (arp_cache s i) \<and> (age (arp_cache s i) = age (arp_cache s v) \<longrightarrow> v \<le> i))"
    by (rule arp_victim_ok [OF 0(3) ages]) auto
  show thesis
  proof (cases "age (arp_cache s v) = - 2")
    case True
    then show thesis using v(1-3) slot [OF v(2,3)] by (intro that [of v]) (auto split: if_splits)
  next
    case False
    then have min: "0 \<le> age (arp_cache s v)" "age (arp_cache s v) \<le> age (arp_cache s i)" if "1 \<le> i" "i < 50" for i
      using v(4) that by auto
    have "i \<in> A" if "i < 50" for i
    proof (cases "i = 0")
      case False
      then show ?thesis using min [of i] slot [of i] that by (auto split: if_splits)
    qed (use 0(1) in simp)
    then have "A = {..<50}" using 0(2) by auto
    then show thesis using v(1-3) min by (intro that [of v]) auto
  qed
qed

text \<open>Insertion of an address that does not resolve.\<close>

lemma arp_warm_fresh:
  assumes "arp_warm b own T s A" and "0 \<le> T" and "ip \<noteq> 0" and "ip \<noteq> own" and "in_window b ip"
    and "arp_view s ip = None"
  shows "\<exists>s' A'. arp_cache_insert s ip mac ARP_CACHE_DYN = Some (s', 0) \<and> arp_warm b own T s' A' \<and>
    (if A \<noteq> {..<NSTACK_ARP_CACHE_SIZE} then arp_view s' = (arp_view s)(ip \<mapsto> mac)
     else \<exists>v\<in>A - {0}. (\<forall>i\<in>A - {0}. age (arp_cache s v) \<le> age (arp_cache s i)) \<and>
       arp_view s' = (arp_view s)(ip_addr (arp_cache s v) := None, ip \<mapsto> mac))"
proof -
  have idx: "arp_index b s A" and own: "ip_addr (arp_cache s 0) = own" "0 \<in> A" "A \<subseteq> {..<50}"
    using assms(1) by (auto simp: arp_warm_def)
  have new: "ip_addr (arp_cache s a) \<noteq> ip" if "a \<in> A" for a
    using that assms(4,6) arp_warm_none [OF assms(1), of ip] own(1) by (cases "a = 0") (auto split: if_splits)
  obtain v where v: "arp_victim (arp_cache s) = Some v" "1 \<le> v" "v < 50"
    "v \<notin> A \<and> age (arp_cache s v) = - 2 \<or> A = {..<50} \<and> 0 \<le> age (arp_cache s v) \<and>
       (\<forall>i\<in>A - {0}. age (arp_cache s v) \<le> age (arp_cache s i))"
    using assms(1) by (rule arp_warm_victim)
  obtain t where t: "arp_cache_insert s ip mac 0 = Some (arp_stored s v ip mac 0 t, 0)"
    "arp_index b (arp_stored s v ip mac 0 t) (A - {v} \<union> {v})"
    using arp_cache_insert_new [OF idx assms(3,5) new v(1), of "A - {v}" mac 0] v(3,4) by auto
  let ?s = "arp_stored s v ip mac 0 t"
  have "arp_warm b own T ?s (A - {v} \<union> {v})"
    using t(2) v(2,3) assms(1,2) own by (auto simp: arp_warm_def arp_stored_def)
  moreover have view: "arp_view ?s q = (if q = ip then Some mac
      else if \<exists>a\<in>A - {v}. ip_addr (arp_cache s a) = q then arp_view s q else None)" for q
    using arp_view_stored [OF t(2) idx _ _ new] by simp
  have "arp_view ?s = (arp_view s)(ip \<mapsto> mac)" if "A \<noteq> {..<50}"
  proof
    fix q
    have "A - {v} = A" using that v(4) by auto
    then show "arp_view ?s q = ((arp_view s)(ip \<mapsto> mac)) q"
      using view [of q] arp_view_miss [OF idx, of q] by auto
  qed
  moreover have "arp_view ?s = (arp_view s)(ip_addr (arp_cache s v) := None, ip \<mapsto> mac)" if "A = {..<50}"
  proof
    fix q
    have "v \<in> A" using that v(3) by simp
    then have "(\<exists>a\<in>A - {v}. ip_addr (arp_cache s a) = q) \<longleftrightarrow>
        (\<exists>a\<in>A. ip_addr (arp_cache s a) = q) \<and> q \<noteq> ip_addr (arp_cache s v)"
      using arp_index_inj [OF idx] by blast
    then show "arp_view ?s q = ((arp_view s)(ip_addr (arp_cache s v) := None, ip \<mapsto> mac)) q"
      using view [of q] arp_view_miss [OF idx, of q] by auto
  qed
  ultimately show ?thesis
    using t(1) v(2-4) by (intro exI [of _ ?s] exI [of _ "A - {v} \<union> {v}"]) auto
qed


lemma arp_warm_known:
  assumes "arp_warm b own T s A" and "0 \<le> T" and "ip \<noteq> 0" and "arp_view s ip \<noteq> None"
  shows "\<exists>s'. arp_cache_insert s ip mac ARP_CACHE_DYN = Some (s', 0) \<and> arp_warm b own T s' A \<and>
    arp_view s' = arp_view s"
proof -
  have idx: "arp_index b s A" using assms(1) by (simp add: arp_warm_def)
  obtain a where a: "a \<in> A" "ip_addr (arp_cache s a) = ip" "a \<noteq> 0"
    using assms(4) arp_warm_none [OF assms(1), of ip] by auto
  have "arp_warm b own T (arp_set_age s a 0) A"
    using assms(1,2) a(1,3) by (auto simp: arp_warm_def)
  moreover have "arp_view (arp_set_age s a 0) = arp_view s"
    using arp_warm_age(1) [OF assms(1) a(1,3)] by (auto simp: arp_view_def fun_eq_iff split: option.splits)
  ultimately show ?thesis using arp_cache_insert_known [OF idx assms(3) a(1,2)] by auto
qed

lemma arp_update_get_entry:
  "arp_cache_get_entry (arp_cache_update_task s d) ip = arp_cache_get_entry s ip"
  by (simp add: arp_cache_get_entry_def arp_cache_cmp_def arp_update_fields(2,3))

lemma arp_warm_tick:
  assumes "arp_warm b own T s A" and "T \<le> 72000" and "0 \<le> d"
  shows "arp_warm b own (T + d) (arp_cache_update_task s d) A"
    "arp_view (arp_cache_update_task s d) = arp_view s"
proof -
  have idx: "arp_index b s A" and A: "A \<subseteq> {..<50}" "age (arp_cache s 0) = - 1" "0 \<in> A"
    using assms(1) by (auto simp: arp_warm_def)
  have static: "arp_cache (arp_cache_update_task s d) 0 = arp_cache s 0"
    using A(2) by (simp add: arp_update_fields arp_aged_simps)
  have dyn: "age (arp_cache (arp_cache_update_task s d) i) = age (arp_cache s i) + d" if "i \<in> A" "i \<noteq> 0" for i
    using arp_warm_age [OF assms(1) that] assms(2) by (simp add: arp_update_fields arp_aged_simps)
  have free: "age (arp_cache (arp_cache_update_task s d) i) = - 2" if "i \<notin> A" "1 \<le> i" "i < 50" for i
    using that assms(1) by (simp add: arp_warm_def arp_update_fields arp_aged_simps)
  show "arp_warm b own (T + d) (arp_cache_update_task s d) A"
    using assms(1,3) static dyn free unfolding arp_warm_def arp_update_fields(5) by auto
  show "arp_view (arp_cache_update_task s d) = arp_view s"
  proof
    fix q
    show "arp_view (arp_cache_update_task s d) q = arp_view s q"
    proof (cases "\<exists>a\<in>A. ip_addr (arp_cache s a) = q")
      case True
      then obtain a where a: "a \<in> A" "ip_addr (arp_cache s a) = q" by blast
      then show ?thesis
        using arp_get_entry_hit [OF idx a] static dyn [of a] arp_warm_age(1) [OF assms(1), of a] assms(3)
        by (cases "a = 0") (auto simp: arp_view_def arp_update_get_entry arp_update_fields(4))
    next
      case False
      then show ?thesis
        using arp_get_entry_miss [OF idx, of q] by (auto simp: arp_view_def arp_update_get_entry)
    qed
  qed
qed

lemma arp_all_mono: "dom m \<subseteq> dom (foldl arp_all m es)"
proof (induction es arbitrary: m)
  case (Cons e es)
  have "dom m \<subseteq> dom (arp_all m e)" by (cases e) auto
  then show ?case using Cons.IH [of "arp_all m e"] by auto
qed simp

lemma arp_all_finite: "finite (dom m) \<Longrightarrow> finite (dom (foldl arp_all m es))"
proof (induction es arbitrary: m)
  case (Cons e es)
  have "finite (dom (arp_all m e))" using Cons.prems by (cases e) auto
  then show ?case using Cons.IH by simp
qed simp

lemma arp_warm_run:
  assumes "arp_warm b own T s A" and "0 \<le> T" and "\<forall>e\<in>set es. arp_ev_ok b own e"
    and "T + arp_time es \<le> ARP_CACHE_AGE_MAX" and "card (dom (foldl arp_all (arp_view s) es)) < NSTACK_ARP_CACHE_SIZE"
  shows "\<exists>s' rs A'. arp_run es s = Some (s', rs) \<and> set rs \<subseteq> {0} \<and> arp_warm b own (T + arp_time es) s' A' \<and>
    arp_view s' = foldl arp_all (arp_view s) es"
  using assms
proof (induction es arbitrary: s T A)
  case Nil
  then show ?case by auto
next
  case (Cons e es)
  have time: "0 \<le> arp_time es" using Cons.prems(3) by (intro arp_time_pos) auto
  have fin: "finite (dom (arp_view s))"
    using arp_warm_dom [OF Cons.prems(1)] Cons.prems(1) finite_subset [of A "{..<50}"] by (auto simp: arp_warm_def)
  show ?case
  proof (cases e)
    case (Arp_Seen ip mac)
    then have ok: "ip \<noteq> 0" "ip \<noteq> own" "in_window b ip" using Cons.prems(3) by auto
    have "\<exists>s1 A1. arp_cache_insert s ip mac 0 = Some (s1, 0) \<and> arp_warm b own T s1 A1 \<and>
      arp_view s1 = arp_all (arp_view s) e"
    proof (cases "arp_view s ip = None")
      case True
      have "card (dom ((arp_view s)(ip \<mapsto> mac))) \<le> card (dom (foldl arp_all (arp_view s) (e # es)))"
        using arp_all_mono [of "arp_all (arp_view s) e" es] True Arp_Seen fin
        by (intro card_mono arp_all_finite) auto
      moreover have "card (dom ((arp_view s)(ip \<mapsto> mac))) = card A"
        using arp_warm_card [OF Cons.prems(1)] True fin by (auto simp: domIff)
      ultimately have "A \<noteq> {..<50}" using Cons.prems(5) by auto
      then show ?thesis
        using arp_warm_fresh [OF Cons.prems(1,2) ok True, of mac] True Arp_Seen by auto
    next
      case False
      then show ?thesis using arp_warm_known [OF Cons.prems(1,2) ok(1) False, of mac] Arp_Seen by auto
    qed
    then obtain s1 A1 where s1: "arp_cache_insert s ip mac 0 = Some (s1, 0)" "arp_warm b own T s1 A1"
      "arp_view s1 = arp_all (arp_view s) e"
      by blast
    show ?thesis
      using Cons.IH [OF s1(2)] Cons.prems(2-5) s1(1,3) Arp_Seen by fastforce
  next
    case (Arp_Tick d)
    then have d: "0 \<le> d" "T \<le> 72000" using Cons.prems(3,4) time by auto
    show ?thesis
      using Cons.IH [OF arp_warm_tick(1) [OF Cons.prems(1) d(2,1)]] Cons.prems(2-5) Arp_Tick d
        arp_warm_tick(2) [OF Cons.prems(1) d(2,1)]
      by (auto simp: add.assoc)
  qed
qed

text \<open>Two ticks, the first of more than the maximal age, mark the slots that were never used as free.\<close>

lemma arp_warm_up:
  assumes "arp_cache s0 = (\<lambda>_. arp_zero)(0 := \<lparr>ip_addr = own, haddr = omac, age = ARP_CACHE_STATIC\<rparr>)"
    and "arp_index b s0 {0}" and "ARP_CACHE_AGE_MAX < d"
  shows "arp_warm b own 0 (arp_cache_update_task (arp_cache_update_task s0 d) d') {0}"
proof -
  let ?s = "arp_cache_update_task (arp_cache_update_task s0 d) d'"
  have "age (arp_cache ?s i) = - 2" if "1 \<le> i" "i < 50" for i
    using assms(1,3) that by (simp add: arp_update_fields arp_aged_def arp_zero_def)
  moreover have "arp_cache ?s 0 = arp_cache s0 0" using assms(1) by (simp add: arp_update_fields arp_aged_simps)
  ultimately show ?thesis
    using assms(1,2) by (auto simp: arp_warm_def arp_update_fields(5))
qed

text \<open>The seconds since an address was last seen.\<close>

definition arp_age :: "'a arp_st_scheme \<Rightarrow> in_addr_t \<Rightarrow> int" where
  "arp_age s ip =
     (case arp_cache_get_entry s ip of Some (Some e) \<Rightarrow> age (arp_cache s e) | _ \<Rightarrow> ARP_CACHE_FREE)"

lemma arp_warm_replaces:
  assumes "arp_warm b own T s A" and "0 \<le> T" and "ip \<noteq> 0" and "ip \<noteq> own" and "in_window b ip"
    and "arp_view s ip = None" and "card (dom (arp_view s)) = 49"
  shows "\<exists>s' old. arp_cache_insert s ip mac ARP_CACHE_DYN = Some (s', 0) \<and> old \<in> dom (arp_view s) \<and>
    (\<forall>q\<in>dom (arp_view s). arp_age s old \<le> arp_age s q) \<and>
    arp_view s' = (arp_view s)(old := None, ip \<mapsto> mac)"
proof -
  have idx: "arp_index b s A" and A: "A \<subseteq> {..<50}" using assms(1) by (auto simp: arp_warm_def)
  have "card A = card {..<50 :: nat}" using arp_warm_card [OF assms(1)] assms(7) by simp
  then have full: "A = {..<50}" using A by (intro card_subset_eq) auto
  obtain s' v where v: "arp_cache_insert s ip mac 0 = Some (s', 0)" "v \<in> A - {0}"
    "\<forall>i\<in>A - {0}. age (arp_cache s v) \<le> age (arp_cache s i)"
    "arp_view s' = (arp_view s)(ip_addr (arp_cache s v) := None, ip \<mapsto> mac)"
    using arp_warm_fresh [OF assms(1-6), of mac] full by (simp only: simp_thms if_False) blast
  have age: "arp_age s (ip_addr (arp_cache s i)) = age (arp_cache s i)" if "i \<in> A" for i
    using arp_get_entry_hit [OF idx that refl] by (simp add: arp_age_def)
  show ?thesis
    using v age by (intro exI [of _ s'] exI [of _ "ip_addr (arp_cache s v)"]) (auto simp: arp_warm_dom [OF assms(1)])
qed



lemma demo_boot_start: "arp_start demo_boot_st"
  by (simp add: arp_start_def demo_boot_st_def route_st.defs)


text \<open>Forty-nine neighbours.\<close>

definition demo_many :: "arp_ev list" where
  "demo_many = map (\<lambda>i. Arp_Seen (0x0a000100 + of_nat i) [2, 0, 0, 0, 1, of_nat i]) [2..<51]"

lemma arp_all_dom: "dom (foldl arp_all m es) = dom m \<union> {ip. \<exists>mac. Arp_Seen ip mac \<in> set es}"
proof (induction es arbitrary: m)
  case (Cons e es)
  have "dom (arp_all m e) = dom m \<union> {ip. \<exists>mac. e = Arp_Seen ip mac}" by (cases e) auto
  then show ?case using Cons.IH [of "arp_all m e"] by auto
qed simp

lemma arp_all_seen:
  "dom (foldl arp_all Map.empty (map (\<lambda>i. Arp_Seen (f i) (g i)) xs)) = set (map f xs)"
  by (auto simp: arp_all_dom)

lemma demo_many_dom: "dom (foldl arp_all Map.empty demo_many) = set (map (\<lambda>i. 0x0a000100 + of_nat i) [2..<51])"
  unfolding demo_many_def by (rule arp_all_seen)

lemma demo_many_unat: "i < 51 \<Longrightarrow> unat (0x0a000100 + of_nat i :: u32) = 0x0a000100 + i"
  by (simp add: unat_word_ariths unat_of_nat)

lemma demo_many_card: "card (dom (foldl arp_all Map.empty demo_many)) = 49"
proof -
  have "inj_on (\<lambda>i. 0x0a000100 + of_nat i :: u32) {2..<51}"
  proof (rule inj_onI)
    fix i j assume ij: "i \<in> {2..<51 :: nat}" "j \<in> {2..<51}" "0x0a000100 + of_nat i = (0x0a000100 + of_nat j :: u32)"
    then show "i = j" using demo_many_unat [of i] demo_many_unat [of j] by (metis add_left_cancel atLeastLessThan_iff)
  qed
  from card_image [OF this] show ?thesis by (simp only: demo_many_dom set_map set_upt card_atLeastLessThan)
qed


section \<open>Lookup\<close>

lemma arp_get_haddr_hit:
  assumes "arp_view s ip = Some m"
  shows "arp_cache_get_haddr sendto s iface ip = Some (s, 0, Some m)"
  using assms by (auto simp: arp_view_def arp_cache_get_haddr_def split: option.splits if_splits)

lemma arp_get_haddr_ask:
  assumes "arp_view s ip = None" and "arp_cache_get_entry s ip \<noteq> None"
    and "route_table bn bi s R" and "r \<in> R" and "r_iface_handle r = 0"
    and "ether_if s = [eth]" and "length (el_mac eth) = 6"
    and "fst (sendto (io_tx s) (el_fd eth) (arp_frame (el_mac eth) (r_iface r) ip)) \<ge> 0"
  shows "arp_cache_get_haddr sendto s (r_iface r) ip =
    Some (s\<lparr>io_tx := io_tx s @ [(el_fd eth, arp_frame (el_mac eth) (r_iface r) ip)],
            io_errno := EHOSTUNREACH\<rparr>, -1, None)"
proof -
  have "arp_resolve sendto s (r_iface r) ip =
    Some (s\<lparr>io_tx := io_tx s @ [(el_fd eth, arp_frame (el_mac eth) (r_iface r) ip)],
            io_errno := EHOSTUNREACH\<rparr>, -1, None)"
    using ip_route_find_by_iface_ok(1) [OF assms(3,4) refl] assms(5)
      arp_request_ok [OF assms(6,7), of sendto "r_iface r" ip] assms(8)
    by (simp add: arp_resolve_def)
  then show ?thesis
    using assms(1,2) by (auto simp: arp_view_def arp_cache_get_haddr_def split: option.splits if_splits)
qed

text \<open>
  \<^verbatim>\<open>arp_cache_get_haddr\<close> never returns the hardware address of a static entry: the test of
  its age sends an ARP request for the address instead and reports \<^verbatim>\<open>EHOSTUNREACH\<close>.
\<close>

theorem arp_static_asks:
  assumes "arp_index b s A" and "a \<in> A" and "age (arp_cache s a) = ARP_CACHE_STATIC"
    and "route_table bn bi s R" and "r \<in> R" and "r_iface_handle r = 0"
    and "ether_if s = [eth]" and "length (el_mac eth) = 6"
    and "\<And>tx fd f. fst (sendto tx fd f) \<ge> 0"
  shows "arp_cache_get_haddr sendto s (r_iface r) (ip_addr (arp_cache s a)) =
    Some (s\<lparr>io_tx := io_tx s @ [(el_fd eth, arp_frame (el_mac eth) (r_iface r) (ip_addr (arp_cache s a)))],
            io_errno := EHOSTUNREACH\<rparr>, -1, None)"
  using arp_get_entry_hit [OF assms(1,2) refl] arp_view_hit [OF assms(1,2) refl] assms(3)
  by (intro arp_get_haddr_ask [OF _ _ assms(4-8) assms(9)]) auto

text \<open>A tree of one node.\<close>

definition rb_single :: "nat \<Rightarrow> rb_head" where
  "rb_single a = \<lparr>rbh_root = Some a, rb_links = (\<lambda>_. rb_zero)\<rparr>"

lemma keyed_single: "rbi.keyed key (rb_single a) {a}"
proof -
  have "rep (rb_single a) (Nd RB_BLACK Lf a Lf)" by (simp add: rep_def rb_single_def rb_zero_def)
  moreover have "rb_ok (Nd RB_BLACK Lf a Lf)" by (simp add: rb_ok_def)
  ultimately have "rb_holds (rb_single a) [a]" unfolding rb_holds_def by force
  then show ?thesis unfolding rbi.keyed_def by (intro exI [of _ "[a]"]) simp
qed

text \<open>A cache whose only entry is that of the interface, in slot 0.\<close>

definition demo_own :: "int \<Rightarrow> route_st \<Rightarrow> arp_st" where
  "demo_own n s = route_st.extend s
     \<lparr>arp_cache = (\<lambda>_. arp_zero)(0 := \<lparr>ip_addr = 0x0a000002, haddr = [2, 0, 0, 0, 0, 1], age = n\<rparr>),
      arp_cache_head = rb_single 0\<rparr>"

lemma demo_own_index: "arp_index 0 (demo_own n s) {0}"
  by (simp add: demo_own_def arp_index_def keyed_single route_st.defs in_window_def window_key_def)

lemma demo_own_fields [simp]:
  "arp_cache (demo_own n s) 0 = \<lparr>ip_addr = 0x0a000002, haddr = [2, 0, 0, 0, 0, 1], age = n\<rparr>"
  "ether_if (demo_own n s) = ether_if s" "io_tx (demo_own n s) = io_tx s"
  "route_table bn bi (demo_own n s) R = route_table bn bi s R"
  by (simp_all add: demo_own_def route_st.defs route_table_def route_trees_def route_free_def)

theorem arp_static_asks_witness:
  "\<exists>s :: arp_st. age (arp_cache s 0) = - 1 \<and> ip_addr (arp_cache s 0) = 0x0a000002 \<and>
    arp_cache_get_haddr (\<lambda>_ _ f. (int (length f), 0)) s 0x0a000002 0x0a000002 =
      Some (s\<lparr>io_tx := io_tx s @ [(3, arp_frame [2, 0, 0, 0, 0, 1] 0x0a000002 0x0a000002)],
              io_errno := 113\<rparr>, -1, None)"
proof -
  obtain s where s: "route_table 0 0 s {demo_route}"
    "ip_route_update demo_route_st demo_route = Some (s, 0)"
    by (rule demo_table)
  obtain s' where "ip_route_update demo_route_st demo_route = Some (s', 0)" "route_frame demo_route_st s'"
    using ip_route_update_new [of 0 0 demo_route_st "{}" demo_route] ip_route_init_ok
    by (auto simp: demo_route_st_def demo_route_def in_window_def window_key_def)
  then have "route_frame demo_route_st s" using s(2) by simp
  then have eth: "ether_if s = [\<lparr>el_fd = 3, el_mac = [2, 0, 0, 0, 0, 1], el_if_idx = demo_if\<rparr>]"
    by (simp add: route_frame_fields demo_route_st_def)
  show ?thesis
    using arp_static_asks [of 0 "demo_own (- 1) s" "{0}" 0 0 0 "{demo_route}" demo_route
        "\<lparr>el_fd = 3, el_mac = [2, 0, 0, 0, 0, 1], el_if_idx = demo_if\<rparr>" "\<lambda>_ _ f. (int (length f), 0)"] s(1) eth
      demo_own_index [of "- 1" s]
    by (intro exI [of _ "demo_own (- 1) s"]) (simp add: demo_route_def)
qed

text \<open>
  The periodic \<^verbatim>\<open>arp_cache_update\<close> takes no entry out of the tree: an address whose entry
  is within the maximal age resolves as before, and one that is beyond it does not resolve
  any more although its slot, now marked free, is still in the tree.
\<close>

theorem arp_cache_update_correct:
  assumes "arp_index b s A" and "A \<subseteq> {..<NSTACK_ARP_CACHE_SIZE}" and "0 \<le> d" and "a \<in> A"
  shows "arp_index b (arp_cache_update_task s d) A \<and>
    (if age (arp_cache s a) > ARP_CACHE_AGE_MAX
     then arp_view (arp_cache_update_task s d) (ip_addr (arp_cache s a)) = None \<and>
       age (arp_cache (arp_cache_update_task s d) a) = ARP_CACHE_FREE
     else arp_view (arp_cache_update_task s d) (ip_addr (arp_cache s a)) =
       arp_view s (ip_addr (arp_cache s a)))"
proof -
  let ?s = "arp_cache_update_task s d"
  have ip: "ip_addr (arp_cache ?s i) = ip_addr (arp_cache s i)"
    "haddr (arp_cache ?s i) = haddr (arp_cache s i)" for i
    by (simp_all add: arp_cache_update_task_ok arp_aged_def)
  have "arp_cache_head ?s = arp_cache_head s" by (simp add: arp_cache_update_task_ok)
  then have idx: "arp_index b ?s A" using assms(1) by (simp add: arp_index_def ip)
  have "arp_cache ?s a = arp_aged d (arp_cache s a)"
    using assms(2,4) by (auto simp: arp_cache_update_task_ok)
  then show ?thesis
    using idx arp_view_hit [OF idx assms(4) ip(1)] arp_view_hit [OF assms(1,4) refl] ip(2) assms(3)
    by (auto simp: arp_aged_def)
qed

theorem arp_cache_update_correct_witness:
  "arp_view (arp_cache_update_task (demo_own 100 demo_route_st) 10) 0x0a000002 = Some [2, 0, 0, 0, 0, 1] \<and>
   arp_view (arp_cache_update_task (demo_own 72001 demo_route_st) 10) 0x0a000002 = None \<and>
   arp_index 0 (arp_cache_update_task (demo_own 72001 demo_route_st) 10) {0}"
  using arp_cache_update_correct [of 0 "demo_own 100 demo_route_st" "{0}" 10 0]
    arp_cache_update_correct [of 0 "demo_own 72001 demo_route_st" "{0}" 10 0]
    arp_view_hit [OF demo_own_index, of 0 100 demo_route_st] demo_own_index
  by simp

end
