(* ===== verification/Ip_Output.thy ===== *)
theory Ip_Output
  imports Arp Ip_Header Queue_R
begin

text \<open>
  The output path of IP: \<^verbatim>\<open>ip_config\<close>, \<^verbatim>\<open>ip_send\<close> and \<^verbatim>\<open>ip_send_fragments\<close> of \<^verbatim>\<open>src/ip.c\<close> and
  the operations on the queue of deferred packets of \<^verbatim>\<open>src/ip_defer.c\<close>, which wait for ARP
  to resolve the destination. The handler that sends the deferred packets is in \<^verbatim>\<open>Ip_Defer\<close>.
\<close>

record ip_defer =
  df_tries :: int
  df_dst :: in_addr_t
  df_proto :: u8
  df_buf_size :: nat
  df_buf :: bytes

record ip_st = arp_st +
  ip_global_id :: u32
  defer_inhibit :: bool
  ip_defer_queue :: "nat \<Rightarrow> ip_defer"
  q_rd :: nat
  q_wr :: nat

abbreviation (input) NSTACK_IP_DEFER_MAX :: nat where "NSTACK_IP_DEFER_MAX \<equiv> 20"
abbreviation (input) IP_DATA_MAX_BYTES :: nat where "IP_DATA_MAX_BYTES \<equiv> 65515"
abbreviation (input) IP_VHL_DEFAULT :: u8 where "IP_VHL_DEFAULT \<equiv> 0x45"
abbreviation (input) IP_TOS_DEFAULT :: u8 where "IP_TOS_DEFAULT \<equiv> 0"
abbreviation (input) IP_TOFF_DEFAULT :: u16 where "IP_TOFF_DEFAULT \<equiv> 0x4000"
abbreviation (input) IP_TTL_DEFAULT :: u8 where "IP_TTL_DEFAULT \<equiv> 64"
abbreviation (input) IP_FLAGS_MF :: u16 where "IP_FLAGS_MF \<equiv> 0x2000"

section \<open>Configuration\<close>

definition ip_config ::
  "os_sendto \<Rightarrow> 'a arp_st_scheme \<Rightarrow> int \<Rightarrow> in_addr_t \<Rightarrow> in_addr_t \<Rightarrow> mac_addr_t \<Rightarrow>
   ('a arp_st_scheme \<times> int) option" where
  "ip_config sendto s ether_handle ip netmask mac0 = do {
     let route = \<lparr>r_network = ip AND netmask, r_netmask = netmask, r_gw = 0, r_iface = ip,
                  r_iface_handle = ether_handle\<rparr>;
     (s, _, mac) \<leftarrow> ether_handle2addr s ether_handle;
     let mac = (case mac of Some m \<Rightarrow> m | None \<Rightarrow> mac0);
     (s, _) \<leftarrow> arp_cache_insert s ip mac ARP_CACHE_STATIC;
     (s, _) \<leftarrow> ip_route_update s route;
     (s, _) \<leftarrow> arp_gratuitous sendto s ether_handle ip;
     (s, _) \<leftarrow> arp_gratuitous sendto s ether_handle ip;
     (s, _) \<leftarrow> arp_gratuitous sendto s ether_handle ip;
     Some (s, 0)
   }"

section \<open>Fragmentation\<close>

definition ip_off_round :: "size_t \<Rightarrow> size_t" where
  "ip_off_round plen = (plen + 7) AND NOT 7"

definition next_fragment_size :: "size_t \<Rightarrow> size_t \<Rightarrow> size_t \<Rightarrow> size_t" where
  "next_fragment_size bytes hlen mtu =
     (let max = ip_off_round (mtu - hlen - 8) in if bytes < max then bytes else max)"

text \<open>
  The do loop. \<open>payload\<close> is the packet buffer: the header at its start is rewritten for each
  fragment, and the data of the fragment is moved to the place after it.
\<close>

partial_function (option) ip_fragment_loop ::
  "os_sendto \<Rightarrow> int \<Rightarrow> mac_addr_t \<Rightarrow> nat \<Rightarrow> 'a ether_st_scheme \<Rightarrow> bytes \<Rightarrow> ip_hdr \<Rightarrow> nat \<Rightarrow> nat \<Rightarrow>
   int \<Rightarrow> ('a ether_st_scheme \<times> int) option" where
  "ip_fragment_loop sendto ether_handle dst_mac hlen s payload hdr bytes offset retval = do {
     let plen = unat (next_fragment_size (of_nat bytes) (of_nat hlen) (of_nat ETHER_DATA_LEN));
     let bytes = bytes - plen;
     let hdr = hdr\<lparr>ip_len := of_nat (hlen + plen),
                   ip_foff := (if bytes \<noteq> 0 then IP_FLAGS_MF else 0) OR of_nat (offset div 8)\<rparr>;
     net \<leftarrow> ip_hton hdr (drop 20 payload);
     payload \<leftarrow> memcpy_at payload 0 (ip_hdr_bytes net);
     data \<leftarrow> read_at payload (hlen + offset) plen;
     payload \<leftarrow> memcpy_at payload hlen data;
     (s, eret) \<leftarrow> ether_send sendto s ether_handle dst_mac ETHER_PROTO_IPV4 payload
       (unat (ip_len hdr));
     if eret < 0 then Some (s, eret)
     else if bytes > 0
     then ip_fragment_loop sendto ether_handle dst_mac hlen s payload hdr bytes (offset + plen)
       (retval + eret)
     else Some (s, retval + eret)
   }"

text \<open>A buffer shorter than its header makes the byte count wrap and the loop leave the buffer.\<close>

definition ip_send_fragments ::
  "os_sendto \<Rightarrow> 'a ether_st_scheme \<Rightarrow> int \<Rightarrow> mac_addr_t \<Rightarrow> bytes \<Rightarrow> nat \<Rightarrow>
   ('a ether_st_scheme \<times> int) option" where
  "ip_send_fragments sendto s ether_handle dst_mac payload bsize = do {
     net \<leftarrow> ip_hdr_at payload;
     let (hdr, hlen) = ip_ntoh net;
     if bsize < hlen then None
     else ip_fragment_loop sendto ether_handle dst_mac hlen s payload hdr (bsize - hlen) 0 0
   }"

section \<open>Deferred packets\<close>

definition ip_defer_push ::
  "'a ip_st_scheme \<Rightarrow> in_addr_t \<Rightarrow> u8 \<Rightarrow> bytes \<Rightarrow> nat \<Rightarrow> ('a ip_st_scheme \<times> int) option" where
  "ip_defer_push s dst proto buf bsize =
     (let nxt = (q_wr s + 1) mod NSTACK_IP_DEFER_MAX in
      if defer_inhibit s then Some (s, - EALREADY)
      else if nxt = q_rd s then Some (s, - ENOBUFS)
      else if bsize > IP_DATA_MAX_BYTES then Some (s, - EMSGSIZE)
      else do {
        data \<leftarrow> read_at buf 0 bsize;
        let slot = ip_defer_queue s (q_wr s);
        let slot = \<lparr>df_tries = 0, df_dst = dst, df_proto = proto, df_buf_size = bsize,
                    df_buf = data @ drop bsize (df_buf slot)\<rparr>;
        Some (s\<lparr>ip_defer_queue := (ip_defer_queue s)(q_wr s := slot), q_wr := nxt\<rparr>, 0)
      })"

definition ip_defer_peek :: "'a ip_st_scheme \<Rightarrow> nat option" where
  "ip_defer_peek s = (if q_rd s = q_wr s then None else Some (q_rd s))"

definition ip_defer_drop :: "'a ip_st_scheme \<Rightarrow> 'a ip_st_scheme" where
  "ip_defer_drop s =
     (if q_rd s = q_wr s then s else s\<lparr>q_rd := (q_rd s + 1) mod NSTACK_IP_DEFER_MAX\<rparr>)"

section \<open>Sending\<close>

definition ip_hdr_template :: ip_hdr where
  "ip_hdr_template =
     \<lparr>ip_vhl = IP_VHL_DEFAULT, ip_tos = IP_TOS_DEFAULT, ip_len = 0, ip_id = 0,
      ip_foff = IP_TOFF_DEFAULT, ip_ttl = IP_TTL_DEFAULT, ip_proto = 0, ip_csum = 0,
      ip_src = 0, ip_dst = 0\<rparr>"

definition ip_send ::
  "os_sendto \<Rightarrow> 'a ip_st_scheme \<Rightarrow> in_addr_t \<Rightarrow> u8 \<Rightarrow> bytes \<Rightarrow> nat \<Rightarrow>
   ('a ip_st_scheme \<times> int) option" where
  "ip_send sendto s dst proto buf bsize = do {
     let packet_size = 20 + bsize;
     (s, _, route) \<leftarrow> ip_route_find_by_network s dst;
     case route of
       None \<Rightarrow> Some (s\<lparr>io_errno := EHOSTUNREACH\<rparr>, -1)
     | Some route \<Rightarrow> do {
         (s, _, dst_mac) \<leftarrow> arp_cache_get_haddr sendto s (r_iface route) dst;
         case dst_mac of
           None \<Rightarrow>
             (if io_errno s = EHOSTUNREACH then do {
                (s, retval) \<leftarrow> ip_defer_push s dst proto buf bsize;
                if retval = 0 \<or> retval = - EALREADY then Some (s, 0)
                else Some (s\<lparr>io_errno := - retval\<rparr>, -1)
              }
              else Some (s, 0))
         | Some dst_mac \<Rightarrow> do {
             let hdr = ip_hdr_template\<lparr>ip_len := of_nat packet_size, ip_id := ucast (ip_global_id s),
               ip_src := r_iface route, ip_dst := dst, ip_proto := proto\<rparr>;
             let s = s\<lparr>ip_global_id := ip_global_id s + 1\<rparr>;
             data \<leftarrow> read_at buf 0 bsize;
             net \<leftarrow> ip_hton hdr data;
             let packet = ip_hdr_bytes net @ data;
             if bsize \<le> ETHER_DATA_LEN
             then ether_send sendto s (r_iface_handle route) dst_mac ETHER_PROTO_IPV4 packet packet_size
             else do {
               (s, retval) \<leftarrow> ip_send_fragments sendto s (r_iface_handle route) dst_mac packet packet_size;
               if retval < 0 then Some (s\<lparr>io_errno := - retval\<rparr>, -1) else Some (s, retval)
             }
           }
       }
   }"

section \<open>Headers of twenty bytes\<close>

lemma ip_checksum_prefix:
  assumes "n \<le> length xs"
  shows "ip_checksum (xs @ ys) n = ip_checksum xs n"
proof -
  obtain c d where c: "ip_checksum (xs @ ys) n = Some c"
    "unat c = 65535 - ones (word_sum (take n (xs @ ys)))"
    and d: "ip_checksum xs n = Some d" "unat d = 65535 - ones (word_sum (take n xs))"
    using ip_checksum_val [of n "xs @ ys"] ip_checksum_val [of n xs] assms by auto
  then have "unat c = unat d" using assms by simp
  then show ?thesis using c(1) d(1) by (simp add: word_eq_iff_unsigned [where 'a = nat])
qed

text \<open>The header on the wire, and the packet with it.\<close>

definition ip_wire :: "ip_hdr \<Rightarrow> ip_hdr" where
  "ip_wire h = the (ip_hton h [])"

definition ip_packet :: "ip_hdr \<Rightarrow> bytes \<Rightarrow> bytes" where
  "ip_packet h data = ip_hdr_bytes (ip_wire h) @ data"

lemma ip_hton_wire:
  assumes "ip_hdr_hlen h = 20"
  shows "ip_hton h rest = Some (ip_wire h)"
proof -
  have "ip_hton h rest = ip_hton h []"
    using assms ip_checksum_prefix [of 20 "ip_hdr_bytes (ip_hton_fields h)" rest]
    by (simp add: ip_hton_def)
  moreover obtain net where "ip_hton h [] = Some net" using ip_hton_ok [of h "[]"] assms by auto
  ultimately show ?thesis by (simp add: ip_wire_def)
qed

lemma ip_wire_ok:
  assumes "ip_hdr_hlen h = 20"
  shows "ip_checksum (ip_hdr_bytes (ip_wire h)) 20 = Some 0"
    and "ip_ntoh (ip_wire h) = (h\<lparr>ip_csum := ip_csum (ip_wire h)\<rparr>, 20)"
    and "ip_hdr_hlen (ip_wire h) = 20"
proof -
  obtain net where net: "ip_hton h [] = Some net"
    "ip_checksum (ip_hdr_bytes net) (ip_hdr_hlen net) = Some 0"
    "ip_ntoh net = (h\<lparr>ip_csum := ip_csum net\<rparr>, 20)"
    using ip_hton_ok [of h "[]"] assms by auto
  have hlen: "ip_hdr_hlen net = 20"
    using net(1) assms by (auto simp: ip_hton_def Let_def bind_eq_Some_iff)
  show "ip_checksum (ip_hdr_bytes (ip_wire h)) 20 = Some 0"
    "ip_ntoh (ip_wire h) = (h\<lparr>ip_csum := ip_csum (ip_wire h)\<rparr>, 20)" "ip_hdr_hlen (ip_wire h) = 20"
    using net hlen by (simp_all add: ip_wire_def)
qed

lemma length_ip_packet [simp]: "length (ip_packet h data) = 20 + length data"
  by (simp add: ip_packet_def)

section \<open>Fragments\<close>

text \<open>What the loop sends: pieces of 1472 bytes with their offsets in units of eight.\<close>

function ip_pieces :: "nat \<Rightarrow> bytes \<Rightarrow> (u16 \<times> bytes) list" where
  "ip_pieces off d =
     ((if length d > 1472 then IP_FLAGS_MF else 0) OR of_nat (off div 8), take 1472 d) #
     (if length d > 1472 then ip_pieces (off + 1472) (drop 1472 d) else [])"
  by auto
termination by (relation "measure (\<lambda>(off, d). length d)") auto

declare ip_pieces.simps [simp del]

definition ip_piece_hdr :: "ip_hdr \<Rightarrow> u16 \<times> bytes \<Rightarrow> ip_hdr" where
  "ip_piece_hdr h p = h\<lparr>ip_len := of_nat (20 + length (snd p)), ip_foff := fst p\<rparr>"

definition ip_piece_frame :: "mac_addr_t \<Rightarrow> mac_addr_t \<Rightarrow> ip_hdr \<Rightarrow> u16 \<times> bytes \<Rightarrow> bytes" where
  "ip_piece_frame dst_mac mac h p =
     ether_frame dst_mac mac ETHER_PROTO_IPV4 (ip_packet (ip_piece_hdr h p) (snd p))"

lemma next_fragment_size_20:
  assumes "n < 2 ^ 64"
  shows "unat (next_fragment_size (of_nat n) 20 1500) = min n 1472"
proof -
  have "ip_off_round (1500 - 20 - 8) = 1472" by (simp add: ip_off_round_def)
  moreover have "unat (of_nat n :: size_t) = n" using assms by (simp add: unat_of_nat)
  ultimately show ?thesis by (simp add: next_fragment_size_def word_less_nat_alt min_def)
qed

lemma hlen_piece [simp]: "ip_hdr_hlen (ip_piece_hdr h p) = ip_hdr_hlen h"
  by (simp add: ip_piece_hdr_def ip_hdr_hlen_def)

lemma piece_hdr_again [simp]: "ip_piece_hdr (ip_piece_hdr h p) q = ip_piece_hdr h q"
  by (simp add: ip_piece_hdr_def)

lemma concat_pieces: "concat (map snd (ip_pieces off d)) = d"
  by (induction off d rule: ip_pieces.induct) (subst ip_pieces.simps, simp)

lemma pieces_at:
  assumes "i < length (ip_pieces off d)"
  shows "fst (ip_pieces off d ! i) =
      (if i + 1 < length (ip_pieces off d) then IP_FLAGS_MF else 0) OR of_nat ((off + 1472 * i) div 8)"
    and "length (concat (map snd (take i (ip_pieces off d)))) = 1472 * i"
    and "length (snd (ip_pieces off d ! i)) \<le> 1472"
    and "i + 1 < length (ip_pieces off d) \<Longrightarrow> length (snd (ip_pieces off d ! i)) = 1472"
proof -
  have ne: "0 < length (ip_pieces off d)" for off d by (subst ip_pieces.simps) simp
  have "fst (ip_pieces off d ! i) =
      (if i + 1 < length (ip_pieces off d) then IP_FLAGS_MF else 0) OR of_nat ((off + 1472 * i) div 8) \<and>
    length (concat (map snd (take i (ip_pieces off d)))) = 1472 * i \<and>
    length (snd (ip_pieces off d ! i)) \<le> 1472 \<and>
    (i + 1 < length (ip_pieces off d) \<longrightarrow> length (snd (ip_pieces off d ! i)) = 1472)"
    using assms
  proof (induction off d arbitrary: i rule: ip_pieces.induct)
    case (1 off d)
    show ?case
    proof (cases "1472 < length d")
      case True
      then have eq: "ip_pieces off d = (IP_FLAGS_MF OR of_nat (off div 8), take 1472 d) #
          ip_pieces (off + 1472) (drop 1472 d)"
        by (subst ip_pieces.simps) simp
      show ?thesis
      proof (cases i)
        case 0
        then show ?thesis using True ne [of "off + 1472" "drop 1472 d"] by (simp add: eq)
      next
        case (Suc j)
        then show ?thesis using "1.IH" [OF True, of j] "1.prems" True by (simp add: eq algebra_simps)
      qed
    next
      case False
      then have "ip_pieces off d = [(of_nat (off div 8), take 1472 d)]"
        by (subst ip_pieces.simps) simp
      then show ?thesis using "1.prems" by simp
    qed
  qed
  then show "fst (ip_pieces off d ! i) =
      (if i + 1 < length (ip_pieces off d) then IP_FLAGS_MF else 0) OR of_nat ((off + 1472 * i) div 8)"
    "length (concat (map snd (take i (ip_pieces off d)))) = 1472 * i"
    "length (snd (ip_pieces off d ! i)) \<le> 1472"
    "i + 1 < length (ip_pieces off d) \<Longrightarrow> length (snd (ip_pieces off d ! i)) = 1472"
    by simp_all
qed

text \<open>The system accepts every frame.\<close>

definition os_accepts :: "os_sendto \<Rightarrow> bool" where
  "os_accepts sendto \<longleftrightarrow> (\<forall>tx fd f. fst (sendto tx fd f) \<ge> 0)"

definition put_frames :: "(int \<times> bytes) list \<Rightarrow> 'a io_st_scheme \<Rightarrow> 'a io_st_scheme" where
  "put_frames fs s = s\<lparr>io_tx := io_tx s @ fs\<rparr>"

lemma put_frames_simps [simp]:
  "put_frames gs (put_frames fs s) = put_frames (fs @ gs) s"
  "ether_if (put_frames fs e) = ether_if e" "io_tx (put_frames fs s) = io_tx s @ fs"
  by (simp_all add: put_frames_def)

lemma ether_send_accepted:
  assumes "ether_if s = [eth]" and "os_accepts sendto" and "bsize \<le> ETHER_DATA_LEN"
    and "bsize \<le> length buf"
  shows "\<exists>r\<ge>0. ether_send sendto s 0 dst proto buf bsize =
    Some (put_frames [(el_fd eth, ether_frame dst (el_mac eth) proto (take bsize buf))] s, r)"
proof -
  let ?f = "ether_frame dst (el_mac eth) proto (take bsize buf)"
  have "fst (sendto (io_tx s) (el_fd eth) ?f) \<ge> 0" using assms(2) by (simp add: os_accepts_def)
  then show ?thesis
    by (cases "sendto (io_tx s) (el_fd eth) ?f")
      (simp add: ether_send_ok [OF assms(1,3,4)] Let_def put_frames_def)
qed

lemma ip_fragment_loop_step:
  assumes "ether_if s = [eth]" and "os_accepts sendto" and "ip_hdr_hlen hdr = 20"
    and "length payload = 20 + off + length d" and "drop (20 + off) payload = d"
    and "off + length d < 2 ^ 64"
  obtains r payload' where "0 \<le> r"
    and "ip_fragment_loop sendto 0 m 20 s payload hdr (length d) off retval =
      (let p = ((if length d > 1472 then IP_FLAGS_MF else 0) OR of_nat (off div 8), take 1472 d);
           s' = put_frames [(el_fd eth, ip_piece_frame m (el_mac eth) hdr p)] s
       in if 1472 < length d
          then ip_fragment_loop sendto 0 m 20 s' payload' (ip_piece_hdr hdr p) (length d - 1472)
            (off + 1472) (retval + r)
          else Some (s', retval + r))"
    and "length payload' = length payload"
    and "1472 < length d \<Longrightarrow> drop (20 + (off + 1472)) payload' = drop 1472 d"
proof -
  let ?n = "min (length d) 1472"
  let ?p = "((if length d > 1472 then IP_FLAGS_MF else 0) OR of_nat (off div 8), take 1472 d)"
  let ?h = "ip_piece_hdr hdr ?p"
  let ?net = "ip_hdr_bytes (ip_wire ?h)"
  have n: "unat (next_fragment_size (of_nat (length d)) 20 1500) = ?n"
    using assms(6) by (intro next_fragment_size_20) simp
  have h: "hdr\<lparr>ip_len := of_nat (20 + ?n),
      ip_foff := (if length d - ?n \<noteq> 0 then IP_FLAGS_MF else 0) OR of_nat (off div 8)\<rparr> = ?h"
    by (auto simp: ip_piece_hdr_def min_def)
  have "ip_len ?h = of_nat (20 + ?n)" by (simp add: ip_piece_hdr_def min.commute)
  then have len: "unat (ip_len ?h) = 20 + ?n" by (simp add: unat_of_nat min_def del: of_nat_add)
  have net: "ip_hton ?h (drop 20 payload) = Some (ip_wire ?h)"
    using assms(3) by (intro ip_hton_wire) simp
  let ?p1 = "?net @ drop 20 payload"
  have p1: "memcpy_at payload 0 ?net = Some ?p1" using assms(4) by (simp add: memcpy_at_def)
  have d1: "read_at ?p1 (20 + off) ?n = Some (take 1472 d)"
    using assms(4,5) by (simp add: read_at_def add.commute min_def)
  let ?p2 = "?net @ take 1472 d @ drop (20 + ?n) payload"
  have p2: "memcpy_at ?p1 20 (take 1472 d) = Some ?p2"
    using assms(4) by (simp add: memcpy_at_def min_def add.commute)
  have tk: "take (20 + ?n) ?p2 = ip_packet ?h (take 1472 d)" by (simp add: ip_packet_def min_def)
  have fits: "20 + ?n \<le> 1500" "20 + ?n \<le> length ?p2" using assms(4) by (simp_all add: min_def)
  obtain r where r: "0 \<le> r" "ether_send sendto s 0 m ETHER_PROTO_IPV4 ?p2 (20 + ?n) =
      Some (put_frames [(el_fd eth, ip_piece_frame m (el_mac eth) hdr ?p)] s, r)"
    using ether_send_accepted [OF assms(1,2) fits, of m ETHER_PROTO_IPV4]
    unfolding tk ip_piece_frame_def snd_conv by blast
  show thesis
  proof
    show "0 \<le> r" by (rule r(1))
    show "length ?p2 = length payload" using assms(4) by simp
    show "ip_fragment_loop sendto 0 m 20 s payload hdr (length d) off retval =
      (let p = ?p; s' = put_frames [(el_fd eth, ip_piece_frame m (el_mac eth) hdr p)] s
       in if 1472 < length d
          then ip_fragment_loop sendto 0 m 20 s' ?p2 (ip_piece_hdr hdr p) (length d - 1472)
            (off + 1472) (retval + r)
          else Some (s', retval + r))"
      using r(1)
      by (subst ip_fragment_loop.simps, simp only: of_nat_numeral n Let_def h net p1 d1 p2 len r(2)
          Option.bind.bind_lunit prod.case) (cases "1472 < length d"; simp)
    show "drop (20 + (off + 1472)) ?p2 = drop 1472 d" if "1472 < length d"
      using that assms(4) arg_cong [OF assms(5), of "drop 1472"] by (simp add: ac_simps)
  qed
qed

lemma ip_fragment_loop_ok:
  assumes "ether_if s = [eth]" and "os_accepts sendto" and "ip_hdr_hlen hdr = 20"
    and "length payload = 20 + off + length d" and "drop (20 + off) payload = d"
    and "off + length d < 2 ^ 64" and "0 \<le> retval"
  shows "\<exists>r\<ge>0. ip_fragment_loop sendto 0 m 20 s payload hdr (length d) off retval =
    Some (put_frames (map (\<lambda>p. (el_fd eth, ip_piece_frame m (el_mac eth) hdr p)) (ip_pieces off d)) s, r)"
  using assms
proof (induction off d arbitrary: s payload hdr retval rule: ip_pieces.induct)
  case (1 off d)
  let ?p = "((if length d > 1472 then IP_FLAGS_MF else 0) OR of_nat (off div 8), take 1472 d)"
  let ?s = "put_frames [(el_fd eth, ip_piece_frame m (el_mac eth) hdr ?p)] s"
  obtain r payload' where r: "0 \<le> r"
    "ip_fragment_loop sendto 0 m 20 s payload hdr (length d) off retval =
      (let p = ?p; s' = put_frames [(el_fd eth, ip_piece_frame m (el_mac eth) hdr p)] s
       in if 1472 < length d
          then ip_fragment_loop sendto 0 m 20 s' payload' (ip_piece_hdr hdr p) (length d - 1472)
            (off + 1472) (retval + r)
          else Some (s', retval + r))"
    "length payload' = length payload"
    "1472 < length d \<Longrightarrow> drop (20 + (off + 1472)) payload' = drop 1472 d"
    using ip_fragment_loop_step [OF 1(2-7)] by blast
  have again: "ip_piece_frame m (el_mac eth) (ip_piece_hdr hdr p) q = ip_piece_frame m (el_mac eth) hdr q" for p q
    by (simp add: ip_piece_frame_def)
  show ?case
  proof (cases "1472 < length d")
    case True
    have "\<exists>r'\<ge>0. ip_fragment_loop sendto 0 m 20 ?s payload' (ip_piece_hdr hdr ?p)
        (length (drop 1472 d)) (off + 1472) (retval + r) =
      Some (put_frames (map (\<lambda>p. (el_fd eth, ip_piece_frame m (el_mac eth) (ip_piece_hdr hdr ?p) p))
        (ip_pieces (off + 1472) (drop 1472 d))) ?s, r')"
      using True 1(2-8) r by (intro "1.IH") simp_all
    moreover have "ip_pieces off d = ?p # ip_pieces (off + 1472) (drop 1472 d)"
      using True by (subst ip_pieces.simps) simp
    ultimately show ?thesis using True r(2) by (simp add: again Let_def)
  next
    case False
    then have "ip_pieces off d = [?p]" by (subst ip_pieces.simps) simp
    then show ?thesis using False r(1,2) "1.prems"(7) by (simp add: Let_def)
  qed
qed

lemma ip_send_fragments_ok:
  assumes "ether_if s = [eth]" and "os_accepts sendto" and "ip_hdr_hlen hdr = 20"
    and "length d < 2 ^ 63"
  shows "\<exists>r\<ge>0. ip_send_fragments sendto s 0 m (ip_packet hdr d) (20 + length d) =
    Some (put_frames (map (\<lambda>p. (el_fd eth, ip_piece_frame m (el_mac eth)
        (hdr\<lparr>ip_csum := ip_csum (ip_wire hdr)\<rparr>) p)) (ip_pieces 0 d)) s, r)"
proof -
  let ?h = "hdr\<lparr>ip_csum := ip_csum (ip_wire hdr)\<rparr>"
  have "\<exists>r\<ge>0. ip_fragment_loop sendto 0 m 20 s (ip_packet hdr d) ?h (length d) 0 0 =
      Some (put_frames (map (\<lambda>p. (el_fd eth, ip_piece_frame m (el_mac eth) ?h p)) (ip_pieces 0 d)) s, r)"
    using assms by (intro ip_fragment_loop_ok) (simp_all add: ip_packet_def)
  then show ?thesis
    using ip_wire_ok(2) [OF assms(3)]
    by (simp add: ip_send_fragments_def ip_packet_def)
qed

text \<open>The checksum field of the header that \<^verbatim>\<open>ip_hton\<close> reads does not matter.\<close>

lemma ip_wire_csum [simp]: "ip_wire (h\<lparr>ip_csum := c\<rparr>) = ip_wire h"
  by (simp add: ip_wire_def ip_hton_def ip_hton_fields_def)

lemma ip_piece_frame_csum [simp]: "ip_piece_frame m m' (h\<lparr>ip_csum := c\<rparr>) p = ip_piece_frame m m' h p"
proof -
  have "ip_piece_hdr (h\<lparr>ip_csum := c\<rparr>) p = (ip_piece_hdr h p)\<lparr>ip_csum := c\<rparr>" by (simp add: ip_piece_hdr_def)
  then show ?thesis by (simp add: ip_piece_frame_def ip_packet_def)
qed

section \<open>Sending\<close>

text \<open>The header of an outgoing packet.\<close>

definition ip_out_hdr :: "in_addr_t \<Rightarrow> in_addr_t \<Rightarrow> u8 \<Rightarrow> u32 \<Rightarrow> nat \<Rightarrow> ip_hdr" where
  "ip_out_hdr src dst proto gid n = ip_hdr_template\<lparr>ip_len := of_nat (20 + n), ip_id := ucast gid,
     ip_src := src, ip_dst := dst, ip_proto := proto\<rparr>"

lemma ip_out_hdr_fields [simp]:
  "ip_hdr_hlen (ip_out_hdr src dst proto gid n) = 20"
  "ip_src (ip_out_hdr src dst proto gid n) = src" "ip_dst (ip_out_hdr src dst proto gid n) = dst"
  "ip_proto (ip_out_hdr src dst proto gid n) = proto" "ip_vhl (ip_out_hdr src dst proto gid n) = 0x45"
  "ip_len (ip_out_hdr src dst proto gid n) = of_nat (20 + n)"
  "ip_foff (ip_out_hdr src dst proto gid n) = IP_TOFF_DEFAULT" "ip_tos (ip_out_hdr src dst proto gid n) = 0"
  by (simp_all add: ip_out_hdr_def ip_hdr_template_def ip_hdr_hlen_def)

definition bump_id :: "'a ip_st_scheme \<Rightarrow> 'a ip_st_scheme" where
  "bump_id s = s\<lparr>ip_global_id := ip_global_id s + 1\<rparr>"

lemma bump_id_fields [simp]:
  "ether_if (bump_id s) = ether_if s" "io_tx (bump_id s) = io_tx s"
  by (simp_all add: bump_id_def)

text \<open>A destination with a route on the interface and a known hardware address.\<close>

definition reachable :: "'a arp_st_scheme \<Rightarrow> in_addr_t \<Rightarrow> ip_route \<Rightarrow> mac_addr_t \<Rightarrow> bool" where
  "reachable s dst r m \<longleftrightarrow> ip_route_find_by_network s dst = Some (s, 0, Some r) \<and>
     r_iface_handle r = 0 \<and> arp_view s dst = Some m"

lemma ip_send_resolved:
  assumes "reachable s dst r m" and "bsize \<le> length buf"
  shows "ip_send sendto s dst proto buf bsize =
    (let h = ip_out_hdr (r_iface r) dst proto (ip_global_id s) bsize;
         packet = ip_packet h (take bsize buf)
     in if bsize \<le> ETHER_DATA_LEN
        then ether_send sendto (bump_id s) 0 m ETHER_PROTO_IPV4 packet (20 + bsize)
        else do {
          (s, retval) \<leftarrow> ip_send_fragments sendto (bump_id s) 0 m packet (20 + bsize);
          if retval < 0 then Some (s\<lparr>io_errno := - retval\<rparr>, -1) else Some (s, retval)
        })"
proof -
  let ?h = "ip_out_hdr (r_iface r) dst proto (ip_global_id s) bsize"
  have "ip_hton ?h rest = Some (ip_wire ?h)" for rest by (simp add: ip_hton_wire)
  then show ?thesis
    using assms arp_get_haddr_hit [of s dst m sendto "r_iface r"]
    by (simp add: ip_send_def reachable_def read_at_def Let_def bump_id_def ip_packet_def
        ip_out_hdr_def)
qed

lemma ether_receive_accepted:
  assumes "ether_if peer = [eth']" and "length dst = 6" and "length src = 6" and "src \<noteq> el_mac eth'"
    and "length data \<le> ETHER_DATA_LEN" and "length fb = ETHER_MAXLEN"
  shows "\<exists>pad. ether_receive peer (RxFrame (ether_frame dst src proto data) # rx) fb 0 ETHER_MAXLEN =
    Some (peer, rx, int (length (data @ pad)), Some (\<lparr>h_dst = dst, h_src = src, h_proto = proto\<rparr>, data @ pad))"
proof -
  obtain payload where p: "ether_receive peer (RxFrame (ether_frame dst src proto data) # rx) fb 0 ETHER_MAXLEN =
      Some (peer, rx, int (length payload), Some (\<lparr>h_dst = dst, h_src = src, h_proto = proto\<rparr>, payload))"
    "take (length data) payload = data"
    using ether_receive_frame [OF assms, of ETHER_MAXLEN proto rx] by auto
  then have "payload = data @ drop (length data) payload" by (metis append_take_drop_id)
  with p(1) show ?thesis by metis
qed

text \<open>What the receiver of a packet finds in it.\<close>

definition ip_carries :: "bytes \<Rightarrow> ip_hdr \<Rightarrow> bytes \<Rightarrow> bool" where
  "ip_carries payload h data \<longleftrightarrow> (\<exists>net. ip_hdr_at payload = Some net \<and>
     ip_checksum payload 20 = Some 0 \<and> ip_ntoh net = (h\<lparr>ip_csum := ip_csum net\<rparr>, 20) \<and>
     take (length data) (drop 20 payload) = data)"

lemma ip_packet_carries:
  assumes "ip_hdr_hlen h = 20"
  shows "ip_carries (ip_packet h data @ pad) h data"
  using ip_wire_ok [OF assms] ip_checksum_prefix [of 20 "ip_hdr_bytes (ip_wire h)" "data @ pad"]
  by (simp add: ip_carries_def ip_packet_def)

text \<open>
  C19: \<^verbatim>\<open>ip_send\<close> of at most 1480 bytes to a destination that has a route and a known hardware
  address hands one frame to the system, and the station with that hardware address receives
  a packet with a valid checksum, the interface's address as source, the given destination,
  protocol, length and data.
\<close>

theorem ip_send_delivers:
  assumes "ether_if s = [eth]" and "ether_if peer = [eth']"
    and "length (el_mac eth) = 6" and "length m = 6" and "el_mac eth \<noteq> el_mac eth'"
    and "reachable s dst r m" and "os_accepts sendto"
    and "bsize \<le> 1480" and "bsize \<le> length buf" and "length fb = ETHER_MAXLEN"
  shows "\<exists>s' rv frame payload. ip_send sendto s dst proto buf bsize = Some (s', rv) \<and> 0 \<le> rv \<and>
    io_tx s' = io_tx s @ [(el_fd eth, frame)] \<and> ip_global_id s' = ip_global_id s + 1 \<and>
    ether_receive peer [RxFrame frame] fb 0 ETHER_MAXLEN =
      Some (peer, [], int (length payload),
        Some (\<lparr>h_dst = m, h_src = el_mac eth, h_proto = ETHER_PROTO_IPV4\<rparr>, payload)) \<and>
    ip_carries payload (ip_out_hdr (r_iface r) dst proto (ip_global_id s) bsize) (take bsize buf)"
proof -
  let ?h = "ip_out_hdr (r_iface r) dst proto (ip_global_id s) bsize"
  let ?p = "ip_packet ?h (take bsize buf)"
  let ?f = "ether_frame m (el_mac eth) ETHER_PROTO_IPV4 ?p"
  have tk: "take (20 + bsize) ?p = ?p" "length ?p = 20 + bsize" using assms(9) by simp_all
  have "\<exists>rv\<ge>0. ether_send sendto (bump_id s) 0 m ETHER_PROTO_IPV4 ?p (20 + bsize) =
      Some (put_frames [(el_fd eth, ?f)] (bump_id s), rv)"
    using ether_send_accepted [of "bump_id s" eth sendto "20 + bsize" ?p m ETHER_PROTO_IPV4] assms tk by simp
  then obtain rv where rv: "0 \<le> rv" "ip_send sendto s dst proto buf bsize =
      Some (put_frames [(el_fd eth, ?f)] (bump_id s), rv)"
    using ip_send_resolved [OF assms(6,9), of sendto proto] assms(8) by (auto simp: Let_def)
  obtain pad where "ether_receive peer [RxFrame ?f] fb 0 ETHER_MAXLEN =
      Some (peer, [], int (length (?p @ pad)),
        Some (\<lparr>h_dst = m, h_src = el_mac eth, h_proto = ETHER_PROTO_IPV4\<rparr>, ?p @ pad))"
    using ether_receive_accepted [OF assms(2,4,3,5), of ?p fb ETHER_PROTO_IPV4 "[]"] assms(8,10) tk(2)
    by auto
  moreover have "ip_carries (?p @ pad) ?h (take bsize buf)" by (rule ip_packet_carries) simp
  ultimately show ?thesis
    using rv by (intro exI [of _ "put_frames [(el_fd eth, ?f)] (bump_id s)"] exI [of _ rv]
        exI [of _ ?f] exI [of _ "?p @ pad"]) (simp add: put_frames_def bump_id_def)
qed

text \<open>The flag and the offset in the field \<^verbatim>\<open>ip_foff\<close>.\<close>

lemma foff_bits:
  fixes f :: u16
  assumes "k < 8192" and "f = 0 \<or> f = IP_FLAGS_MF"
  shows "unat ((f OR of_nat k) AND 0x1fff) = k"
    and "(f OR of_nat k) AND IP_FLAGS_MF \<noteq> 0 \<longleftrightarrow> f = IP_FLAGS_MF"
proof -
  have m: "(0x1fff :: u16) = mask 13" by (simp add: mask_eq_exp_minus_1)
  have "(f OR of_nat k) AND 0x1fff = take_bit 13 f OR take_bit 13 (of_nat k :: u16)"
    unfolding m by (simp flip: take_bit_eq_mask)
  also have "take_bit 13 f = 0" using assms(2) by (auto simp: take_bit_eq_mod)
  also have "take_bit 13 (of_nat k :: u16) = of_nat k"
    using assms(1) by (simp add: take_bit_of_nat take_bit_nat_eq_self)
  finally have "(f OR of_nat k) AND 0x1fff = of_nat k" by simp
  then show "unat ((f OR of_nat k) AND 0x1fff) = k" using assms(1) by (simp add: unat_of_nat)
  have "take_bit 13 (of_nat k :: u16) = of_nat k"
    using assms(1) by (simp add: take_bit_of_nat take_bit_nat_eq_self)
  then have bit13: "\<not> bit (of_nat k :: u16) 13" by (metis bit_take_bit_iff less_irrefl)
  have p: "(0x2000 :: u16) = 2 ^ 13" by simp
  have mf: "(x AND 0x2000 \<noteq> 0) = bit x 13" for x :: u16
    unfolding p by (simp only: and_exp_eq_0_iff_not_bit not_not)
  have "bit (0x2000 :: u16) 13" unfolding p by (simp only: bit_exp_iff) simp
  with bit13 have "bit (f OR of_nat k) 13 \<longleftrightarrow> f = IP_FLAGS_MF"
    using assms(2) by (elim disjE) (simp_all only: bit_or_iff, simp_all)
  then show "(f OR of_nat k) AND IP_FLAGS_MF \<noteq> 0 \<longleftrightarrow> f = IP_FLAGS_MF" by (simp only: mf)
qed
text \<open>The fragments of a packet with the header \<open>h\<close>, each with its own header.\<close>

definition ip_fragments :: "ip_hdr \<Rightarrow> bytes \<Rightarrow> (ip_hdr \<times> bytes) list" where
  "ip_fragments h d = map (\<lambda>p. (ip_piece_hdr h p, snd p)) (ip_pieces 0 d)"

lemma ip_fragments_at:
  assumes "ip_hdr_hlen h = 20" and "length d \<le> IP_DATA_MAX_BYTES" and "i < length (ip_fragments h d)"
    and "ip_fragments h d ! i = (g, e)"
  shows "ip_carries (ip_packet g e) g e" and "length (ip_packet g e) \<le> ETHER_DATA_LEN"
    and "g = h\<lparr>ip_len := of_nat (20 + length e), ip_foff := ip_foff g\<rparr>"
    and "8 * unat (ip_foff g AND 0x1fff) = length (concat (map snd (take i (ip_fragments h d))))"
    and "ip_foff g AND IP_FLAGS_MF \<noteq> 0 \<longleftrightarrow> i + 1 < length (ip_fragments h d)"
proof -
  let ?ps = "ip_pieces 0 d"
  have i: "i < length ?ps" and g: "g = ip_piece_hdr h (?ps ! i)" and e: "e = snd (?ps ! i)"
    using assms(3,4) by (auto simp: ip_fragments_def)
  note at = pieces_at [OF i]
  have snds: "map snd (take i (ip_fragments h d)) = map snd (take i ?ps)"
    by (simp add: ip_fragments_def take_map)
  have "map snd ?ps = map snd (take i ?ps) @ map snd (drop i ?ps)"
    by (metis append_take_drop_id map_append)
  then have "length (concat (map snd (take i ?ps))) \<le> length (concat (map snd ?ps))" by simp
  then have "1472 * i \<le> 65515" using at(2) assms(2) by (simp add: concat_pieces)
  then have k: "184 * i < 8192" by simp
  have foff: "ip_foff g = (if i + 1 < length ?ps then IP_FLAGS_MF else 0) OR of_nat (184 * i)"
    using at(1) g by (simp add: ip_piece_hdr_def)
  show "ip_carries (ip_packet g e) g e"
    using ip_packet_carries [of g e "[]"] assms(1) g by simp
  show "length (ip_packet g e) \<le> ETHER_DATA_LEN" using at(3) e by simp
  show "g = h\<lparr>ip_len := of_nat (20 + length e), ip_foff := ip_foff g\<rparr>" by (simp add: g e ip_piece_hdr_def)
  show "8 * unat (ip_foff g AND 0x1fff) = length (concat (map snd (take i (ip_fragments h d))))"
    using foff_bits(1) [OF k, of "if i + 1 < length ?ps then IP_FLAGS_MF else 0"] at(2)
    unfolding foff snds by simp
  show "ip_foff g AND IP_FLAGS_MF \<noteq> 0 \<longleftrightarrow> i + 1 < length (ip_fragments h d)"
    using foff_bits(2) [OF k, of "if i + 1 < length ?ps then IP_FLAGS_MF else 0"]
    unfolding foff by (simp add: ip_fragments_def)
qed

text \<open>
  C20: \<^verbatim>\<open>ip_send\<close> of more than 1500 bytes sends fragments whose data, put together in order, is
  what was given. Every fragment has a valid checksum and the addresses, protocol and
  identification of the packet, fits into a frame, carries the offset at which its data
  belongs, and all but the last announce more fragments.
\<close>

theorem ip_send_fragments_correct:
  assumes "ether_if s = [eth]" and "reachable s dst r m" and "os_accepts sendto"
    and "ETHER_DATA_LEN < bsize" and "bsize \<le> IP_DATA_MAX_BYTES" and "bsize \<le> length buf"
  shows "\<exists>s' rv ps. ip_send sendto s dst proto buf bsize = Some (s', rv) \<and> 0 \<le> rv \<and>
    io_tx s' = io_tx s @ map (\<lambda>(h, d). (el_fd eth, ether_frame m (el_mac eth) ETHER_PROTO_IPV4 (ip_packet h d))) ps \<and>
    concat (map snd ps) = take bsize buf \<and>
    (\<forall>i<length ps. case ps ! i of (h, d) \<Rightarrow>
       ip_carries (ip_packet h d) h d \<and> length (ip_packet h d) \<le> ETHER_DATA_LEN \<and>
       h = (ip_out_hdr (r_iface r) dst proto (ip_global_id s) bsize)
         \<lparr>ip_len := of_nat (20 + length d), ip_foff := ip_foff h\<rparr> \<and>
       8 * unat (ip_foff h AND 0x1fff) = length (concat (map snd (take i ps))) \<and>
       (ip_foff h AND IP_FLAGS_MF \<noteq> 0 \<longleftrightarrow> i + 1 < length ps))"
proof -
  let ?h = "ip_out_hdr (r_iface r) dst proto (ip_global_id s) bsize"
  let ?d = "take bsize buf"
  let ?s = "put_frames (map (\<lambda>p. (el_fd eth, ip_piece_frame m (el_mac eth) ?h p)) (ip_pieces 0 ?d)) (bump_id s)"
  have len: "length ?d = bsize" using assms(6) by simp
  have "\<exists>rv\<ge>0. ip_send_fragments sendto (bump_id s) 0 m (ip_packet ?h ?d) (20 + length ?d) = Some (?s, rv)"
    using ip_send_fragments_ok [of "bump_id s" eth sendto ?h ?d m] assms(1,3,5) len by simp
  then obtain rv where rv: "0 \<le> rv" "ip_send sendto s dst proto buf bsize = Some (?s, rv)"
    using ip_send_resolved [OF assms(2,6), of sendto proto] assms(4) len by (auto simp: Let_def)
  have tx: "io_tx ?s = io_tx s @ map (\<lambda>(h, d). (el_fd eth, ether_frame m (el_mac eth) ETHER_PROTO_IPV4
      (ip_packet h d))) (ip_fragments ?h ?d)"
    by (simp add: ip_fragments_def ip_piece_frame_def)
  have all: "concat (map snd (ip_fragments ?h ?d)) = ?d"
    using concat_pieces [of 0 ?d] by (simp add: ip_fragments_def comp_def)
  have each: "case ip_fragments ?h ?d ! i of (h, e) \<Rightarrow>
       ip_carries (ip_packet h e) h e \<and> length (ip_packet h e) \<le> ETHER_DATA_LEN \<and>
       h = ?h\<lparr>ip_len := of_nat (20 + length e), ip_foff := ip_foff h\<rparr> \<and>
       8 * unat (ip_foff h AND 0x1fff) = length (concat (map snd (take i (ip_fragments ?h ?d)))) \<and>
       (ip_foff h AND IP_FLAGS_MF \<noteq> 0 \<longleftrightarrow> i + 1 < length (ip_fragments ?h ?d))"
    if i: "i < length (ip_fragments ?h ?d)" for i
  proof (cases "ip_fragments ?h ?d ! i")
    case (Pair g e)
    have d: "ip_hdr_hlen ?h = 20" "length ?d \<le> IP_DATA_MAX_BYTES" using assms(5) len by simp_all
    show ?thesis
      unfolding Pair prod.case
      by (intro conjI) (fact ip_fragments_at [OF d i Pair])+
  qed
  show ?thesis
    by (intro exI [of _ ?s] exI [of _ rv] exI [of _ "ip_fragments ?h ?d"] conjI allI impI)
      (fact rv(2) rv(1) tx all each)+
qed

text \<open>
  \<^verbatim>\<open>ip_send\<close> chooses between one frame and fragments by the size of the data and not of the
  packet. Data of 1481 to 1500 bytes takes the first way although the packet does not fit
  into a frame, so the call fails with \<^verbatim>\<open>-EMSGSIZE\<close> and nothing is sent.
\<close>

theorem ip_send_gap:
  assumes "reachable s dst r m" and "1480 < bsize" and "bsize \<le> ETHER_DATA_LEN"
    and "bsize \<le> length buf"
  shows "ip_send sendto s dst proto buf bsize = Some (bump_id s, - EMSGSIZE)"
  using ip_send_resolved [OF assms(1,4), of sendto proto] assms(2,3)
  by (simp add: ether_send_def frame_size_large)

section \<open>Examples\<close>

lemma demo_net:
  obtains s :: route_st where "route_table 0 0 s {demo_route}"
    "ether_if s = [\<lparr>el_fd = 3, el_mac = [2, 0, 0, 0, 0, 1], el_if_idx = demo_if\<rparr>]" "io_tx s = []"
proof -
  have "\<exists>s'. ip_route_update demo_route_st demo_route = Some (s', 0) \<and> route_frame demo_route_st s' \<and>
      route_table 0 0 s' ({} \<union> {demo_route})"
    by (rule ip_route_update_new)
      (auto simp: demo_route_st_def demo_route_def in_window_def window_key_def intro!: ip_route_init_ok)
  then obtain s' where "route_frame demo_route_st s'" "route_table 0 0 s' {demo_route}" by auto
  then show thesis
    using that [of s'] route_frame_fields [of demo_route_st s'] by (simp add: demo_route_st_def)
qed

text \<open>One neighbour is known, and nothing is deferred.\<close>

definition demo_stack :: "route_st \<Rightarrow> ip_st" where
  "demo_stack s = arp_st.extend (route_st.extend s
     \<lparr>arp_cache = (\<lambda>_. arp_zero)(0 := \<lparr>ip_addr = 0x0a000001, haddr = [2, 0, 0, 0, 0, 9], age = 0\<rparr>),
      arp_cache_head = rb_single 0\<rparr>)
     \<lparr>ip_global_id = 7, defer_inhibit = False,
      ip_defer_queue = (\<lambda>_. \<lparr>df_tries = 0, df_dst = 0, df_proto = 0, df_buf_size = 0, df_buf = []\<rparr>),
      q_rd = 0, q_wr = 0\<rparr>"

lemma demo_stack_fields [simp]:
  "arp_cache (demo_stack s) 0 = \<lparr>ip_addr = 0x0a000001, haddr = [2, 0, 0, 0, 0, 9], age = 0\<rparr>"
  "ether_if (demo_stack s) = ether_if s" "io_tx (demo_stack s) = io_tx s"
  "route_table bn bi (demo_stack s) R = route_table bn bi s R" "ip_global_id (demo_stack s) = 7"
  "defer_inhibit (demo_stack s) = False" "q_rd (demo_stack s) = 0" "q_wr (demo_stack s) = 0"
  by (simp_all add: demo_stack_def route_st.defs arp_st.defs route_table_def route_trees_def route_free_def)

lemma demo_stack_index: "arp_index 0 (demo_stack s) {0}"
  by (simp add: demo_stack_def arp_index_def keyed_single route_st.defs arp_st.defs in_window_def window_key_def)

lemma demo_reachable:
  assumes "route_table 0 0 s {demo_route}"
  shows "reachable (demo_stack s) 0x0a000001 demo_route [2, 0, 0, 0, 0, 9]"
proof -
  have "\<exists>r\<in>{demo_route}. ip_route_find_by_network (demo_stack s) 0x0a000001 = Some (demo_stack s, 0, Some r) \<and>
      route_matches 0x0a000001 r \<and> (\<forall>q\<in>{demo_route}. route_matches 0x0a000001 q \<longrightarrow>
        window_key 0 (r_network r) \<le> window_key 0 (r_network q))"
    by (rule ip_route_find_masked [of 0 0])
      (use assms in \<open>auto simp: demo_route_def route_matches_def\<close>)
  then show ?thesis
    using arp_view_hit [of 0 "demo_stack s" "{0}" 0 "0x0a000001"] demo_stack_index
    by (simp add: reachable_def demo_route_def)
qed

theorem ip_send_delivers_witness:
  "\<exists>s :: ip_st. \<exists>s' rv frame payload.
    ip_send (\<lambda>_ _ f. (int (length f), 0)) s 0x0a000001 17 [1, 2, 3] 3 = Some (s', rv) \<and>
    io_tx s' = io_tx s @ [(3, frame)] \<and>
    ether_receive (demo_eth 9) [RxFrame frame] (replicate 1514 0) 0 1514 =
      Some (demo_eth 9, [], int (length payload),
        Some (\<lparr>h_dst = [2, 0, 0, 0, 0, 9], h_src = [2, 0, 0, 0, 0, 1], h_proto = 0x0800\<rparr>, payload)) \<and>
    ip_carries payload (ip_out_hdr 0x0a000002 0x0a000001 17 7 3) [1, 2, 3]"
proof -
  obtain s :: route_st where s: "route_table 0 0 s {demo_route}"
    "ether_if s = [\<lparr>el_fd = 3, el_mac = [2, 0, 0, 0, 0, 1], el_if_idx = demo_if\<rparr>]" "io_tx s = []"
    by (rule demo_net)
  have "r_iface demo_route = 0x0a000002" by (simp add: demo_route_def)
  with ip_send_delivers [of "demo_stack s" "\<lparr>el_fd = 3, el_mac = [2, 0, 0, 0, 0, 1], el_if_idx = demo_if\<rparr>" "demo_eth 9"
      "\<lparr>el_fd = 3, el_mac = [2, 0, 0, 0, 0, 9], el_if_idx = demo_if\<rparr>" "[2, 0, 0, 0, 0, 9]" "0x0a000001" demo_route
      "\<lambda>_ _ f. (int (length f), 0)" 3 "[1, 2, 3]" "replicate 1514 0" 17]
    s demo_reachable [OF s(1)]
  show ?thesis
    by - (rule exI [of _ "demo_stack s"], simp add: demo_eth_def os_accepts_def, blast)
qed

theorem ip_send_gap_witness:
  "\<exists>s :: ip_st. ip_send (\<lambda>_ _ f. (int (length f), 0)) s 0x0a000001 17 (replicate 1490 0) 1490 =
    Some (bump_id s, -90)"
proof -
  obtain s :: route_st where s: "route_table 0 0 s {demo_route}" using demo_net by blast
  show ?thesis
    using ip_send_gap [OF demo_reachable [OF s], of 1490 "replicate 1490 0"] by auto
qed

theorem ip_send_fragments_correct_witness:
  "\<exists>s :: ip_st. \<exists>s' rv ps. ip_send (\<lambda>_ _ f. (int (length f), 0)) s 0x0a000001 17 (replicate 4000 5) 4000 =
      Some (s', rv) \<and> io_tx s' = map (\<lambda>(h, d). (3, ether_frame [2, 0, 0, 0, 0, 9] [2, 0, 0, 0, 0, 1] 0x0800
        (ip_packet h d))) ps \<and> concat (map snd ps) = replicate 4000 5"
proof -
  obtain s :: route_st where s: "route_table 0 0 s {demo_route}"
    "ether_if s = [\<lparr>el_fd = 3, el_mac = [2, 0, 0, 0, 0, 1], el_if_idx = demo_if\<rparr>]" "io_tx s = []"
    by (rule demo_net)
  then show ?thesis
    using ip_send_fragments_correct [of "demo_stack s" "\<lparr>el_fd = 3, el_mac = [2, 0, 0, 0, 0, 1], el_if_idx = demo_if\<rparr>" "0x0a000001"
        demo_route "[2, 0, 0, 0, 0, 9]" "\<lambda>_ _ f. (int (length f), 0)" 4000 "replicate 4000 5" 17]
      demo_reachable [OF s(1)]
    by - (rule exI [of _ "demo_stack s"], simp add: os_accepts_def, blast)
qed

section \<open>A working interface\<close>

text \<open>What the lookup of a route depends on.\<close>

definition route_choice :: "'a route_st_scheme \<Rightarrow> in_addr_t \<Rightarrow> ip_route option" where
  "route_choice s addr = (case ip_route_find_by_network s addr of Some (_, _, ro) \<Rightarrow> ro | None \<Rightarrow> None)"

lemma route_choice_cong:
  "rib s' = rib s \<Longrightarrow> rib_routetree s' = rib_routetree s \<Longrightarrow> route_choice s' addr = route_choice s addr"
  unfolding route_choice_def ip_route_find_by_network_def
  by (auto split: option.splits Option.bind_splits)

lemma route_choice_ok:
  assumes "route_table bn bi s R"
  shows "ip_route_find_by_network s addr = (case route_choice s addr of
      Some r \<Rightarrow> Some (s, 0, Some r) | None \<Rightarrow> Some (s\<lparr>io_errno := ENOENT\<rparr>, -1, None))"
    and "route_choice s addr = Some r \<Longrightarrow> r \<in> R"
proof -
  have "(\<exists>r\<in>R. ip_route_find_by_network s addr = Some (s, 0, Some r)) \<or>
      ip_route_find_by_network s addr = Some (s\<lparr>io_errno := ENOENT\<rparr>, -1, None)"
    using ip_route_find_exact [OF assms, of _ addr] ip_route_find_masked [OF assms, of addr]
      ip_route_find_none [OF assms, of addr]
    by metis
  then show "ip_route_find_by_network s addr = (case route_choice s addr of
      Some r \<Rightarrow> Some (s, 0, Some r) | None \<Rightarrow> Some (s\<lparr>io_errno := ENOENT\<rparr>, -1, None))"
    and "route_choice s addr = Some r \<Longrightarrow> r \<in> R"
    by (auto simp: route_choice_def)
qed

text \<open>
  The interface is up, every route of the table goes over it, and the tree of the ARP cache
  is in order.
\<close>

definition stack_ok :: "ether_linux \<Rightarrow> 'a arp_st_scheme \<Rightarrow> bool" where
  "stack_ok eth s \<longleftrightarrow> ether_if s = [eth] \<and> length (el_mac eth) = 6 \<and>
     (\<exists>bn bi R. route_table bn bi s R \<and> (\<forall>r\<in>R. r_iface_handle r = 0)) \<and>
     (\<exists>b A. arp_index b s A)"

text \<open>What an output operation may change.\<close>

definition tx_frame :: "'a ip_st_scheme \<Rightarrow> 'a ip_st_scheme \<Rightarrow> bool" where
  "tx_frame s s' \<longleftrightarrow> (\<exists>e tx g. s' = s\<lparr>io_errno := e, io_tx := tx, ip_global_id := g\<rparr>)"

lemma tx_frame_fields:
  assumes "tx_frame s s'"
  shows "ether_if s' = ether_if s" "rib s' = rib s" "rib_routetree s' = rib_routetree s"
    "rib_sourcetree s' = rib_sourcetree s" "rib_freelist s' = rib_freelist s"
    "arp_cache s' = arp_cache s" "arp_cache_head s' = arp_cache_head s"
    "defer_inhibit s' = defer_inhibit s" "ip_defer_queue s' = ip_defer_queue s"
    "q_rd s' = q_rd s" "q_wr s' = q_wr s" "ip_st.more s' = ip_st.more s"
  using assms by (auto simp: tx_frame_def)

lemma put_frames_fields [simp]:
  "rib (put_frames fs r) = rib r" "rib_routetree (put_frames fs r) = rib_routetree r"
  "arp_cache (put_frames fs a) = arp_cache a" "arp_cache_head (put_frames fs a) = arp_cache_head a"
  "defer_inhibit (put_frames fs s) = defer_inhibit s" "q_rd (put_frames fs s) = q_rd s"
  "q_wr (put_frames fs s) = q_wr s" "ip_defer_queue (put_frames fs s) = ip_defer_queue s"
  "ip_global_id (put_frames fs s) = ip_global_id s"
  by (simp_all add: put_frames_def)

lemma tx_frame_intros [simp, intro]:
  "tx_frame s s" "tx_frame s s' \<Longrightarrow> tx_frame s (s'\<lparr>io_errno := e'\<rparr>)"
  "tx_frame s s' \<Longrightarrow> tx_frame s (put_frames fs s')" "tx_frame s s' \<Longrightarrow> tx_frame s (bump_id s')"
proof -
  show "tx_frame s s"
    unfolding tx_frame_def
    by (intro exI [of _ "io_errno s"] exI [of _ "io_tx s"] exI [of _ "ip_global_id s"]) simp
  assume "tx_frame s s'"
  then obtain e tx g where s': "s' = s\<lparr>io_errno := e, io_tx := tx, ip_global_id := g\<rparr>"
    unfolding tx_frame_def by blast
  show "tx_frame s (s'\<lparr>io_errno := e'\<rparr>)"
    unfolding tx_frame_def s' by (intro exI [of _ e'] exI [of _ tx] exI [of _ g]) simp
  show "tx_frame s (put_frames fs s')"
    unfolding tx_frame_def s' put_frames_def by (intro exI [of _ e] exI [of _ "tx @ fs"] exI [of _ g]) simp
  show "tx_frame s (bump_id s')"
    unfolding tx_frame_def s' bump_id_def by (intro exI [of _ e] exI [of _ tx] exI [of _ "g + 1"]) simp
qed

lemma stack_ok_cong:
  assumes "ether_if s' = ether_if s" "rib s' = rib s" "rib_routetree s' = rib_routetree s"
    "rib_sourcetree s' = rib_sourcetree s" "rib_freelist s' = rib_freelist s"
    "arp_cache s' = arp_cache s" "arp_cache_head s' = arp_cache_head s"
  shows "stack_ok eth s' = stack_ok eth s"
  using assms by (simp add: stack_ok_def route_table_def route_trees_def route_free_def arp_index_def)

lemma arp_view_cong:
  "arp_cache s' = arp_cache s \<Longrightarrow> arp_cache_head s' = arp_cache_head s \<Longrightarrow> arp_view s' = arp_view s"
  by (rule ext) (simp add: arp_view_def arp_cache_get_entry_def split: option.split)

lemma arp_index_finds: "arp_index b s A \<Longrightarrow> arp_cache_get_entry s ip \<noteq> None"
  using arp_get_entry_hit [of b s A _ ip] arp_get_entry_miss [of b s A ip] by blast

text \<open>Sending to an address that is not resolved: an ARP request, then the queue.\<close>

lemma ip_send_unresolved:
  assumes "stack_ok eth s" and "route_choice s dst = Some r" and "arp_view s dst = None"
    and "os_accepts sendto"
  shows "ip_send sendto s dst proto buf bsize =
    (let s1 = (put_frames [(el_fd eth, arp_frame (el_mac eth) (r_iface r) dst)] s)\<lparr>io_errno := EHOSTUNREACH\<rparr>
     in do {
       (s2, retval) \<leftarrow> ip_defer_push s1 dst proto buf bsize;
       if retval = 0 \<or> retval = - EALREADY then Some (s2, 0) else Some (s2\<lparr>io_errno := - retval\<rparr>, -1)
     })"
proof -
  obtain bn bi R where R: "route_table bn bi s R" "\<forall>r\<in>R. r_iface_handle r = 0"
    using assms(1) by (auto simp: stack_ok_def)
  note r = route_choice_ok [OF R(1), of dst] 
  have "r \<in> R" "r_iface_handle r = 0" using r(2) assms(2) R(2) by auto
  moreover have "ether_if s = [eth]" "length (el_mac eth) = 6" using assms(1) by (simp_all add: stack_ok_def)
  moreover have "arp_cache_get_entry s dst \<noteq> None"
    using assms(1) arp_index_finds by (auto simp: stack_ok_def)
  ultimately have "arp_cache_get_haddr sendto s (r_iface r) dst =
      Some (s\<lparr>io_tx := io_tx s @ [(el_fd eth, arp_frame (el_mac eth) (r_iface r) dst)],
              io_errno := EHOSTUNREACH\<rparr>, -1, None)"
    using assms(3,4) by (intro arp_get_haddr_ask [OF _ _ R(1)]) (simp_all add: os_accepts_def)
  then show ?thesis
    using r(1) assms(2) by (simp add: ip_send_def put_frames_def Let_def)
qed

lemma reachable_iff:
  assumes "stack_ok eth s"
  shows "reachable s dst r m \<longleftrightarrow> route_choice s dst = Some r \<and> arp_view s dst = Some m"
proof -
  obtain bn bi R where R: "route_table bn bi s R" "\<forall>r\<in>R. r_iface_handle r = 0"
    using assms(1) by (auto simp: stack_ok_def)
  show ?thesis
    using route_choice_ok [OF R(1), of dst] R(2)
    by (auto simp: reachable_def split: option.splits)
qed

end
