(* ===== verification/Ip_Defer.thy ===== *)
theory Ip_Defer
  imports Ip_Output
begin

text \<open>
  The handler of \<^verbatim>\<open>src/ip_defer.c\<close> that sends deferred packets, run when an ARP message
  arrives and periodically, and the queue of deferred packets as a bounded first-in
  first-out queue.
\<close>

text \<open>The loop of the handler, which runs with further defers inhibited.\<close>

partial_function (option) ip_defer_loop ::
  "os_sendto \<Rightarrow> 'a ip_st_scheme \<Rightarrow> 'a ip_st_scheme option" where
  "ip_defer_loop sendto s =
     (case ip_defer_peek s of
        None \<Rightarrow> Some (s\<lparr>defer_inhibit := False\<rparr>)
      | Some i \<Rightarrow> do {
          let ipd = ip_defer_queue s i;
          let s = s\<lparr>ip_defer_queue := (ip_defer_queue s)(i := ipd\<lparr>df_tries := df_tries ipd + 1\<rparr>)\<rparr>;
          if df_tries ipd > 3 then ip_defer_loop sendto (ip_defer_drop s)
          else do {
            (s, r) \<leftarrow> ip_send sendto s (df_dst ipd) (df_proto ipd) (df_buf ipd) (df_buf_size ipd);
            if r = -1 \<and> io_errno s = EHOSTUNREACH
            then (let ipd = ip_defer_queue s i in
              Some (s\<lparr>ip_defer_queue := (ip_defer_queue s)(i := ipd\<lparr>df_tries := df_tries ipd + 1\<rparr>),
                      defer_inhibit := False\<rparr>))
            else ip_defer_loop sendto (ip_defer_drop s)
          }
        })"

definition ip_defer_handler :: "os_sendto \<Rightarrow> 'a ip_st_scheme \<Rightarrow> 'a ip_st_scheme option" where
  "ip_defer_handler sendto s = ip_defer_loop sendto (s\<lparr>defer_inhibit := True\<rparr>)"

section \<open>The queue of deferred packets\<close>

text \<open>Data that a slot of the queue can hold.\<close>

typedef ip_payload = "{b :: bytes. length b \<le> IP_DATA_MAX_BYTES}"
  morphisms payload_bytes Payload
  by (rule exI [of _ "[]"]) simp

definition defer_slots :: "'a ip_st_scheme \<Rightarrow> nat list" where
  "defer_slots s = ring_between NSTACK_IP_DEFER_MAX (q_rd s)
     (ring_count NSTACK_IP_DEFER_MAX (q_rd s) (q_wr s))"

definition defer_item :: "ip_defer \<Rightarrow> in_addr_t \<times> u8 \<times> ip_payload" where
  "defer_item d = (df_dst d, df_proto d, Payload (take (df_buf_size d) (df_buf d)))"

definition defer_list :: "'a ip_st_scheme \<Rightarrow> (in_addr_t \<times> u8 \<times> ip_payload) list" where
  "defer_list s = map (\<lambda>i. defer_item (ip_defer_queue s i)) (defer_slots s)"

definition defer_wf :: "'a ip_st_scheme \<Rightarrow> bool" where
  "defer_wf s \<longleftrightarrow> q_rd s < NSTACK_IP_DEFER_MAX \<and> q_wr s < NSTACK_IP_DEFER_MAX \<and>
     (\<forall>i\<in>set (defer_slots s). df_buf_size (ip_defer_queue s i) \<le> length (df_buf (ip_defer_queue s i)) \<and>
        df_buf_size (ip_defer_queue s i) \<le> IP_DATA_MAX_BYTES)"

definition defer_put ::
  "in_addr_t \<times> u8 \<times> ip_payload \<Rightarrow> 'a ip_st_scheme \<Rightarrow> 'a ip_st_scheme option" where
  "defer_put x s = (case x of (dst, proto, b) \<Rightarrow>
     (case ip_defer_push s dst proto (payload_bytes b) (length (payload_bytes b)) of
        Some (s', r) \<Rightarrow> if r = 0 then Some s' else None
      | None \<Rightarrow> None))"

definition defer_front :: "'a ip_st_scheme \<Rightarrow> (in_addr_t \<times> u8 \<times> ip_payload) option" where
  "defer_front s = map_option (\<lambda>i. defer_item (ip_defer_queue s i)) (ip_defer_peek s)"

lemma defer_slots_Nil: "q_rd s < 20 \<Longrightarrow> q_wr s < 20 \<Longrightarrow> defer_slots s = [] \<longleftrightarrow> q_rd s = q_wr s"
  using ring_count_0 [of "q_rd s" 20 "q_wr s"] length_ring_between [of 20 "q_rd s"]
  by (metis defer_slots_def length_0_conv)

lemma defer_slots_Cons:
  assumes "q_rd s < 20" and "q_wr s < 20" and "q_rd s \<noteq> q_wr s"
  shows "defer_slots s = q_rd s # defer_slots (ip_defer_drop s)"
  using assms ring_count_get [OF assms] ring_between_Cons [OF assms(1)]
  by (simp add: defer_slots_def ip_defer_drop_def ring_next_def)

lemma defer_slots_bound: "q_rd s < 20 \<Longrightarrow> q_wr s < 20 \<Longrightarrow> length (defer_slots s) \<le> 19"
  using ring_count_less [of "q_rd s" 20 "q_wr s"] by (simp add: defer_slots_def)

lemma ip_defer_push_full:
  assumes "defer_wf s" and "\<not> defer_inhibit s" and "length (defer_slots s) = 19"
  shows "ip_defer_push s dst proto buf bsize = Some (s, - ENOBUFS)"
proof -
  have "ring_next 20 (q_wr s) = q_rd s"
    using ring_count_full [of "q_rd s" 20 "q_wr s"] assms by (simp add: defer_wf_def defer_slots_def)
  then show ?thesis using assms(2) by (simp add: ip_defer_push_def ring_next_def)
qed

lemma ip_defer_push_long:
  assumes "defer_wf s" and "\<not> defer_inhibit s" and "length (defer_slots s) < 19"
    and "IP_DATA_MAX_BYTES < bsize"
  shows "ip_defer_push s dst proto buf bsize = Some (s, - EMSGSIZE)"
proof -
  have "ring_next 20 (q_wr s) \<noteq> q_rd s"
    using ring_count_full [of "q_rd s" 20 "q_wr s"] assms(1,3) by (auto simp: defer_wf_def defer_slots_def)
  then show ?thesis using assms(2,4) by (simp add: ip_defer_push_def ring_next_def)
qed

lemma ip_defer_push_free:
  assumes "defer_wf s" and "\<not> defer_inhibit s" and "length (defer_slots s) < 19"
    and "bsize \<le> length buf" and "bsize \<le> IP_DATA_MAX_BYTES"
  shows "\<exists>s'. ip_defer_push s dst proto buf bsize = Some (s', 0) \<and> defer_wf s' \<and> \<not> defer_inhibit s' \<and>
    defer_list s' = defer_list s @ [(dst, proto, Payload (take bsize buf))] \<and>
    (\<exists>q w. s' = s\<lparr>ip_defer_queue := q, q_wr := w\<rparr>)"
proof -
  have i: "q_rd s < 20" "q_wr s < 20" using assms(1) by (simp_all add: defer_wf_def)
  have nxt: "(q_wr s + 1) mod 20 = ring_next 20 (q_wr s)" by (simp add: ring_next_def)
  have free: "ring_next 20 (q_wr s) \<noteq> q_rd s"
    using ring_count_full [OF i] assms(3) by (auto simp: defer_slots_def)
  define slot where "slot = \<lparr>df_tries = 0, df_dst = dst, df_proto = proto, df_buf_size = bsize,
    df_buf = take bsize buf @ drop bsize (df_buf (ip_defer_queue s (q_wr s)))\<rparr>"
  let ?s = "s\<lparr>ip_defer_queue := (ip_defer_queue s)(q_wr s := slot), q_wr := ring_next 20 (q_wr s)\<rparr>"
  have push: "ip_defer_push s dst proto buf bsize = Some (?s, 0)"
    using assms(2,4,5) free by (simp add: ip_defer_push_def nxt [simplified] Let_def read_at_def slot_def)
  have slots: "defer_slots ?s = defer_slots s @ [q_wr s]"
    using ring_count_put [OF i free] ring_count_write [OF i]
    by (simp add: defer_slots_def ring_between_snoc)
  have "distinct (defer_slots ?s)"
    using ring_count_less [of "q_rd s" 20 "ring_next 20 (q_wr s)"] i
    by (simp add: defer_slots_def ring_between_distinct ring_next_less less_imp_le)
  then have fresh: "q_wr s \<notin> set (defer_slots s)" by (simp add: slots)
  have "defer_list ?s = defer_list s @ [(dst, proto, Payload (take bsize buf))]"
    using fresh assms(4) by (simp add: defer_list_def slots) (auto simp: slot_def defer_item_def min_def)
  moreover have "defer_wf ?s"
    unfolding defer_wf_def slots
    using assms(1,4,5) fresh i ring_next_less [of 20 "q_wr s"]
    by (auto simp: defer_wf_def slot_def)
  ultimately show ?thesis using push assms(2) by (intro exI [of _ ?s] conjI) auto
qed

lemma ip_defer_drop_ok:
  assumes "defer_wf s"
  shows "defer_wf (ip_defer_drop s) \<and> defer_list (ip_defer_drop s) = tl (defer_list s)"
proof (cases "q_rd s = q_wr s")
  case True
  then have "ip_defer_drop s = s" "defer_slots s = []"
    using assms defer_slots_Nil [of s] by (simp_all add: ip_defer_drop_def defer_wf_def)
  then show ?thesis using assms by (simp add: defer_list_def)
next
  case False
  have i: "q_rd s < 20" "q_wr s < 20" using assms by (simp_all add: defer_wf_def)
  have q: "ip_defer_queue (ip_defer_drop s) = ip_defer_queue s" "q_wr (ip_defer_drop s) = q_wr s"
    "q_rd (ip_defer_drop s) < 20"
    using i by (simp_all add: ip_defer_drop_def)
  show ?thesis
    using assms defer_slots_Cons [OF i False] q i by (auto simp: defer_wf_def defer_list_def)
qed

interpretation dq: bounded_fifo "\<lambda>s. defer_wf s \<and> \<not> defer_inhibit s" defer_list "\<lambda>_. 19" defer_put
  defer_front ip_defer_drop
proof
  fix s :: "'a ip_st_scheme" and x :: "in_addr_t \<times> u8 \<times> ip_payload"
  assume s: "defer_wf s \<and> \<not> defer_inhibit s"
  obtain dst proto b where x: "x = (dst, proto, b)" by (cases x)
  have i: "q_rd s < 20" "q_wr s < 20" using s by (simp_all add: defer_wf_def)
  show "length (defer_list s) \<le> 19" using defer_slots_bound [OF i] by (simp add: defer_list_def)
  show "defer_put x s = None" if "length (defer_list s) = 19"
    using that s ip_defer_push_full [of s dst proto] by (simp add: x defer_put_def defer_list_def)
  show "defer_front s = (case defer_list s of [] \<Rightarrow> None | x # _ \<Rightarrow> Some x)"
    using defer_slots_Nil [OF i] defer_slots_Cons [OF i]
    by (cases "q_rd s = q_wr s") (auto simp: defer_front_def ip_defer_peek_def defer_list_def)
  show "\<exists>s'. defer_put x s = Some s' \<and> (defer_wf s' \<and> \<not> defer_inhibit s') \<and>
      defer_list s' = defer_list s @ [x] \<and> (19 :: nat) = 19" if "length (defer_list s) < 19"
  proof -
    have "length (payload_bytes b) \<le> 65515" using payload_bytes [of b] by simp
    then have "\<exists>s'. ip_defer_push s dst proto (payload_bytes b) (length (payload_bytes b)) = Some (s', 0) \<and>
        defer_wf s' \<and> \<not> defer_inhibit s' \<and>
        defer_list s' = defer_list s @ [(dst, proto, Payload (take (length (payload_bytes b)) (payload_bytes b)))] \<and>
        (\<exists>q w. s' = s\<lparr>ip_defer_queue := q, q_wr := w\<rparr>)"
      using s that by (intro ip_defer_push_free) (simp_all add: defer_list_def)
    then show ?thesis by (auto simp: x defer_put_def payload_bytes_inverse)
  qed
  show "(defer_wf (ip_defer_drop s) \<and> \<not> defer_inhibit (ip_defer_drop s)) \<and>
      defer_list (ip_defer_drop s) = tl (defer_list s) \<and> (19 :: nat) = 19"
    using ip_defer_drop_ok [of s] s by (auto simp: ip_defer_drop_def)
qed

text \<open>
  C21: The deferred packets are a first-in first-out queue for exactly nineteen packets. However
  pushes and drops follow each other, the packets accepted, delivered and left are those of a
  list of that capacity: a push is accepted, complete and unchanged, if and only if fewer than
  nineteen packets wait. When nineteen wait it is refused with \<^verbatim>\<open>ENOBUFS\<close>, and data that is too
  long for a packet is refused with \<^verbatim>\<open>EMSGSIZE\<close>; both leave the queue as it is.
\<close>

theorem ip_defer_fifo:
  assumes "defer_wf s" and "\<not> defer_inhibit s"
    and "fifo_run defer_put defer_front ip_defer_drop s ops = (s', accepted, delivered)"
  shows "fifo_spec 19 (defer_list s) ops = (defer_list s', accepted, delivered) \<and>
    (length (defer_list s') = 19 \<longrightarrow> ip_defer_push s' dst proto buf bsize = Some (s', - ENOBUFS)) \<and>
    (length (defer_list s') < 19 \<and> IP_DATA_MAX_BYTES < bsize \<longrightarrow>
       ip_defer_push s' dst proto buf bsize = Some (s', - EMSGSIZE))"
proof -
  have run: "defer_wf s'" "\<not> defer_inhibit s'"
    "fifo_spec 19 (defer_list s) ops = (defer_list s', accepted, delivered)"
    using dq.run_exact [OF _ assms(3)] assms(1,2) by auto
  have "length (defer_slots s') = length (defer_list s')" by (simp add: defer_list_def)
  with run show ?thesis using ip_defer_push_full [OF run(1,2)] ip_defer_push_long [OF run(1,2)] by auto
qed

text \<open>
  C22: \<^verbatim>\<open>ip_send\<close> to a destination on a route whose hardware address is not known asks for it
  with one ARP request on the interface, appends the packet to the deferred ones and
  returns 0.
\<close>

theorem ip_send_defers:
  assumes "stack_ok eth s" and "route_choice s dst = Some r" and "arp_view s dst = None"
    and "os_accepts sendto" and "defer_wf s" and "\<not> defer_inhibit s" and "length (defer_list s) < 19"
    and "bsize \<le> length buf" and "bsize \<le> IP_DATA_MAX_BYTES"
  shows "\<exists>s'. ip_send sendto s dst proto buf bsize = Some (s', 0) \<and>
    io_tx s' = io_tx s @ [(el_fd eth, arp_frame (el_mac eth) (r_iface r) dst)] \<and>
    defer_list s' = defer_list s @ [(dst, proto, Payload (take bsize buf))] \<and>
    defer_wf s' \<and> \<not> defer_inhibit s' \<and> stack_ok eth s'"
proof -
  let ?s = "(put_frames [(el_fd eth, arp_frame (el_mac eth) (r_iface r) dst)] s)\<lparr>io_errno := EHOSTUNREACH\<rparr>"
  have f: "defer_wf ?s" "\<not> defer_inhibit ?s" "defer_list ?s = defer_list s" "defer_slots ?s = defer_slots s"
    using assms(5,6) by (simp_all add: defer_wf_def defer_list_def defer_slots_def)
  have few: "length (defer_slots ?s) < 19" using assms(7) f(4) by (simp add: defer_list_def)
  obtain s' q w where s': "ip_defer_push ?s dst proto buf bsize = Some (s', 0)" "defer_wf s'"
    "\<not> defer_inhibit s'" "defer_list s' = defer_list s @ [(dst, proto, Payload (take bsize buf))]"
    "s' = ?s\<lparr>ip_defer_queue := q, q_wr := w\<rparr>"
    using ip_defer_push_free [OF f(1,2) few assms(8,9), of dst proto] unfolding f(3) by blast
  have tx: "io_tx s' = io_tx s @ [(el_fd eth, arp_frame (el_mac eth) (r_iface r) dst)]"
    by (simp add: s'(5))
  have "stack_ok eth s' = stack_ok eth s" by (rule stack_ok_cong) (simp_all add: s'(5) put_frames_def)
  then show ?thesis
    using ip_send_unresolved [OF assms(1-4), of proto buf bsize] s'(1-4) tx assms(1) by (simp add: Let_def)
qed

section \<open>The handler\<close>

lemma defer_wf_cong:
  assumes "q_rd s' = q_rd s" and "q_wr s' = q_wr s"
    and "\<And>i. df_buf (ip_defer_queue s' i) = df_buf (ip_defer_queue s i)"
    and "\<And>i. df_buf_size (ip_defer_queue s' i) = df_buf_size (ip_defer_queue s i)"
  shows "defer_wf s' = defer_wf s"
  using assms by (simp add: defer_wf_def defer_slots_def)

definition count_try :: "nat \<Rightarrow> 'a ip_st_scheme \<Rightarrow> 'a ip_st_scheme" where
  "count_try i s = s\<lparr>ip_defer_queue := (ip_defer_queue s)(i := (ip_defer_queue s i)
     \<lparr>df_tries := df_tries (ip_defer_queue s i) + 1\<rparr>)\<rparr>"

lemma count_try_fields [simp]:
  "q_rd (count_try i s) = q_rd s" "q_wr (count_try i s) = q_wr s"
  "df_buf (ip_defer_queue (count_try i s) j) = df_buf (ip_defer_queue s j)"
  "df_buf_size (ip_defer_queue (count_try i s) j) = df_buf_size (ip_defer_queue s j)"
  "df_dst (ip_defer_queue (count_try i s) j) = df_dst (ip_defer_queue s j)"
  "df_proto (ip_defer_queue (count_try i s) j) = df_proto (ip_defer_queue s j)"
  "defer_inhibit (count_try i s) = defer_inhibit s" "io_tx (count_try i s) = io_tx s"
  "rib (count_try i s) = rib s" "rib_routetree (count_try i s) = rib_routetree s"
  by (simp_all add: count_try_def)

lemma count_try_views [simp]:
  "stack_ok eth (count_try i s) = stack_ok eth s" "arp_view (count_try i s) = arp_view s"
  "route_choice (count_try i s) = route_choice s"
proof -
  show "stack_ok eth (count_try i s) = stack_ok eth s"
    by (rule stack_ok_cong) (simp_all add: count_try_def)
  show "arp_view (count_try i s) = arp_view s" by (rule arp_view_cong) (simp_all add: count_try_def)
  show "route_choice (count_try i s) = route_choice s"
    by (intro ext route_choice_cong) (simp_all add: count_try_def)
qed

text \<open>One turn of the loop for a packet that has not had its tries.\<close>

lemma ip_defer_loop_turn:
  assumes "q_rd s \<noteq> q_wr s"
  shows "ip_defer_loop sendto s =
    (let i = q_rd s; d = ip_defer_queue s i; s1 = count_try i s in
     if df_tries d > 3 then ip_defer_loop sendto (ip_defer_drop s1)
     else do {
       (s2, r) \<leftarrow> ip_send sendto s1 (df_dst d) (df_proto d) (df_buf d) (df_buf_size d);
       if r = -1 \<and> io_errno s2 = EHOSTUNREACH then Some ((count_try i s2)\<lparr>defer_inhibit := False\<rparr>)
       else ip_defer_loop sendto (ip_defer_drop s2)
     })"
  using assms by (subst ip_defer_loop.simps) (simp add: ip_defer_peek_def count_try_def Let_def cong: if_cong)

lemma inhibit_views [simp]:
  "stack_ok eth (s\<lparr>defer_inhibit := v\<rparr>) = stack_ok eth s" "arp_view (s\<lparr>defer_inhibit := v\<rparr>) = arp_view s"
  "route_choice (s\<lparr>defer_inhibit := v\<rparr>) = route_choice s"
proof -
  show "stack_ok eth (s\<lparr>defer_inhibit := v\<rparr>) = stack_ok eth s" by (rule stack_ok_cong) simp_all
  show "arp_view (s\<lparr>defer_inhibit := v\<rparr>) = arp_view s" by (rule arp_view_cong) simp_all
  show "route_choice (s\<lparr>defer_inhibit := v\<rparr>) = route_choice s"
    by (intro ext route_choice_cong) simp_all
qed

text \<open>
  The frames of a packet with header \<open>h\<close> and data \<open>d\<close>: one frame, or its fragments; for 1481
  to 1500 bytes of data none, see \<open>ip_send_gap\<close>.
\<close>

definition packet_frames :: "ether_linux \<Rightarrow> mac_addr_t \<Rightarrow> ip_hdr \<Rightarrow> bytes \<Rightarrow> (int \<times> bytes) list" where
  "packet_frames eth m h d =
     (let put = (\<lambda>(h, d). (el_fd eth, ether_frame m (el_mac eth) ETHER_PROTO_IPV4 (ip_packet h d)))
      in if length d \<le> 1480 then [put (h, d)]
         else if length d \<le> ETHER_DATA_LEN then []
         else map put (ip_fragments h d))"

lemma ip_send_packet:
  assumes "stack_ok eth s" and "route_choice s dst = Some r" and "arp_view s dst = Some m"
    and "os_accepts sendto" and "bsize \<le> length buf" and "bsize \<le> IP_DATA_MAX_BYTES"
  shows "\<exists>rv. rv \<noteq> -1 \<and> ip_send sendto s dst proto buf bsize =
    Some (put_frames (packet_frames eth m (ip_out_hdr (r_iface r) dst proto (ip_global_id s) bsize)
      (take bsize buf)) (bump_id s), rv)"
proof -
  have re: "reachable s dst r m" using assms(1-3) by (simp add: reachable_iff)
  have eth: "ether_if (bump_id s) = [eth]" using assms(1) by (simp add: stack_ok_def)
  let ?h = "ip_out_hdr (r_iface r) dst proto (ip_global_id s) bsize"
  let ?d = "take bsize buf"
  have len: "length ?d = bsize" using assms(5) by simp
  note send = ip_send_resolved [OF re assms(5), of sendto proto]
  consider "bsize \<le> 1480" | "1480 < bsize" "bsize \<le> 1500" | "1500 < bsize" by linarith
  then show ?thesis
  proof cases
    case 1
    then have "\<exists>rv\<ge>0. ether_send sendto (bump_id s) 0 m ETHER_PROTO_IPV4 (ip_packet ?h ?d) (20 + bsize) =
        Some (put_frames [(el_fd eth, ether_frame m (el_mac eth) ETHER_PROTO_IPV4
          (take (20 + bsize) (ip_packet ?h ?d)))] (bump_id s), rv)"
      using assms(5) by (intro ether_send_accepted [OF eth assms(4)]) simp_all
    then obtain rv where "rv \<ge> 0" "ip_send sendto s dst proto buf bsize =
        Some (put_frames [(el_fd eth, ether_frame m (el_mac eth) ETHER_PROTO_IPV4 (ip_packet ?h ?d))] (bump_id s), rv)"
      using send 1 len by (auto simp: Let_def)
    then show ?thesis using 1 len by (intro exI [of _ rv]) (simp add: packet_frames_def)
  next
    case 2
    then show ?thesis
      using send len by (auto simp: ether_send_def frame_size_large packet_frames_def put_frames_def)
  next
    case 3
    obtain rv where rv: "rv \<ge> 0" "ip_send_fragments sendto (bump_id s) 0 m (ip_packet ?h ?d) (20 + length ?d) =
        Some (put_frames (map (\<lambda>p. (el_fd eth, ip_piece_frame m (el_mac eth) ?h p)) (ip_pieces 0 ?d)) (bump_id s), rv)"
      using ip_send_fragments_ok [OF eth assms(4), of ?h ?d m] assms(6) len by auto
    have "packet_frames eth m ?h ?d = map (\<lambda>p. (el_fd eth, ip_piece_frame m (el_mac eth) ?h p)) (ip_pieces 0 ?d)"
      using 3 len by (simp add: packet_frames_def ip_fragments_def ip_piece_frame_def)
    then show ?thesis using send 3 len rv by (intro exI [of _ rv]) (simp add: Let_def)
  qed
qed

text \<open>
  The packets that the handler still tries, and what it sends for them: the frames of a packet
  whose destination is resolved, numbered in order, and one ARP request for any other.
\<close>

definition defer_pending :: "'a ip_st_scheme \<Rightarrow> (in_addr_t \<times> u8 \<times> bytes) list" where
  "defer_pending s = map (\<lambda>i. let d = ip_defer_queue s i in (df_dst d, df_proto d, take (df_buf_size d) (df_buf d)))
     (filter (\<lambda>i. df_tries (ip_defer_queue s i) \<le> 3) (defer_slots s))"

fun deferred_frames ::
  "ether_linux \<Rightarrow> (in_addr_t \<rightharpoonup> ip_route) \<Rightarrow> (in_addr_t \<rightharpoonup> mac_addr_t) \<Rightarrow> u32 \<Rightarrow> (in_addr_t \<times> u8 \<times> bytes) list \<Rightarrow>
   (int \<times> bytes) list" where
  "deferred_frames eth routes macs n [] = []"
| "deferred_frames eth routes macs n ((dst, proto, d) # xs) =
     (case routes dst of
        None \<Rightarrow> []
      | Some r \<Rightarrow>
          (case macs dst of
             None \<Rightarrow> (el_fd eth, arp_frame (el_mac eth) (r_iface r) dst) # deferred_frames eth routes macs n xs
           | Some m \<Rightarrow> packet_frames eth m (ip_out_hdr (r_iface r) dst proto n (length d)) d @
               deferred_frames eth routes macs (n + 1) xs))"

text \<open>With defers inhibited, \<^verbatim>\<open>ip_send\<close> to a destination with a route changes only what it sends.\<close>

lemma ip_send_inhibited_frames:
  assumes "stack_ok eth s" and "route_choice s dst = Some r" and "os_accepts sendto"
    and "defer_inhibit s" and "bsize \<le> length buf" and "bsize \<le> IP_DATA_MAX_BYTES"
  shows "\<exists>s' rv. ip_send sendto s dst proto buf bsize = Some (s', rv) \<and> rv \<noteq> -1 \<and> tx_frame s s' \<and>
    (\<forall>xs. io_tx s' @ deferred_frames eth (route_choice s) (arp_view s) (ip_global_id s') xs =
       io_tx s @ deferred_frames eth (route_choice s) (arp_view s) (ip_global_id s) ((dst, proto, take bsize buf) # xs))"
proof (cases "arp_view s dst")
  case None
  let ?s = "(put_frames [(el_fd eth, arp_frame (el_mac eth) (r_iface r) dst)] s)\<lparr>io_errno := EHOSTUNREACH\<rparr>"
  have "ip_send sendto s dst proto buf bsize = Some (?s, 0)"
    using ip_send_unresolved [OF assms(1,2) None assms(3), of proto buf bsize] assms(4)
    by (simp add: ip_defer_push_def Let_def)
  then show ?thesis using None assms(2) by (intro exI [of _ ?s] exI [of _ 0]) auto
next
  case (Some m)
  let ?h = "ip_out_hdr (r_iface r) dst proto (ip_global_id s) bsize"
  let ?s = "put_frames (packet_frames eth m ?h (take bsize buf)) (bump_id s)"
  obtain rv where "rv \<noteq> -1" "ip_send sendto s dst proto buf bsize = Some (?s, rv)"
    using ip_send_packet [OF assms(1,2) Some assms(3,5,6), of proto] by blast
  moreover have "tx_frame s ?s" by (intro tx_frame_intros)
  moreover have "io_tx ?s = io_tx s @ packet_frames eth m ?h (take bsize buf)" "ip_global_id ?s = ip_global_id s + 1"
    by (simp_all add: put_frames_def bump_id_def)
  moreover have "length (take bsize buf) = bsize" using assms(5) by simp
  ultimately show ?thesis using Some assms(2) by (intro exI [of _ ?s] exI [of _ rv]) (simp del: length_take)
qed

lemma defer_pending_cong:
  assumes "q_rd s' = q_rd s" and "q_wr s' = q_wr s" and "\<And>i. i \<in> set (defer_slots s) \<Longrightarrow> ip_defer_queue s' i = ip_defer_queue s i"
  shows "defer_pending s' = defer_pending s"
proof -
  have "defer_slots s' = defer_slots s" using assms(1,2) by (simp add: defer_slots_def)
  then show ?thesis using assms(3) unfolding defer_pending_def by (auto intro!: map_cong filter_cong)
qed

text \<open>The rest of the queue after a turn of the loop for its first packet.\<close>

lemma defer_turn_rest:
  assumes "defer_wf s" and "q_rd s \<noteq> q_wr s" and "tx_frame (count_try (q_rd s) s) t"
  shows "defer_slots s = q_rd s # defer_slots (ip_defer_drop t)" "defer_wf (ip_defer_drop t)"
    "defer_inhibit (ip_defer_drop t) = defer_inhibit s" "stack_ok eth (ip_defer_drop t) = stack_ok eth s"
    "route_choice (ip_defer_drop t) = route_choice s" "arp_view (ip_defer_drop t) = arp_view s"
    "io_tx (ip_defer_drop t) = io_tx t" "ip_global_id (ip_defer_drop t) = ip_global_id t"
    "i \<in> set (defer_slots (ip_defer_drop t)) \<Longrightarrow> ip_defer_queue (ip_defer_drop t) i = ip_defer_queue s i"
proof -
  note f = tx_frame_fields [OF assms(3)]
  have i: "q_rd s < 20" "q_wr s < 20" using assms(1) by (simp_all add: defer_wf_def)
  have r: "q_rd t \<noteq> q_wr t" "q_rd t < 20" "q_wr t < 20" using f assms(2) i by simp_all
  have wf: "defer_wf t" using assms(1) f by (subst defer_wf_cong [of t s]) simp_all
  show slots: "defer_slots s = q_rd s # defer_slots (ip_defer_drop t)"
    using defer_slots_Cons [OF r(2,3,1)] f by (simp add: defer_slots_def)
  show "defer_wf (ip_defer_drop t)" using ip_defer_drop_ok [OF wf] by simp
  show "defer_inhibit (ip_defer_drop t) = defer_inhibit s" using f by (simp add: ip_defer_drop_def)
  show "stack_ok eth (ip_defer_drop t) = stack_ok eth s"
    using f by (intro stack_ok_cong) (simp_all add: ip_defer_drop_def count_try_def)
  show "route_choice (ip_defer_drop t) = route_choice s"
    using f by (intro ext route_choice_cong) (simp_all add: ip_defer_drop_def)
  show "arp_view (ip_defer_drop t) = arp_view s"
    using f by (intro arp_view_cong) (simp_all add: ip_defer_drop_def count_try_def)
  show "io_tx (ip_defer_drop t) = io_tx t" "ip_global_id (ip_defer_drop t) = ip_global_id t"
    by (simp_all add: ip_defer_drop_def)
  have "distinct (defer_slots s)"
    using ring_count_less [of "q_rd s" 20 "q_wr s"] i
    by (simp add: defer_slots_def ring_between_distinct less_imp_le)
  then show "ip_defer_queue (ip_defer_drop t) i = ip_defer_queue s i"
    if "i \<in> set (defer_slots (ip_defer_drop t))"
    using that f slots by (auto simp: ip_defer_drop_def count_try_def)
qed

lemma count_try_id [simp]: "ip_global_id (count_try i s) = ip_global_id s"
  by (simp add: count_try_def)

lemma ip_defer_loop_sends:
  assumes "stack_ok eth s" and "os_accepts sendto" and "defer_wf s" and "defer_inhibit s"
    and "\<And>i. i \<in> set (defer_slots s) \<Longrightarrow> route_choice s (df_dst (ip_defer_queue s i)) \<noteq> None"
  shows "\<exists>s'. ip_defer_loop sendto s = Some s' \<and> defer_list s' = [] \<and> defer_wf s' \<and>
    \<not> defer_inhibit s' \<and> stack_ok eth s' \<and> io_tx s' = io_tx s @
      deferred_frames eth (route_choice s) (arp_view s) (ip_global_id s) (defer_pending s)"
  using assms
proof (induction "length (defer_slots s)" arbitrary: s)
  case 0
  then have "q_rd s = q_wr s" using defer_slots_Nil [of s] by (simp add: defer_wf_def)
  then have "ip_defer_loop sendto s = Some (s\<lparr>defer_inhibit := False\<rparr>)"
    by (subst ip_defer_loop.simps) (simp add: ip_defer_peek_def)
  then show ?case
    using 0 by (auto simp: defer_list_def defer_slots_def defer_wf_def defer_pending_def)
next
  case (Suc n)
  let ?i = "q_rd s" and ?s1 = "count_try (q_rd s) s"
  let ?d = "ip_defer_queue s ?i"
  have i: "q_rd s < 20" "q_wr s < 20" using Suc.prems(3) by (simp_all add: defer_wf_def)
  have ne: "q_rd s \<noteq> q_wr s" using Suc.hyps(2) defer_slots_Nil [OF i] by force
  have first: "?i \<in> set (defer_slots s)" using defer_slots_Cons [OF i ne] by simp
  note rest = defer_turn_rest [OF Suc.prems(3) ne]
  have pending: "defer_pending s = (if df_tries ?d \<le> 3
      then [(df_dst ?d, df_proto ?d, take (df_buf_size ?d) (df_buf ?d))] else []) @ defer_pending (ip_defer_drop t)"
    if t: "tx_frame ?s1 t" for t
    using rest(1,9) [OF t] by (auto simp: defer_pending_def Let_def intro!: map_cong filter_cong)
  have IH: "\<exists>s'. ip_defer_loop sendto (ip_defer_drop t) = Some s' \<and> defer_list s' = [] \<and> defer_wf s' \<and>
      \<not> defer_inhibit s' \<and> stack_ok eth s' \<and> io_tx s' = io_tx t @
        deferred_frames eth (route_choice s) (arp_view s) (ip_global_id t) (defer_pending (ip_defer_drop t))"
    if t: "tx_frame ?s1 t" for t
    using Suc.hyps(1) [of "ip_defer_drop t"] Suc.hyps(2) Suc.prems rest [OF t] by simp
  show ?case
  proof (cases "df_tries ?d > 3")
    case True
    then show ?thesis
      using IH [of ?s1] pending [of ?s1] by (simp add: ip_defer_loop_turn [OF ne] Let_def)
  next
    case False
    obtain r where "route_choice ?s1 (df_dst ?d) = Some r" using Suc.prems(5) [OF first] by auto
    moreover have "df_buf_size ?d \<le> length (df_buf ?d)" "df_buf_size ?d \<le> 65515"
      using Suc.prems(3) first by (auto simp: defer_wf_def)
    ultimately obtain s2 rv where s2: "ip_send sendto ?s1 (df_dst ?d) (df_proto ?d) (df_buf ?d) (df_buf_size ?d) =
        Some (s2, rv)" "rv \<noteq> -1" "tx_frame ?s1 s2"
      "\<forall>xs. io_tx s2 @ deferred_frames eth (route_choice s) (arp_view s) (ip_global_id s2) xs =
        io_tx s @ deferred_frames eth (route_choice s) (arp_view s) (ip_global_id s)
          ((df_dst ?d, df_proto ?d, take (df_buf_size ?d) (df_buf ?d)) # xs)"
      using ip_send_inhibited_frames [of eth ?s1 "df_dst ?d" r sendto "df_buf_size ?d" "df_buf ?d" "df_proto ?d"]
        Suc.prems(1,2,4) by auto
    then show ?thesis
      using IH [OF s2(3)] pending [OF s2(3)] False by (simp add: ip_defer_loop_turn [OF ne] Let_def)
  qed
qed


text \<open>
  C23: \<^verbatim>\<open>ip_defer_handler\<close> ends when every deferred packet has a route, and leaves the queue empty.
  In the order of the queue, and numbered in that order, every packet that has had at most
  three tries and whose destination is resolved is sent as one frame or as its fragments (a
  packet of 1481 to 1500 bytes of data is lost as in \<^verbatim>\<open>ip_send\<close>). For every packet whose destination
  is not resolved one more ARP request is sent. Nothing else is sent.
\<close>

theorem ip_defer_handler_flushes:
  assumes "stack_ok eth s" and "os_accepts sendto" and "defer_wf s"
    and "\<forall>(dst, proto, b)\<in>set (defer_list s). route_choice s dst \<noteq> None"
  shows "\<exists>s'. ip_defer_handler sendto s = Some s' \<and>
    io_tx s' = io_tx s @
      deferred_frames eth (route_choice s) (arp_view s) (ip_global_id s) (defer_pending s) \<and>
    defer_list s' = [] \<and> defer_wf s' \<and> \<not> defer_inhibit s' \<and> stack_ok eth s'"
proof -
  let ?s = "s\<lparr>defer_inhibit := True\<rparr>"
  have "stack_ok eth ?s" using assms(1) by simp
  moreover have "defer_wf ?s" using assms(3) by (simp add: defer_wf_def defer_slots_def)
  moreover have "defer_pending ?s = defer_pending s" by (rule defer_pending_cong) simp_all
  moreover have "route_choice ?s (df_dst (ip_defer_queue ?s i)) \<noteq> None" if "i \<in> set (defer_slots ?s)" for i
  proof -
    have "defer_item (ip_defer_queue s i) \<in> set (defer_list s)"
      using that by (simp add: defer_list_def defer_slots_def)
    then show ?thesis using assms(4) by (force simp: defer_item_def)
  qed
  ultimately show ?thesis
    using ip_defer_loop_sends [of eth ?s sendto] assms(2) by (auto simp: ip_defer_handler_def)
qed

text \<open>
  A deferred packet whose destination is still not resolved when the handler runs is not
  kept for a later try: \<^verbatim>\<open>ip_send\<close> returns 0 because the inhibited \<^verbatim>\<open>ip_defer_push\<close> reports
  \<^verbatim>\<open>-EALREADY\<close>, so the handler drops the packet after one more ARP request.
\<close>

theorem ip_defer_handler_loses:
  assumes "stack_ok eth s" and "os_accepts sendto" and "defer_wf s"
    and "defer_list s = [(dst, proto, b)]" and "df_tries (ip_defer_queue s (q_rd s)) \<le> 3"
    and "route_choice s dst = Some r" and "arp_view s dst = None"
  shows "\<exists>s'. ip_defer_handler sendto s = Some s' \<and> defer_list s' = [] \<and>
    io_tx s' = io_tx s @ [(el_fd eth, arp_frame (el_mac eth) (r_iface r) dst)]"
proof -
  let ?s = "s\<lparr>defer_inhibit := True\<rparr>"
  let ?s1 = "count_try (q_rd s) ?s"
  let ?d = "ip_defer_queue s (q_rd s)"
  let ?s2 = "(put_frames [(el_fd eth, arp_frame (el_mac eth) (r_iface r) dst)] ?s1)\<lparr>io_errno := EHOSTUNREACH\<rparr>"
  have i: "q_rd s < 20" "q_wr s < 20" using assms(3) by (simp_all add: defer_wf_def)
  have ne: "q_rd s \<noteq> q_wr s" using assms(4) defer_slots_Nil [OF i] by (auto simp: defer_list_def)
  have slots: "defer_slots s = q_rd s # defer_slots (ip_defer_drop s)" by (rule defer_slots_Cons [OF i ne])
  then have dst: "df_dst ?d = dst" and one: "defer_slots (ip_defer_drop s) = []"
    using assms(4) by (simp_all add: defer_list_def defer_item_def)
  have "(q_rd s + 1) mod 20 = q_wr s"
    using one defer_slots_Nil [of "ip_defer_drop s"] i ne by (simp add: ip_defer_drop_def)
  then have last: "q_rd (ip_defer_drop ?s2) = q_wr (ip_defer_drop ?s2)"
    using ne by (simp add: ip_defer_drop_def)
  have "ip_send sendto ?s1 (df_dst ?d) (df_proto ?d) (df_buf ?d) (df_buf_size ?d) = Some (?s2, 0)"
    using ip_send_unresolved [of eth ?s1 dst r sendto "df_proto ?d" "df_buf ?d" "df_buf_size ?d"]
      assms(1,2,6,7) by (simp add: dst ip_defer_push_def Let_def)
  then have "ip_defer_handler sendto s = ip_defer_loop sendto (ip_defer_drop ?s2)"
    using assms(5) ne ip_defer_loop_turn [of ?s sendto]
    by (simp add: ip_defer_handler_def Let_def)
  also have "\<dots> = Some ((ip_defer_drop ?s2)\<lparr>defer_inhibit := False\<rparr>)"
    using last by (subst ip_defer_loop.simps) (simp add: ip_defer_peek_def)
  finally show ?thesis
    using last ring_count_0 [of "q_wr s" 20 "q_wr s"] i
    by (auto simp: defer_list_def defer_slots_def ip_defer_drop_def)
qed

section \<open>Examples of deferral\<close>

lemma demo_stack_ok:
  assumes "route_table 0 0 s {demo_route}" and "ether_if s = [\<lparr>el_fd = 3, el_mac = [2, 0, 0, 0, 0, 1], el_if_idx = demo_if\<rparr>]"
  shows "stack_ok \<lparr>el_fd = 3, el_mac = [2, 0, 0, 0, 0, 1], el_if_idx = demo_if\<rparr> (demo_stack s)"
proof -
  have "route_table 0 0 (demo_stack s) {demo_route} \<and> (\<forall>r\<in>{demo_route}. r_iface_handle r = 0)"
    using assms(1) by (simp add: demo_route_def)
  then show ?thesis using assms(2) demo_stack_index [of s] unfolding stack_ok_def by auto
qed

lemma demo_choice:
  assumes "route_table 0 0 s {demo_route}"
  shows "route_choice (demo_stack s) 0x0a000005 = Some demo_route"
proof -
  have "\<exists>r\<in>{demo_route}. ip_route_find_by_network (demo_stack s) 0x0a000005 = Some (demo_stack s, 0, Some r) \<and>
      route_matches 0x0a000005 r \<and> (\<forall>q\<in>{demo_route}. route_matches 0x0a000005 q \<longrightarrow>
        window_key 0 (r_network r) \<le> window_key 0 (r_network q))"
    by (rule ip_route_find_masked [of 0 0])
      (use assms in \<open>auto simp: demo_route_def route_matches_def\<close>)
  then show ?thesis by (auto simp: route_choice_def)
qed

lemma demo_unresolved: "arp_view (demo_stack s) 0x0a000005 = None"
  using demo_stack_index [of s] by (rule arp_view_miss) simp

lemma demo_defer: "defer_wf (demo_stack s)" "defer_list (demo_stack s) = []"
  by (simp_all add: defer_wf_def defer_list_def defer_slots_def ring_count_def ring_between_def)

theorem ip_send_defers_witness:
  "\<exists>s s' :: ip_st. ip_send (\<lambda>_ _ f. (int (length f), 0)) s 0x0a000005 17 [1, 2, 3] 3 = Some (s', 0) \<and>
    io_tx s' = [(3, arp_frame [2, 0, 0, 0, 0, 1] 0x0a000002 0x0a000005)] \<and>
    defer_list s' = [(0x0a000005, 17, Payload [1, 2, 3])]"
proof -
  obtain s :: route_st where s: "route_table 0 0 s {demo_route}"
    "ether_if s = [\<lparr>el_fd = 3, el_mac = [2, 0, 0, 0, 0, 1], el_if_idx = demo_if\<rparr>]" "io_tx s = []"
    by (rule demo_net)
  have "r_iface demo_route = 0x0a000002" by (simp add: demo_route_def)
  with ip_send_defers [OF demo_stack_ok [OF s(1,2)] demo_choice [OF s(1)] demo_unresolved, of
      "\<lambda>_ _ f. (int (length f), 0)" 3 "[1, 2, 3]" 17] s(3) demo_defer
  show ?thesis by - (rule exI [of _ "demo_stack s"], simp add: os_accepts_def, blast)
qed

theorem ip_defer_fifo_witness:
  "\<exists>s s' s'' :: ip_st. defer_wf s \<and>
    fifo_run defer_put defer_front ip_defer_drop s
      [Put (1, 17, Payload [1]), Put (2, 17, Payload [2]), Get] =
      (s', [(1, 17, Payload [1]), (2, 17, Payload [2])], [(1, 17, Payload [1])]) \<and>
    defer_list s' = [(2, 17, Payload [2])] \<and>
    fifo_run defer_put defer_front ip_defer_drop s (replicate 20 (Put (1, 17, Payload [1]))) =
      (s'', replicate 19 (1, 17, Payload [1]), []) \<and>
    ip_defer_push s'' 1 17 [1] 1 = Some (s'', - ENOBUFS)"
proof -
  let ?s = "demo_stack demo_route_st :: ip_st" and ?r = "fifo_run defer_put defer_front ip_defer_drop"
  let ?a = "[Put (1, 17, Payload [1]), Put (2, 17, Payload [2]), Get]"
  let ?b = "replicate 20 (Put (1, 17, Payload [1]))"
  note d = demo_defer [of demo_route_st]
  obtain s1 acc1 del1 where r1: "?r ?s ?a = (s1, acc1, del1)" using prod_cases3 by blast
  obtain s2 acc2 del2 where r2: "?r ?s ?b = (s2, acc2, del2)" using prod_cases3 by blast
  have "\<not> defer_inhibit ?s" by simp
  note f = ip_defer_fifo [OF d(1) this r1] ip_defer_fifo [OF d(1) this r2, of 1 17 "[1]" 1]
  have "acc1 = [(1, 17, Payload [1]), (2, 17, Payload [2])]" "del1 = [(1, 17, Payload [1])]"
    "defer_list s1 = [(2, 17, Payload [2])]"
    using f(1) by (auto simp: d(2))
  moreover have "acc2 = replicate 19 (1, 17, Payload [1])" "del2 = []"
    "defer_list s2 = replicate 19 (1, 17, Payload [1])"
    using f(2) unfolding fifo_spec_replicate d(2) by auto
  moreover from this f(2) have "ip_defer_push s2 1 17 [1] 1 = Some (s2, - ENOBUFS)" by simp
  ultimately show ?thesis
    using r1 r2 d(1) by (intro exI [of _ ?s] exI [of _ s1] exI [of _ s2]) simp
qed

text \<open>One packet to an unknown neighbour waits.\<close>

definition demo_waiting :: "route_st \<Rightarrow> ip_st" where
  "demo_waiting s = (demo_stack s)\<lparr>ip_defer_queue := (ip_defer_queue (demo_stack s))
     (0 := \<lparr>df_tries = 0, df_dst = 0x0a000005, df_proto = 17, df_buf_size = 3, df_buf = [1, 2, 3]\<rparr>),
     q_wr := 1\<rparr>"

lemma demo_waiting_defer:
  "defer_wf (demo_waiting s)" "defer_list (demo_waiting s) = [(0x0a000005, 17, Payload [1, 2, 3])]"
  "df_tries (ip_defer_queue (demo_waiting s) (q_rd (demo_waiting s))) = 0"
  by (simp_all add: demo_waiting_def defer_wf_def defer_list_def defer_slots_def ring_count_def
      ring_between_def defer_item_def)

lemma demo_waiting_views:
  "stack_ok eth (demo_waiting s) = stack_ok eth (demo_stack s)"
  "arp_view (demo_waiting s) = arp_view (demo_stack s)"
  "route_choice (demo_waiting s) = route_choice (demo_stack s)" "io_tx (demo_waiting s) = io_tx s"
proof -
  show "stack_ok eth (demo_waiting s) = stack_ok eth (demo_stack s)"
    by (rule stack_ok_cong) (simp_all add: demo_waiting_def)
  show "arp_view (demo_waiting s) = arp_view (demo_stack s)"
    by (rule arp_view_cong) (simp_all add: demo_waiting_def)
  show "route_choice (demo_waiting s) = route_choice (demo_stack s)"
    by (intro ext route_choice_cong) (simp_all add: demo_waiting_def)
qed (simp add: demo_waiting_def)

theorem ip_defer_handler_loses_witness:
  "\<exists>s s' :: ip_st. defer_list s = [(0x0a000005, 17, Payload [1, 2, 3])] \<and> io_tx s = [] \<and>
    ip_defer_handler (\<lambda>_ _ f. (int (length f), 0)) s = Some s' \<and> defer_list s' = [] \<and>
    io_tx s' = [(3, arp_frame [2, 0, 0, 0, 0, 1] 0x0a000002 0x0a000005)]"
proof -
  obtain s :: route_st where s: "route_table 0 0 s {demo_route}"
    "ether_if s = [\<lparr>el_fd = 3, el_mac = [2, 0, 0, 0, 0, 1], el_if_idx = demo_if\<rparr>]" "io_tx s = []"
    by (rule demo_net)
  have "r_iface demo_route = 0x0a000002" by (simp add: demo_route_def)
  with ip_defer_handler_loses [of "\<lparr>el_fd = 3, el_mac = [2, 0, 0, 0, 0, 1], el_if_idx = demo_if\<rparr>" "demo_waiting s"
      "\<lambda>_ _ f. (int (length f), 0)" "0x0a000005" 17 "Payload [1, 2, 3]" demo_route]
    demo_stack_ok [OF s(1,2)] demo_choice [OF s(1)] demo_unresolved [of s] s(3) demo_waiting_defer [of s]
  show ?thesis
    by - (rule exI [of _ "demo_waiting s"], simp add: os_accepts_def demo_waiting_views)
qed

text \<open>One packet to the neighbour that the example cache resolves, and one to an unknown neighbour.\<close>

definition demo_two :: "route_st \<Rightarrow> ip_st" where
  "demo_two s = (demo_stack s)\<lparr>ip_defer_queue := (ip_defer_queue (demo_stack s))
     (0 := \<lparr>df_tries = 0, df_dst = 0x0a000001, df_proto = 17, df_buf_size = 3, df_buf = [1, 2, 3]\<rparr>,
      1 := \<lparr>df_tries = 0, df_dst = 0x0a000005, df_proto = 17, df_buf_size = 1, df_buf = [4]\<rparr>),
     q_wr := 2\<rparr>"

lemma demo_two_defer:
  "defer_wf (demo_two s)"
  "defer_list (demo_two s) = [(0x0a000001, 17, Payload [1, 2, 3]), (0x0a000005, 17, Payload [4])]"
  "defer_pending (demo_two s) = [(0x0a000001, 17, [1, 2, 3]), (0x0a000005, 17, [4])]"
  by (simp_all add: demo_two_def defer_wf_def defer_list_def defer_slots_def ring_count_def
      ring_between_def defer_item_def defer_pending_def numeral_2_eq_2)

lemma demo_two_views:
  "stack_ok eth (demo_two s) = stack_ok eth (demo_stack s)"
  "arp_view (demo_two s) = arp_view (demo_stack s)"
  "route_choice (demo_two s) = route_choice (demo_stack s)"
  "io_tx (demo_two s) = io_tx s" "ip_global_id (demo_two s) = ip_global_id (demo_stack s)"
proof -
  show "stack_ok eth (demo_two s) = stack_ok eth (demo_stack s)"
    by (rule stack_ok_cong) (simp_all add: demo_two_def)
  show "arp_view (demo_two s) = arp_view (demo_stack s)"
    by (rule arp_view_cong) (simp_all add: demo_two_def)
  show "route_choice (demo_two s) = route_choice (demo_stack s)"
    by (intro ext route_choice_cong) (simp_all add: demo_two_def)
qed (simp_all add: demo_two_def)

theorem ip_defer_handler_flushes_witness:
  "\<exists>s s' :: ip_st. defer_list s = [(0x0a000001, 17, Payload [1, 2, 3]), (0x0a000005, 17, Payload [4])] \<and>
    ip_defer_handler (\<lambda>_ _ f. (int (length f), 0)) s = Some s' \<and> defer_list s' = [] \<and>
    io_tx s' = [(3, ether_frame [2, 0, 0, 0, 0, 9] [2, 0, 0, 0, 0, 1] ETHER_PROTO_IPV4
        (ip_packet (ip_out_hdr 0x0a000002 0x0a000001 17 (ip_global_id s) 3) [1, 2, 3])),
      (3, arp_frame [2, 0, 0, 0, 0, 1] 0x0a000002 0x0a000005)]"
proof -
  let ?eth = "\<lparr>el_fd = 3, el_mac = [2, 0, 0, 0, 0, 1], el_if_idx = demo_if\<rparr>"
  obtain s :: route_st where s: "route_table 0 0 s {demo_route}" "ether_if s = [?eth]" "io_tx s = []"
    by (rule demo_net)
  have ok: "stack_ok ?eth (demo_stack s)" using demo_stack_ok [OF s(1,2)] .
  have r: "route_choice (demo_stack s) 0x0a000001 = Some demo_route"
    "arp_view (demo_stack s) 0x0a000001 = Some [2, 0, 0, 0, 0, 9]"
    using demo_reachable [OF s(1)] reachable_iff [OF ok] by auto
  have "r_iface demo_route = 0x0a000002" by (simp add: demo_route_def)
  with ip_defer_handler_flushes [of ?eth "demo_two s" "\<lambda>_ _ f. (int (length f), 0)"] ok r
    demo_choice [OF s(1)] demo_unresolved [of s] s(3) demo_two_defer [of s]
  show ?thesis
    by - (rule exI [of _ "demo_two s"], simp add: os_accepts_def demo_two_views packet_frames_def
        numeral_3_eq_3, blast)
qed

end
