(* ===== verification/Arp_Input.thy ===== *)
theory Arp_Input
  imports Ip_Defer
begin

text \<open>
  The input handler of ARP in \<^verbatim>\<open>src/arp.c\<close>. It learns the sender of every message, lets the
  deferred IP packets go, and turns a request for an address of ours into the reply, in the
  buffer of the received frame.
\<close>

definition arp_reply :: "arp_ip \<Rightarrow> mac_addr_t option \<Rightarrow> in_addr_t \<Rightarrow> arp_ip" where
  "arp_reply net mac addr =
     net\<lparr>arp_oper := htons ARP_OPER_REPLY, arp_sha := (case mac of Some m \<Rightarrow> m | None \<Rightarrow> arp_sha net),
         arp_tha := arp_sha net, arp_tpa := arp_spa net, arp_spa := htonl addr\<rparr>"

definition arp_respond ::
  "'a ip_st_scheme \<Rightarrow> arp_ip \<Rightarrow> bytes \<Rightarrow> nat \<Rightarrow> ('a ip_st_scheme \<times> bytes \<times> int) option" where
  "arp_respond s net payload bsize =
     (let arp = arp_ntoh net
      in if arp_oper arp = ARP_OPER_REQUEST then do {
           (s, _, route) \<leftarrow> ip_route_find_by_iface s (arp_tpa arp);
           case route of
             None \<Rightarrow> Some (s, payload, 0)
           | Some route \<Rightarrow> do {
               (s, _, mac) \<leftarrow> ether_handle2addr s (r_iface_handle route);
               payload \<leftarrow> memcpy_at payload 0 (arp_ip_bytes (arp_reply net mac (r_iface route)));
               Some (s, payload, int bsize)
             }
         }
         else Some (s, payload, 0))"

definition arp_input ::
  "os_sendto \<Rightarrow> 'a ip_st_scheme \<Rightarrow> ether_hdr \<Rightarrow> bytes \<Rightarrow> nat \<Rightarrow> ('a ip_st_scheme \<times> bytes \<times> int) option" where
  "arp_input sendto s hdr payload bsize = do {
     net \<leftarrow> arp_ip_at payload;
     let arp = arp_ntoh net;
     if arp_htype arp \<noteq> ARP_HTYPE_ETHER then Some (s, payload, - EPROTOTYPE)
     else if arp_ptype arp = ETHER_PROTO_IPV4 then do {
       (s, _) \<leftarrow> arp_cache_insert s (arp_spa arp) (arp_sha arp) ARP_CACHE_DYN;
       s \<leftarrow> ip_defer_handler sendto s;
       arp_respond s net payload bsize
     }
     else Some (s, payload, - EPROTOTYPE)
   }"

section \<open>A message over a quiet queue\<close>

text \<open>A message as a received frame has it.\<close>

definition arp_msg_ok :: "arp_ip \<Rightarrow> bool" where
  "arp_msg_ok m \<longleftrightarrow> arp_htype m = ARP_HTYPE_ETHER \<and> arp_ptype m = ETHER_PROTO_IPV4 \<and>
     length (arp_sha m) = 6 \<and> length (arp_tha m) = 6"

lemma arp_hton_ntoh [simp]: "arp_hton (arp_ntoh m) = m"
  by (simp add: arp_hton_def arp_ntoh_def ntohl_def htons_def)

lemma ip_defer_handler_idle:
  assumes "q_rd s = q_wr s"
  shows "ip_defer_handler sendto s = Some (s\<lparr>defer_inhibit := False\<rparr>)"
  unfolding ip_defer_handler_def using assms
  by (subst ip_defer_loop.simps) (simp add: ip_defer_peek_def)

text \<open>Insertion changes the cache only.\<close>

lemma arp_insert_frame:
  assumes "arp_cache_insert s ip mac type = Some (s', 0)"
  shows "\<exists>c t. s' = s\<lparr>arp_cache := c, arp_cache_head := t\<rparr>"
proof -
  have "\<exists>c t. s = s\<lparr>arp_cache := c, arp_cache_head := t\<rparr>"
    by (intro exI [of _ "arp_cache s"] exI [of _ "arp_cache_head s"]) simp
  moreover have "\<exists>d t. s\<lparr>arp_cache := c\<rparr> = s\<lparr>arp_cache := d, arp_cache_head := t\<rparr>" for c
    by (intro exI [of _ c] exI [of _ "arp_cache_head s"]) simp
  ultimately show ?thesis
    using assms unfolding arp_cache_insert_def
    by (auto simp: arp_set_age_def Let_def split: if_splits option.splits Option.bind_splits)
qed

lemma arp_boot_cong:
  assumes "arp_cache s' = arp_cache s" and "arp_cache_head s' = arp_cache_head s"
  shows "arp_boot b s' = arp_boot b s"
  using assms by (simp add: arp_boot_def arp_index_def)

text \<open>The state after a message from \<open>m\<close> has been learnt.\<close>

lemma arp_input_learns:
  assumes "arp_boot b s" and "arp_msg_ok m" and "arp_spa m \<noteq> 0" and "in_window b (arp_spa m)"
    and "q_rd s = q_wr s" and "arp_cache_get_entry s (arp_spa m) = Some None"
  obtains s' where "\<exists>c t. s' = s\<lparr>arp_cache := c, arp_cache_head := t, defer_inhibit := False\<rparr>"
    and "arp_boot b s'" and "arp_view s' = [arp_spa m \<mapsto> arp_sha m]"
    and "\<And>rest bsize. arp_input sendto s hdr (arp_ip_bytes (arp_hton m) @ rest) bsize =
      arp_respond s' (arp_hton m) (arp_ip_bytes (arp_hton m) @ rest) bsize"
proof -
  obtain s1 where s1: "arp_cache_insert s (arp_spa m) (arp_sha m) 0 = Some (s1, 0)" "arp_boot b s1"
    "arp_view s1 = [arp_spa m \<mapsto> arp_sha m]"
    using arp_boot_insert [OF assms(1,3,4), of "arp_sha m"] assms(6) by blast
  obtain c t where ct: "s1 = s\<lparr>arp_cache := c, arp_cache_head := t\<rparr>" using arp_insert_frame [OF s1(1)] by blast
  let ?s = "s1\<lparr>defer_inhibit := False\<rparr>"
  have idle: "ip_defer_handler sendto s1 = Some ?s" using assms(5) by (intro ip_defer_handler_idle) (simp add: ct)
  have at: "arp_ip_at (arp_ip_bytes (arp_hton m) @ rest) = Some (arp_hton m)" for rest
    using assms(2) by (intro arp_ip_at_bytes) (simp_all add: arp_msg_ok_def)
  show thesis
  proof
    show "\<exists>c t. ?s = s\<lparr>arp_cache := c, arp_cache_head := t, defer_inhibit := False\<rparr>" by (auto simp: ct)
    show "arp_boot b ?s" using s1(2) by (simp add: arp_boot_cong [of ?s s1])
    show "arp_view ?s = [arp_spa m \<mapsto> arp_sha m]" using s1(3) by simp
    show "arp_input sendto s hdr (arp_ip_bytes (arp_hton m) @ rest) bsize =
      arp_respond ?s (arp_hton m) (arp_ip_bytes (arp_hton m) @ rest) bsize" for rest bsize
      using assms(2) s1(1) idle at by (simp add: arp_input_def arp_msg_ok_def Let_def)
  qed
qed

text \<open>The reply of the station \<open>mac\<close> to the request \<open>m\<close>, in host order.\<close>

definition arp_answer :: "arp_ip \<Rightarrow> mac_addr_t \<Rightarrow> arp_ip" where
  "arp_answer m mac = m\<lparr>arp_oper := ARP_OPER_REPLY, arp_sha := mac, arp_spa := arp_tpa m,
     arp_tha := arp_sha m, arp_tpa := arp_spa m\<rparr>"

lemma htonl_eq_ntohl: "htonl x = ntohl x"
  by (simp add: htonl_def ntohl_def)

lemma arp_reply_answer: "arp_reply (arp_hton m) (Some mac) (arp_tpa m) = arp_hton (arp_answer m mac)"
  by (simp add: arp_reply_def arp_answer_def arp_hton_def htonl_eq_ntohl)


lemma memcpy_at_front: "length b = length a \<Longrightarrow> memcpy_at (a @ rest) 0 b = Some (b @ rest)"
  by (simp add: memcpy_at_def)

lemma ether_handle2addr_0: "ether_if s = [eth] \<Longrightarrow> ether_handle2addr s 0 = Some (s, 0, Some (el_mac eth))"
  by (simp add: ether_handle2addr_def ether_handle2eth_def)

lemma arp_input_request:
  assumes "ether_if s = [eth]" and "length (el_mac eth) = 6"
    and "arp_boot b s" and "arp_msg_ok m" and "arp_spa m \<noteq> 0"
    and "in_window b (arp_spa m)" and "q_rd s = q_wr s"
    and "arp_cache_get_entry s (arp_spa m) = Some None" and "arp_oper m = ARP_OPER_REQUEST"
    and "route_table bn bi s R" and "r \<in> R" and "r_iface r = arp_tpa m" and "r_iface_handle r = 0"
  obtains c t where "\<And>rest bsize. arp_input sendto s hdr (arp_ip_bytes (arp_hton m) @ rest) bsize =
      Some (s\<lparr>arp_cache := c, arp_cache_head := t, defer_inhibit := False\<rparr>,
        arp_ip_bytes (arp_hton (arp_answer m (el_mac eth))) @ rest, int bsize)"
    and "arp_view (s\<lparr>arp_cache := c, arp_cache_head := t, defer_inhibit := False\<rparr>) = [arp_spa m \<mapsto> arp_sha m]"
proof -
  obtain s' where "\<exists>c t. s' = s\<lparr>arp_cache := c, arp_cache_head := t, defer_inhibit := False\<rparr>"
    and "arp_boot b s'" and v: "arp_view s' = [arp_spa m \<mapsto> arp_sha m]"
    and eq: "\<And>rest bsize. arp_input sendto s hdr (arp_ip_bytes (arp_hton m) @ rest) bsize =
      arp_respond s' (arp_hton m) (arp_ip_bytes (arp_hton m) @ rest) bsize"
    by (rule arp_input_learns [OF assms(3-8), where sendto = sendto and hdr = hdr]) (rule that)
  then obtain c t where s': "s' = s\<lparr>arp_cache := c, arp_cache_head := t, defer_inhibit := False\<rparr>" by blast
  have "route_table bn bi s' R" using assms(10) by (simp add: s' route_table_def route_trees_def route_free_def)
  then have "ip_route_find_by_iface s' (arp_tpa m) = Some (s', 0, Some r)"
    using assms(11,12) by (rule ip_route_find_by_iface_ok(1))
  moreover have "ether_handle2addr s' (r_iface_handle r) = Some (s', 0, Some (el_mac eth))"
    using ether_handle2addr_0 [of s' eth] assms(1,13) by (simp add: s')
  moreover have "memcpy_at (arp_ip_bytes (arp_hton m) @ rest) 0
      (arp_ip_bytes (arp_reply (arp_hton m) (Some (el_mac eth)) (r_iface r))) =
      Some (arp_ip_bytes (arp_hton (arp_answer m (el_mac eth))) @ rest)" for rest
    unfolding assms(12) arp_reply_answer using assms(2,4)
    by (intro memcpy_at_front) (simp add: arp_msg_ok_def arp_answer_def)
  ultimately have "arp_input sendto s hdr (arp_ip_bytes (arp_hton m) @ rest) bsize =
      Some (s', arp_ip_bytes (arp_hton (arp_answer m (el_mac eth))) @ rest, int bsize)" for rest bsize
    unfolding eq using assms(9) by (simp add: arp_respond_def)
  then show thesis using that [of t c] v by (simp add: s')
qed

text \<open>
  \<^verbatim>\<open>arp_input\<close> of a request for the address of the interface returns the size of the frame
  and leaves the reply in its buffer: the interface's hardware address for that address,
  directed to the sender, the bytes after the message untouched. The sender is in the cache
  afterwards, and the interface itself has sent nothing.
\<close>

theorem arp_input_answers:
  assumes "ether_if s = [eth]" and "length (el_mac eth) = 6"
    and "arp_boot b s" and "arp_msg_ok m" and "arp_spa m \<noteq> 0"
    and "in_window b (arp_spa m)" and "q_rd s = q_wr s"
    and "arp_cache_get_entry s (arp_spa m) = Some None" and "arp_oper m = ARP_OPER_REQUEST"
    and "route_table bn bi s R" and "r \<in> R" and "r_iface r = arp_tpa m" and "r_iface_handle r = 0"
  shows "\<exists>s'. arp_input sendto s hdr (arp_ip_bytes (arp_hton m) @ rest) bsize =
      Some (s', arp_ip_bytes (arp_hton (arp_answer m (el_mac eth))) @ rest, int bsize) \<and>
    arp_view s' = [arp_spa m \<mapsto> arp_sha m] \<and> io_tx s' = io_tx s"
proof -
  obtain c t where "\<And>rest bsize. arp_input sendto s hdr (arp_ip_bytes (arp_hton m) @ rest) bsize =
      Some (s\<lparr>arp_cache := c, arp_cache_head := t, defer_inhibit := False\<rparr>,
        arp_ip_bytes (arp_hton (arp_answer m (el_mac eth))) @ rest, int bsize)"
    "arp_view (s\<lparr>arp_cache := c, arp_cache_head := t, defer_inhibit := False\<rparr>) = [arp_spa m \<mapsto> arp_sha m]"
    by (rule arp_input_request [OF assms, where sendto = sendto and hdr = hdr]) (rule that)
  then show ?thesis by simp
qed

lemma arp_input_reply:
  assumes "arp_boot b s" and "arp_msg_ok m" and "arp_spa m \<noteq> 0" and "in_window b (arp_spa m)"
    and "q_rd s = q_wr s" and "arp_cache_get_entry s (arp_spa m) = Some None"
    and "arp_oper m \<noteq> ARP_OPER_REQUEST"
  obtains s' where "\<And>rest bsize. arp_input sendto s hdr (arp_ip_bytes (arp_hton m) @ rest) bsize =
      Some (s', arp_ip_bytes (arp_hton m) @ rest, 0)"
    and "arp_view s' = [arp_spa m \<mapsto> arp_sha m]"
  by (rule arp_input_learns [OF assms(1-6), where sendto = sendto and hdr = hdr]) (rule that, simp_all add: assms(7) arp_respond_def)

definition demo_arp_stack :: "route_st \<Rightarrow> ip_st" where
  "demo_arp_stack s = arp_st.extend (route_st.extend s
     \<lparr>arp_cache = (\<lambda>_. arp_zero), arp_cache_head = \<lparr>rbh_root = None, rb_links = (\<lambda>_. rb_zero)\<rparr>\<rparr>)
     \<lparr>ip_global_id = 0, defer_inhibit = False,
      ip_defer_queue = (\<lambda>_. \<lparr>df_tries = 0, df_dst = 0, df_proto = 0, df_buf_size = 0, df_buf = []\<rparr>),
      q_rd = 0, q_wr = 0\<rparr>"

definition demo_arp_request :: arp_ip where
  "demo_arp_request = arp_query (Some [2, 0, 0, 0, 0, 2]) 0x0a000001 0x0a000002"


lemma demo_arp_stack_boot:
  "arp_boot 0 (demo_arp_stack s)" "arp_cache_get_entry (demo_arp_stack s) ip = Some None"
  by (rule arp_boot_start)
    (simp_all add: demo_arp_stack_def route_st.defs arp_st.defs arp_cache_get_entry_def RB_FIND_def
      rb_find_loop.simps)

lemma demo_arp_stack_fields [simp]:
  "ether_if (demo_arp_stack s) = ether_if s" "io_tx (demo_arp_stack s) = io_tx s"
  "q_rd (demo_arp_stack s) = 0" "q_wr (demo_arp_stack s) = 0"
  "route_table bn bi (demo_arp_stack s) R = route_table bn bi s R"
  by (simp_all add: demo_arp_stack_def route_st.defs arp_st.defs route_table_def route_trees_def route_free_def)

theorem arp_input_answers_witness:
  "\<exists>s s' :: ip_st. arp_input (\<lambda>_ _ f. (int (length f), 0)) s
      \<lparr>h_dst = mac_broadcast_addr, h_src = [2, 0, 0, 0, 0, 2], h_proto = 0x0806\<rparr>
      (arp_ip_bytes (arp_hton demo_arp_request) @ replicate 18 0) 46 =
      Some (s', arp_ip_bytes (arp_hton (arp_answer demo_arp_request [2, 0, 0, 0, 0, 1])) @ replicate 18 0, 46) \<and>
    arp_view s' = [0x0a000001 \<mapsto> [2, 0, 0, 0, 0, 2]]"
proof -
  obtain s :: route_st where s: "route_table 0 0 s {demo_route}"
    "ether_if s = [\<lparr>el_fd = 3, el_mac = [2, 0, 0, 0, 0, 1], el_if_idx = demo_if\<rparr>]" "io_tx s = []"
    by (rule demo_net)
  have "\<exists>s'. arp_input (\<lambda>_ _ f. (int (length f), 0)) (demo_arp_stack s)
      \<lparr>h_dst = mac_broadcast_addr, h_src = [2, 0, 0, 0, 0, 2], h_proto = 0x0806\<rparr>
      (arp_ip_bytes (arp_hton demo_arp_request) @ replicate 18 0) 46 =
      Some (s', arp_ip_bytes (arp_hton (arp_answer demo_arp_request
        (el_mac \<lparr>el_fd = 3, el_mac = [2, 0, 0, 0, 0, 1], el_if_idx = demo_if\<rparr>))) @ replicate 18 0, int 46) \<and>
    arp_view s' = [arp_spa demo_arp_request \<mapsto> arp_sha demo_arp_request] \<and>
    io_tx s' = io_tx (demo_arp_stack s)"
    by (rule arp_input_answers [where b = 0 and bn = 0 and bi = 0 and R = "{demo_route}" and r = demo_route])
      (use s demo_arp_stack_boot in \<open>simp_all add: demo_arp_request_def arp_query_def arp_msg_ok_def
        in_window_def window_key_def demo_route_def\<close>)
  then show ?thesis by (auto simp: demo_arp_request_def arp_query_def)
qed

end
