(* ===== verification/Ingress.thy ===== *)
theory Ingress
  imports Arp_Input
begin

text \<open>
  The ingress thread of \<^verbatim>\<open>src/nstack.c\<close>: a frame is received into \<^verbatim>\<open>rx_buffer\<close>, given to the
  handler of its protocol, and what the handler left in the buffer goes back as the reply;
  then the periodic tasks run when their time has come. The frames of the wire are the list
  \<open>rx\<close>, the uninitialised frame buffer of \<^verbatim>\<open>ether_receive\<close>, the clock and the value of
  \<^verbatim>\<open>nstack_state\<close> seen by an iteration are its \<open>tick\<close>.
\<close>

datatype nstack_state = NSTACK_STOPPED | NSTACK_RUNNING | NSTACK_DYING

record tick =
  tk_frame :: bytes
  tk_now :: int
  tk_state :: nstack_state

abbreviation (input) NSTACK_PERIODIC_EVENT_SEC :: int where "NSTACK_PERIODIC_EVENT_SEC \<equiv> 10"

text \<open>The difference of two \<^verbatim>\<open>time_t\<close> is stored in an \<^verbatim>\<open>int\<close>.\<close>

definition eval_timer :: "int \<Rightarrow> int \<Rightarrow> int \<times> int \<times> bool" where
  "eval_timer start now =
     (let delta_time = signed_take_bit 31 (now - start)
      in if delta_time \<ge> NSTACK_PERIODIC_EVENT_SEC then (delta_time, now, True)
         else (delta_time, start, False))"

fun run_periodic_tasks :: "('s \<Rightarrow> int \<Rightarrow> 's option) option list \<Rightarrow> 's \<Rightarrow> int \<Rightarrow> 's option" where
  "run_periodic_tasks [] s delta_time = Some s"
| "run_periodic_tasks (None # tasks) s delta_time = run_periodic_tasks tasks s delta_time"
| "run_periodic_tasks (Some task # tasks) s delta_time = do {
     s \<leftarrow> task s delta_time;
     run_periodic_tasks tasks s delta_time
   }"

definition ingress_frame ::
  "(u16 \<times> ('a ether_st_scheme, ether_hdr) handler) list \<Rightarrow> os_sendto \<Rightarrow> int \<Rightarrow> bytes \<Rightarrow>
   'a ether_st_scheme \<Rightarrow> bytes \<Rightarrow> rx_result list \<Rightarrow> ('a ether_st_scheme \<times> bytes \<times> rx_result list) option" where
  "ingress_frame handlers sendto handle fb s rx_buffer rx = do {
     (s, rx, retval, got) \<leftarrow> ether_receive s rx fb handle (length rx_buffer);
     case got of
       None \<Rightarrow> Some (s, rx_buffer, rx)
     | Some (hdr, data) \<Rightarrow> do {
         rx_buffer \<leftarrow> memcpy_at rx_buffer 0 data;
         if retval > 0 then do {
           (s, rx_buffer, retval) \<leftarrow> ether_input handlers s hdr rx_buffer (nat retval);
           if retval > 0 then do {
             (s, _) \<leftarrow> ether_output_reply sendto s handle hdr rx_buffer (nat retval);
             Some (s, rx_buffer, rx)
           }
           else Some (s, rx_buffer, rx)
         }
         else Some (s, rx_buffer, rx)
       }
   }"

definition ingress_step ::
  "(u16 \<times> ('a ether_st_scheme, ether_hdr) handler) list \<Rightarrow> ('a ether_st_scheme \<Rightarrow> int \<Rightarrow> 'a ether_st_scheme option) option list \<Rightarrow>
   os_sendto \<Rightarrow> int \<Rightarrow> tick \<Rightarrow> 'a ether_st_scheme \<times> bytes \<times> int \<times> rx_result list \<Rightarrow>
   ('a ether_st_scheme \<times> bytes \<times> int \<times> rx_result list) option" where
  "ingress_step handlers tasks sendto handle tk = (\<lambda>(s, rx_buffer, start, rx). do {
     (s, rx_buffer, rx) \<leftarrow> ingress_frame handlers sendto handle (tk_frame tk) s rx_buffer rx;
     let (delta_time, start, fire) = eval_timer start (tk_now tk);
     s \<leftarrow> (if fire then run_periodic_tasks tasks s delta_time else Some s);
     Some (s, rx_buffer, start, rx)
   })"

text \<open>The thread over the ticks of its iterations; it ends after the first one that sees \<^verbatim>\<open>NSTACK_DYING\<close>.\<close>

fun nstack_ingress_thread ::
  "(u16 \<times> ('a ether_st_scheme, ether_hdr) handler) list \<Rightarrow> ('a ether_st_scheme \<Rightarrow> int \<Rightarrow> 'a ether_st_scheme option) option list \<Rightarrow>
   os_sendto \<Rightarrow> int \<Rightarrow> tick list \<Rightarrow> 'a ether_st_scheme \<times> bytes \<times> int \<times> rx_result list \<Rightarrow>
   ('a ether_st_scheme \<times> bytes \<times> int \<times> rx_result list) option" where
  "nstack_ingress_thread handlers tasks sendto handle [] st = Some st"
| "nstack_ingress_thread handlers tasks sendto handle (tk # tks) st = do {
     st \<leftarrow> ingress_step handlers tasks sendto handle tk st;
     if tk_state tk = NSTACK_DYING then Some st
     else nstack_ingress_thread handlers tasks sendto handle tks st
   }"

section \<open>A frame through the thread\<close>

text \<open>The frame of a peer reaches the handler of its protocol, at the start of the buffer.\<close>

lemma ingress_frame_input:
  assumes "ether_if s = [eth]" and "length dst = 6" and "length src = 6" and "src \<noteq> el_mac eth"
    and "length data \<le> ETHER_DATA_LEN" and "length fb = ETHER_MAXLEN" and "length buf = ETHER_MAXLEN"
  obtains tail n where "length (data @ tail) = ETHER_MAXLEN" and "n > 0" and "n \<ge> length data" and "n \<le> ETHER_DATA_LEN"
    and "\<And>handlers sendto. ingress_frame handlers sendto 0 fb s buf (RxFrame (ether_frame dst src proto data) # rx) = do {
      (s, rx_buffer, retval) \<leftarrow> ether_input handlers s \<lparr>h_dst = dst, h_src = src, h_proto = proto\<rparr> (data @ tail) n;
      if retval > 0 then do {
        (s, _) \<leftarrow> ether_output_reply sendto s 0 \<lparr>h_dst = dst, h_src = src, h_proto = proto\<rparr> rx_buffer (nat retval);
        Some (s, rx_buffer, rx)
      }
      else Some (s, rx_buffer, rx)
    }"
proof -
  let ?hdr = "\<lparr>h_dst = dst, h_src = src, h_proto = proto\<rparr>"
  obtain payload where p: "ether_receive s (RxFrame (ether_frame dst src proto data) # rx) fb 0 (length buf) =
      Some (s, rx, int (length payload), Some (?hdr, payload))"
    "take (length data) payload = data" "length payload \<ge> 56" "length payload \<le> ETHER_DATA_LEN"
    using ether_receive_frame [OF assms(1-6), of "length buf" proto rx] assms(7) by auto
  define tail where "tail = drop (length data) payload @ drop (length payload) buf"
  have split: "payload @ drop (length payload) buf = data @ tail"
    using p(2) by (metis append.assoc append_take_drop_id tail_def)
  then have copy: "memcpy_at buf 0 payload = Some (data @ tail)" using p(4) assms(7) by (simp add: memcpy_at_def)
  have "length data \<le> length payload" using p(2) by (metis length_take min.cobounded1)
  moreover have "length (data @ tail) = ETHER_MAXLEN"
    using p(4) assms(7) by (simp only: split [symmetric]) simp
  moreover have "ingress_frame handlers sendto 0 fb s buf (RxFrame (ether_frame dst src proto data) # rx) = do {
      (s, rx_buffer, retval) \<leftarrow> ether_input handlers s ?hdr (data @ tail) (length payload);
      if retval > 0 then do {
        (s, _) \<leftarrow> ether_output_reply sendto s 0 ?hdr rx_buffer (nat retval);
        Some (s, rx_buffer, rx)
      }
      else Some (s, rx_buffer, rx)
    }" for handlers sendto
    using p(3) by (auto simp: ingress_frame_def p(1) copy)
  ultimately show thesis using p(3,4) by (intro that [of tail "length payload"]) auto
qed

text \<open>
  Two stations on a wire. The asking one broadcasts a request, the thread of the other one
  answers it, and the thread of the asking one learns the answer.
\<close>

definition arp_handlers ::
  "os_sendto \<Rightarrow> (u16 \<times> ('a ip_st_scheme, ether_hdr) handler) list" where
  "arp_handlers sendto = [(ETHER_PROTO_ARP, arp_input sendto)]"

lemma arp_dispatch:
  "h_proto hdr = ETHER_PROTO_ARP \<Longrightarrow> arp_input sendto s hdr payload n = Some (s', payload', r) \<Longrightarrow> r \<ge> 0 \<Longrightarrow>
   ether_input (arp_handlers sendto) s hdr payload n = Some (s', payload', r)"
  by (simp add: ether_input_def arp_handlers_def)

lemma ingress_arp_request:
  assumes "ether_if s = [eth]" and "length (el_mac eth) = 6"
    and "arp_boot b s" and "arp_msg_ok m" and "arp_spa m \<noteq> 0"
    and "in_window b (arp_spa m)" and "q_rd s = q_wr s"
    and "arp_cache_get_entry s (arp_spa m) = Some None" and "arp_oper m = ARP_OPER_REQUEST"
    and "route_table bn bi s R" and "r \<in> R" and "r_iface r = arp_tpa m" and "r_iface_handle r = 0"
    and "length dst = 6" and "length src = 6" and "src \<noteq> el_mac eth" and "os_accepts sendto"
    and "length fb = ETHER_MAXLEN" and "length buf = ETHER_MAXLEN"
  obtains s' buf' rest where
    "ingress_frame (arp_handlers sendto) sendto 0 fb s buf
      (RxFrame (ether_frame dst src ETHER_PROTO_ARP (arp_ip_bytes (arp_hton m))) # rx) = Some (s', buf', rx)"
    and "io_tx s' = io_tx s @ [(el_fd eth, ether_frame src (el_mac eth) ETHER_PROTO_ARP
      (arp_ip_bytes (arp_hton (arp_answer m (el_mac eth))) @ rest))]"
    and "28 + length rest \<le> ETHER_DATA_LEN" and "arp_view s' = [arp_spa m \<mapsto> arp_sha m]"
proof -
  let ?hdr = "\<lparr>h_dst = dst, h_src = src, h_proto = ETHER_PROTO_ARP\<rparr>"
  let ?m = "arp_ip_bytes (arp_hton m)" and ?ans = "arp_ip_bytes (arp_hton (arp_answer m (el_mac eth)))"
  have len: "length ?m = 28" "length ?ans = 28" using assms(2,4) by (simp_all add: arp_msg_ok_def arp_answer_def)
  obtain tail n where t: "length (?m @ tail) = ETHER_MAXLEN" "n > 0" "n \<ge> length ?m" "n \<le> ETHER_DATA_LEN"
    and step: "\<And>handlers sendto. ingress_frame handlers sendto 0 fb s buf
      (RxFrame (ether_frame dst src ETHER_PROTO_ARP ?m) # rx) = do {
      (s, rx_buffer, retval) \<leftarrow> ether_input handlers s ?hdr (?m @ tail) n;
      if retval > 0 then do {
        (s, _) \<leftarrow> ether_output_reply sendto s 0 ?hdr rx_buffer (nat retval);
        Some (s, rx_buffer, rx)
      }
      else Some (s, rx_buffer, rx)
    }"
    by (rule ingress_frame_input [OF assms(1,14-16) _ assms(18,19), of ?m]) (use len in auto)
  obtain c t where in_eq: "\<And>rest bsize. arp_input sendto s ?hdr (?m @ rest) bsize =
      Some (s\<lparr>arp_cache := c, arp_cache_head := t, defer_inhibit := False\<rparr>, ?ans @ rest, int bsize)"
    and v: "arp_view (s\<lparr>arp_cache := c, arp_cache_head := t, defer_inhibit := False\<rparr>) = [arp_spa m \<mapsto> arp_sha m]"
    by (rule arp_input_request [OF assms(1-13), where sendto = sendto and hdr = ?hdr]) (rule that)
  let ?s = "s\<lparr>arp_cache := c, arp_cache_head := t, defer_inhibit := False\<rparr>"
  have disp: "ether_input (arp_handlers sendto) s ?hdr (?m @ tail) n = Some (?s, ?ans @ tail, int n)"
    by (rule arp_dispatch) (simp_all add: in_eq)
  obtain rv where rv: "ether_send sendto ?s 0 src ETHER_PROTO_ARP (?ans @ tail) n =
      Some (put_frames [(el_fd eth, ether_frame src (el_mac eth) ETHER_PROTO_ARP (take n (?ans @ tail)))] ?s, rv)" "rv \<ge> 0"
    using ether_send_accepted [of ?s eth sendto n "?ans @ tail" src ETHER_PROTO_ARP] assms(1,17) t len by auto
  let ?s' = "put_frames [(el_fd eth, ether_frame src (el_mac eth) ETHER_PROTO_ARP (take n (?ans @ tail)))] ?s"
  have cut: "take n (?ans @ tail) = ?ans @ take (n - 28) tail" using len t(3) by simp
  show thesis
  proof
    show "ingress_frame (arp_handlers sendto) sendto 0 fb s buf
      (RxFrame (ether_frame dst src ETHER_PROTO_ARP ?m) # rx) = Some (?s', ?ans @ tail, rx)"
      using rv t(2) by (simp add: step disp ether_output_reply_def)
    show "io_tx ?s' = io_tx s @ [(el_fd eth, ether_frame src (el_mac eth) ETHER_PROTO_ARP (?ans @ take (n - 28) tail))]"
      unfolding cut by (simp add: put_frames_def)
    show "28 + length (take (n - 28) tail) \<le> ETHER_DATA_LEN" using t(3,4) len by simp
    have "arp_view ?s' = arp_view ?s" by (rule arp_view_cong) (simp_all add: put_frames_def)
    with v show "arp_view ?s' = [arp_spa m \<mapsto> arp_sha m]" by simp
  qed
qed

lemma ingress_arp_reply:
  assumes "ether_if s = [eth]"
    and "arp_boot b s" and "arp_msg_ok m" and "arp_spa m \<noteq> 0" and "in_window b (arp_spa m)" and "q_rd s = q_wr s"
    and "arp_cache_get_entry s (arp_spa m) = Some None" and "arp_oper m \<noteq> ARP_OPER_REQUEST"
    and "length dst = 6" and "length src = 6" and "src \<noteq> el_mac eth"
    and "length fb = ETHER_MAXLEN" and "length buf = ETHER_MAXLEN" and "28 + length rest \<le> ETHER_DATA_LEN"
  obtains s' buf' where
    "ingress_frame (arp_handlers sendto) sendto 0 fb s buf
      (RxFrame (ether_frame dst src ETHER_PROTO_ARP (arp_ip_bytes (arp_hton m) @ rest)) # rx) = Some (s', buf', rx)"
    and "arp_view s' = [arp_spa m \<mapsto> arp_sha m]"
proof -
  let ?hdr = "\<lparr>h_dst = dst, h_src = src, h_proto = ETHER_PROTO_ARP\<rparr>"
  let ?m = "arp_ip_bytes (arp_hton m) @ rest"
  have len: "length ?m = 28 + length rest" using assms(3) by (simp add: arp_msg_ok_def)
  obtain tail n where step: "\<And>handlers sendto. ingress_frame handlers sendto 0 fb s buf
      (RxFrame (ether_frame dst src ETHER_PROTO_ARP ?m) # rx) = do {
      (s, rx_buffer, retval) \<leftarrow> ether_input handlers s ?hdr (?m @ tail) n;
      if retval > 0 then do {
        (s, _) \<leftarrow> ether_output_reply sendto s 0 ?hdr rx_buffer (nat retval);
        Some (s, rx_buffer, rx)
      }
      else Some (s, rx_buffer, rx)
    }"
    by (rule ingress_frame_input [OF assms(1,9-11) _ assms(12,13), of ?m]) (use len assms(14) in auto)
  obtain s' where in_eq: "\<And>rest bsize. arp_input sendto s ?hdr (arp_ip_bytes (arp_hton m) @ rest) bsize =
      Some (s', arp_ip_bytes (arp_hton m) @ rest, 0)" and v: "arp_view s' = [arp_spa m \<mapsto> arp_sha m]"
    by (rule arp_input_reply [OF assms(2-8), where sendto = sendto and hdr = ?hdr]) (rule that)
  have "ether_input (arp_handlers sendto) s ?hdr (?m @ tail) n = Some (s', ?m @ tail, 0)"
    by (rule arp_dispatch) (simp_all add: in_eq)
  then show thesis using v by (intro that [of s' "?m @ tail"]) (simp_all add: step)
qed

lemma arp_tx [simp]:
  "arp_boot w (s\<lparr>io_tx := tx\<rparr>) = arp_boot w s"
  "arp_cache_get_entry (s\<lparr>io_tx := tx\<rparr>) ip = arp_cache_get_entry s ip"
  by (rule arp_boot_cong) (simp_all add: arp_cache_get_entry_def)

text \<open>
  C24: Address resolution between two stations on a wire. The station \<open>a\<close> asks for the address of
  the interface of \<open>b\<close>; one round of the ingress thread of \<open>b\<close> takes the request and sends one
  frame, and one round of the thread of \<open>a\<close> takes that frame. Each station then knows the
  hardware address of the other one.
\<close>

theorem arp_resolves:
  assumes "ether_if a = [ea]" and "length (el_mac ea) = 6" and "arp_boot wa a" and "q_rd a = q_wr a"
    and "arp_cache_get_entry a ipb = Some None" and "ipb \<noteq> 0" and "in_window wa ipb"
    and "ether_if b = [eb]" and "length (el_mac eb) = 6" and "arp_boot wb b" and "q_rd b = q_wr b"
    and "arp_cache_get_entry b ipa = Some None" and "ipa \<noteq> 0" and "in_window wb ipa"
    and "route_table bn bi b R" and "r \<in> R" and "r_iface r = ipb" and "r_iface_handle r = 0"
    and "el_mac ea \<noteq> el_mac eb" and "os_accepts sendto"
    and "length fb = ETHER_MAXLEN" and "length buf = ETHER_MAXLEN"
  shows "\<exists>a1 req b1 buf1 rep a2 buf2.
    arp_request sendto a 0 ipa ipb = Some (a1, 0) \<and> io_tx a1 = io_tx a @ [(el_fd ea, req)] \<and>
    ingress_frame (arp_handlers sendto) sendto 0 fb b buf (RxFrame req # rx) = Some (b1, buf1, rx) \<and>
    io_tx b1 = io_tx b @ [(el_fd eb, rep)] \<and> arp_view b1 = [ipa \<mapsto> el_mac ea] \<and>
    ingress_frame (arp_handlers sendto) sendto 0 fb a1 buf (RxFrame rep # rx) = Some (a2, buf2, rx) \<and>
    arp_view a2 = [ipb \<mapsto> el_mac eb]"
proof -
  let ?m = "arp_query (Some (el_mac ea)) ipa ipb"
  let ?req = "ether_frame mac_broadcast_addr (el_mac ea) ETHER_PROTO_ARP (arp_ip_bytes (arp_hton ?m))"
  let ?ans = "arp_answer ?m (el_mac eb)"
  let ?a = "a\<lparr>io_tx := io_tx a @ [(el_fd ea, ?req)]\<rparr>"
  note m = arp_query_def arp_msg_ok_def arp_answer_def
  have req: "arp_request sendto a 0 ipa ipb = Some (?a, 0)"
    using arp_request_ok [OF assms(1,2), of sendto ipa ipb] assms(20) by (simp add: os_accepts_def arp_frame_def)
  have six: "length mac_broadcast_addr = 6" by (simp add: mac_broadcast_addr_def)
  obtain b1 buf1 rest where b1: "ingress_frame (arp_handlers sendto) sendto 0 fb b buf (RxFrame ?req # rx) = Some (b1, buf1, rx)"
    "io_tx b1 = io_tx b @ [(el_fd eb, ether_frame (el_mac ea) (el_mac eb) ETHER_PROTO_ARP
      (arp_ip_bytes (arp_hton ?ans) @ rest))]"
    "28 + length rest \<le> ETHER_DATA_LEN" "arp_view b1 = [arp_spa ?m \<mapsto> arp_sha ?m]"
    by (rule ingress_arp_request [OF assms(8-10), where m = ?m and r = r and R = R and src = "el_mac ea" and
          dst = mac_broadcast_addr and rx = rx and buf = buf and fb = fb and sendto = sendto and bn = bn and bi = bi])
      (use assms six in \<open>simp_all add: m\<close>)
  obtain a2 buf2 where a2: "ingress_frame (arp_handlers sendto) sendto 0 fb ?a buf
      (RxFrame (ether_frame (el_mac ea) (el_mac eb) ETHER_PROTO_ARP (arp_ip_bytes (arp_hton ?ans) @ rest)) # rx) =
      Some (a2, buf2, rx)" "arp_view a2 = [arp_spa ?ans \<mapsto> arp_sha ?ans]"
    by (rule ingress_arp_reply [of ?a ea wa ?ans, where src = "el_mac eb" and rest = rest and
          dst = "el_mac ea" and rx = rx and buf = buf and fb = fb and sendto = sendto])
      (use assms b1(3) in \<open>simp_all add: m\<close>)
  show ?thesis
    using req b1(1,2,4) a2
    by (intro exI [of _ ?a] exI [of _ ?req] exI [of _ b1] exI [of _ buf1] exI [of _ a2] exI [of _ buf2]
        exI [of _ "ether_frame (el_mac ea) (el_mac eb) ETHER_PROTO_ARP (arp_ip_bytes (arp_hton ?ans) @ rest)"])
      (simp add: m)
qed

definition demo_mac :: "mac_addr_t \<Rightarrow> 'a ether_st_scheme \<Rightarrow> 'a ether_st_scheme" where
  "demo_mac mac s = s\<lparr>ether_if := [\<lparr>el_fd = 3, el_mac = mac, el_if_idx = demo_if\<rparr>]\<rparr>"

theorem arp_resolves_witness:
  "\<exists>a :: ip_st. \<exists>b :: ip_st. \<exists>a1 a2 b1 req buf1 rep buf2.
    arp_request (\<lambda>_ _ f. (int (length f), 0)) a 0 0x0a000001 0x0a000002 = Some (a1, 0) \<and>
    io_tx a1 = io_tx a @ [(3, req)] \<and>
    ingress_frame (arp_handlers (\<lambda>_ _ f. (int (length f), 0))) (\<lambda>_ _ f. (int (length f), 0)) 0
      (replicate 1514 0) b (replicate 1514 0) [RxFrame req] = Some (b1, buf1, []) \<and>
    io_tx b1 = io_tx b @ [(3, rep)] \<and> arp_view b1 = [0x0a000001 \<mapsto> [2, 0, 0, 0, 0, 2]] \<and>
    ingress_frame (arp_handlers (\<lambda>_ _ f. (int (length f), 0))) (\<lambda>_ _ f. (int (length f), 0)) 0
      (replicate 1514 0) a1 (replicate 1514 0) [RxFrame rep] = Some (a2, buf2, []) \<and>
    arp_view a2 = [0x0a000002 \<mapsto> [2, 0, 0, 0, 0, 1]]"
proof -
  obtain s :: route_st where s: "route_table 0 0 s {demo_route}"
    "ether_if s = [\<lparr>el_fd = 3, el_mac = [2, 0, 0, 0, 0, 1], el_if_idx = demo_if\<rparr>]" "io_tx s = []"
    by (rule demo_net)
  let ?b = "demo_arp_stack s" and ?a = "demo_arp_stack (demo_mac [2, 0, 0, 0, 0, 2] s)"
  have "\<exists>a1 req b1 buf1 rep a2 buf2.
    arp_request (\<lambda>_ _ f. (int (length f), 0)) ?a 0 0x0a000001 0x0a000002 = Some (a1, 0) \<and>
    io_tx a1 = io_tx ?a @ [(el_fd \<lparr>el_fd = 3, el_mac = [2, 0, 0, 0, 0, 2], el_if_idx = demo_if\<rparr>, req)] \<and>
    ingress_frame (arp_handlers (\<lambda>_ _ f. (int (length f), 0))) (\<lambda>_ _ f. (int (length f), 0)) 0
      (replicate 1514 0) ?b (replicate 1514 0) (RxFrame req # []) = Some (b1, buf1, []) \<and>
    io_tx b1 = io_tx ?b @ [(el_fd \<lparr>el_fd = 3, el_mac = [2, 0, 0, 0, 0, 1], el_if_idx = demo_if\<rparr>, rep)] \<and>
    arp_view b1 = [0x0a000001 \<mapsto> el_mac \<lparr>el_fd = 3, el_mac = [2, 0, 0, 0, 0, 2], el_if_idx = demo_if\<rparr>] \<and>
    ingress_frame (arp_handlers (\<lambda>_ _ f. (int (length f), 0))) (\<lambda>_ _ f. (int (length f), 0)) 0
      (replicate 1514 0) a1 (replicate 1514 0) (RxFrame rep # []) = Some (a2, buf2, []) \<and>
    arp_view a2 = [0x0a000002 \<mapsto> el_mac \<lparr>el_fd = 3, el_mac = [2, 0, 0, 0, 0, 1], el_if_idx = demo_if\<rparr>]"
    by (rule arp_resolves [where wa = 0 and wb = 0 and bn = 0 and bi = 0 and R = "{demo_route}" and r = demo_route])
      (use s demo_arp_stack_boot in \<open>simp_all add: demo_mac_def in_window_def window_key_def demo_route_def os_accepts_def\<close>)
  then show ?thesis unfolding ether_linux.simps by (elim exE) (intro exI, assumption)
qed

end
