(* ===== verification/Memcmp.thy ===== *)
theory Memcmp
  imports Rb_Index
begin

text \<open>
  \<^verbatim>\<open>memcmp\<close> of the C library, with which the reassembly buffers and the sockets are ordered in
  their trees: the difference of the first two bytes that differ. On byte strings of one
  length it is the order of the numbers they are in base 256, the first byte the most
  significant one.
\<close>

fun memcmp :: "bytes \<Rightarrow> bytes \<Rightarrow> int" where
  "memcmp (x # xs) (y # ys) = (if x = y then memcmp xs ys else int (unat x) - int (unat y))"
| "memcmp _ _ = 0"

fun be_val :: "bytes \<Rightarrow> nat" where
  "be_val [] = 0"
| "be_val (x # xs) = unat x * 256 ^ length xs + be_val xs"

lemma be_val_less: "be_val xs < 256 ^ length xs"
proof (induction xs)
  case (Cons x xs)
  have "unat x * 256 ^ length xs + be_val xs < (unat x + 1) * 256 ^ length xs"
    using Cons by (simp add: algebra_simps)
  also have "\<dots> \<le> 256 * 256 ^ length xs"
    using unat_u8_less [of x] by (intro mult_le_mono1) linarith
  finally show ?case by simp
qed simp

lemma be_val_first:
  assumes "length xs = length ys" and "unat x < unat y"
  shows "be_val (x # xs) < be_val (y # ys)"
proof -
  have "be_val (x # xs) < (unat x + 1) * 256 ^ length xs" using be_val_less [of xs] by (simp add: algebra_simps)
  also have "\<dots> \<le> unat y * 256 ^ length xs" using assms(2) by (intro mult_le_mono1) simp
  finally show ?thesis using assms(1) by simp
qed

lemma memcmp_val:
  assumes "length xs = length ys"
  shows "(memcmp xs ys < 0 \<longleftrightarrow> be_val xs < be_val ys) \<and> (memcmp xs ys = 0 \<longleftrightarrow> xs = ys) \<and>
    (memcmp xs ys > 0 \<longleftrightarrow> be_val ys < be_val xs)"
  using assms
proof (induction xs ys rule: list_induct2)
  case (Cons x xs y ys)
  consider "x = y" | "unat x < unat y" | "unat y < unat x"
    by (metis linorder_neqE_nat word_eq_iff_unsigned [where 'a = nat])
  then show ?case
  proof cases
    case 1
    with Cons show ?thesis by simp
  next
    case 2
    then have "memcmp (x # xs) (y # ys) = int (unat x) - int (unat y)" by auto
    then have "memcmp (x # xs) (y # ys) < 0" using 2 by linarith
    with be_val_first [OF Cons.hyps 2] 2 show ?thesis by (auto simp del: memcmp.simps be_val.simps)
  next
    case 3
    then have "memcmp (x # xs) (y # ys) = int (unat x) - int (unat y)" by auto
    then have "memcmp (x # xs) (y # ys) > 0" using 3 by linarith
    with be_val_first [OF Cons.hyps [symmetric] 3] 3 show ?thesis by (auto simp del: memcmp.simps be_val.simps)
  qed
qed simp

lemma be_val_eq_iff: "length xs = length ys \<Longrightarrow> be_val xs = be_val ys \<longleftrightarrow> xs = ys"
  using memcmp_val [of xs ys] by (metis linorder_neqE_linordered_idom order_less_irrefl)

lemma by_key_memcmp:
  assumes "\<And>a. a \<in> A \<Longrightarrow> length (f a) = length x"
  shows "by_key (be_val x) (\<lambda>a. be_val (f a)) (\<lambda>a. memcmp x (f a)) A"
  using assms memcmp_val be_val_eq_iff unfolding by_key_def by metis

end
