(* ===== verification/Ip_Input.thy ===== *)
theory Ip_Input
  imports Icmp Ingress Memcmp
begin

text \<open>
  IP input of \<^verbatim>\<open>src/ip.c\<close> and the reassembly of \<^verbatim>\<open>src/ip_fragment.c\<close>. The two call each other:
  a fragment goes to its buffer, and a buffer that is complete goes through \<^verbatim>\<open>ip_input\<close> again.
  \<^verbatim>\<open>ip_input_n\<close> bounds the depth of that recursion; a reassembled packet has no fragment
  offset and no flags, so two levels are all there is, which is proved below. The handlers of
  the protocols are the elements of a linker set, in link order.
\<close>

text \<open>Subtraction of \<^verbatim>\<open>size_t\<close>, and an \<^verbatim>\<open>int\<close> converted to it.\<close>

definition size_sub :: "nat \<Rightarrow> nat \<Rightarrow> nat" where
  "size_sub a b = unat (of_nat a - of_nat b :: size_t)"

definition size_of_int :: "int \<Rightarrow> nat" where
  "size_of_int i = unat (of_int i :: size_t)"

record packet_buf =
  reserved :: bool
  pb_timer :: int
  fragmap :: "nat \<Rightarrow> u32"
  pb_hdr :: ip_hdr
  pb_payload :: bytes

record frag_st = ip_st +
  packet_buffer :: "nat \<Rightarrow> packet_buf"
  packet_buffer_head :: rb_head

abbreviation (input) IP_MAX_BYTES :: nat where "IP_MAX_BYTES \<equiv> 65535"
abbreviation (input) FRAG_MAP_SIZE :: nat where "FRAG_MAP_SIZE \<equiv> 256"
abbreviation (input) NSTACK_IP_FRAGMENT_BUF :: nat where "NSTACK_IP_FRAGMENT_BUF \<equiv> 4"
abbreviation (input) NSTACK_IP_FRAGMENT_TLB :: int where "NSTACK_IP_FRAGMENT_TLB \<equiv> 15"
abbreviation (input) IP_FLAGS_MF :: u16 where "IP_FLAGS_MF \<equiv> 0x2000"

section \<open>Reassembly buffers\<close>

text \<open>The struct of the identification: addresses, protocol, a byte of padding, identifier.\<close>

definition bufid :: "ip_hdr \<Rightarrow> bytes" where
  "bufid h = bytes32 (ip_src h) @ bytes32 (ip_dst h) @ [ip_proto h, 0] @ bytes16 (ip_id h)"

definition packet_buf_cmp :: "ip_hdr \<Rightarrow> ip_hdr \<Rightarrow> int" where
  "packet_buf_cmp a b = memcmp (bufid a) (bufid b)"

text \<open>\<^verbatim>\<open>memset\<close> of \<^verbatim>\<open>FRAG_MAP_SIZE\<close> bytes clears a quarter of the map's 32-bit words.\<close>

definition fragmap_init :: "(nat \<Rightarrow> u32) \<Rightarrow> nat \<Rightarrow> u32" where
  "fragmap_init m = (\<lambda>w. if 4 * w < FRAG_MAP_SIZE then 0 else m w)"

definition fragmap_set :: "(nat \<Rightarrow> u32) \<Rightarrow> nat \<Rightarrow> (nat \<Rightarrow> u32) option" where
  "fragmap_set m i =
     (if i div 32 < FRAG_MAP_SIZE then Some (m(i div 32 := m (i div 32) OR push_bit (i mod 32) 1))
      else None)"

definition fragmap_clear :: "(nat \<Rightarrow> u32) \<Rightarrow> nat \<Rightarrow> (nat \<Rightarrow> u32) option" where
  "fragmap_clear m i =
     (if i div 32 < FRAG_MAP_SIZE then Some (m(i div 32 := m (i div 32) AND NOT (push_bit (i mod 32) 1)))
      else None)"

definition fragmap_tst :: "(nat \<Rightarrow> u32) \<Rightarrow> nat \<Rightarrow> bool option" where
  "fragmap_tst m i =
     (if i div 32 < FRAG_MAP_SIZE then Some (m (i div 32) AND push_bit (i mod 32) 1 \<noteq> 0)
      else None)"

definition pb_upd :: "nat \<Rightarrow> (packet_buf \<Rightarrow> packet_buf) \<Rightarrow> 'a frag_st_scheme \<Rightarrow> 'a frag_st_scheme" where
  "pb_upd p f s = s\<lparr>packet_buffer := (packet_buffer s)(p := f (packet_buffer s p))\<rparr>"

definition release_packet_buffer :: "'a frag_st_scheme \<Rightarrow> nat \<Rightarrow> 'a frag_st_scheme option" where
  "release_packet_buffer s p = do {
     head \<leftarrow> RB_REMOVE (packet_buffer_head s) (Some p);
     Some (pb_upd p (\<lambda>b. b\<lparr>reserved := False\<rparr>) (s\<lparr>packet_buffer_head := head\<rparr>))
   }"

text \<open>The scan sets \<^verbatim>\<open>reserved\<close> of every buffer it passes, which is a change for the free one only.\<close>

definition free_packet_buffer :: "'a frag_st_scheme \<Rightarrow> nat option" where
  "free_packet_buffer s = find (\<lambda>i. \<not> reserved (packet_buffer s i)) [0..<NSTACK_IP_FRAGMENT_BUF]"

definition get_packet_buffer :: "'a frag_st_scheme \<Rightarrow> ip_hdr \<Rightarrow> ('a frag_st_scheme \<times> nat option) option" where
  "get_packet_buffer s hdr = do {
     p \<leftarrow> RB_FIND (\<lambda>a. packet_buf_cmp hdr (pb_hdr (packet_buffer s a))) (packet_buffer_head s);
     case p of
       Some p \<Rightarrow> Some (s, Some p)
     | None \<Rightarrow>
         (case free_packet_buffer s of
            None \<Rightarrow> Some (s, None)
          | Some p \<Rightarrow> do {
              let s = pb_upd p (\<lambda>b. b\<lparr>reserved := True, pb_timer := NSTACK_IP_FRAGMENT_TLB,
                fragmap := fragmap_init (fragmap b), pb_hdr := hdr\<lparr>ip_foff := 0, ip_len := 0\<rparr>\<rparr>) s;
              (head, dup) \<leftarrow> RB_INSERT (\<lambda>a. packet_buf_cmp (pb_hdr (packet_buffer s p)) (pb_hdr (packet_buffer s a)))
                (packet_buffer_head s) p;
              let s = s\<lparr>packet_buffer_head := head\<rparr>;
              case dup of
                Some _ \<Rightarrow> do {
                  s \<leftarrow> release_packet_buffer s p;
                  Some (s, None)
                }
              | None \<Rightarrow> Some (s, Some p)
            })
   }"

fun fragmap_set_range :: "(nat \<Rightarrow> u32) \<Rightarrow> nat list \<Rightarrow> (nat \<Rightarrow> u32) option" where
  "fragmap_set_range m [] = Some m"
| "fragmap_set_range m (i # js) = do {
     m \<leftarrow> fragmap_set m i;
     fragmap_set_range m js
   }"

fun fragmap_full :: "(nat \<Rightarrow> u32) \<Rightarrow> nat list \<Rightarrow> bool option" where
  "fragmap_full m [] = Some True"
| "fragmap_full m (i # js) = do {
     t \<leftarrow> fragmap_tst m i;
     rest \<leftarrow> fragmap_full m js;
     Some (t \<and> rest)
   }"

text \<open>A fragment is stored: its data, its bits, and what the first or the last one tells.\<close>

definition store_fragment :: "packet_buf \<Rightarrow> ip_hdr \<Rightarrow> bytes \<Rightarrow> packet_buf option" where
  "store_fragment b ip rx_packet = do {
     let off = unat (ip_foff ip AND 0x1fff) * 8;
     let len = size_sub (unat (ip_len ip)) (ip_hdr_hlen ip);
     data \<leftarrow> read_at rx_packet 0 len;
     payload \<leftarrow> memcpy_at (pb_payload b) off data;
     m \<leftarrow> fragmap_set_range (fragmap b) [off div 8..<off div 8 + (len + 7) div 8];
     let b = b\<lparr>pb_payload := payload, fragmap := m\<rparr>;
     Some (if off = 0 then b\<lparr>pb_hdr := ip\<lparr>ip_len := 0, ip_foff := 0\<rparr>\<rparr>
           else if ip_foff ip AND IP_FLAGS_MF = 0
           then b\<lparr>pb_hdr := (pb_hdr b)\<lparr>ip_len := of_nat (len + off)\<rparr>\<rparr>
           else b)
   }"

definition fragments_complete :: "packet_buf \<Rightarrow> bool option" where
  "fragments_complete b =
     (if ip_len (pb_hdr b) = 0 then Some False
      else fragmap_full (fragmap b) [0..<(unat (ip_len (pb_hdr b)) + 7) div 8])"

section \<open>Input\<close>

definition ip_fragment_is_frag :: "ip_hdr \<Rightarrow> bool" where
  "ip_fragment_is_frag ip \<longleftrightarrow> ip_foff ip AND IP_FLAGS_MF \<noteq> 0 \<or> ip_foff ip AND 0x1fff \<noteq> 0"

type_synonym 's ip_handlers = "(u16 \<times> ('s, ip_hdr) handler) list"

text \<open>
  The reassembled packet is the header and the payload that follow each other in the buffer.
  \<open>input\<close> is \<^verbatim>\<open>ip_input\<close> without an Ethernet header. Whatever its result is, it is then
  the size of what is sent.
\<close>

definition ip_fragment_input ::
  "('a frag_st_scheme \<Rightarrow> bytes \<Rightarrow> nat \<Rightarrow> ('a frag_st_scheme \<times> bytes \<times> int) option) \<Rightarrow> os_sendto \<Rightarrow>
   'a frag_st_scheme \<Rightarrow> ip_hdr \<Rightarrow> bytes \<Rightarrow> ('a frag_st_scheme \<times> int) option" where
  "ip_fragment_input input sendto s ip rx_packet =
     (if unat (ip_foff ip AND 0x1fff) * 8 > IP_MAX_BYTES then Some (s, - EMSGSIZE)
      else do {
        (s, p) \<leftarrow> get_packet_buffer s ip;
        case p of
          None \<Rightarrow> Some (s, - ENOBUFS)
        | Some p \<Rightarrow> do {
            b \<leftarrow> store_fragment (packet_buffer s p) ip rx_packet;
            let s = pb_upd p (\<lambda>_. b) s;
            complete \<leftarrow> fragments_complete b;
            if complete then do {
              (s, packet, retval) \<leftarrow> input s (ip_hdr_bytes (pb_hdr b) @ pb_payload b) (unat (ip_len (pb_hdr b)));
              hdr \<leftarrow> ip_hdr_at packet;
              let hdr = fst (ip_ntoh hdr);
              let s = pb_upd p (\<lambda>b. b\<lparr>pb_hdr := hdr, pb_payload := drop 20 packet\<rparr>) s;
              (s, _) \<leftarrow> ip_send sendto s (ip_dst hdr) (ip_proto hdr) (drop 20 packet) (size_of_int retval);
              s \<leftarrow> release_packet_buffer s p;
              Some (s, 0)
            }
            else Some (s, 0)
          }
      })"

fun ip_fragment_timer_from :: "nat list \<Rightarrow> 'a frag_st_scheme \<Rightarrow> int \<Rightarrow> 'a frag_st_scheme option" where
  "ip_fragment_timer_from [] s delta_time = Some s"
| "ip_fragment_timer_from (p # ps) s delta_time =
     (if \<not> reserved (packet_buffer s p) then ip_fragment_timer_from ps s delta_time
      else do {
        let s = pb_upd p (\<lambda>b. b\<lparr>pb_timer := pb_timer b - delta_time\<rparr>) s;
        s \<leftarrow> (if pb_timer (packet_buffer s p) \<le> 0 then release_packet_buffer s p else Some s);
        ip_fragment_timer_from ps s delta_time
      })"

definition ip_fragment_timer :: "'a frag_st_scheme \<Rightarrow> int \<Rightarrow> 'a frag_st_scheme option" where
  "ip_fragment_timer = ip_fragment_timer_from [0..<NSTACK_IP_FRAGMENT_BUF]"

text \<open>The packet in the buffer: the header struct and what follows it.\<close>

definition ip_unreachable ::
  "'s \<Rightarrow> ip_hdr \<Rightarrow> bytes \<Rightarrow> u8 \<Rightarrow> nat \<Rightarrow> ('s \<times> bytes \<times> int) option" where
  "ip_unreachable s ip rest code bsize = do {
     (net, rest, retval) \<leftarrow> icmp_generate_dest_unreachable ip rest code (ip_hdr_hlen ip)
       (size_sub bsize (ip_hdr_hlen ip));
     Some (s, ip_hdr_bytes net @ rest, retval)
   }"

text \<open>The handler of the protocol, and the reply header for a positive result.\<close>

definition ip_dispatch ::
  "'s ip_handlers \<Rightarrow> 's \<Rightarrow> ip_hdr \<Rightarrow> bytes \<Rightarrow> nat \<Rightarrow> ('s \<times> bytes \<times> int) option" where
  "ip_dispatch handlers s ip rest bsize =
     (case find (\<lambda>(proto_id, fn). proto_id = ucast (ip_proto ip)) handlers of
        Some (proto_id, fn) \<Rightarrow> do {
          let hlen = ip_hdr_hlen ip;
          (s, payload, retval) \<leftarrow> fn s ip (drop (hlen - 20) rest) (size_sub bsize hlen);
          let rest = take (hlen - 20) rest @ payload;
          if retval > 0 then do {
            (net, n) \<leftarrow> ip_reply_header ip rest (nat retval);
            Some (s, ip_hdr_bytes net @ rest, int n)
          }
          else if retval = - ENOTSOCK then ip_unreachable s ip rest ICMP_CODE_PORTUNREAC bsize
          else Some (s, ip_hdr_bytes ip @ rest, retval)
        }
      | None \<Rightarrow> ip_unreachable s ip rest ICMP_CODE_PROTOUNREAC bsize)"

definition ip_input_body ::
  "('a frag_st_scheme \<Rightarrow> ip_hdr \<Rightarrow> bytes \<Rightarrow> ('a frag_st_scheme \<times> int) option) \<Rightarrow>
   'a frag_st_scheme ip_handlers \<Rightarrow>
   'a frag_st_scheme \<Rightarrow> ether_hdr option \<Rightarrow> bytes \<Rightarrow> nat \<Rightarrow> ('a frag_st_scheme \<times> bytes \<times> int) option" where
  "ip_input_body fragment handlers s e_hdr payload bsize = do {
     ip \<leftarrow> ip_hdr_at payload;
     let ip = (if e_hdr \<noteq> None then fst (ip_ntoh ip) else ip);
     let rest = drop 20 payload;
     let payload = ip_hdr_bytes ip @ rest;
     if ip_vhl ip AND 0x40 \<noteq> 0x40 then Some (s, payload, 0)
     else if ip_hdr_hlen ip < 20 then Some (s, payload, 0)
     else if unat (ip_len ip) \<noteq> bsize then Some (s, payload, 0)
     else do {
       (s, _) \<leftarrow> (case e_hdr of
           Some e_hdr \<Rightarrow> arp_cache_insert s (ip_src ip) (h_src e_hdr) ARP_CACHE_DYN
         | None \<Rightarrow> Some (s, 0));
       (s, retval, _) \<leftarrow> ip_route_find_by_iface s (ip_dst ip);
       if retval \<noteq> 0 then ip_unreachable s ip rest ICMP_CODE_HOSTUNREAC bsize
       else if ip_fragment_is_frag ip then do {
         (s, _) \<leftarrow> fragment s ip (drop (ip_hdr_hlen ip - 20) rest);
         Some (s, payload, 0)
       }
       else ip_dispatch handlers s ip rest bsize
     }
   }"

fun ip_input_n ::
  "nat \<Rightarrow> 'a frag_st_scheme ip_handlers \<Rightarrow> os_sendto \<Rightarrow>
   'a frag_st_scheme \<Rightarrow> ether_hdr option \<Rightarrow> bytes \<Rightarrow> nat \<Rightarrow> ('a frag_st_scheme \<times> bytes \<times> int) option" where
  "ip_input_n 0 handlers sendto s e_hdr payload bsize = None"
| "ip_input_n (Suc d) handlers sendto s e_hdr payload bsize =
     ip_input_body (ip_fragment_input (\<lambda>s. ip_input_n d handlers sendto s None) sendto) handlers
       s e_hdr payload bsize"

definition ip_input ::
  "'a frag_st_scheme ip_handlers \<Rightarrow> os_sendto \<Rightarrow> ('a frag_st_scheme, ether_hdr) handler" where
  "ip_input handlers sendto s e_hdr payload bsize = ip_input_n 2 handlers sendto s (Some e_hdr) payload bsize"

section \<open>Depth of the recursion\<close>

text \<open>The headers in the reassembly buffers are those of whole packets.\<close>

definition frags_plain :: "'a frag_st_scheme \<Rightarrow> bool" where
  "frags_plain s \<longleftrightarrow> (\<forall>p. ip_foff (pb_hdr (packet_buffer s p)) = 0)"

lemma plain_not_frag: "ip_foff ip = 0 \<Longrightarrow> \<not> ip_fragment_is_frag ip"
  by (simp add: ip_fragment_is_frag_def)

lemma ip_input_body_plain:
  assumes "ip_hdr_at payload = Some ip" and "ip_foff ip = 0"
  shows "ip_input_body F handlers s None payload n = ip_input_body G handlers s None payload n"
  using plain_not_frag [OF assms(2)] by (simp add: ip_input_body_def assms(1) cong: if_cong)

lemma store_fragment_foff:
  "store_fragment b ip data = Some b' \<Longrightarrow> ip_foff (pb_hdr b) = 0 \<Longrightarrow> ip_foff (pb_hdr b') = 0"
  by (auto simp: store_fragment_def Let_def bind_eq_Some_iff split: if_splits)

lemma release_packet_buffer_hdr:
  "release_packet_buffer s p = Some s' \<Longrightarrow> pb_hdr (packet_buffer s' q) = pb_hdr (packet_buffer s q)"
  by (auto simp: release_packet_buffer_def pb_upd_def bind_eq_Some_iff)

lemma get_packet_buffer_plain:
  assumes "get_packet_buffer s ip = Some (s', p)" and "frags_plain s"
  shows "frags_plain s'"
proof -
  let ?init = "\<lambda>p b. b\<lparr>reserved := True, pb_timer := NSTACK_IP_FRAGMENT_TLB,
    fragmap := fragmap_init (fragmap b), pb_hdr := ip\<lparr>ip_foff := 0, ip_len := 0\<rparr>\<rparr>"
  have put: "frags_plain (pb_upd q (?init q) s\<lparr>packet_buffer_head := h\<rparr>)" for q h
    using assms(2) by (simp add: frags_plain_def pb_upd_def)
  have rel: "frags_plain t'" if "release_packet_buffer t q = Some t'" "frags_plain t" for t t' :: "'a frag_st_scheme" and q
    using that release_packet_buffer_hdr by (fastforce simp: frags_plain_def)
  show ?thesis
    using assms put rel
    by (auto simp: get_packet_buffer_def Let_def bind_eq_Some_iff split: option.splits prod.splits)
qed

lemma ip_fragment_input_cong:
  assumes "frags_plain s"
    and "\<And>s (b :: packet_buf) n. ip_foff (pb_hdr b) = 0 \<Longrightarrow>
      f s (ip_hdr_bytes (pb_hdr b) @ pb_payload b) n = g s (ip_hdr_bytes (pb_hdr b) @ pb_payload b) n"
  shows "ip_fragment_input f sendto s ip data = ip_fragment_input g sendto s ip data"
proof (cases "get_packet_buffer s ip")
  case None
  then show ?thesis by (simp add: ip_fragment_input_def)
next
  case (Some r)
  obtain s1 p where r: "r = (s1, p)" by (cases r)
  have plain: "frags_plain s1" using Some assms(1) unfolding r by (rule get_packet_buffer_plain)
  show ?thesis
  proof (cases p)
    case None
    then show ?thesis by (simp add: ip_fragment_input_def Some r)
  next
    case p: (Some p')
    show ?thesis
    proof (cases "store_fragment (packet_buffer s1 p') ip data")
      case None
      then show ?thesis by (simp add: ip_fragment_input_def Some r p)
    next
      case b: (Some b)
      then have "ip_foff (pb_hdr b) = 0"
        using store_fragment_foff plain unfolding frags_plain_def by blast
      note eq = assms(2) [OF this]
      show ?thesis by (simp add: ip_fragment_input_def Some r p b Let_def eq cong: if_cong)
    qed
  qed
qed

lemma arp_insert_packets:
  "arp_cache_insert s ip mac t = Some (s', r) \<Longrightarrow> packet_buffer s' = packet_buffer s"
  by (auto simp: arp_cache_insert_def arp_set_age_def Let_def bind_eq_Some_iff split: if_splits option.splits prod.splits)

lemma find_by_iface_packets:
  "ip_route_find_by_iface s addr = Some (s', r, x) \<Longrightarrow> packet_buffer s' = packet_buffer s"
  by (auto simp: ip_route_find_by_iface_def bind_eq_Some_iff split: option.splits)

lemma ip_input_body_cong:
  assumes "frags_plain s" and "\<And>s ip data. frags_plain s \<Longrightarrow> F s ip data = G s ip data"
  shows "ip_input_body F handlers s e_hdr payload n = ip_input_body G handlers s e_hdr payload n"
proof -
  have after: "F s2 ip data = G s2 ip data"
    if "(case e_hdr of Some e \<Rightarrow> arp_cache_insert s src (h_src e) 0 | None \<Rightarrow> Some (s, 0)) = Some (s1, x)"
      and "ip_route_find_by_iface s1 dst = Some (s2, y, z)" for src s1 x dst s2 y z ip data
  proof -
    have "packet_buffer s1 = packet_buffer s"
      using that(1) arp_insert_packets by (auto split: option.splits)
    then have "frags_plain s2" using assms(1) find_by_iface_packets [OF that(2)] by (simp add: frags_plain_def)
    then show ?thesis by (rule assms(2))
  qed
  show ?thesis
    unfolding ip_input_body_def Let_def
    by (intro Option.bind_cong refl if_cong) (auto intro!: Option.bind_cong simp: after split: prod.splits)
qed

text \<open>
  C26: Reassembly calls \<^verbatim>\<open>ip_input\<close> for the whole packet, and that call never comes to a
  fragment again: two levels of the recursion give the same result as any greater depth.
\<close>

theorem ip_input_depth:
  assumes "frags_plain s"
  shows "ip_input_n (Suc (Suc d)) handlers sendto s e_hdr payload bsize =
    ip_input_n 2 handlers sendto s e_hdr payload bsize"
proof -
  let ?F = "\<lambda>k. ip_fragment_input (\<lambda>s. ip_input_n (Suc k) handlers sendto s None) sendto"
  have "?F d s ip data = ?F 0 s ip data" if "frags_plain s" for s ip data
    using that
  proof (rule ip_fragment_input_cong)
    fix s b n
    assume "ip_foff (pb_hdr b) = 0"
    then show "ip_input_n (Suc d) handlers sendto s None (ip_hdr_bytes (pb_hdr b) @ pb_payload b) n =
      ip_input_n (Suc 0) handlers sendto s None (ip_hdr_bytes (pb_hdr b) @ pb_payload b) n"
      using ip_input_body_plain [OF ip_hdr_at_bytes] by simp
  qed
  then show ?thesis
    using ip_input_body_cong [OF assms, of "?F d" "?F 0"] by (simp add: numeral_2_eq_2)
qed



section \<open>A packet for the interface\<close>

text \<open>A whole IPv4 packet without options, as its header says in host order.\<close>

definition ip_plain :: "ip_hdr \<Rightarrow> nat \<Rightarrow> bool" where
  "ip_plain h n \<longleftrightarrow> ip_vhl h = 0x45 \<and> unat (ip_len h) = 20 + n \<and> \<not> ip_fragment_is_frag h"

text \<open>The stack takes packets from \<open>src\<close> to \<open>dst\<close>.\<close>

definition ip_accepts :: "u32 \<Rightarrow> 'a arp_st_scheme \<Rightarrow> in_addr_t \<Rightarrow> in_addr_t \<Rightarrow> bool" where
  "ip_accepts b s src dst \<longleftrightarrow> arp_boot b s \<and> src \<noteq> 0 \<and> in_window b src \<and>
     (\<exists>bn bi R r. route_table bn bi s R \<and> r \<in> R \<and> r_iface r = dst)"

lemma ip_plain_hlen: "ip_plain h n \<Longrightarrow> ip_hdr_hlen h = 20"
  by (simp add: ip_plain_def ip_hdr_hlen_def)


lemma ip_accepts_learn:
  assumes "ip_accepts b s src dst"
  obtains c t r where "arp_cache_insert s src mac 0 = Some (s\<lparr>arp_cache := c, arp_cache_head := t\<rparr>, 0)"
    and "ip_accepts b (s\<lparr>arp_cache := c, arp_cache_head := t\<rparr>) src dst"
    and "ip_route_find_by_iface (s\<lparr>arp_cache := c, arp_cache_head := t\<rparr>) dst =
      Some (s\<lparr>arp_cache := c, arp_cache_head := t\<rparr>, 0, Some r)"
proof -
  obtain s' where s': "arp_cache_insert s src mac 0 = Some (s', 0)" "arp_boot b s'"
    using arp_boot_insert [of b s src mac] assms unfolding ip_accepts_def by blast
  then obtain c t where ct: "s' = s\<lparr>arp_cache := c, arp_cache_head := t\<rparr>"
    using arp_insert_frame by blast
  obtain bn bi R r where r: "route_table bn bi s R" "r \<in> R" "r_iface r = dst"
    using assms unfolding ip_accepts_def by blast
  then have rt: "route_table bn bi s' R" by (simp add: ct route_table_def route_trees_def route_free_def)
  have "ip_route_find_by_iface s' dst = Some (s', 0, Some r)"
    using rt r(2,3) by (rule ip_route_find_by_iface_ok(1))
  moreover have "ip_accepts b s' src dst"
    using assms s'(2) rt r(2,3) unfolding ip_accepts_def by blast
  ultimately show thesis using that [of t c r] s'(1) unfolding ct by blast
qed

lemma ip_input_dispatch:
  assumes "ip_accepts b s (ip_src h) (ip_dst h)" and "ip_plain h (length data)" and "fst (ip_ntoh net) = h"
  obtains c t where "ip_accepts b (s\<lparr>arp_cache := c, arp_cache_head := t\<rparr>) (ip_src h) (ip_dst h)"
    and "ip_input handlers sendto s e (ip_hdr_bytes net @ data @ tail) (20 + length data) =
      ip_dispatch handlers (s\<lparr>arp_cache := c, arp_cache_head := t\<rparr>) h (data @ tail) (20 + length data)"
proof -
  obtain c t r where l: "arp_cache_insert s (ip_src h) (h_src e) 0 = Some (s\<lparr>arp_cache := c, arp_cache_head := t\<rparr>, 0)"
    "ip_accepts b (s\<lparr>arp_cache := c, arp_cache_head := t\<rparr>) (ip_src h) (ip_dst h)"
    "ip_route_find_by_iface (s\<lparr>arp_cache := c, arp_cache_head := t\<rparr>) (ip_dst h) =
      Some (s\<lparr>arp_cache := c, arp_cache_head := t\<rparr>, 0, Some r)"
    by (rule ip_accepts_learn [OF assms(1)])
  have "ip_hdr_hlen h = 20" using assms(2) by (rule ip_plain_hlen)
  then have "ip_input handlers sendto s e (ip_hdr_bytes net @ data @ tail) (20 + length data) =
      ip_dispatch handlers (s\<lparr>arp_cache := c, arp_cache_head := t\<rparr>) h (data @ tail) (20 + length data)"
    using assms(2) l(1,3)
    by (simp add: ip_input_def numeral_2_eq_2 ip_input_body_def assms(3) Let_def ip_plain_def)
  with l(2) show thesis by (rule that)
qed

lemma size_sub_le: "b \<le> a \<Longrightarrow> a < 2 ^ 64 \<Longrightarrow> size_sub a b = a - b"
  by (simp add: size_sub_def of_nat_diff [symmetric] unat_of_nat del: of_nat_diff)

text \<open>
  C27: A ping: \<^verbatim>\<open>ip_input\<close> of an echo request for the interface turns the packet in the buffer into
  the echo reply, addresses exchanged, both checksums right, identifier and data unchanged,
  and returns its size, which is that of the request.
\<close>

theorem ip_input_ping:
  assumes "ip_accepts b s (ip_src h) (ip_dst h)" and "ip_plain h (length msg)" and "fst (ip_ntoh net) = h"
    and "find (\<lambda>(proto_id, fn). proto_id = 1) handlers = Some (1, icmp_input)"
    and "ip_proto h = IP_PROTO_ICMP" and "icmp_at msg = Some m" and "icmp_type m = ICMP_TYPE_ECHO_REQUEST"
  shows "\<exists>s' net' msg' c. ip_input handlers sendto s e (ip_hdr_bytes net @ msg @ tail) (20 + length msg) =
      Some (s', ip_hdr_bytes net' @ msg' @ tail, int (20 + length msg)) \<and>
    ip_checksum (ip_hdr_bytes net') 20 = Some 0 \<and>
    fst (ip_ntoh net') = h\<lparr>ip_src := ip_dst h, ip_dst := ip_src h, ip_ttl := 64, ip_csum := ip_csum net'\<rparr> \<and>
    icmp_at msg' = Some (m\<lparr>icmp_type := ICMP_TYPE_ECHO_REPLY, icmp_csum := c\<rparr>) \<and>
    drop 8 msg' = drop 8 msg \<and> ip_checksum msg' (length msg) = Some 0"
proof -
  obtain ca t where d: "ip_input handlers sendto s e (ip_hdr_bytes net @ msg @ tail) (20 + length msg) =
      ip_dispatch handlers (s\<lparr>arp_cache := ca, arp_cache_head := t\<rparr>) h (msg @ tail) (20 + length msg)"
    by (rule ip_input_dispatch [OF assms(1-3)])
  have len: "8 \<le> length msg" "length msg < 65536"
    using assms(6,2) unat_u16_less [of "ip_len h"] by (auto simp: icmp_at_def ip_plain_def split: if_splits simp del: unat_u16_less)
  obtain m' where "msg = icmp_bytes m' @ drop 8 msg" using icmp_at_split [OF len(1)] by blast
  with assms(6) have p: "msg = icmp_bytes m @ drop 8 msg" by (metis icmp_at_bytes option.inject)
  let ?s = "s\<lparr>arp_cache := ca, arp_cache_head := t\<rparr>"
  let ?m = "\<lambda>c. m\<lparr>icmp_type := ICMP_TYPE_ECHO_REPLY, icmp_csum := c\<rparr>"
  have "length msg \<le> 8 + length (drop 8 msg @ tail)" by simp
  then obtain c where c: "icmp_input ?s h (icmp_bytes m @ drop 8 msg @ tail) (length msg) =
      Some (?s, icmp_bytes (?m c) @ drop 8 msg @ tail, int (length msg))"
    "ip_checksum (icmp_bytes (?m c) @ drop 8 msg @ tail) (length msg) = Some 0"
    using len(1) assms(7) by (rule icmp_echo)
  let ?msg = "icmp_bytes (?m c) @ drop 8 msg"
  have echo: "icmp_input ?s h (msg @ tail) (length msg) = Some (?s, ?msg @ tail, int (length msg))"
    using c(1) p by (metis append.assoc)
  have csum: "ip_checksum ?msg (length msg) = Some 0"
    using c(2) ip_checksum_prefix [of "length msg" ?msg tail] len(1) by simp
  have hl: "ip_hdr_hlen h = 20" using assms(2) by (rule ip_plain_hlen)
  obtain net' where net': "ip_reply_header h (?msg @ tail) (length msg) = Some (net', length msg + 20)"
    "ip_checksum (ip_hdr_bytes net' @ ?msg @ tail) (ip_hdr_hlen net') = Some 0"
    "fst (ip_ntoh net') = h\<lparr>ip_src := ip_dst h, ip_dst := ip_src h, ip_ttl := 64,
      ip_len := of_nat (length msg + 20), ip_csum := ip_csum net'\<rparr>"
    using ip_reply_header_ok [of h "?msg @ tail" "length msg"] hl by auto
  have hl': "ip_hdr_hlen net' = 20"
    using arg_cong [OF net'(3), of ip_hdr_hlen] hl by (simp add: ip_ntoh_def Let_def ip_hdr_hlen_def)
  have "of_nat (unat (ip_len h)) = ip_len h" by simp
  moreover have "unat (ip_len h) = length msg + 20" using assms(2) by (simp add: ip_plain_def)
  ultimately have "of_nat (length msg + 20) = ip_len h" by metis
  then have rep: "fst (ip_ntoh net') = h\<lparr>ip_src := ip_dst h, ip_dst := ip_src h, ip_ttl := 64, ip_csum := ip_csum net'\<rparr>"
    using net'(3) by simp
  have "find (\<lambda>(proto_id, fn). proto_id = ucast (ip_proto h)) handlers = Some (1, icmp_input)"
    using assms(4,5) by simp
  then have "ip_input handlers sendto s e (ip_hdr_bytes net @ msg @ tail) (20 + length msg) =
      Some (?s, ip_hdr_bytes net' @ ?msg @ tail, int (20 + length msg))"
    unfolding d ip_dispatch_def using hl len net'(1) echo by (auto simp: size_sub_le add.commute)
  moreover have "ip_checksum (ip_hdr_bytes net') 20 = Some 0"
    using net'(2) hl' ip_checksum_prefix [of 20 "ip_hdr_bytes net'" "?msg @ tail"] by simp
  ultimately show ?thesis using rep csum by (intro exI [of _ ?s] exI [of _ net'] exI [of _ ?msg] exI [of _ c]) simp
qed

definition demo_pb :: packet_buf where
  "demo_pb = \<lparr>reserved = False, pb_timer = 0, fragmap = (\<lambda>_. 0), pb_hdr = ip_hdr_template\<lparr>ip_foff := 0\<rparr>,
     pb_payload = replicate 65535 0\<rparr>"

definition demo_frag :: "ip_st \<Rightarrow> frag_st" where
  "demo_frag s = ip_st.extend s
     \<lparr>packet_buffer = (\<lambda>_. demo_pb), packet_buffer_head = \<lparr>rbh_root = None, rb_links = (\<lambda>_. rb_zero)\<rparr>\<rparr>"

definition demo_hdr :: "u8 \<Rightarrow> nat \<Rightarrow> ip_hdr" where
  "demo_hdr proto n = ip_hdr_template\<lparr>ip_len := of_nat (20 + n), ip_proto := proto, ip_src := 0x0a000001,
     ip_dst := 0x0a000002\<rparr>"

lemma demo_hdr_plain: "n < 65516 \<Longrightarrow> ip_plain (demo_hdr proto n) n"
  by (simp add: demo_hdr_def ip_plain_def ip_hdr_template_def ip_fragment_is_frag_def unat_of_nat del: of_nat_add)

lemma demo_hdr_ntoh: "fst (ip_ntoh (ip_hton_fields (demo_hdr proto n))) = demo_hdr proto n"
  by (simp add: demo_hdr_def ip_hdr_template_def ip_ntoh_def ip_hton_fields_def Let_def)

lemma demo_frag_fields [simp]:
  "ether_if (demo_frag s) = ether_if s" "io_tx (demo_frag s) = io_tx s" "q_rd (demo_frag s) = q_rd s"
  "q_wr (demo_frag s) = q_wr s" "route_table bn bi (demo_frag s) R = route_table bn bi s R"
  "arp_boot b (demo_frag s) = arp_boot b s" "packet_buffer (demo_frag s) = (\<lambda>_. demo_pb)"
  "arp_cache_get_entry (demo_frag s) ip = arp_cache_get_entry s ip"
  by (simp_all add: demo_frag_def ip_st.defs route_table_def route_trees_def route_free_def arp_boot_def arp_index_def
      arp_cache_get_entry_def)

lemma demo_accepts:
  obtains s :: frag_st where "ip_accepts 0 s 0x0a000001 0x0a000002" "frags_plain s" "io_tx s = []"
    "ether_if s = [\<lparr>el_fd = 3, el_mac = [2, 0, 0, 0, 0, 1], el_if_idx = demo_if\<rparr>]" "packet_buffer s = (\<lambda>_. demo_pb)"
proof -
  obtain s :: route_st where s: "route_table 0 0 s {demo_route}"
    "ether_if s = [\<lparr>el_fd = 3, el_mac = [2, 0, 0, 0, 0, 1], el_if_idx = demo_if\<rparr>]" "io_tx s = []"
    by (rule demo_net)
  have "route_table 0 0 (demo_frag (demo_arp_stack s)) {demo_route}" using s(1) by simp
  moreover have "r_iface demo_route = 0x0a000002" by (simp add: demo_route_def)
  ultimately have "ip_accepts 0 (demo_frag (demo_arp_stack s)) 0x0a000001 0x0a000002"
    using demo_arp_stack_boot(1) unfolding ip_accepts_def by (auto simp: in_window_def window_key_def)
  then show thesis
    using that [of "demo_frag (demo_arp_stack s)"] s
    by (simp add: frags_plain_def demo_pb_def ip_hdr_template_def)
qed

theorem ip_input_depth_witness:
  "\<exists>s :: frag_st. frags_plain s \<and>
    ip_input_n 9 [(1, icmp_input)] (\<lambda>_ _ f. (int (length f), 0)) s None (replicate 40 0) 40 =
    ip_input_n 2 [(1, icmp_input)] (\<lambda>_ _ f. (int (length f), 0)) s None (replicate 40 0) 40"
proof -
  obtain s :: frag_st where "frags_plain s" using demo_accepts by metis
  then show ?thesis
    using ip_input_depth [of s 7 "[(1, icmp_input)]" "\<lambda>_ _ f. (int (length f), 0)" None "replicate 40 0" 40]
    by (auto simp: eval_nat_numeral simp del: replicate.simps ip_input_n.simps)
qed

theorem ip_input_ping_witness:
  "\<exists>(s :: frag_st) s' net' msg'. ip_input [(1, icmp_input)] (\<lambda>_ _ f. (int (length f), 0)) s
      \<lparr>h_dst = [2, 0, 0, 0, 0, 1], h_src = [2, 0, 0, 0, 0, 2], h_proto = 0x0800\<rparr>
      (ip_hdr_bytes (ip_hton_fields (demo_hdr 1 11)) @ demo_ping @ []) 31 =
      Some (s', ip_hdr_bytes net' @ msg' @ [], 31) \<and>
    ip_checksum (ip_hdr_bytes net') 20 = Some 0 \<and> drop 8 msg' = [1, 2, 3]"
proof -
  obtain s :: frag_st where s: "ip_accepts 0 s 0x0a000001 0x0a000002" using demo_accepts by metis
  let ?m = "\<lparr>icmp_type = 8, icmp_code = 0, icmp_csum = 0, icmp_rest = le32 0 1 0 7\<rparr>"
  have len: "length demo_ping = 11" by (simp add: demo_ping_def)
  have plain: "ip_plain (demo_hdr 1 11) (length demo_ping)" using demo_hdr_plain [of 11 1] by (simp add: len)
  have net: "fst (ip_ntoh (ip_hton_fields (demo_hdr 1 11))) = demo_hdr 1 11" by (rule demo_hdr_ntoh)
  have at: "icmp_at demo_ping = Some ?m" by (simp add: demo_ping_def icmp_at_def le16_def)
  have "\<exists>s' net' msg' c. ip_input [(1, icmp_input)] (\<lambda>_ _ f. (int (length f), 0)) s
      \<lparr>h_dst = [2, 0, 0, 0, 0, 1], h_src = [2, 0, 0, 0, 0, 2], h_proto = 0x0800\<rparr>
      (ip_hdr_bytes (ip_hton_fields (demo_hdr 1 11)) @ demo_ping @ []) (20 + length demo_ping) =
      Some (s', ip_hdr_bytes net' @ msg' @ [], int (20 + length demo_ping)) \<and>
    ip_checksum (ip_hdr_bytes net') 20 = Some 0 \<and>
    fst (ip_ntoh net') = (demo_hdr 1 11)\<lparr>ip_src := ip_dst (demo_hdr 1 11), ip_dst := ip_src (demo_hdr 1 11),
      ip_ttl := 64, ip_csum := ip_csum net'\<rparr> \<and>
    icmp_at msg' = Some (?m\<lparr>icmp_type := ICMP_TYPE_ECHO_REPLY, icmp_csum := c\<rparr>) \<and>
    drop 8 msg' = drop 8 demo_ping \<and> ip_checksum msg' (length demo_ping) = Some 0"
    by (rule ip_input_ping [OF _ plain net _ _ at]) (use s in \<open>simp_all add: demo_hdr_def\<close>)
  then show ?thesis by (auto simp: len) (auto simp: demo_ping_def)
qed

end
