(* ===== verification/Socket.thy ===== *)
theory Socket
  imports Ip_Input
begin

text \<open>
  Sockets: the structures of \<^verbatim>\<open>include/nstack_socket.h\<close> and \<^verbatim>\<open>src/nstack_internal.h\<close>, the calls of
  an application in \<^verbatim>\<open>src/socket.c\<close> and the delivery \<^verbatim>\<open>nstack_sock_dgram_input\<close> of
  \<^verbatim>\<open>src/nstack.c\<close>. A socket has two rings in shared memory, each a control block and a data
  area of four blocks, kept as the bytes they are; a block starts with the addresses and the
  size of its datagram. An address is the two numbers of its struct, the port an \<^verbatim>\<open>int\<close>.

  A loop that waits for the other side of a ring (\<^verbatim>\<open>queue_alloc\<close> of a full ring, \<^verbatim>\<open>queue_peek\<close>
  of an empty one) does not return as long as the ring stays as it is: that is \<open>None\<close> here.
\<close>

record nstack_sockaddr =
  inet4_addr :: u32
  port :: u32

datatype nstack_sock_dom = XF_INET4 | XF_INET6
datatype nstack_sock_type = XSOCK_DGRAM | XSOCK_STREAM
datatype nstack_sock_proto = XIP_PROTO_NONE | XIP_PROTO_TCP | XIP_PROTO_UDP | XIP_PROTO_LAST

record nstack_sock_ctrl =
  pid_inetd :: int
  pid_end :: int

record nstack_sock_info =
  sock_dom :: nstack_sock_dom
  sock_type :: nstack_sock_type
  sock_proto :: nstack_sock_proto
  sock_addr :: nstack_sockaddr

record dgram_ring =
  dr_cb :: queue_cb
  dr_data :: bytes

record nstack_dgram =
  srcaddr :: nstack_sockaddr
  dstaddr :: nstack_sockaddr
  buf_size :: size_t

record nstack_sock =
  sock_info :: nstack_sock_info
  sock_ctrl :: nstack_sock_ctrl
  ingress :: dgram_ring
  egress :: dgram_ring

abbreviation (input) NSTACK_SOCK_PORT_MAX :: int where "NSTACK_SOCK_PORT_MAX \<equiv> 49151"
abbreviation (input) NSTACK_DATAGRAM_SIZE_MAX :: nat where "NSTACK_DATAGRAM_SIZE_MAX \<equiv> 4096"
abbreviation (input) NSTACK_DATAGRAM_BUF_SIZE :: nat where "NSTACK_DATAGRAM_BUF_SIZE \<equiv> 16384"

section \<open>Datagrams in memory\<close>

definition bytes64 :: "size_t \<Rightarrow> bytes" where
  "bytes64 x = bytes32 (ucast x) @ bytes32 (ucast (drop_bit 32 x))"

definition le64 :: "u32 \<Rightarrow> u32 \<Rightarrow> size_t" where
  "le64 lo hi = ucast lo OR push_bit 32 (ucast hi)"

definition u32_at :: "bytes \<Rightarrow> nat \<Rightarrow> u32" where
  "u32_at b i = le32 (b ! i) (b ! (i + 1)) (b ! (i + 2)) (b ! (i + 3))"

definition sockaddr_bytes :: "nstack_sockaddr \<Rightarrow> bytes" where
  "sockaddr_bytes a = bytes32 (inet4_addr a) @ bytes32 (port a)"

definition dgram_bytes :: "nstack_dgram \<Rightarrow> bytes" where
  "dgram_bytes d = sockaddr_bytes (srcaddr d) @ sockaddr_bytes (dstaddr d) @ bytes64 (buf_size d)"

text \<open>The struct at a byte index that \<^verbatim>\<open>queue_alloc\<close> or \<^verbatim>\<open>queue_peek\<close> gave; its \<^verbatim>\<open>buf\<close> follows it.\<close>

definition dgram_at :: "bytes \<Rightarrow> nat \<Rightarrow> nstack_dgram option" where
  "dgram_at data i = do {
     b \<leftarrow> read_at data i 24;
     Some \<lparr>srcaddr = \<lparr>inet4_addr = u32_at b 0, port = u32_at b 4\<rparr>,
           dstaddr = \<lparr>inet4_addr = u32_at b 8, port = u32_at b 12\<rparr>,
           buf_size = le64 (u32_at b 16) (u32_at b 20)\<rparr>
   }"

definition dgram_write :: "bytes \<Rightarrow> nat \<Rightarrow> nstack_dgram \<Rightarrow> bytes \<Rightarrow> bytes option" where
  "dgram_write data i d buf = do {
     data \<leftarrow> memcpy_at data i (dgram_bytes d);
     memcpy_at data (i + 24) buf
   }"

text \<open>A datagram into the next free block: allocate, fill, commit.\<close>

definition dgram_put :: "dgram_ring \<Rightarrow> nstack_sockaddr \<Rightarrow> nstack_sockaddr \<Rightarrow> bytes \<Rightarrow> dgram_ring option" where
  "dgram_put q src dst buf = do {
     i \<leftarrow> queue_alloc (dr_cb q);
     if i = -1 then None
     else do {
       data \<leftarrow> dgram_write (dr_data q) (nat i) \<lparr>srcaddr = src, dstaddr = dst, buf_size = of_nat (length buf)\<rparr> buf;
       cb \<leftarrow> queue_commit (dr_cb q);
       Some \<lparr>dr_cb = cb, dr_data = data\<rparr>
     }
   }"

section \<open>The calls of an application\<close>

definition nstack_listen :: "int \<Rightarrow> bool \<Rightarrow> nstack_sock_ctrl \<Rightarrow> nstack_sock_ctrl option" where
  "nstack_listen pid mapped ctrl = (if mapped then Some (ctrl\<lparr>pid_end := pid\<rparr>) else None)"

text \<open>The last component is \<^verbatim>\<open>errno\<close>. The source address is cleared.\<close>

definition nstack_sendto ::
  "dgram_ring \<Rightarrow> bytes \<Rightarrow> nat \<Rightarrow> nstack_sockaddr \<Rightarrow> int \<Rightarrow> (dgram_ring \<times> int \<times> int) option" where
  "nstack_sendto q buffer len dest_addr errno =
     (if len > NSTACK_DATAGRAM_SIZE_MAX then Some (q, -1, ENOBUFS)
      else do {
        buf \<leftarrow> read_at buffer 0 len;
        q \<leftarrow> dgram_put q \<lparr>inet4_addr = 0, port = 0\<rparr> dest_addr buf;
        Some (q, int len, errno)
      })"

text \<open>\<^verbatim>\<open>smin\<close> returns an \<^verbatim>\<open>unsigned int\<close>. The buffer of the caller gets \<open>data\<close>.\<close>

definition smin :: "nat \<Rightarrow> nat \<Rightarrow> nat" where
  "smin a b = (if a < b then a else b) mod 2 ^ 32"

definition nstack_recvfrom ::
  "dgram_ring \<Rightarrow> bytes \<Rightarrow> nat \<Rightarrow> bool \<Rightarrow> (dgram_ring \<times> bytes \<times> nstack_sockaddr \<times> int) option" where
  "nstack_recvfrom q buffer len peek = do {
     i \<leftarrow> queue_peek (dr_cb q);
     d \<leftarrow> dgram_at (dr_data q) (nat i);
     let rd = smin len (unat (buf_size d));
     data \<leftarrow> read_at (dr_data q) (nat i + 24) rd;
     buffer \<leftarrow> memcpy_at buffer 0 data;
     cb \<leftarrow> (if peek then Some (dr_cb q) else map_option fst (queue_discard (dr_cb q) 1));
     Some (q\<lparr>dr_cb := cb\<rparr>, buffer, srcaddr d, int rd)
   }"

section \<open>Delivery\<close>

text \<open>The sockets of the daemon, the trees over them, and the processes that got \<^verbatim>\<open>SIGUSR2\<close>.\<close>

record sock_st = frag_st +
  sockets :: "nat \<Rightarrow> nstack_sock"
  udp_sock_tree_head :: rb_head
  tcp_sock_tree_head :: rb_head
  sigusr2 :: "int list"

definition nstack_sock_dgram_input ::
  "'a sock_st_scheme \<Rightarrow> nat \<Rightarrow> nstack_sockaddr \<Rightarrow> bytes \<Rightarrow> nat \<Rightarrow> ('a sock_st_scheme \<times> int) option" where
  "nstack_sock_dgram_input s i src buf bsize = do {
     data \<leftarrow> read_at buf 0 bsize;
     let sock = sockets s i;
     q \<leftarrow> dgram_put (ingress sock) src (sock_addr (sock_info sock)) data;
     Some (s\<lparr>sockets := (sockets s)(i := sock\<lparr>ingress := q\<rparr>),
             sigusr2 := sigusr2 s @ [pid_end (sock_ctrl sock)]\<rparr>, 0)
   }"

section \<open>Datagrams in a ring\<close>

lemma le64_split [simp]: "le64 (ucast x) (ucast (drop_bit 32 x)) = x"
  unfolding le64_def by (rule bit_word_eqI) (auto simp: bit_simps)

lemma length_dgram_bytes [simp]: "length (dgram_bytes d) = 24"
  by (simp add: dgram_bytes_def sockaddr_bytes_def bytes64_def)

lemma u32_at_simps:
  "u32_at (bytes32 x @ r) 0 = x" "length a = n \<Longrightarrow> u32_at (a @ b) (n + i) = u32_at b i"
  by (simp_all add: u32_at_def bytes32_def nth_append)

lemma dgram_at_bytes: "read_at data i 24 = Some (dgram_bytes d) \<Longrightarrow> dgram_at data i = Some d"
  by (simp add: dgram_at_def dgram_bytes_def sockaddr_bytes_def bytes64_def u32_at_def bytes32_def)

text \<open>What a block holds: the addresses and the data of its datagram.\<close>

definition dgram_get :: "bytes \<Rightarrow> nat \<Rightarrow> (nstack_sockaddr \<times> nstack_sockaddr \<times> bytes) option" where
  "dgram_get data i = do {
     d \<leftarrow> dgram_at data i;
     buf \<leftarrow> read_at data (i + 24) (unat (buf_size d));
     Some (srcaddr d, dstaddr d, buf)
   }"

lemma dgram_write_ok:
  assumes "i + 24 + length buf \<le> length data" and "length buf < 2 ^ 64"
  obtains data' where
    "dgram_write data i \<lparr>srcaddr = src, dstaddr = dst, buf_size = of_nat (length buf)\<rparr> buf = Some data'"
    and "length data' = length data" and "dgram_get data' i = Some (src, dst, buf)"
    and "\<And>j n. j + n \<le> i \<or> i + 24 + length buf \<le> j \<Longrightarrow> read_at data' j n = read_at data j n"
proof -
  let ?d = "\<lparr>srcaddr = src, dstaddr = dst, buf_size = of_nat (length buf)\<rparr>"
  obtain d1 where d1: "memcpy_at data i (dgram_bytes ?d) = Some d1" using assms(1) by (simp add: memcpy_at_def)
  have l1: "length d1 = length data" using d1 by (rule memcpy_at_length)
  obtain d2 where d2: "memcpy_at d1 (i + 24) buf = Some d2" using assms(1) l1 by (simp add: memcpy_at_def)
  have "read_at d2 i 24 = read_at d1 i 24" using read_at_memcpy_at_disjoint [OF d2, of i 24] by simp
  also have "\<dots> = Some (dgram_bytes ?d)" using read_at_memcpy_at [OF d1] by simp
  finally have "dgram_at d2 i = Some ?d" by (rule dgram_at_bytes)
  moreover have "read_at d2 (i + 24) (length buf) = Some buf" using d2 by (rule read_at_memcpy_at)
  ultimately have "dgram_get d2 i = Some (src, dst, buf)"
    using assms(2) by (simp add: dgram_get_def unat_of_nat)
  moreover have "read_at d2 j n = read_at data j n" if "j + n \<le> i \<or> i + 24 + length buf \<le> j" for j n
    using read_at_memcpy_at_disjoint [OF d2, of j n] read_at_memcpy_at_disjoint [OF d1, of j n] that by auto
  ultimately show thesis
    using that [of d2] d1 d2 l1 memcpy_at_length [OF d2] by (simp add: dgram_write_def)
qed

lemma dgram_get_cong:
  assumes "read_at data' i 24 = read_at data i 24"
    and "\<And>n. n \<le> 4072 \<Longrightarrow> read_at data' (i + 24) n = read_at data (i + 24) n"
    and "dgram_get data i = Some (src, dst, buf)" and "length buf \<le> 4072"
  shows "dgram_get data' i = Some (src, dst, buf)"
proof -
  obtain d where d: "dgram_at data i = Some d" "read_at data (i + 24) (unat (buf_size d)) = Some buf"
    "srcaddr d = src" "dstaddr d = dst"
    using assms(3) by (auto simp: dgram_get_def bind_eq_Some_iff)
  then have "length buf = unat (buf_size d)" by (auto simp: read_at_def split: if_splits)
  moreover have "dgram_at data' i = Some d" using d(1) assms(1) by (simp add: dgram_at_def)
  ultimately show ?thesis using d assms(2,4) by (simp add: dgram_get_def)
qed

text \<open>The rings as \<^verbatim>\<open>nstack_init\<close> makes them: four blocks, whole datagrams in those that are queued.\<close>

definition dgram_wf :: "dgram_ring \<Rightarrow> bool" where
  "dgram_wf q \<longleftrightarrow> queue_wf (dr_cb q) \<and> b_size (dr_cb q) = 4096 \<and> a_len (dr_cb q) = 4 \<and>
     length (dr_data q) = NSTACK_DATAGRAM_BUF_SIZE \<and>
     (\<forall>i\<in>set (queue_slots (dr_cb q)). \<exists>src dst buf.
        dgram_get (dr_data q) (4096 * i) = Some (src, dst, buf) \<and> length buf \<le> 4072)"

definition dgram_list :: "dgram_ring \<Rightarrow> (nstack_sockaddr \<times> nstack_sockaddr \<times> bytes) list" where
  "dgram_list q = map (\<lambda>i. the (dgram_get (dr_data q) (4096 * i))) (queue_slots (dr_cb q))"

lemma dgram_wf_bound: "dgram_wf q \<Longrightarrow> length (dgram_list q) \<le> 3"
  using queue_slots_bound [of "dr_cb q"] by (simp add: dgram_wf_def dgram_list_def)

lemma dgram_put_full:
  assumes "dgram_wf q" and "length (dgram_list q) = 3"
  shows "dgram_put q src dst buf = None"
proof -
  have "Suc (length (queue_slots (dr_cb q))) = unat (a_len (dr_cb q))"
    using assms by (simp add: dgram_wf_def dgram_list_def)
  then show ?thesis using queue_alloc_wf [of "dr_cb q"] assms(1) by (simp add: dgram_put_def dgram_wf_def)
qed

lemma dgram_put_at:
  assumes "queue_alloc (dr_cb q) = Some (int i)"
    and "dgram_write (dr_data q) i \<lparr>srcaddr = src, dstaddr = dst, buf_size = of_nat (length buf)\<rparr> buf = Some data"
    and "queue_commit (dr_cb q) = Some cb"
  shows "dgram_put q src dst buf = Some \<lparr>dr_cb = cb, dr_data = data\<rparr>"
  using assms by (simp add: dgram_put_def)

lemma dgram_put_free:
  assumes "dgram_wf q" and "length (dgram_list q) < 3" and "length buf \<le> 4072"
  obtains q' where "dgram_put q src dst buf = Some q'" and "dgram_wf q'"
    and "dgram_list q' = dgram_list q @ [(src, dst, buf)]"
proof -
  let ?cb = "dr_cb q" and ?w = "unat (m_write (dr_cb q))"
  have wf: "queue_wf ?cb" and bs: "b_size ?cb = 4096" "a_len ?cb = 4"
    and len: "length (dr_data q) = 16384"
    and all: "\<And>i. i \<in> set (queue_slots ?cb) \<Longrightarrow> \<exists>src dst buf.
        dgram_get (dr_data q) (4096 * i) = Some (src, dst, buf) \<and> length buf \<le> 4072"
    using assms(1) by (auto simp: dgram_wf_def)
  have lt: "Suc (length (queue_slots ?cb)) < unat (a_len ?cb)"
    using assms(2) bs by (simp add: dgram_list_def)
  have w4: "?w < 4" using wf bs by (simp add: queue_wf_def)
  have alloc: "queue_alloc ?cb = Some (int (4096 * ?w))"
    using queue_alloc_wf [OF wf] lt bs by (simp add: slot_index_def mult.commute)
  obtain w where w: "queue_commit ?cb = Some (?cb\<lparr>m_write := w\<rparr>)" "queue_wf (?cb\<lparr>m_write := w\<rparr>)"
    "queue_slots (?cb\<lparr>m_write := w\<rparr>) = queue_slots ?cb @ [?w]"
    using queue_commit_wf [OF wf lt] by blast
  obtain data' where d: "dgram_write (dr_data q) (4096 * ?w)
      \<lparr>srcaddr = src, dstaddr = dst, buf_size = of_nat (length buf)\<rparr> buf = Some data'"
    "length data' = length (dr_data q)" "dgram_get data' (4096 * ?w) = Some (src, dst, buf)"
    "\<And>j n. j + n \<le> 4096 * ?w \<or> 4096 * ?w + 24 + length buf \<le> j \<Longrightarrow> read_at data' j n = read_at (dr_data q) j n"
    by (rule dgram_write_ok [of "4096 * ?w" buf "dr_data q"]) (use assms(3) len w4 in auto)
  have keep: "dgram_get data' (4096 * i) = dgram_get (dr_data q) (4096 * i)" if i: "i \<in> set (queue_slots ?cb)" for i
  proof -
    have "i \<noteq> ?w" using i queue_write_free [OF wf] by auto
    then have apart: "4096 * i + 4096 \<le> 4096 * ?w \<or> 4096 * ?w + 4096 \<le> 4096 * i" by linarith
    obtain s t b where g: "dgram_get (dr_data q) (4096 * i) = Some (s, t, b)" "length b \<le> 4072" using all [OF i] by blast
    have "dgram_get data' (4096 * i) = Some (s, t, b)"
      by (rule dgram_get_cong [OF d(4) d(4) g]) (use apart assms(3) in auto)
    with g(1) show ?thesis by simp
  qed
  let ?q = "\<lparr>dr_cb = ?cb\<lparr>m_write := w\<rparr>, dr_data = data'\<rparr>"
  have "dgram_put q src dst buf = Some ?q"
    using dgram_put_at [OF alloc d(1) w(1)] .
  moreover have "dgram_wf ?q"
    using w(2,3) bs d(2,3) len all assms(3) keep by (auto simp: dgram_wf_def)
  moreover have "dgram_list ?q = dgram_list q @ [(src, dst, buf)]"
    using w(3) d(3) keep by (simp add: dgram_list_def)
  ultimately show thesis by (rule that)
qed

lemma dgram_peek:
  assumes "dgram_wf q" and "dgram_list q = (src, dst, buf) # ds"
  obtains i d where "queue_peek (dr_cb q) = Some (int i)" and "dgram_at (dr_data q) i = Some d"
    and "srcaddr d = src" and "dstaddr d = dst" and "unat (buf_size d) = length buf"
    and "read_at (dr_data q) (i + 24) (length buf) = Some buf" and "length buf \<le> 4072"
proof -
  have wf: "queue_wf (dr_cb q)" "b_size (dr_cb q) = 4096" using assms(1) by (simp_all add: dgram_wf_def)
  obtain i is' where i: "queue_slots (dr_cb q) = i # is'" using assms(2) by (auto simp: dgram_list_def)
  then obtain s t b where g: "dgram_get (dr_data q) (4096 * i) = Some (s, t, b)" "length b \<le> 4072"
    using assms(1) unfolding dgram_wf_def by auto
  with assms(2) i have "s = src" "t = dst" "b = buf" by (auto simp: dgram_list_def)
  moreover obtain d where d: "dgram_at (dr_data q) (4096 * i) = Some d"
    "read_at (dr_data q) (4096 * i + 24) (unat (buf_size d)) = Some b" "srcaddr d = s" "dstaddr d = t"
    using g(1) by (auto simp: dgram_get_def bind_eq_Some_iff)
  moreover have "length b = unat (buf_size d)" using d(2) by (auto simp: read_at_def split: if_splits)
  moreover have "queue_peek (dr_cb q) = Some (int (4096 * i))"
    using queue_peek_wf [OF wf(1)] i wf(2) by (simp add: slot_index_def mult.commute)
  ultimately show thesis using that [of "4096 * i" d] g(2) by simp
qed

lemma dgram_discard:
  assumes "dgram_wf q"
  obtains cb k where "queue_discard (dr_cb q) 1 = Some (cb, k)" and "dgram_wf (q\<lparr>dr_cb := cb\<rparr>)"
    and "dgram_list (q\<lparr>dr_cb := cb\<rparr>) = tl (dgram_list q)"
proof -
  have wf: "queue_wf (dr_cb q)" using assms by (simp add: dgram_wf_def)
  obtain r k where r: "queue_discard (dr_cb q) 1 = Some ((dr_cb q)\<lparr>m_read := r\<rparr>, k)"
    "queue_wf ((dr_cb q)\<lparr>m_read := r\<rparr>)" "queue_slots ((dr_cb q)\<lparr>m_read := r\<rparr>) = tl (queue_slots (dr_cb q))"
    using queue_discard_wf [OF wf, of 1] by (auto simp: drop_Suc)
  have "set (tl (queue_slots (dr_cb q))) \<subseteq> set (queue_slots (dr_cb q))" by (rule list.set_sel(2) [THEN subsetI]) auto
  then have "dgram_wf (q\<lparr>dr_cb := (dr_cb q)\<lparr>m_read := r\<rparr>\<rparr>)"
    using assms r(2,3) unfolding dgram_wf_def by auto
  then show thesis using that [OF r(1)] r(3) by (simp add: dgram_list_def map_tl)
qed

section \<open>The ring as a queue of datagrams\<close>

lemma nstack_recvfrom_ok:
  assumes "dgram_wf q" and "dgram_list q = (src, dst, buf) # ds" and "len \<le> length buffer"
  obtains q' where "nstack_recvfrom q buffer len False =
      Some (q', take len buf @ drop (min len (length buf)) buffer, src, int (min len (length buf)))"
    and "dgram_wf q'" and "dgram_list q' = ds"
    and "nstack_recvfrom q buffer len True =
      Some (q, take len buf @ drop (min len (length buf)) buffer, src, int (min len (length buf)))"
proof -
  obtain i d where p: "queue_peek (dr_cb q) = Some (int i)" "dgram_at (dr_data q) i = Some d"
    "srcaddr d = src" "dstaddr d = dst" "unat (buf_size d) = length buf"
    "read_at (dr_data q) (i + 24) (length buf) = Some buf" "length buf \<le> 4072"
    by (rule dgram_peek [OF assms(1,2)])
  obtain cb k where c: "queue_discard (dr_cb q) 1 = Some (cb, k)" "dgram_wf (q\<lparr>dr_cb := cb\<rparr>)"
    "dgram_list (q\<lparr>dr_cb := cb\<rparr>) = tl (dgram_list q)"
    by (rule dgram_discard [OF assms(1)])
  let ?n = "min len (length buf)"
  have n: "smin len (length buf) = ?n" using p(7) by (simp add: smin_def min_def)
  have rd: "read_at (dr_data q) (i + 24) ?n = Some (take len buf)"
  proof -
    have fits: "i + 24 + length buf \<le> length (dr_data q)" and e: "take (length buf) (drop (i + 24) (dr_data q)) = buf"
      using p(6) by (simp_all add: read_at_def split: if_splits)
    show ?thesis using fits arg_cong [OF e, of "take len"] by (simp add: read_at_def)
  qed
  have cp: "memcpy_at buffer 0 (take len buf) = Some (take len buf @ drop ?n buffer)"
    using assms(3) by (simp add: memcpy_at_def min.commute)
  show thesis
  proof (rule that [of "q\<lparr>dr_cb := cb\<rparr>"])
    show "dgram_wf (q\<lparr>dr_cb := cb\<rparr>)" "dgram_list (q\<lparr>dr_cb := cb\<rparr>) = ds" using c(2,3) assms(2) by simp_all
  qed (simp_all add: nstack_recvfrom_def p(1-5) n rd cp c(1) Let_def del: take_append drop_append)
qed

lemma nstack_recvfrom_empty: "dgram_wf q \<Longrightarrow> dgram_list q = [] \<Longrightarrow> nstack_recvfrom q buffer len peek = None"
  using queue_peek_wf [of "dr_cb q"] by (simp add: dgram_wf_def dgram_list_def nstack_recvfrom_def)

definition demo_dring :: "size_t \<Rightarrow> dgram_ring" where
  "demo_dring i = \<lparr>dr_cb = \<lparr>b_size = 4096, a_len = 4, m_write = i, m_read = i\<rparr>, dr_data = replicate 16384 0\<rparr>"

lemma demo_dring_wf: "unat i < 4 \<Longrightarrow> dgram_wf (demo_dring i)" "dgram_list (demo_dring i) = []"
  by (simp_all add: demo_dring_def dgram_wf_def dgram_list_def queue_wf_def queue_slots_def ring_count_def)

section \<open>The rings of a socket as queues of datagrams\<close>

text \<open>
  What the egress thread does with the ring of a socket: the oldest datagram, and its block
  freed.
\<close>

definition dgram_take :: "dgram_ring \<Rightarrow> (dgram_ring \<times> nstack_sockaddr \<times> nstack_sockaddr \<times> bytes) option" where
  "dgram_take q = do {
     i \<leftarrow> queue_peek (dr_cb q);
     d \<leftarrow> dgram_at (dr_data q) (nat i);
     buf \<leftarrow> read_at (dr_data q) (nat i + 24) (unat (buf_size d));
     (cb, _) \<leftarrow> queue_discard (dr_cb q) 1;
     Some (q\<lparr>dr_cb := cb\<rparr>, srcaddr d, dstaddr d, buf)
   }"

text \<open>
  The operations on the two rings of a socket: the application sends and receives, the daemon
  delivers and takes. An operation that has to wait for the other side has no result.
\<close>

datatype sock_op =
    Op_sendto nstack_sockaddr bytes
  | Op_recvfrom nat bool
  | Op_input nstack_sockaddr bytes
  | Op_take

datatype sock_res =
    Ret int
  | Got nstack_sockaddr bytes
  | Taken nstack_sockaddr nstack_sockaddr bytes

definition put_ingress :: "'a sock_st_scheme \<Rightarrow> nat \<Rightarrow> dgram_ring \<Rightarrow> 'a sock_st_scheme" where
  "put_ingress s i q = s\<lparr>sockets := (sockets s)(i := (sockets s i)\<lparr>ingress := q\<rparr>)\<rparr>"

definition put_egress :: "'a sock_st_scheme \<Rightarrow> nat \<Rightarrow> dgram_ring \<Rightarrow> 'a sock_st_scheme" where
  "put_egress s i q = s\<lparr>sockets := (sockets s)(i := (sockets s i)\<lparr>egress := q\<rparr>)\<rparr>"

fun sock_step :: "nat \<Rightarrow> sock_op \<Rightarrow> 'a sock_st_scheme \<Rightarrow> ('a sock_st_scheme \<times> sock_res) option" where
  "sock_step i (Op_sendto dest buf) s = do {
     (q, r, _) \<leftarrow> nstack_sendto (egress (sockets s i)) buf (length buf) dest 0;
     Some (put_egress s i q, Ret r)
   }"
| "sock_step i (Op_recvfrom len peek) s = do {
     (q, buf, src, n) \<leftarrow> nstack_recvfrom (ingress (sockets s i)) (replicate len 0) len peek;
     Some (put_ingress s i q, Got src (take (nat n) buf))
   }"
| "sock_step i (Op_input src buf) s = do {
     (s, r) \<leftarrow> nstack_sock_dgram_input s i src buf (length buf);
     Some (s, Ret r)
   }"
| "sock_step i Op_take s = do {
     (q, src, dst, buf) \<leftarrow> dgram_take (egress (sockets s i));
     Some (put_egress s i q, Taken src dst buf)
   }"

fun sock_run ::
  "nat \<Rightarrow> sock_op list \<Rightarrow> 'a sock_st_scheme \<Rightarrow> ('a sock_st_scheme \<times> sock_res list) option" where
  "sock_run i [] s = Some (s, [])"
| "sock_run i (op # ops) s = do {
     (s, r) \<leftarrow> sock_step i op s;
     (s, rs) \<leftarrow> sock_run i ops s;
     Some (s, r # rs)
   }"

text \<open>The same on two lists of datagrams, each with source, destination and data.\<close>

type_synonym dgram = "nstack_sockaddr \<times> nstack_sockaddr \<times> bytes"

fun sock_spec :: "nstack_sockaddr \<Rightarrow> sock_op \<Rightarrow> dgram list \<times> dgram list \<Rightarrow>
  ((dgram list \<times> dgram list) \<times> sock_res) option" where
  "sock_spec own (Op_sendto dest buf) (ins, outs) =
     (if length buf > NSTACK_DATAGRAM_SIZE_MAX then Some ((ins, outs), Ret (-1))
      else if length outs < 3
      then Some ((ins, outs @ [(\<lparr>inet4_addr = 0, port = 0\<rparr>, dest, buf)]), Ret (int (length buf)))
      else None)"
| "sock_spec own (Op_recvfrom len peek) (ins, outs) =
     (case ins of
        [] \<Rightarrow> None
      | (src, _, buf) # ds \<Rightarrow> Some ((if peek then ins else ds, outs), Got src (take len buf)))"
| "sock_spec own (Op_input src buf) (ins, outs) =
     (if length ins < 3 then Some ((ins @ [(src, own, buf)], outs), Ret 0) else None)"
| "sock_spec own Op_take (ins, outs) =
     (case outs of
        [] \<Rightarrow> None
      | (src, dst, buf) # ds \<Rightarrow> Some ((ins, ds), Taken src dst buf))"

fun sock_specs :: "nstack_sockaddr \<Rightarrow> sock_op list \<Rightarrow> dgram list \<times> dgram list \<Rightarrow>
  ((dgram list \<times> dgram list) \<times> sock_res list) option" where
  "sock_specs own [] l = Some (l, [])"
| "sock_specs own (op # ops) l = do {
     (l, r) \<leftarrow> sock_spec own op l;
     (l, rs) \<leftarrow> sock_specs own ops l;
     Some (l, r # rs)
   }"

text \<open>Data fits a block beside the struct, or is refused for its size.\<close>

fun sock_op_ok :: "sock_op \<Rightarrow> bool" where
  "sock_op_ok (Op_sendto _ buf) \<longleftrightarrow> length buf \<le> 4072 \<or> NSTACK_DATAGRAM_SIZE_MAX < length buf"
| "sock_op_ok (Op_input _ buf) \<longleftrightarrow> length buf \<le> 4072"
| "sock_op_ok _ \<longleftrightarrow> True"

definition sock_rings :: "'a sock_st_scheme \<Rightarrow> nat \<Rightarrow> dgram list \<times> dgram list" where
  "sock_rings s i = (dgram_list (ingress (sockets s i)), dgram_list (egress (sockets s i)))"

definition sock_wf :: "nstack_sockaddr \<Rightarrow> 'a sock_st_scheme \<Rightarrow> nat \<Rightarrow> bool" where
  "sock_wf own s i \<longleftrightarrow> dgram_wf (ingress (sockets s i)) \<and> dgram_wf (egress (sockets s i)) \<and>
     sock_addr (sock_info (sockets s i)) = own"

lemma sock_puts [simp]:
  "sockets (put_ingress s i q) i = (sockets s i)\<lparr>ingress := q\<rparr>"
  "sockets (put_egress s i q) i = (sockets s i)\<lparr>egress := q\<rparr>"
  "sock_wf own s i \<Longrightarrow> sock_wf own (put_ingress s i q) i \<longleftrightarrow> dgram_wf q"
  "sock_wf own s i \<Longrightarrow> sock_wf own (put_egress s i q) i \<longleftrightarrow> dgram_wf q"
  by (auto simp: sock_wf_def put_ingress_def put_egress_def)

lemma dgram_take_ok:
  assumes "dgram_wf q" and "dgram_list q = (src, dst, buf) # ds"
  shows "\<exists>q'. dgram_take q = Some (q', src, dst, buf) \<and> dgram_wf q' \<and> dgram_list q' = ds"
proof -
  obtain i d where p: "queue_peek (dr_cb q) = Some (int i)" "dgram_at (dr_data q) i = Some d"
    "srcaddr d = src" "dstaddr d = dst" "unat (buf_size d) = length buf"
    "read_at (dr_data q) (i + 24) (length buf) = Some buf" "length buf \<le> 4072"
    by (rule dgram_peek [OF assms])
  obtain cb k where c: "queue_discard (dr_cb q) 1 = Some (cb, k)" "dgram_wf (q\<lparr>dr_cb := cb\<rparr>)"
    "dgram_list (q\<lparr>dr_cb := cb\<rparr>) = tl (dgram_list q)"
    by (rule dgram_discard [OF assms(1)])
  show ?thesis using p c assms(2) by (simp add: dgram_take_def)
qed

lemma dgram_take_empty: "dgram_wf q \<Longrightarrow> dgram_list q = [] \<Longrightarrow> dgram_take q = None"
  using queue_peek_wf [of "dr_cb q"] by (simp add: dgram_wf_def dgram_list_def dgram_take_def)

lemma dgram_put_ok:
  assumes "dgram_wf q" and "length buf \<le> 4072"
  shows "if length (dgram_list q) < 3
    then \<exists>q'. dgram_put q src dst buf = Some q' \<and> dgram_wf q' \<and> dgram_list q' = dgram_list q @ [(src, dst, buf)]
    else dgram_put q src dst buf = None"
proof (cases "length (dgram_list q) < 3")
  case True
  obtain q' where "dgram_put q src dst buf = Some q'" "dgram_wf q'"
    "dgram_list q' = dgram_list q @ [(src, dst, buf)]"
    by (rule dgram_put_free [OF assms(1) True assms(2)])
  with True show ?thesis by auto
next
  case False
  then have "length (dgram_list q) = 3" using dgram_wf_bound [OF assms(1)] by linarith
  with False show ?thesis using dgram_put_full [OF assms(1)] by simp
qed


lemma sock_sendto_refines:
  assumes "sock_wf own s i" and "sock_op_ok (Op_sendto dest buf)"
  shows "case sock_spec own (Op_sendto dest buf) (sock_rings s i) of
      None \<Rightarrow> sock_step i (Op_sendto dest buf) s = None
    | Some (l, r) \<Rightarrow> \<exists>s'. sock_step i (Op_sendto dest buf) s = Some (s', r) \<and> sock_wf own s' i \<and> sock_rings s' i = l"
proof -
  let ?q = "egress (sockets s i)"
  have q: "dgram_wf ?q" using assms(1) by (simp add: sock_wf_def)
  show ?thesis
  proof (cases "4096 < length buf")
    case True
    then show ?thesis using assms(1) q by (simp add: nstack_sendto_def sock_rings_def)
  next
    case False
    then have "length buf \<le> 4072" using assms(2) by auto
    from dgram_put_ok [OF q this, of "\<lparr>inet4_addr = 0, port = 0\<rparr>" dest] False show ?thesis
      using assms(1) by (auto simp: nstack_sendto_def read_at_def sock_rings_def split: if_splits)
  qed
qed

lemma sock_recvfrom_refines:
  assumes "sock_wf own s i"
  shows "case sock_spec own (Op_recvfrom len peek) (sock_rings s i) of
      None \<Rightarrow> sock_step i (Op_recvfrom len peek) s = None
    | Some (l, r) \<Rightarrow> \<exists>s'. sock_step i (Op_recvfrom len peek) s = Some (s', r) \<and> sock_wf own s' i \<and> sock_rings s' i = l"
proof -
  let ?q = "ingress (sockets s i)"
  have q: "dgram_wf ?q" using assms(1) by (simp add: sock_wf_def)
  show ?thesis
  proof (cases "dgram_list ?q")
    case Nil
    then show ?thesis using nstack_recvfrom_empty [OF q] by (simp add: sock_rings_def)
  next
    case (Cons x ds)
    obtain src dst buf where x: "x = (src, dst, buf)" by (cases x)
    obtain q' where q': "nstack_recvfrom ?q (replicate len 0) len False =
        Some (q', take len buf @ drop (min len (length buf)) (replicate len 0), src, int (min len (length buf)))"
      "dgram_wf q'" "dgram_list q' = ds"
      "nstack_recvfrom ?q (replicate len 0) len True =
        Some (?q, take len buf @ drop (min len (length buf)) (replicate len 0), src, int (min len (length buf)))"
      by (rule nstack_recvfrom_ok [OF q Cons [unfolded x], of len "replicate len 0"]) simp_all
    then show ?thesis using Cons x q assms by (cases peek) (auto simp: sock_rings_def min_def)
  qed
qed

lemma sock_input_refines:
  assumes "sock_wf own s i" and "sock_op_ok (Op_input src buf)"
  shows "case sock_spec own (Op_input src buf) (sock_rings s i) of
      None \<Rightarrow> sock_step i (Op_input src buf) s = None
    | Some (l, r) \<Rightarrow> \<exists>s'. sock_step i (Op_input src buf) s = Some (s', r) \<and> sock_wf own s' i \<and> sock_rings s' i = l"
proof -
  let ?q = "ingress (sockets s i)"
  have q: "dgram_wf ?q" "sock_addr (sock_info (sockets s i)) = own" "length buf \<le> 4072"
    using assms by (simp_all add: sock_wf_def)
  from dgram_put_ok [OF q(1,3), of src own] show ?thesis
    using assms(1) q(2)
    by (auto simp: nstack_sock_dgram_input_def read_at_def sock_rings_def sock_wf_def Let_def split: if_splits)
qed

lemma sock_take_refines:
  assumes "sock_wf own s i"
  shows "case sock_spec own Op_take (sock_rings s i) of
      None \<Rightarrow> sock_step i Op_take s = None
    | Some (l, r) \<Rightarrow> \<exists>s'. sock_step i Op_take s = Some (s', r) \<and> sock_wf own s' i \<and> sock_rings s' i = l"
proof -
  let ?q = "egress (sockets s i)"
  have q: "dgram_wf ?q" using assms(1) by (simp add: sock_wf_def)
  show ?thesis
  proof (cases "dgram_list ?q")
    case Nil
    then show ?thesis using dgram_take_empty [OF q] by (simp add: sock_rings_def)
  next
    case (Cons x ds)
    obtain src dst buf where x: "x = (src, dst, buf)" by (cases x)
    then show ?thesis using dgram_take_ok [OF q, of src dst buf ds] Cons assms by (auto simp: sock_rings_def)
  qed
qed

lemma sock_step_refines:
  assumes "sock_wf own s i" and "sock_op_ok op"
  shows "case sock_spec own op (sock_rings s i) of
      None \<Rightarrow> sock_step i op s = None
    | Some (l, r) \<Rightarrow> \<exists>s'. sock_step i op s = Some (s', r) \<and> sock_wf own s' i \<and> sock_rings s' i = l"
  using assms sock_sendto_refines sock_recvfrom_refines sock_input_refines sock_take_refines
  by (cases op) blast+

lemma sock_run_refines:
  assumes "sock_wf own s i" and "list_all sock_op_ok ops"
  shows "map_option (\<lambda>(s', rs). (sock_rings s' i, rs)) (sock_run i ops s) = sock_specs own ops (sock_rings s i)"
  using assms
proof (induction ops arbitrary: s)
  case (Cons op ops)
  show ?case
  proof (cases "sock_spec own op (sock_rings s i)")
    case None
    then show ?thesis using sock_step_refines [of own s i op] Cons.prems by simp
  next
    case (Some lr)
    obtain l r where lr: "lr = (l, r)" by (cases lr)
    obtain s' where s': "sock_step i op s = Some (s', r)" "sock_wf own s' i" "sock_rings s' i = l"
      using sock_step_refines [of own s i op] Cons.prems Some lr by auto
    have "map_option (\<lambda>(s', rs). (sock_rings s' i, rs)) (sock_run i ops s') = sock_specs own ops l"
      using Cons.IH [OF s'(2)] Cons.prems(2) s'(3) by simp
    from this [symmetric] show ?thesis using Some lr s'(1) by (cases "sock_run i ops s'") auto
  qed
qed simp

text \<open>
  C28: The two rings of a socket are queues of datagrams of three places each. Whatever the
  sequence of \<^verbatim>\<open>nstack_sendto\<close> and \<^verbatim>\<open>nstack_recvfrom\<close> of the application, \<^verbatim>\<open>nstack_sock_dgram_input\<close> and
  removals by the daemon, the results and the datagrams left, with their addresses and data,
  are those of two lists: a call waits exactly when its ring is full or empty, nothing is lost,
  changed or reordered, a peek leaves the datagram, and a short buffer gets its beginning. The
  data of a datagram has at most 4072 bytes; above 4096 \<^verbatim>\<open>nstack_sendto\<close> returns -1.
\<close>

theorem socket_fifo:
  assumes "dgram_wf (ingress (sockets s i))" and "dgram_wf (egress (sockets s i))"
    and "list_all sock_op_ok ops"
  shows "map_option (\<lambda>(s', rs). (sock_rings s' i, rs)) (sock_run i ops s) =
    sock_specs (sock_addr (sock_info (sockets s i))) ops (sock_rings s i)"
  using assms by (intro sock_run_refines) (simp_all add: sock_wf_def)


definition demo_rings :: sock_st where
  "demo_rings = frag_st.extend (demo_frag (demo_arp_stack demo_route_st))
     \<lparr>sockets = (\<lambda>_. \<lparr>sock_info = \<lparr>sock_dom = XF_INET4, sock_type = XSOCK_DGRAM, sock_proto = XIP_PROTO_UDP,
          sock_addr = \<lparr>inet4_addr = 2, port = 10\<rparr>\<rparr>, sock_ctrl = \<lparr>pid_inetd = 1, pid_end = 2\<rparr>,
        ingress = demo_dring 0, egress = demo_dring 3\<rparr>),
      udp_sock_tree_head = \<lparr>rbh_root = None, rb_links = (\<lambda>_. rb_zero)\<rparr>,
      tcp_sock_tree_head = \<lparr>rbh_root = None, rb_links = (\<lambda>_. rb_zero)\<rparr>, sigusr2 = []\<rparr>"

theorem socket_fifo_witness:
  "(\<exists>s'. sock_run 0 [Op_sendto \<lparr>inet4_addr = 1, port = 7\<rparr> [1, 2], Op_input \<lparr>inet4_addr = 5, port = 9\<rparr> [3, 4],
        Op_recvfrom 1 True, Op_recvfrom 8 False, Op_take] demo_rings =
      Some (s', [Ret 2, Ret 0, Got \<lparr>inet4_addr = 5, port = 9\<rparr> [3], Got \<lparr>inet4_addr = 5, port = 9\<rparr> [3, 4],
        Taken \<lparr>inet4_addr = 0, port = 0\<rparr> \<lparr>inet4_addr = 1, port = 7\<rparr> [1, 2]]) \<and>
      sock_rings s' 0 = ([], [])) \<and>
   sock_run 0 (replicate 3 (Op_sendto \<lparr>inet4_addr = 1, port = 7\<rparr> [1])) demo_rings \<noteq> None \<and>
   sock_run 0 (replicate 4 (Op_sendto \<lparr>inet4_addr = 1, port = 7\<rparr> [1])) demo_rings = None"
proof -
  have wf: "dgram_wf (ingress (sockets demo_rings 0))" "dgram_wf (egress (sockets demo_rings 0))"
    and l: "sock_rings demo_rings 0 = ([], [])"
    by (simp_all add: demo_rings_def sock_rings_def frag_st.defs demo_dring_wf)
  show ?thesis
    using socket_fifo [OF wf, of "[Op_sendto \<lparr>inet4_addr = 1, port = 7\<rparr> [1, 2],
        Op_input \<lparr>inet4_addr = 5, port = 9\<rparr> [3, 4], Op_recvfrom 1 True, Op_recvfrom 8 False, Op_take]"]
      socket_fifo [OF wf, of "replicate 3 (Op_sendto \<lparr>inet4_addr = 1, port = 7\<rparr> [1])"]
      socket_fifo [OF wf, of "replicate 4 (Op_sendto \<lparr>inet4_addr = 1, port = 7\<rparr> [1])"]
    by (simp add: l numeral_3_eq_3 numeral_eq_Suc [of "num.Bit0 (num.Bit0 num.One)"]
        del: sock_run.simps sock_step.simps) (auto simp del: sock_run.simps sock_step.simps)
qed

text \<open>
  C29: \<^verbatim>\<open>nstack_sendto\<close> on a ring with a free block. Up to 4072 bytes are queued as one datagram for
  the destination. More than 4096 bytes are refused with \<^verbatim>\<open>ENOBUFS\<close>. Between the two the data
  does not fit the block beside its header, and in the last block it runs over the end of the
  data area.
\<close>

theorem nstack_sendto_bounds:
  assumes "dgram_wf q" and "length (dgram_list q) < 3" and "len \<le> length buffer"
  shows "(len \<le> 4072 \<longrightarrow> (\<exists>q'. nstack_sendto q buffer len dest errno = Some (q', int len, errno) \<and> dgram_wf q' \<and>
      dgram_list q' = dgram_list q @ [(\<lparr>inet4_addr = 0, port = 0\<rparr>, dest, take len buffer)])) \<and>
    (4096 < len \<longrightarrow> nstack_sendto q buffer len dest errno = Some (q, -1, ENOBUFS)) \<and>
    (4072 < len \<and> len \<le> 4096 \<and> m_write (dr_cb q) = 3 \<longrightarrow> nstack_sendto q buffer len dest errno = None)"
proof -
  have rd: "read_at buffer 0 len = Some (take len buffer)" using assms(3) by (simp add: read_at_def)
  have "\<exists>q'. nstack_sendto q buffer len dest errno = Some (q', int len, errno) \<and> dgram_wf q' \<and>
      dgram_list q' = dgram_list q @ [(\<lparr>inet4_addr = 0, port = 0\<rparr>, dest, take len buffer)]" if l: "len \<le> 4072"
  proof -
    obtain q' where "dgram_put q \<lparr>inet4_addr = 0, port = 0\<rparr> dest (take len buffer) = Some q'" "dgram_wf q'"
      "dgram_list q' = dgram_list q @ [(\<lparr>inet4_addr = 0, port = 0\<rparr>, dest, take len buffer)]"
      by (rule dgram_put_free [OF assms(1,2)]) (use l in auto)
    with l rd show ?thesis by (simp add: nstack_sendto_def)
  qed
  moreover have "nstack_sendto q buffer len dest errno = Some (q, -1, ENOBUFS)" if "4096 < len"
    using that by (simp add: nstack_sendto_def)
  moreover have "nstack_sendto q buffer len dest errno = None" if "4072 < len" "len \<le> 4096" "m_write (dr_cb q) = 3"
  proof -
    have "queue_wf (dr_cb q)" "b_size (dr_cb q) = 4096" "a_len (dr_cb q) = 4" "length (dr_data q) = 16384"
      using assms(1) by (simp_all add: dgram_wf_def)
    moreover have "Suc (length (queue_slots (dr_cb q))) \<noteq> 4" using assms(2) by (simp add: dgram_list_def)
    ultimately have "queue_alloc (dr_cb q) = Some 12288"
      using queue_alloc_wf [of "dr_cb q"] that(3) by (simp add: slot_index_def)
    moreover have "dgram_write (dr_data q) 12288 d (take len buffer) = None" for d
      using \<open>length (dr_data q) = 16384\<close> that(1) assms(3)
      by (auto simp: dgram_write_def memcpy_at_def)
    ultimately show ?thesis using that(1,2) rd by (simp add: nstack_sendto_def dgram_put_def)
  qed
  ultimately show ?thesis by blast
qed

theorem nstack_sendto_bounds_witness:
  "(\<exists>q'. nstack_sendto (demo_dring 0) (replicate 9 5) 9 \<lparr>inet4_addr = 1, port = 7\<rparr> 0 = Some (q', 9, 0) \<and>
      dgram_list q' = [(\<lparr>inet4_addr = 0, port = 0\<rparr>, \<lparr>inet4_addr = 1, port = 7\<rparr>, replicate 9 5)]) \<and>
   nstack_sendto (demo_dring 0) (replicate 5000 5) 5000 \<lparr>inet4_addr = 1, port = 7\<rparr> 0 = Some (demo_dring 0, -1, 105) \<and>
   nstack_sendto (demo_dring 3) (replicate 4080 5) 4080 \<lparr>inet4_addr = 1, port = 7\<rparr> 0 = None"
proof -
  let ?d = "\<lparr>inet4_addr = 1, port = 7\<rparr>"
  have w: "dgram_wf (demo_dring 0)" "dgram_wf (demo_dring 3)" by (simp_all add: demo_dring_wf)
  have "m_write (dr_cb (demo_dring 3)) = 3" by (simp add: demo_dring_def)
  note b = nstack_sendto_bounds [where dest = ?d and errno = 0]
  show ?thesis
    using b [OF w(1), of 9 "replicate 9 5"] b [OF w(1), of 5000 "replicate 5000 5"] b [OF w(2), of 4080 "replicate 4080 5"]
      \<open>m_write (dr_cb (demo_dring 3)) = 3\<close>
    by (auto simp: demo_dring_wf(2))
qed

end
