(* ===== verification/Tcp_Header.thy ===== *)
theory Tcp_Header
  imports Socket
begin

text \<open>
  The TCP header of \<^verbatim>\<open>src/tcp.h\<close> and its conversions in \<^verbatim>\<open>src/tcp.c\<close>: checksum with the pseudo
  header, the options, \<^verbatim>\<open>tcp_hton\<close> and \<^verbatim>\<open>tcp_ntoh\<close>. A segment in memory is the struct of twenty
  bytes and what follows it, options and data, which is the argument \<open>rest\<close>. The conversions
  of the options run over the bytes in place; a loop that does not advance gives \<open>None\<close>.
\<close>

record tcp_hdr =
  tcp_sport :: u16
  tcp_dport :: u16
  tcp_seqno :: u32
  tcp_ack_num :: u32
  tcp_flags :: u16
  tcp_win_size :: u16
  tcp_csum :: u16
  tcp_urg_ptr :: u16

abbreviation (input) TCP_ACK :: u16 where "TCP_ACK \<equiv> 0x010"
abbreviation (input) TCP_PSH :: u16 where "TCP_PSH \<equiv> 0x008"
abbreviation (input) TCP_RST :: u16 where "TCP_RST \<equiv> 0x004"
abbreviation (input) TCP_SYN :: u16 where "TCP_SYN \<equiv> 0x002"
abbreviation (input) TCP_FIN :: u16 where "TCP_FIN \<equiv> 0x001"
abbreviation (input) IP_PROTO_TCP :: u8 where "IP_PROTO_TCP \<equiv> 6"

definition tcp_hdr_bytes :: "tcp_hdr \<Rightarrow> bytes" where
  "tcp_hdr_bytes t = bytes16 (tcp_sport t) @ bytes16 (tcp_dport t) @ bytes32 (tcp_seqno t) @
     bytes32 (tcp_ack_num t) @ bytes16 (tcp_flags t) @ bytes16 (tcp_win_size t) @
     bytes16 (tcp_csum t) @ bytes16 (tcp_urg_ptr t)"

definition tcp_hdr_at :: "bytes \<Rightarrow> tcp_hdr option" where
  "tcp_hdr_at b =
     (if 20 \<le> length b then Some
        \<lparr>tcp_sport = le16 (b ! 0) (b ! 1), tcp_dport = le16 (b ! 2) (b ! 3),
         tcp_seqno = u32_at b 4, tcp_ack_num = u32_at b 8, tcp_flags = le16 (b ! 12) (b ! 13),
         tcp_win_size = le16 (b ! 14) (b ! 15), tcp_csum = le16 (b ! 16) (b ! 17),
         tcp_urg_ptr = le16 (b ! 18) (b ! 19)\<rparr>
      else None)"

definition tcp_doff :: "tcp_hdr \<Rightarrow> nat" where
  "tcp_doff t = unat (drop_bit 12 (tcp_flags t AND 0xf000))"

definition tcp_hdr_size :: "tcp_hdr \<Rightarrow> int" where
  "tcp_hdr_size t = (if tcp_doff t < 5 \<or> tcp_doff t > 15 then - EINVAL else int (tcp_doff t * 4))"

definition tcp_opt_size :: "tcp_hdr \<Rightarrow> int" where
  "tcp_opt_size t = (if tcp_doff t < 5 \<or> tcp_doff t > 15 then - EINVAL else int (tcp_doff t * 4) - 20)"

section \<open>Checksum\<close>

definition tcp_pseudo_header :: "nstack_sockaddr \<Rightarrow> nstack_sockaddr \<Rightarrow> nat \<Rightarrow> bytes" where
  "tcp_pseudo_header src dst bsize = bytes32 (htonl (inet4_addr src)) @ bytes32 (htonl (inet4_addr dst)) @
     [0, IP_PROTO_TCP] @ bytes16 (htons (of_nat bsize))"

definition tcp_checksum :: "nstack_sockaddr \<Rightarrow> nstack_sockaddr \<Rightarrow> bytes \<Rightarrow> nat \<Rightarrow> u16 option" where
  "tcp_checksum src dst data bsize = do {
     acc \<leftarrow> csum_loop (tcp_pseudo_header src dst bsize) 12 0 0xffff;
     acc \<leftarrow> csum_loop data bsize 0 acc;
     acc \<leftarrow> csum_tail data bsize acc;
     Some (ucast (NOT acc))
   }"

section \<open>Options\<close>

text \<open>The fields of the option struct after the kind and the length, by their kind.\<close>

definition tcp_opt_swap :: "(u16 \<Rightarrow> u16) \<Rightarrow> (u32 \<Rightarrow> u32) \<Rightarrow> u8 \<Rightarrow> bytes \<Rightarrow> nat \<Rightarrow> bytes option" where
  "tcp_opt_swap f16 f32 kind opt i =
     (if kind = 2 then do {
        b \<leftarrow> read_at opt (i + 2) 2;
        memcpy_at opt (i + 2) (bytes16 (f16 (le16 (b ! 0) (b ! 1))))
      }
      else if kind = 8 then do {
        b \<leftarrow> read_at opt (i + 2) 8;
        memcpy_at opt (i + 2) (bytes32 (f32 (u32_at b 0)) @ bytes32 (f32 (u32_at b 4)))
      }
      else Some opt)"

text \<open>A kind that the \<^verbatim>\<open>switch\<close> does not know leaves the index where it is.\<close>

partial_function (option) tcp_opt_loop ::
  "(u16 \<Rightarrow> u16) \<Rightarrow> (u32 \<Rightarrow> u32) \<Rightarrow> int \<Rightarrow> bytes \<Rightarrow> nat \<Rightarrow> bytes option" where
  "tcp_opt_loop f16 f32 len opt i =
     (if int i < len then do {
        kind \<leftarrow> load8 opt i;
        if kind = 0 then Some opt
        else if kind = 1 then tcp_opt_loop f16 f32 len opt (i + 1)
        else if kind = 2 \<or> kind = 3 \<or> kind = 4 \<or> kind = 5 \<or> kind = 8 then do {
          opt \<leftarrow> tcp_opt_swap f16 f32 kind opt i;
          n \<leftarrow> load8 opt (i + 1);
          tcp_opt_loop f16 f32 len opt (i + unat n)
        }
        else tcp_opt_loop f16 f32 len opt i
      }
      else Some opt)"

definition tcp_hton_opt :: "bytes \<Rightarrow> int \<Rightarrow> bytes option" where
  "tcp_hton_opt opt len = tcp_opt_loop htons htonl len opt 0"

definition tcp_ntoh_opt :: "bytes \<Rightarrow> int \<Rightarrow> bytes option" where
  "tcp_ntoh_opt opt len = tcp_opt_loop ntohs ntohl len opt 0"

section \<open>Conversions\<close>

definition tcp_hton_fields :: "tcp_hdr \<Rightarrow> tcp_hdr" where
  "tcp_hton_fields t =
     \<lparr>tcp_sport = htons (tcp_sport t), tcp_dport = htons (tcp_dport t), tcp_seqno = htonl (tcp_seqno t),
      tcp_ack_num = htonl (tcp_ack_num t), tcp_flags = htons (tcp_flags t), tcp_win_size = htons (tcp_win_size t),
      tcp_csum = 0, tcp_urg_ptr = htons (tcp_urg_ptr t)\<rparr>"

definition tcp_hton ::
  "nstack_sockaddr \<Rightarrow> nstack_sockaddr \<Rightarrow> tcp_hdr \<Rightarrow> bytes \<Rightarrow> nat \<Rightarrow> (tcp_hdr \<times> bytes) option" where
  "tcp_hton src dst host rest bsize = do {
     rest \<leftarrow> tcp_hton_opt rest (tcp_opt_size host);
     let net = tcp_hton_fields host;
     csum \<leftarrow> tcp_checksum src dst (tcp_hdr_bytes net @ rest) bsize;
     Some (net\<lparr>tcp_csum := csum\<rparr>, rest)
   }"

definition tcp_ntoh_fields :: "tcp_hdr \<Rightarrow> tcp_hdr" where
  "tcp_ntoh_fields t =
     \<lparr>tcp_sport = ntohs (tcp_sport t), tcp_dport = ntohs (tcp_dport t), tcp_seqno = ntohl (tcp_seqno t),
      tcp_ack_num = ntohl (tcp_ack_num t), tcp_flags = ntohs (tcp_flags t), tcp_win_size = ntohs (tcp_win_size t),
      tcp_csum = tcp_csum t, tcp_urg_ptr = ntohs (tcp_urg_ptr t)\<rparr>"

definition tcp_ntoh :: "tcp_hdr \<Rightarrow> bytes \<Rightarrow> (tcp_hdr \<times> bytes) option" where
  "tcp_ntoh net rest = do {
     let host = tcp_ntoh_fields net;
     rest \<leftarrow> tcp_ntoh_opt rest (tcp_opt_size host);
     Some (host, rest)
   }"

section \<open>The checksum\<close>

lemma length_tcp_hdr_bytes [simp]: "length (tcp_hdr_bytes t) = 20"
  by (simp add: tcp_hdr_bytes_def)

lemma tcp_hdr_at_bytes [simp]: "tcp_hdr_at (tcp_hdr_bytes t @ rest) = Some t"
  by (simp add: tcp_hdr_at_def tcp_hdr_bytes_def bytes16_def bytes32_def u32_at_def)

lemma length_tcp_pseudo_header [simp]: "length (tcp_pseudo_header src dst n) = 12"
  by (simp add: tcp_pseudo_header_def)

text \<open>The two loops and the odd byte run over the pseudo header and the segment in a row.\<close>

lemma tcp_checksum_eq:
  assumes "n \<le> length data"
  shows "tcp_checksum src dst data n = ip_checksum (tcp_pseudo_header src dst n @ data) (12 + n)"
proof -
  let ?p = "tcp_pseudo_header src dst n"
  have f: "unat (0xffff :: u32) = 65535" by simp
  obtain a where a: "csum_loop ?p 12 0 0xffff = Some a" "unat a = ones (65535 + word_sum ?p)"
    using csum_run [of 0 12 ?p "0xffff"] by (auto simp: f csum_tail_def bind_eq_Some_iff)
  obtain r where r: "(csum_loop data n 0 a \<bind> csum_tail data n) = Some r"
    "unat r = ones (unat a + word_sum (take n data))"
    using csum_run [of 0 n data a] assms ones_bounds unfolding a(2) by auto
  have run: "tcp_checksum src dst data n = Some (ucast (NOT r))"
    using a(1) r(1) by (auto simp: tcp_checksum_def bind_eq_Some_iff)
  have "unat r = ones (word_sum (take (12 + n) (?p @ data)))"
    unfolding r(2) a(2) ones_add_ones
    by (rule ones_cong) (simp add: word_sum_append add.assoc)
  then have "unat (ucast (NOT r) :: u16) = 65535 - ones (word_sum (take (12 + n) (?p @ data)))"
    using unat_not_u16 [of r] ones_bounds by simp
  moreover obtain c where "ip_checksum (?p @ data) (12 + n) = Some c"
    "unat c = 65535 - ones (word_sum (take (12 + n) (?p @ data)))"
    using ip_checksum_val [of "12 + n" "?p @ data"] assms by auto
  ultimately show ?thesis using run by (simp add: word_eq_iff_unsigned [where 'a = nat])
qed

lemma tcp_hdr_bytes_csum:
  "tcp_hdr_bytes (t\<lparr>tcp_csum := c\<rparr>) = take 16 (tcp_hdr_bytes t) @ bytes16 c @ drop 18 (tcp_hdr_bytes t)"
  by (simp add: tcp_hdr_bytes_def bytes16_def bytes32_def)

lemma tcp_checksum_insert:
  assumes "20 \<le> n" and "n \<le> 20 + length rest" and "tcp_csum t = 0"
    and "tcp_checksum src dst (tcp_hdr_bytes t @ rest) n = Some c"
  shows "tcp_checksum src dst (tcp_hdr_bytes (t\<lparr>tcp_csum := c\<rparr>) @ rest) n = Some 0"
proof -
  let ?pre = "tcp_pseudo_header src dst n @ take 16 (tcp_hdr_bytes t)"
  let ?post = "drop 18 (tcp_hdr_bytes t) @ rest"
  have z: "tcp_hdr_bytes t = take 16 (tcp_hdr_bytes t) @ [0, 0] @ drop 18 (tcp_hdr_bytes t)"
    using assms(3) by (simp add: tcp_hdr_bytes_def bytes16_def bytes32_def byte_of16_def)
  have "?pre @ [0, 0] @ ?post = tcp_pseudo_header src dst n @
      (take 16 (tcp_hdr_bytes t) @ [0, 0] @ drop 18 (tcp_hdr_bytes t)) @ rest" by simp
  then have e: "?pre @ [0, 0] @ ?post = tcp_pseudo_header src dst n @ tcp_hdr_bytes t @ rest"
    by (simp only: z [symmetric])
  have "ip_checksum (?pre @ [0, 0] @ ?post) (12 + n) = Some c"
    unfolding e using assms(2,4) tcp_checksum_eq [of n "tcp_hdr_bytes t @ rest"] by simp
  then have "ip_checksum (?pre @ bytes16 c @ ?post) (12 + n) = Some 0"
    using assms(1,2) by (intro ip_checksum_insert) auto
  then show ?thesis
    using assms(2) by (subst tcp_checksum_eq) (simp_all add: tcp_hdr_bytes_csum)
qed

lemma tcp_checksum_defined: "n \<le> length data \<Longrightarrow> \<exists>c. tcp_checksum src dst data n = Some c"
  using ip_checksum_val [of "12 + n" "tcp_pseudo_header src dst n @ data"]
  by (auto simp: tcp_checksum_eq)

section \<open>Well-formed options\<close>

text \<open>The options that the loops know, and their bytes with the fields mapped by \<open>f16\<close> and
  \<open>f32\<close>.\<close>

datatype tcp_opt = Opt_nop | Opt_mss u16 | Opt_wscale u8 | Opt_sack_ok | Opt_sack bytes | Opt_ts u32 u32

primrec opt_bytes :: "(u16 \<Rightarrow> u16) \<Rightarrow> (u32 \<Rightarrow> u32) \<Rightarrow> tcp_opt \<Rightarrow> bytes" where
  "opt_bytes f16 f32 Opt_nop = [1]"
| "opt_bytes f16 f32 (Opt_mss m) = [2, 4] @ bytes16 (f16 m)"
| "opt_bytes f16 f32 (Opt_wscale w) = [3, 3, w]"
| "opt_bytes f16 f32 Opt_sack_ok = [4, 2]"
| "opt_bytes f16 f32 (Opt_sack b) = [5, of_nat (2 + length b)] @ b"
| "opt_bytes f16 f32 (Opt_ts v e) = [8, 10] @ bytes32 (f32 v) @ bytes32 (f32 e)"

primrec opt_ok :: "tcp_opt \<Rightarrow> bool" where
  "opt_ok Opt_nop = True"
| "opt_ok (Opt_mss m) = True"
| "opt_ok (Opt_wscale w) = True"
| "opt_ok Opt_sack_ok = True"
| "opt_ok (Opt_sack b) = (length b < 254)"
| "opt_ok (Opt_ts v e) = True"

abbreviation opts_bytes :: "(u16 \<Rightarrow> u16) \<Rightarrow> (u32 \<Rightarrow> u32) \<Rightarrow> tcp_opt list \<Rightarrow> bytes" where
  "opts_bytes f16 f32 os \<equiv> concat (map (opt_bytes f16 f32) os)"

lemma length_opt_bytes: "length (opt_bytes f16 f32 x) = length (opt_bytes g16 g32 x)"
  by (cases x) simp_all

lemma length_opts_bytes: "length (opts_bytes f16 f32 os) = length (opts_bytes g16 g32 os)"
  by (induction os) (simp_all add: length_opt_bytes [of f16 f32 _ g16 g32])

text \<open>One option: its fields are mapped in place and the index moves behind it.\<close>

lemma load8_append: "load8 (pre @ ys) (length pre + j) = load8 ys j"
  by (simp add: load8_def nth_append)

lemma load8_Cons [simp]: "load8 (x # xs) 0 = Some x" "load8 (x # xs) (Suc j) = load8 xs j"
  by (simp_all add: load8_def)

lemma read_at_append: "read_at (pre @ ys) (length pre + j) n = read_at ys j n"
  by (simp add: read_at_def)

lemma memcpy_at_append: "memcpy_at (pre @ ys) (length pre + j) xs = map_option ((@) pre) (memcpy_at ys j xs)"
  by (simp add: memcpy_at_def add.assoc)

lemma tcp_opt_swap_append:
  "tcp_opt_swap f16 f32 k (pre @ ys) (length pre) = map_option ((@) pre) (tcp_opt_swap f16 f32 k ys 0)"
  using read_at_append [of pre ys 2] memcpy_at_append [of pre ys 2]
  by (simp add: tcp_opt_swap_def map_option_bind comp_def numeral_2_eq_2 cong: if_cong)

lemma opt_loop_step:
  assumes "int (length pre) < len" and "k \<in> {2, 3, 4, 5, 8}" and "xs = k # n # ys"
    and "tcp_opt_swap f16 f32 k xs 0 = Some (k # n # ys')"
  shows "tcp_opt_loop f16 f32 len (pre @ xs) (length pre) =
    tcp_opt_loop f16 f32 len (pre @ k # n # ys') (length pre + unat n)"
  using assms load8_append [of pre xs 0] load8_append [of pre "k # n # ys'" 1]
  by (subst tcp_opt_loop.simps) (auto simp: tcp_opt_swap_append)

lemma opt_step:
  assumes "opt_ok x" and "int (length pre) < len"
  shows "tcp_opt_loop f16 f32 len (pre @ opt_bytes g16 g32 x @ post) (length pre) =
    tcp_opt_loop f16 f32 len (pre @ opt_bytes (\<lambda>a. f16 (g16 a)) (\<lambda>a. f32 (g32 a)) x @ post)
      (length (pre @ opt_bytes g16 g32 x))"
proof (cases x)
  case Opt_nop
  then show ?thesis
    using assms(2) load8_append [of pre "1 # post" 0] by (subst tcp_opt_loop.simps) simp
next
  case (Opt_sack b)
  define k :: u8 where "k = of_nat (2 + length b)"
  have "2 + length b < 256" using assms(1) Opt_sack by simp
  then have "unat k = 2 + length b" unfolding k_def by (subst unat_of_nat) simp
  then show ?thesis
    unfolding Opt_sack opt_bytes.simps k_def [symmetric] using assms(2)
    by (simp add: opt_loop_step [of _ _ 5 _ k "b @ post" _ _ "b @ post"] tcp_opt_swap_def)
next
  case (Opt_mss m)
  have "tcp_opt_swap f16 f32 2 (2 # 4 # bytes16 (g16 m) @ post) 0 = Some (2 # 4 # bytes16 (f16 (g16 m)) @ post)"
    by (simp add: tcp_opt_swap_def read_at_def memcpy_at_def bytes16_def)
  from opt_loop_step [OF assms(2) _ refl this] show ?thesis by (simp add: Opt_mss)
next
  case (Opt_ts v e)
  have "tcp_opt_swap f16 f32 8 (8 # 10 # bytes32 (g32 v) @ bytes32 (g32 e) @ post) 0 =
      Some (8 # 10 # bytes32 (f32 (g32 v)) @ bytes32 (f32 (g32 e)) @ post)"
    by (simp add: tcp_opt_swap_def read_at_def memcpy_at_def bytes32_def u32_at_def)
  from opt_loop_step [OF assms(2) _ refl this] show ?thesis by (simp add: Opt_ts)
next
  case (Opt_wscale w)
  have "length (pre @ [3, 3, w]) = length pre + 3" by simp
  then show ?thesis
    using opt_loop_step [OF assms(2), of 3 _ 3 "w # post" f16 f32 "w # post"]
    by (simp add: Opt_wscale tcp_opt_swap_def del: length_append)
next
  case Opt_sack_ok
  show ?thesis
    using opt_loop_step [OF assms(2), of 4 _ 2 post f16 f32 post]
    by (simp add: Opt_sack_ok tcp_opt_swap_def)
qed

lemma opts_skip:
  assumes "\<forall>x\<in>set os. opt_ok x" and "int (length pre + length (opts_bytes g16 g32 os)) \<le> len"
  shows "tcp_opt_loop f16 f32 len (pre @ opts_bytes g16 g32 os @ post) (length pre) =
    tcp_opt_loop f16 f32 len (pre @ opts_bytes (\<lambda>a. f16 (g16 a)) (\<lambda>a. f32 (g32 a)) os @ post)
      (length pre + length (opts_bytes g16 g32 os))"
  using assms
proof (induction os arbitrary: pre)
  case (Cons x os)
  have "int (length pre) < int (length pre + length (opts_bytes g16 g32 (x # os)))"
    by (cases x) simp_all
  then have lt: "int (length pre) < len" using Cons.prems(2) by linarith
  let ?pre = "pre @ opt_bytes (\<lambda>a. f16 (g16 a)) (\<lambda>a. f32 (g32 a)) x"
  have n: "length (opt_bytes (\<lambda>a. f16 (g16 a)) (\<lambda>a. f32 (g32 a)) x) = length (opt_bytes g16 g32 x)"
    by (rule length_opt_bytes)
  have "tcp_opt_loop f16 f32 len (?pre @ opts_bytes g16 g32 os @ post) (length ?pre) =
      tcp_opt_loop f16 f32 len (?pre @ opts_bytes (\<lambda>a. f16 (g16 a)) (\<lambda>a. f32 (g32 a)) os @ post)
        (length ?pre + length (opts_bytes g16 g32 os))"
    using Cons.prems by (intro Cons.IH) (auto simp: n add.assoc)
  then show ?case
    using opt_step [of x pre len f16 f32 g16 g32 "opts_bytes g16 g32 os @ post"] Cons.prems(1) lt
    by (simp add: n add.assoc)
qed simp

lemma opts_run:
  assumes "\<forall>x\<in>set os. opt_ok x"
    and "len = int (length (opts_bytes g16 g32 os)) \<or>
      len > int (length (opts_bytes g16 g32 os)) \<and> post \<noteq> [] \<and> hd post = 0"
  shows "tcp_opt_loop f16 f32 len (opts_bytes g16 g32 os @ post) 0 =
    Some (opts_bytes (\<lambda>a. f16 (g16 a)) (\<lambda>a. f32 (g32 a)) os @ post)"
proof -
  let ?new = "opts_bytes (\<lambda>a. f16 (g16 a)) (\<lambda>a. f32 (g32 a)) os"
  have n: "length (opts_bytes g16 g32 os) = length ?new" by (rule length_opts_bytes)
  have "tcp_opt_loop f16 f32 len (?new @ post) (length ?new) = Some (?new @ post)"
    using assms(2) load8_append [of ?new post 0] unfolding n
    by (subst tcp_opt_loop.simps) (cases post; auto)
  then show ?thesis
    using opts_skip [of os "[]" g16 g32 len f16 f32 post] assms by (auto simp: n)
qed

section \<open>Options on which the loop stays\<close>

text \<open>An option of a kind that the loop does not know, or one whose length is zero.\<close>

definition opt_stuck :: "bytes \<Rightarrow> nat \<Rightarrow> bool" where
  "opt_stuck opt i \<longleftrightarrow> i + 1 < length opt \<and> opt ! i \<notin> {0, 1} \<and>
     (opt ! i \<notin> {2, 3, 4, 5, 8} \<or> opt ! (i + 1) = 0)"

lemma opt_stuck_append [simp]: "opt_stuck (pre @ xs) (length pre) = opt_stuck xs 0"
  using nth_append_length_plus [of pre xs 1] by (auto simp: opt_stuck_def nth_append)

lemma memcpy_at_before: "memcpy_at buf i xs = Some buf' \<Longrightarrow> j < i \<Longrightarrow> buf' ! j = buf ! j"
  by (auto simp: memcpy_at_def nth_append split: if_splits)

lemma tcp_opt_swap_keeps:
  assumes "tcp_opt_swap f16 f32 k opt i = Some opt'"
  shows "length opt' = length opt" "opt' ! i = opt ! i" "opt' ! (i + 1) = opt ! (i + 1)"
proof -
  have "opt' = opt \<or> (\<exists>xs. memcpy_at opt (i + 2) xs = Some opt')"
    using assms unfolding tcp_opt_swap_def by (simp add: bind_eq_Some_iff split: if_splits) blast+
  then show "length opt' = length opt" "opt' ! i = opt ! i" "opt' ! (i + 1) = opt ! (i + 1)"
    using memcpy_at_length [of opt "i + 2" _ opt'] memcpy_at_before [of opt "i + 2" _ opt' i]
      memcpy_at_before [of opt "i + 2" _ opt' "i + 1"] by auto
qed

lemma opt_loop_stuck:
  assumes "tcp_opt_loop f16 f32 len opt i = Some r"
  shows "\<not> (int i < len \<and> opt_stuck opt i)"
proof (rule tcp_opt_loop.raw_induct [OF _ assms, where P = "\<lambda>f16 f32 len opt i r.
    \<not> (int i < len \<and> opt_stuck opt i)"])
  fix loop :: "(u16 \<Rightarrow> u16) \<Rightarrow> (u32 \<Rightarrow> u32) \<Rightarrow> int \<Rightarrow> bytes \<Rightarrow> nat \<Rightarrow> bytes option" and f16 f32 len opt i r
  assume IH: "\<And>f16 f32 len opt i r. loop f16 f32 len opt i = Some r \<Longrightarrow> \<not> (int i < len \<and> opt_stuck opt i)"
    and body: "(if int i < len then do {
        kind \<leftarrow> load8 opt i;
        if kind = 0 then Some opt
        else if kind = 1 then loop f16 f32 len opt (i + 1)
        else if kind = 2 \<or> kind = 3 \<or> kind = 4 \<or> kind = 5 \<or> kind = 8 then do {
          opt \<leftarrow> tcp_opt_swap f16 f32 kind opt i;
          n \<leftarrow> load8 opt (i + 1);
          loop f16 f32 len opt (i + unat n)
        }
        else loop f16 f32 len opt i
      }
      else Some opt) = Some r"
  show "\<not> (int i < len \<and> opt_stuck opt i)"
  proof
    assume a: "int i < len \<and> opt_stuck opt i"
    then have "\<exists>opt'. loop f16 f32 len opt' i = Some r \<and> opt_stuck opt' i"
    proof (cases "opt ! i \<in> {2, 3, 4, 5, 8}")
      case True
      then obtain opt' n where o: "tcp_opt_swap f16 f32 (opt ! i) opt i = Some opt'"
        "load8 opt' (i + 1) = Some n" "loop f16 f32 len opt' (i + unat n) = Some r"
        using body a by (auto simp: opt_stuck_def load8_def bind_eq_Some_iff)
      note keeps = tcp_opt_swap_keeps [OF o(1)]
      have "n = 0" using o(2) a True keeps by (auto simp: load8_def opt_stuck_def split: if_splits)
      then show ?thesis using o(3) a keeps by (auto simp: opt_stuck_def)
    qed (use body in \<open>auto simp: load8_def opt_stuck_def\<close>)
    with IH a show False by blast
  qed
qed

lemma opts_hang:
  assumes "\<forall>x\<in>set os. opt_ok x" and "int (length (opts_bytes g16 g32 os)) < len" and "opt_stuck post 0"
  shows "tcp_opt_loop f16 f32 len (opts_bytes g16 g32 os @ post) 0 = None"
proof -
  let ?new = "opts_bytes (\<lambda>a. f16 (g16 a)) (\<lambda>a. f32 (g32 a)) os"
  have n: "length (opts_bytes g16 g32 os) = length ?new" by (rule length_opts_bytes)
  have "tcp_opt_loop f16 f32 len (?new @ post) (length ?new) \<noteq> Some r" for r
    using opt_loop_stuck [of f16 f32 len "?new @ post" "length ?new" r] assms(2,3) n by auto
  then show ?thesis
    using opts_skip [of os "[]" g16 g32 len f16 f32 post] assms(1,2) n by (auto simp del: not_Some_eq)
qed

section \<open>Headers out and in\<close>

text \<open>What follows a header: options, padding that starts with the end of the options, data.\<close>

definition tcp_rest_ok :: "tcp_hdr \<Rightarrow> tcp_opt list \<Rightarrow> bytes \<Rightarrow> bool" where
  "tcp_rest_ok t os pad \<longleftrightarrow> (\<forall>x\<in>set os. opt_ok x) \<and> (pad = [] \<or> hd pad = 0) \<and>
     tcp_opt_size t = int (length (opts_bytes (\<lambda>a. a) (\<lambda>a. a) os) + length pad)"

abbreviation opts_host :: "tcp_opt list \<Rightarrow> bytes" where
  "opts_host \<equiv> opts_bytes (\<lambda>a. a) (\<lambda>a. a)"

abbreviation opts_net :: "tcp_opt list \<Rightarrow> bytes" where
  "opts_net \<equiv> opts_bytes htons htonl"

lemma tcp_opt_size_cong: "tcp_flags t = tcp_flags u \<Longrightarrow> tcp_opt_size t = tcp_opt_size u"
  by (simp add: tcp_opt_size_def tcp_doff_def)

lemma tcp_opts_out: "tcp_rest_ok t os pad \<Longrightarrow> tcp_hton_opt (opts_host os @ pad @ data) (tcp_opt_size t) = Some (opts_net os @ pad @ data)"
  unfolding tcp_hton_opt_def tcp_rest_ok_def
  using opts_run [of os "tcp_opt_size t" "\<lambda>a. a" "\<lambda>a. a" "pad @ data" htons htonl] by (cases pad) auto

lemma tcp_opts_in:
  assumes "tcp_rest_ok t os pad"
  shows "tcp_ntoh_opt (opts_net os @ pad @ data) (tcp_opt_size t) = Some (opts_host os @ pad @ data)"
proof -
  have "length (opts_net os) = length (opts_host os)" by (rule length_opts_bytes)
  then show ?thesis
    using opts_run [of os "tcp_opt_size t" htons htonl "pad @ data" ntohs ntohl] assms
    unfolding tcp_ntoh_opt_def tcp_rest_ok_def by (cases pad) auto
qed

lemma tcp_ntoh_ok:
  assumes "tcp_rest_ok (tcp_ntoh_fields t) os pad"
  shows "tcp_ntoh t (opts_net os @ pad @ data) = Some (tcp_ntoh_fields t, opts_host os @ pad @ data)"
  using tcp_opts_in [OF assms, of data] by (simp add: tcp_ntoh_def)

lemma tcp_ntoh_hton_fields: "tcp_ntoh_fields ((tcp_hton_fields t)\<lparr>tcp_csum := c\<rparr>) = t\<lparr>tcp_csum := c\<rparr>"
  by (simp add: tcp_ntoh_fields_def tcp_hton_fields_def)

lemma tcp_rest_ok_csum [simp]: "tcp_rest_ok (t\<lparr>tcp_csum := c\<rparr>) os pad = tcp_rest_ok t os pad"
  by (simp add: tcp_rest_ok_def tcp_opt_size_cong [of "t\<lparr>tcp_csum := c\<rparr>" t])

lemma tcp_hton_ok:
  assumes "tcp_rest_ok t os pad" and "20 \<le> n" and "n \<le> 20 + length (opts_host os @ pad @ data)"
  shows "\<exists>c. tcp_hton src dst t (opts_host os @ pad @ data) n =
      Some ((tcp_hton_fields t)\<lparr>tcp_csum := c\<rparr>, opts_net os @ pad @ data) \<and>
    tcp_checksum src dst (tcp_hdr_bytes ((tcp_hton_fields t)\<lparr>tcp_csum := c\<rparr>) @ opts_net os @ pad @ data) n = Some 0"
proof -
  let ?rest = "opts_net os @ pad @ data"
  have len: "length (opts_net os) = length (opts_host os)" by (rule length_opts_bytes)
  obtain c where c: "tcp_checksum src dst (tcp_hdr_bytes (tcp_hton_fields t) @ ?rest) n = Some c"
    using tcp_checksum_defined [of n "tcp_hdr_bytes (tcp_hton_fields t) @ ?rest"] assms(3) len by auto
  have "tcp_checksum src dst (tcp_hdr_bytes ((tcp_hton_fields t)\<lparr>tcp_csum := c\<rparr>) @ ?rest) n = Some 0"
    using assms(2,3) len c by (intro tcp_checksum_insert) (auto simp: tcp_hton_fields_def)
  with c show ?thesis by (auto simp: tcp_hton_def tcp_opts_out [OF assms(1)] Let_def)
qed

text \<open>
  C33: A segment that \<^verbatim>\<open>tcp_hton\<close> writes, with any list of options that the code knows,
  padding and data, passes the checksum test over the pseudo header, and \<^verbatim>\<open>tcp_ntoh\<close> gives
  the receiver the sender's header and options back; both loops over the options end.
\<close>

theorem tcp_header_roundtrip:
  assumes "tcp_rest_ok host os pad" and "20 \<le> n" and "n \<le> 20 + length (opts_host os @ pad @ data)"
  shows "\<exists>net rest. tcp_hton src dst host (opts_host os @ pad @ data) n = Some (net, rest) \<and>
    tcp_checksum src dst (tcp_hdr_bytes net @ rest) n = Some 0 \<and>
    tcp_ntoh net rest = Some (host\<lparr>tcp_csum := tcp_csum net\<rparr>, opts_host os @ pad @ data)"
proof -
  obtain c where c: "tcp_hton src dst host (opts_host os @ pad @ data) n =
      Some ((tcp_hton_fields host)\<lparr>tcp_csum := c\<rparr>, opts_net os @ pad @ data)"
    "tcp_checksum src dst (tcp_hdr_bytes ((tcp_hton_fields host)\<lparr>tcp_csum := c\<rparr>) @ opts_net os @ pad @ data) n = Some 0"
    using tcp_hton_ok [OF assms] by blast
  let ?net = "(tcp_hton_fields host)\<lparr>tcp_csum := c\<rparr>"
  have "tcp_ntoh ?net (opts_net os @ pad @ data) = Some (host\<lparr>tcp_csum := c\<rparr>, opts_host os @ pad @ data)"
    using tcp_ntoh_ok [of ?net os pad data] assms(1) by (simp only: tcp_ntoh_hton_fields tcp_rest_ok_csum)
  with c show ?thesis by (intro exI [of _ ?net] exI [of _ "opts_net os @ pad @ data"]) simp
qed

definition demo_syn :: tcp_hdr where
  "demo_syn = \<lparr>tcp_sport = 4000, tcp_dport = 10, tcp_seqno = 7, tcp_ack_num = 0, tcp_flags = 0xa002,
     tcp_win_size = 502, tcp_csum = 0, tcp_urg_ptr = 0\<rparr>"

definition demo_opts :: "tcp_opt list" where
  "demo_opts = [Opt_mss 1460, Opt_sack_ok, Opt_ts 9 0, Opt_nop, Opt_wscale 7]"

lemma demo_syn_rest: "tcp_rest_ok demo_syn demo_opts []"
  by (simp add: tcp_rest_ok_def demo_opts_def demo_syn_def tcp_opt_size_def tcp_doff_def)

theorem tcp_header_roundtrip_witness:
  "\<exists>net rest. tcp_hton \<lparr>inet4_addr = 0x0a000001, port = 4000\<rparr> \<lparr>inet4_addr = 0x0a000002, port = 10\<rparr>
      demo_syn (opts_host demo_opts) 40 = Some (net, rest) \<and>
    tcp_checksum \<lparr>inet4_addr = 0x0a000001, port = 4000\<rparr> \<lparr>inet4_addr = 0x0a000002, port = 10\<rparr>
      (tcp_hdr_bytes net @ rest) 40 = Some 0 \<and>
    tcp_ntoh net rest = Some (demo_syn\<lparr>tcp_csum := tcp_csum net\<rparr>, opts_host demo_opts)"
proof -
  have "40 \<le> 20 + length (opts_host demo_opts @ [] @ [])" by (simp add: demo_opts_def)
  from tcp_header_roundtrip [OF demo_syn_rest _ this] show ?thesis by simp
qed

end
