(* ===== verification/Udp.thy ===== *)
theory Udp
  imports Socket
begin

text \<open>
  UDP of \<^verbatim>\<open>src/udp.c\<close>: the header, the tree of bound sockets, input, the checksum with its
  pseudo header, and output. The buffer in which \<^verbatim>\<open>nstack_udp_send\<close> builds a datagram is
  an uninitialised array; its bytes are the argument \<open>junk\<close>.
\<close>

record udp_hdr =
  udp_sport :: u16
  udp_dport :: u16
  udp_len :: u16
  udp_csum :: u16

abbreviation (input) UDP_MAXLEN :: nat where "UDP_MAXLEN \<equiv> 65507"
abbreviation (input) IP_PROTO_UDP :: u8 where "IP_PROTO_UDP \<equiv> 17"

definition udp_hdr_bytes :: "udp_hdr \<Rightarrow> bytes" where
  "udp_hdr_bytes u = bytes16 (udp_sport u) @ bytes16 (udp_dport u) @ bytes16 (udp_len u) @ bytes16 (udp_csum u)"

definition udp_hdr_at :: "bytes \<Rightarrow> udp_hdr option" where
  "udp_hdr_at b =
     (if 8 \<le> length b then Some
        \<lparr>udp_sport = le16 (b ! 0) (b ! 1), udp_dport = le16 (b ! 2) (b ! 3),
         udp_len = le16 (b ! 4) (b ! 5), udp_csum = le16 (b ! 6) (b ! 7)\<rparr>
      else None)"

definition udp_hton :: "udp_hdr \<Rightarrow> udp_hdr \<Rightarrow> udp_hdr" where
  "udp_hton host net = net\<lparr>udp_sport := htons (udp_sport host), udp_dport := htons (udp_dport host),
     udp_len := htons (udp_len host)\<rparr>"

definition udp_ntoh :: "udp_hdr \<Rightarrow> udp_hdr \<Rightarrow> udp_hdr" where
  "udp_ntoh net host = host\<lparr>udp_sport := ntohs (udp_sport net), udp_dport := ntohs (udp_dport net),
     udp_len := ntohs (udp_len net)\<rparr>"

section \<open>Bound sockets\<close>

definition udp_socket_cmp :: "nstack_sockaddr \<Rightarrow> nstack_sockaddr \<Rightarrow> int" where
  "udp_socket_cmp a b = memcmp (sockaddr_bytes a) (sockaddr_bytes b)"

abbreviation sock_addr_of :: "'a sock_st_scheme \<Rightarrow> nat \<Rightarrow> nstack_sockaddr" where
  "sock_addr_of s i \<equiv> sock_addr (sock_info (sockets s i))"

definition find_udp_socket :: "'a sock_st_scheme \<Rightarrow> nstack_sockaddr \<Rightarrow> nat option option" where
  "find_udp_socket s addr = RB_FIND (\<lambda>a. udp_socket_cmp addr (sock_addr_of s a)) (udp_sock_tree_head s)"

definition nstack_udp_bind :: "'a sock_st_scheme \<Rightarrow> nat \<Rightarrow> ('a sock_st_scheme \<times> int) option" where
  "nstack_udp_bind s sock =
     (if sint (port (sock_addr_of s sock)) > NSTACK_SOCK_PORT_MAX then Some (s\<lparr>io_errno := EINVAL\<rparr>, -1)
      else do {
        used \<leftarrow> find_udp_socket s (sock_addr_of s sock);
        if used \<noteq> None then Some (s\<lparr>io_errno := EADDRINUSE\<rparr>, -1)
        else do {
          (head, _) \<leftarrow> RB_INSERT (\<lambda>a. udp_socket_cmp (sock_addr_of s sock) (sock_addr_of s a)) (udp_sock_tree_head s) sock;
          Some (s\<lparr>udp_sock_tree_head := head\<rparr>, 0)
        }
      })"

section \<open>Input\<close>

definition udp_input :: "('a sock_st_scheme, ip_hdr) handler" where
  "udp_input s ip_hdr payload bsize =
     (if bsize < 8 then Some (s, payload, - EBADMSG)
      else do {
        net \<leftarrow> udp_hdr_at payload;
        let udp = udp_ntoh net net;
        let rest = drop 8 payload;
        sock \<leftarrow> find_udp_socket s \<lparr>inet4_addr = ip_dst ip_hdr, port = ucast (udp_dport udp)\<rparr>;
        case sock of
          Some sock \<Rightarrow> do {
            (s, retval) \<leftarrow> nstack_sock_dgram_input s sock
              \<lparr>inet4_addr = ip_src ip_hdr, port = ucast (udp_sport udp)\<rparr> rest (bsize - 8);
            let udp = (if retval > 0 then
                let udp = \<lparr>udp_sport = udp_dport udp, udp_dport = udp_sport udp,
                           udp_len = of_int (8 + retval), udp_csum = 0\<rparr>
                in udp_hton udp udp
              else udp);
            Some (s, udp_hdr_bytes udp @ rest, retval)
          }
        | None \<Rightarrow> Some (s, udp_hdr_bytes udp @ rest, - ENOTSOCK)
      })"

section \<open>Output\<close>

text \<open>The loop adds the words and folds the carries in when the sum reaches \<open>2 ^ 31\<close>.\<close>

definition udp_sum_add :: "u32 \<Rightarrow> u16 \<Rightarrow> u32" where
  "udp_sum_add acc w =
     (let acc = acc + ucast w
      in if acc AND 0x80000000 \<noteq> 0 then (acc AND 0xffff) + drop_bit 16 acc else acc)"

fun udp_sum_words :: "bytes \<Rightarrow> u32 \<Rightarrow> u32" where
  "udp_sum_words (a # b # xs) acc = udp_sum_words xs (udp_sum_add acc (le16 a b))"
| "udp_sum_words [a] acc = acc + ucast a"
| "udp_sum_words [] acc = acc"

lemma unat_drop16: "unat (drop_bit 16 (acc :: u32)) = unat acc div 65536"
  by (simp add: drop_bit_eq_div unat_div)

lemma unat_fold_carry:
  "unat ((acc AND 0xffff) + drop_bit 16 acc :: u32) = unat acc mod 65536 + unat acc div 65536"
proof -
  have lo: "unat (acc AND 0xffff) = unat acc mod 65536"
  proof -
    have "acc AND 0xffff = take_bit 16 acc" by (simp add: take_bit_eq_mask mask_eq_exp_minus_1)
    then show ?thesis by (simp only: unsigned_take_bit_eq) (simp add: take_bit_eq_mod)
  qed
  have "unat acc div 65536 < 65536" using unat_u32_less [of acc] by (simp add: less_mult_imp_div_less del: unat_u32_less)
  then show ?thesis using lo by (simp add: unat_word_ariths unat_drop16)
qed

function udp_fold_carries :: "u32 \<Rightarrow> u32" where
  "udp_fold_carries acc =
     (if drop_bit 16 acc \<noteq> 0 then udp_fold_carries ((acc AND 0xffff) + drop_bit 16 acc) else acc)"
  by auto

termination
proof (relation "measure unat")
  fix acc :: u32
  assume "drop_bit 16 acc \<noteq> 0"
  then have "unat acc div 65536 \<noteq> 0" by (metis unat_drop16 unat_eq_0)
  moreover have "unat acc = 65536 * (unat acc div 65536) + unat acc mod 65536" by simp
  ultimately have "unat acc mod 65536 + unat acc div 65536 < unat acc" by linarith
  then show "((acc AND 0xffff) + drop_bit 16 acc, acc) \<in> measure unat"
    by (simp only: in_measure unat_fold_carry)
qed simp

declare udp_fold_carries.simps [simp del]

text \<open>The addresses enter as they lie in memory, in host order.\<close>

definition udp_checksum :: "bytes \<Rightarrow> nat \<Rightarrow> in_addr_t \<Rightarrow> in_addr_t \<Rightarrow> u16 option" where
  "udp_checksum buff len src_addr dest_addr = do {
     data \<leftarrow> read_at buff 0 len;
     let acc = udp_sum_words data 0;
     let acc = acc + ucast (ucast src_addr :: u16) + ucast (ucast (drop_bit 16 src_addr) :: u16)
       + ucast (ucast dest_addr :: u16) + ucast (ucast (drop_bit 16 dest_addr) :: u16)
       + ucast (htons 17) + ucast (htons (of_nat len));
     Some (ucast (NOT (udp_fold_carries acc)))
   }"

definition udp_out :: "'a sock_st_scheme \<Rightarrow> nat \<Rightarrow> nstack_dgram \<Rightarrow> udp_hdr" where
  "udp_out s i d = \<lparr>udp_sport = ucast (port (sock_addr_of s i)), udp_dport = ucast (port (dstaddr d)),
     udp_len = of_nat (8 + unat (buf_size d)), udp_csum = 0\<rparr>"

text \<open>
  The struct and the array behind it are the bytes \<open>junk\<close> until they are written; the
  checksum is taken before the data is copied in.
\<close>

definition nstack_udp_send ::
  "os_sendto \<Rightarrow> bytes \<Rightarrow> 'a sock_st_scheme \<Rightarrow> nat \<Rightarrow> nstack_dgram \<Rightarrow> bytes \<Rightarrow> ('a sock_st_scheme \<times> int) option" where
  "nstack_udp_send sendto junk s sock dgram dbuf =
     (let n = unat (buf_size dgram)
      in if \<not> (n > 0 \<and> n < UDP_MAXLEN) then Some (s, - EINVAL)
         else do {
           let udp = udp_out s sock dgram;
           chk \<leftarrow> udp_checksum (udp_hdr_bytes udp @ take n junk) (unat (udp_len udp))
             (inet4_addr (srcaddr dgram)) (inet4_addr (dstaddr dgram));
           if chk \<noteq> 0 then Some (s, -1)
           else do {
             data \<leftarrow> read_at dbuf 0 n;
             ip_send sendto s (inet4_addr (dstaddr dgram)) IP_PROTO_UDP (udp_hdr_bytes (udp_hton udp udp) @ data) (8 + n)
           }
         })"

section \<open>Lookup of sockets\<close>

lemma length_sockaddr_bytes [simp]: "length (sockaddr_bytes a) = 8"
  by (simp add: sockaddr_bytes_def)

lemma bytes32_inj: "bytes32 x = bytes32 y \<Longrightarrow> x = y"
  by (drule arg_cong [where f = "\<lambda>b. u32_at b 0"]) (simp add: bytes32_def u32_at_def)

lemma sockaddr_bytes_inj: "sockaddr_bytes a = sockaddr_bytes b \<longleftrightarrow> a = b"
proof
  assume "sockaddr_bytes a = sockaddr_bytes b"
  then have "bytes32 (inet4_addr a) = bytes32 (inet4_addr b)" "bytes32 (port a) = bytes32 (port b)"
    by (simp_all add: sockaddr_bytes_def)
  then have "inet4_addr a = inet4_addr b" "port a = port b"
    by (metis bytes32_inj)+
  then show "a = b" by simp
qed simp

definition addr_key :: "nstack_sockaddr \<Rightarrow> nat" where
  "addr_key a = be_val (sockaddr_bytes a)"

lemma addr_key_eq: "addr_key a = addr_key b \<longleftrightarrow> a = b"
  using be_val_eq_iff [of "sockaddr_bytes a" "sockaddr_bytes b"] by (simp add: addr_key_def sockaddr_bytes_inj)

lemma udp_by_key: "by_key (addr_key x) (\<lambda>a. addr_key (f a)) (\<lambda>a. udp_socket_cmp x (f a)) A"
  unfolding addr_key_def udp_socket_cmp_def by (rule by_key_memcmp) simp

text \<open>The sockets \<open>A\<close> are bound, and their tree is in order.\<close>

definition udp_bound :: "'a sock_st_scheme \<Rightarrow> nat set \<Rightarrow> bool" where
  "udp_bound s A \<longleftrightarrow> rbi.keyed (\<lambda>a. addr_key (sock_addr_of s a)) (udp_sock_tree_head s) A"

lemma find_udp_socket_hit:
  assumes "udp_bound s A" and "a \<in> A" and "sock_addr_of s a = addr"
  shows "find_udp_socket s addr = Some (Some a)"
  unfolding find_udp_socket_def
  by (rule rbi.find_hit [OF assms(1) [unfolded udp_bound_def] udp_by_key assms(2)]) (simp add: assms(3))

lemma find_udp_socket_miss:
  assumes "udp_bound s A" and "\<And>a. a \<in> A \<Longrightarrow> sock_addr_of s a \<noteq> addr"
  shows "find_udp_socket s addr = Some None"
  unfolding find_udp_socket_def
proof (rule rbi.find_miss [OF assms(1) [unfolded udp_bound_def]])
  fix a
  assume "a \<in> A"
  then show "udp_socket_cmp addr (sock_addr_of s a) \<noteq> 0"
    using udp_by_key [of addr "sock_addr_of s" A] assms(2) addr_key_eq unfolding by_key_def by metis
qed

text \<open>
  C30: \<^verbatim>\<open>nstack_udp_bind\<close>: a port above 49151 is refused with \<^verbatim>\<open>EINVAL\<close>, an address that is in use with
  \<^verbatim>\<open>EADDRINUSE\<close>, both without a change of the sockets; otherwise the socket is bound, the
  tree stays in order, and a lookup of the address finds the socket.
\<close>

theorem udp_bind_correct:
  assumes "udp_bound s A" and "i \<notin> A" and "addr = sock_addr_of s i"
  shows "if sint (port addr) > NSTACK_SOCK_PORT_MAX then nstack_udp_bind s i = Some (s\<lparr>io_errno := EINVAL\<rparr>, -1)
    else if \<exists>a\<in>A. sock_addr_of s a = addr then nstack_udp_bind s i = Some (s\<lparr>io_errno := EADDRINUSE\<rparr>, -1)
    else \<exists>s'. nstack_udp_bind s i = Some (s', 0) \<and> udp_bound s' (A \<union> {i}) \<and> find_udp_socket s' addr = Some (Some i)"
proof -
  have used: "nstack_udp_bind s i = Some (s\<lparr>io_errno := EADDRINUSE\<rparr>, -1)"
    if low: "\<not> sint (port addr) > NSTACK_SOCK_PORT_MAX" and a: "a \<in> A" "sock_addr_of s a = addr" for a
    using find_udp_socket_hit [OF assms(1) a] low by (simp add: nstack_udp_bind_def assms(3))
  have fresh: "\<exists>s'. nstack_udp_bind s i = Some (s', 0) \<and> udp_bound s' (A \<union> {i}) \<and> find_udp_socket s' addr = Some (Some i)"
    if low: "\<not> sint (port addr) > NSTACK_SOCK_PORT_MAX" and new: "\<And>a. a \<in> A \<Longrightarrow> sock_addr_of s a \<noteq> addr"
  proof -
    have "\<exists>h'. RB_INSERT (\<lambda>a. udp_socket_cmp (sock_addr_of s i) (sock_addr_of s a)) (udp_sock_tree_head s) i = Some (h', None) \<and>
        rbi.keyed (\<lambda>a. addr_key (sock_addr_of s a)) h' (A \<union> {i})"
      using new assms(3)
      by (intro rbi.insert_key_new [OF assms(1) [unfolded udp_bound_def] udp_by_key assms(2)]) (simp add: addr_key_eq)
    then obtain h' where h': "RB_INSERT (\<lambda>a. udp_socket_cmp (sock_addr_of s i) (sock_addr_of s a)) (udp_sock_tree_head s) i = Some (h', None)"
      "rbi.keyed (\<lambda>a. addr_key (sock_addr_of s a)) h' (A \<union> {i})"
      by blast
    let ?s = "s\<lparr>udp_sock_tree_head := h'\<rparr>"
    have "udp_bound ?s (A \<union> {i})" using h'(2) by (simp add: udp_bound_def)
    moreover from this have "find_udp_socket ?s addr = Some (Some i)"
      by (rule find_udp_socket_hit) (simp_all add: assms(3))
    moreover have "nstack_udp_bind s i = Some (?s, 0)"
      using find_udp_socket_miss [OF assms(1) new] low h'(1) by (simp add: nstack_udp_bind_def assms(3))
    ultimately show ?thesis by blast
  qed
  have "nstack_udp_bind s i = Some (s\<lparr>io_errno := EINVAL\<rparr>, -1)" if "sint (port addr) > NSTACK_SOCK_PORT_MAX"
    using that by (simp add: nstack_udp_bind_def assms(3))
  then show ?thesis using used fresh by (auto split: if_splits)
qed

section \<open>From the wire to the application\<close>

lemma nstack_sock_dgram_input_ok:
  assumes "dgram_wf (ingress (sockets s i))" and "length (dgram_list (ingress (sockets s i))) < 3"
    and "length data \<le> 4072"
  obtains q where "nstack_sock_dgram_input s i src (data @ tail) (length data) =
      Some (s\<lparr>sockets := (sockets s)(i := (sockets s i)\<lparr>ingress := q\<rparr>),
              sigusr2 := sigusr2 s @ [pid_end (sock_ctrl (sockets s i))]\<rparr>, 0)"
    and "dgram_wf q" and "dgram_list q = dgram_list (ingress (sockets s i)) @ [(src, sock_addr_of s i, data)]"
proof -
  obtain q where q: "dgram_put (ingress (sockets s i)) src (sock_addr_of s i) data = Some q" "dgram_wf q"
    "dgram_list q = dgram_list (ingress (sockets s i)) @ [(src, sock_addr_of s i, data)]"
    by (rule dgram_put_free [OF assms])
  then show thesis
    using that [of q] by (simp add: nstack_sock_dgram_input_def read_at_def Let_def)
qed

lemma length_udp_hdr_bytes [simp]: "length (udp_hdr_bytes u) = 8"
  by (simp add: udp_hdr_bytes_def)

lemma udp_hdr_at_bytes [simp]: "udp_hdr_at (udp_hdr_bytes u @ r) = Some u"
  by (simp add: udp_hdr_at_def udp_hdr_bytes_def bytes16_def)

lemma udp_ntoh_hton: "udp_ntoh (udp_hton u u) (udp_hton u u) = u"
  by (simp add: udp_ntoh_def udp_hton_def)

lemma udp_input_ok:
  assumes "udp_bound s A" and "i \<in> A" and "sock_addr_of s i = \<lparr>inet4_addr = ip_dst h, port = ucast (udp_dport u)\<rparr>"
    and "dgram_wf (ingress (sockets s i))" and "length (dgram_list (ingress (sockets s i))) < 3"
    and "length data \<le> 4072"
  obtains q where "udp_input s h (udp_hdr_bytes (udp_hton u u) @ data @ tail) (8 + length data) =
      Some (s\<lparr>sockets := (sockets s)(i := (sockets s i)\<lparr>ingress := q\<rparr>),
              sigusr2 := sigusr2 s @ [pid_end (sock_ctrl (sockets s i))]\<rparr>, udp_hdr_bytes u @ data @ tail, 0)"
    and "dgram_wf q" and "dgram_list q = dgram_list (ingress (sockets s i)) @
      [(\<lparr>inet4_addr = ip_src h, port = ucast (udp_sport u)\<rparr>, sock_addr_of s i, data)]"
proof -
  obtain q where q: "nstack_sock_dgram_input s i \<lparr>inet4_addr = ip_src h, port = ucast (udp_sport u)\<rparr>
      (data @ tail) (length data) =
      Some (s\<lparr>sockets := (sockets s)(i := (sockets s i)\<lparr>ingress := q\<rparr>),
              sigusr2 := sigusr2 s @ [pid_end (sock_ctrl (sockets s i))]\<rparr>, 0)"
    "dgram_wf q" "dgram_list q = dgram_list (ingress (sockets s i)) @
      [(\<lparr>inet4_addr = ip_src h, port = ucast (udp_sport u)\<rparr>, sock_addr_of s i, data)]"
    by (rule nstack_sock_dgram_input_ok [OF assms(4-6)])
  have "find_udp_socket s \<lparr>inet4_addr = ip_dst h, port = ucast (udp_dport u)\<rparr> = Some (Some i)"
    using assms(1-3) by (rule find_udp_socket_hit)
  then show thesis
    using that [of q] q by (simp add: udp_input_def udp_ntoh_hton Let_def)
qed

text \<open>
  C31: A UDP datagram on its way to an application. The IP packet that \<^verbatim>\<open>ip_input\<close> gets from the
  wire is for the address and port of a bound socket whose ring is empty; then the next
  \<^verbatim>\<open>nstack_recvfrom\<close> of the application returns exactly the data, with the address and the port
  of the sender, and the process registered for the socket has been signalled once.
\<close>

theorem udp_delivers:
  assumes "ip_accepts b s (ip_src h) (ip_dst h)" and "ip_plain h (8 + length data)" and "fst (ip_ntoh net) = h"
    and "ip_proto h = IP_PROTO_UDP" and "find (\<lambda>(proto_id, fn). proto_id = 17) handlers = Some (17, udp_input)"
    and "udp_bound s A" and "i \<in> A" and "sock_addr_of s i = \<lparr>inet4_addr = ip_dst h, port = ucast (udp_dport u)\<rparr>"
    and "dgram_wf (ingress (sockets s i))" and "dgram_list (ingress (sockets s i)) = []"
    and "length data \<le> 4072" and "length data \<le> length buffer"
  shows "\<exists>s' pkt q. ip_input handlers sendto s e (ip_hdr_bytes net @ (udp_hdr_bytes (udp_hton u u) @ data) @ tail)
        (20 + (8 + length data)) = Some (s', pkt, 0) \<and>
    nstack_recvfrom (ingress (sockets s' i)) buffer (length buffer) False =
      Some (q, data @ drop (length data) buffer, \<lparr>inet4_addr = ip_src h, port = ucast (udp_sport u)\<rparr>, int (length data)) \<and>
    sigusr2 s' = sigusr2 s @ [pid_end (sock_ctrl (sockets s i))]"
proof -
  let ?p = "udp_hdr_bytes (udp_hton u u) @ data"
  let ?src = "\<lparr>inet4_addr = ip_src h, port = ucast (udp_sport u)\<rparr>"
  have len: "length ?p = 8 + length data" by simp
  have plain: "ip_plain h (length ?p)" using assms(2) by (simp only: len)
  obtain c t where d: "ip_input handlers sendto s e (ip_hdr_bytes net @ ?p @ tail) (20 + length ?p) =
      ip_dispatch handlers (s\<lparr>arp_cache := c, arp_cache_head := t\<rparr>) h (?p @ tail) (20 + length ?p)"
    by (rule ip_input_dispatch [OF assms(1) plain assms(3)])
  let ?s = "s\<lparr>arp_cache := c, arp_cache_head := t\<rparr>"
  obtain q where q: "udp_input ?s h (?p @ tail) (8 + length data) =
      Some (?s\<lparr>sockets := (sockets s)(i := (sockets s i)\<lparr>ingress := q\<rparr>),
              sigusr2 := sigusr2 s @ [pid_end (sock_ctrl (sockets s i))]\<rparr>, udp_hdr_bytes u @ data @ tail, 0)"
    "dgram_wf q" "dgram_list q = [(?src, sock_addr_of s i, data)]"
    using udp_input_ok [of ?s A i h u data tail] assms(6-11) by (auto simp: udp_bound_def)
  let ?s' = "?s\<lparr>sockets := (sockets s)(i := (sockets s i)\<lparr>ingress := q\<rparr>),
    sigusr2 := sigusr2 s @ [pid_end (sock_ctrl (sockets s i))]\<rparr>"
  have hl: "ip_hdr_hlen h = 20" using plain by (rule ip_plain_hlen)
  have "find (\<lambda>(proto_id, fn). proto_id = ucast (ip_proto h)) handlers = Some (17, udp_input)"
    using assms(4,5) by simp
  then have "ip_input handlers sendto s e (ip_hdr_bytes net @ ?p @ tail) (20 + length ?p) =
      Some (?s', ip_hdr_bytes h @ udp_hdr_bytes u @ data @ tail, 0)"
    unfolding d ip_dispatch_def using hl q(1) assms(11) by (simp add: size_sub_le)
  moreover obtain q' where "nstack_recvfrom q buffer (length buffer) False =
      Some (q', take (length buffer) data @ drop (min (length buffer) (length data)) buffer, ?src,
        int (min (length buffer) (length data)))"
    by (rule nstack_recvfrom_ok [OF q(2,3), of "length buffer" buffer]) simp_all
  ultimately show ?thesis
    unfolding len using assms(12) by (intro exI [of _ ?s'] exI) (auto simp: min_def)
qed

section \<open>The checksum on output\<close>

lemma udp_sum_add_val:
  assumes "unat acc < 2147483648"
  shows "unat (udp_sum_add acc w) mod 65535 = (unat acc + unat w) mod 65535"
    and "unat (udp_sum_add acc w) < 2147483648"
proof -
  have w: "unat w < 65536" by simp
  have add: "unat (acc + ucast w) = unat acc + unat w" using assms w by (simp add: unat_word_ariths del: unat_u16_less)
  have bit: "(x AND 0x80000000 \<noteq> 0) \<longleftrightarrow> 2147483648 \<le> unat x" for x :: u32
  proof -
    have "x AND 0x80000000 \<noteq> 0 \<longleftrightarrow> bit x 31" using and_exp_eq_0_iff_not_bit [of x 31] by simp
    also have "\<dots> \<longleftrightarrow> bit (unat x) 31" by (simp add: bit_unsigned_iff)
    also have "\<dots> \<longleftrightarrow> odd (unat x div 2147483648)" by (simp add: bit_iff_odd)
    also have "\<dots> \<longleftrightarrow> 2147483648 \<le> unat x"
    proof -
      have "unat x div 2147483648 < 2" using unat_u32_less [of x] by (simp add: less_mult_imp_div_less del: unat_u32_less)
      then have "unat x div 2147483648 = 0 \<or> unat x div 2147483648 = 1" by linarith
      moreover have "unat x div 2147483648 = 0 \<longleftrightarrow> unat x < 2147483648" by (simp add: div_eq_0_iff)
      ultimately show ?thesis by (metis even_zero not_less odd_one)
    qed
    finally show ?thesis .
  qed
  let ?t = "unat acc + unat w"
  have fold: "unat (udp_sum_add acc w) = (if 2147483648 \<le> ?t then ?t mod 65536 + ?t div 65536 else ?t)"
    by (simp add: udp_sum_add_def Let_def bit unat_fold_carry add)
  have t: "?t = 65536 * (?t div 65536) + ?t mod 65536" by simp
  have "(?t mod 65536 + ?t div 65536) mod 65535 = ?t mod 65535"
  proof -
    have "?t = 65535 * (?t div 65536) + (?t mod 65536 + ?t div 65536)" using t by linarith
    then show ?thesis by (metis mod_mult_self4)
  qed
  with fold show "unat (udp_sum_add acc w) mod 65535 = ?t mod 65535" by simp
  have "?t div 65536 < 65536" using assms w by (simp add: less_mult_imp_div_less del: unat_u16_less)
  moreover have "?t mod 65536 < 65536" by simp
  ultimately show "unat (udp_sum_add acc w) < 2147483648" using fold by (auto split: if_splits)
qed

lemma udp_sum_words_val:
  assumes "unat acc < 2147483648"
  shows "unat (udp_sum_words data acc) mod 65535 = (unat acc + word_sum data) mod 65535 \<and>
    unat (udp_sum_words data acc) < 2147483648 + 256"
  using assms
proof (induction data acc rule: udp_sum_words.induct)
  case (1 a b xs acc)
  have "unat (udp_sum_add acc (le16 a b)) < 2147483648" using 1(2) by (rule udp_sum_add_val(2))
  from 1(1) [OF this] udp_sum_add_val(1) [OF 1(2), of "le16 a b"] show ?case
    by (simp add: word_sum_def) (metis (no_types, lifting) group_cancel.add1 mod_add_left_eq)
next
  case (2 a acc)
  have "unat a < 256" by simp
  then have "unat (acc + ucast a) = unat acc + unat a" using 2 by (simp add: unat_word_ariths del: unat_u8_less)
  moreover have "unat (le16 a 0) = unat a" by (simp add: unat_le16)
  ultimately show ?case using 2 \<open>unat a < 256\<close> by (simp add: word_sum_def del: unat_u8_less)
next
  case (3 acc)
  then show ?case by (simp add: word_sum_def)
qed

lemma udp_fold_carries_val:
  "unat (udp_fold_carries acc) = (if acc = 0 then 0 else ones (unat acc))"
proof (induction acc rule: udp_fold_carries.induct)
  case (1 acc)
  show ?case
  proof (cases "drop_bit 16 acc = 0")
    case True
    then have "unat acc div 65536 = 0" by (metis unat_drop16 unat_eq_0)
    then have "unat acc \<le> 65535" by (simp add: div_eq_0_iff)
    then show ?thesis
      using True by (subst udp_fold_carries.simps) (auto simp: ones_id unat_gt_0)
  next
    case False
    let ?f = "(acc AND 0xffff) + drop_bit 16 acc"
    have h: "unat acc div 65536 \<noteq> 0" using False by (metis unat_drop16 unat_eq_0)
    then have "unat ?f \<noteq> 0" by (simp add: unat_fold_carry)
    then have nz: "?f \<noteq> 0" "acc \<noteq> 0" using False by auto
    have "unat acc = 65536 * (unat acc div 65536) + unat acc mod 65536" by simp
    then have "unat acc = 65535 * (unat acc div 65536) + unat ?f" unfolding unat_fold_carry by linarith
    then have "unat ?f mod 65535 = unat acc mod 65535" by (metis mod_mult_self4)
    then have "ones (unat ?f) = ones (unat acc)" by (rule ones_cong)
    then show ?thesis
      using 1 [OF False] False nz by (subst udp_fold_carries.simps) simp
  qed
qed

text \<open>The sum of the pseudo header, the addresses in host order.\<close>

definition udp_pseudo :: "in_addr_t \<Rightarrow> in_addr_t \<Rightarrow> nat \<Rightarrow> nat" where
  "udp_pseudo src dst len = unat (ucast src :: u16) + unat (ucast (drop_bit 16 src) :: u16) +
     unat (ucast dst :: u16) + unat (ucast (drop_bit 16 dst) :: u16) + 0x1100 + unat (htons (of_nat len))"

lemma htons_17: "unat (htons 17) = 0x1100"
  by (simp add: htons_def byte_of16_def unat_le16)

lemma udp_checksum_val:
  assumes "len \<le> length buff"
  shows "\<exists>c. udp_checksum buff len src dst = Some c \<and>
    unat c = 65535 - ones (word_sum (take len buff) + udp_pseudo src dst len)"
proof -
  let ?d = "take len buff"
  let ?w = "\<lambda>x :: u16. ucast x :: u32"
  define p1 p2 p3 p4 p5 p6 where p: "p1 = (ucast src :: u16)" "p2 = (ucast (drop_bit 16 src) :: u16)"
    "p3 = (ucast dst :: u16)" "p4 = (ucast (drop_bit 16 dst) :: u16)" "p5 = htons 17" "p6 = htons (of_nat len)"
  define acc where "acc = udp_sum_words ?d 0"
  have acc: "unat acc mod 65535 = word_sum ?d mod 65535" "unat acc < 2147483904"
    using udp_sum_words_val [of 0 ?d] by (simp_all add: acc_def)
  have lt: "unat x \<le> 65535" for x :: u16 using unat_u16_less [of x] by linarith
  define total where "total = acc + ?w p1 + ?w p2 + ?w p3 + ?w p4 + ?w p5 + ?w p6"
  have "unat total = unat acc + unat p1 + unat p2 + unat p3 + unat p4 + unat p5 + unat p6"
    using acc(2) lt [of p1] lt [of p2] lt [of p3] lt [of p4] lt [of p5] lt [of p6]
    by (simp add: total_def unat_word_ariths del: unat_u16_less)
  then have tot: "unat total = unat acc + udp_pseudo src dst len" by (simp add: udp_pseudo_def p htons_17)
  then have "total \<noteq> 0" by (auto simp: udp_pseudo_def)
  have "ones (unat total) = ones (word_sum ?d + udp_pseudo src dst len)"
    unfolding tot by (rule ones_cong) (metis acc(1) mod_add_left_eq)
  then have v: "unat (udp_fold_carries total) = ones (word_sum ?d + udp_pseudo src dst len)"
    using \<open>total \<noteq> 0\<close> by (simp add: udp_fold_carries_val)
  then have "unat (ucast (NOT (udp_fold_carries total)) :: u16) = 65535 - ones (word_sum ?d + udp_pseudo src dst len)"
    using ones_bounds(2) by (simp add: unat_not_u16)
  moreover have "udp_checksum buff len src dst = Some (ucast (NOT (udp_fold_carries total)))"
    using assms by (simp add: udp_checksum_def read_at_def total_def p acc_def)
  ultimately show ?thesis by blast
qed

text \<open>
  C32: \<^verbatim>\<open>nstack_udp_send\<close> takes the checksum of the header and of the still uninitialised buffer, and
  goes on only if that checksum is zero. So whether a datagram is sent depends on the bytes
  that happen to be on the stack, not on its data; unless their sum with the header and the
  pseudo header is a multiple of 65535, the call fails with -1 and nothing is sent.
\<close>

theorem udp_send_checks_junk:
  assumes "n = unat (buf_size d)" and "0 < n" and "n < UDP_MAXLEN" and "n \<le> length junk" and "n \<le> length dbuf"
  shows "nstack_udp_send sendto junk s i d dbuf =
    (if 65535 dvd word_sum (udp_hdr_bytes (udp_out s i d) @ take n junk) +
          udp_pseudo (inet4_addr (srcaddr d)) (inet4_addr (dstaddr d)) (8 + n)
     then ip_send sendto s (inet4_addr (dstaddr d)) IP_PROTO_UDP
       (udp_hdr_bytes (udp_hton (udp_out s i d) (udp_out s i d)) @ take n dbuf) (8 + n)
     else Some (s, -1))"
proof -
  let ?b = "udp_hdr_bytes (udp_out s i d) @ take n junk"
  have len: "unat (udp_len (udp_out s i d)) = 8 + n"
    using assms(1,3) by (simp add: udp_out_def unat_of_nat del: of_nat_add)
  obtain c where c: "udp_checksum ?b (8 + n) (inet4_addr (srcaddr d)) (inet4_addr (dstaddr d)) = Some c"
    "unat c = 65535 - ones (word_sum (take (8 + n) ?b) + udp_pseudo (inet4_addr (srcaddr d)) (inet4_addr (dstaddr d)) (8 + n))"
    using udp_checksum_val [of "8 + n" ?b] assms(4) by auto
  have take: "take (8 + n) ?b = ?b" using assms(4) by simp
  let ?T = "word_sum ?b + udp_pseudo (inet4_addr (srcaddr d)) (inet4_addr (dstaddr d)) (8 + n)"
  have "c = 0 \<longleftrightarrow> unat c = 0" by (simp add: unat_eq_0)
  also have "\<dots> \<longleftrightarrow> ones ?T = 65535" using c(2) ones_bounds(2) [of ?T] unfolding take by linarith
  also have "\<dots> \<longleftrightarrow> 65535 dvd ?T"
    by (auto simp: ones_def dvd_eq_mod_eq_0)
  finally have z: "c = 0 \<longleftrightarrow> 65535 dvd ?T" .
  have "nstack_udp_send sendto junk s i d dbuf = (if c \<noteq> 0 then Some (s, -1)
     else ip_send sendto s (inet4_addr (dstaddr d)) IP_PROTO_UDP
       (udp_hdr_bytes (udp_hton (udp_out s i d) (udp_out s i d)) @ take n dbuf) (8 + n))"
    using assms(2,3,5) c(1) len
    by (simp add: nstack_udp_send_def assms(1) [symmetric] Let_def read_at_def)
  then show ?thesis using z by simp
qed

section \<open>Witnesses\<close>

definition demo_addr :: nstack_sockaddr where
  "demo_addr = \<lparr>inet4_addr = 0x0a000002, port = 10\<rparr>"

definition demo_sock :: nstack_sock where
  "demo_sock = \<lparr>sock_info = \<lparr>sock_dom = XF_INET4, sock_type = XSOCK_DGRAM, sock_proto = XIP_PROTO_UDP,
       sock_addr = demo_addr\<rparr>,
     sock_ctrl = \<lparr>pid_inetd = 1, pid_end = 77\<rparr>, ingress = demo_dring 0, egress = demo_dring 0\<rparr>"

definition demo_socks :: "rb_head \<Rightarrow> frag_st \<Rightarrow> sock_st" where
  "demo_socks h s = frag_st.extend s
     \<lparr>sockets = (\<lambda>_. demo_sock), udp_sock_tree_head = h,
      tcp_sock_tree_head = \<lparr>rbh_root = None, rb_links = (\<lambda>_. rb_zero)\<rparr>, sigusr2 = []\<rparr>"

lemma demo_socks_fields [simp]:
  "sockets (demo_socks h s) = (\<lambda>_. demo_sock)" "sigusr2 (demo_socks h s) = []"
  "ip_accepts b (demo_socks h s) src dst = ip_accepts b s src dst" "io_tx (demo_socks h s) = io_tx s"
  by (simp_all add: demo_socks_def frag_st.defs ip_accepts_def route_table_def route_trees_def route_free_def
      arp_boot_def arp_index_def)

lemma demo_socks_bound: "udp_bound (demo_socks (rb_single 0) s) {0}"
  "udp_bound (demo_socks \<lparr>rbh_root = None, rb_links = (\<lambda>_. rb_zero)\<rparr> s) {}"
  using keyed_single keyed_empty [of _ "\<lparr>rbh_root = None, rb_links = (\<lambda>_. rb_zero)\<rparr>"]
  by (simp_all add: udp_bound_def demo_socks_def frag_st.defs)

theorem udp_bind_correct_witness:
  "\<exists>s s' :: sock_st. nstack_udp_bind s 0 = Some (s', 0) \<and> find_udp_socket s' demo_addr = Some (Some 0)"
proof -
  let ?s = "demo_socks \<lparr>rbh_root = None, rb_links = (\<lambda>_. rb_zero)\<rparr> (demo_frag (demo_arp_stack demo_route_st))"
  have "\<exists>s'. nstack_udp_bind ?s 0 = Some (s', 0) \<and> udp_bound s' ({} \<union> {0}) \<and> find_udp_socket s' demo_addr = Some (Some 0)"
    using udp_bind_correct [OF demo_socks_bound(2), of 0 demo_addr] by (simp add: demo_sock_def demo_addr_def)
  then show ?thesis by blast
qed

theorem udp_delivers_witness:
  "\<exists>(s :: sock_st) s' pkt q. ip_input [(17, udp_input)] (\<lambda>_ _ f. (int (length f), 0)) s
      \<lparr>h_dst = [2, 0, 0, 0, 0, 1], h_src = [2, 0, 0, 0, 0, 2], h_proto = 0x0800\<rparr>
      (ip_hdr_bytes (ip_hton_fields (demo_hdr 17 11)) @
       (udp_hdr_bytes (udp_hton \<lparr>udp_sport = 7, udp_dport = 10, udp_len = 11, udp_csum = 0\<rparr>
          \<lparr>udp_sport = 7, udp_dport = 10, udp_len = 11, udp_csum = 0\<rparr>) @ [1, 2, 3]) @ []) 31 = Some (s', pkt, 0) \<and>
    nstack_recvfrom (ingress (sockets s' 0)) (replicate 5 0) 5 False =
      Some (q, [1, 2, 3, 0, 0], \<lparr>inet4_addr = 0x0a000001, port = 7\<rparr>, 3) \<and> sigusr2 s' = [77]"
proof -
  obtain f :: frag_st where f: "ip_accepts 0 f 0x0a000001 0x0a000002" using demo_accepts by metis
  let ?s = "demo_socks (rb_single 0) f" and ?h = "demo_hdr 17 11"
  let ?u = "\<lparr>udp_sport = 7, udp_dport = 10, udp_len = 11, udp_csum = 0\<rparr>"
  have h: "ip_src ?h = 0x0a000001" "ip_dst ?h = 0x0a000002" "ip_proto ?h = 17" by (simp_all add: demo_hdr_def)
  have "\<exists>s' pkt q. ip_input [(17, udp_input)] (\<lambda>_ _ f. (int (length f), 0)) ?s
      \<lparr>h_dst = [2, 0, 0, 0, 0, 1], h_src = [2, 0, 0, 0, 0, 2], h_proto = 0x0800\<rparr>
      (ip_hdr_bytes (ip_hton_fields ?h) @ (udp_hdr_bytes (udp_hton ?u ?u) @ [1, 2, 3]) @ [])
      (20 + (8 + length [1, 2, 3 :: u8])) = Some (s', pkt, 0) \<and>
    nstack_recvfrom (ingress (sockets s' 0)) (replicate 5 0) (length (replicate 5 (0 :: u8))) False =
      Some (q, [1, 2, 3] @ drop (length [1, 2, 3 :: u8]) (replicate 5 0),
        \<lparr>inet4_addr = ip_src ?h, port = ucast (udp_sport ?u)\<rparr>, int (length [1, 2, 3 :: u8])) \<and>
    sigusr2 s' = sigusr2 ?s @ [pid_end (sock_ctrl (sockets ?s 0))]"
    by (rule udp_delivers [where b = 0 and A = "{0}"])
      (use f demo_hdr_plain [of 11 17] demo_hdr_ntoh demo_socks_bound(1) demo_dring_wf in
        \<open>simp_all add: h demo_sock_def demo_addr_def\<close>)
  moreover have "20 + (8 + length [1, 2, 3 :: u8]) = 31" "length (replicate 5 (0 :: u8)) = 5" "int (length [1, 2, 3 :: u8]) = 3"
    "[1, 2, 3] @ drop (length [1, 2, 3 :: u8]) (replicate 5 (0 :: u8)) = [1, 2, 3, 0, 0]"
    by (simp_all add: eval_nat_numeral)
  moreover have "ucast (udp_sport ?u) = (7 :: u32)" "sigusr2 ?s @ [pid_end (sock_ctrl (sockets ?s 0))] = [77]"
    by (simp_all add: demo_sock_def)
  ultimately show ?thesis unfolding h by (simp only:) (rule exI)
qed

definition demo_out :: nstack_dgram where
  "demo_out = \<lparr>srcaddr = \<lparr>inet4_addr = 0, port = 0\<rparr>, dstaddr = \<lparr>inet4_addr = 0x0a000001, port = 7\<rparr>, buf_size = 2\<rparr>"

theorem udp_send_checks_junk_witness:
  "\<exists>s :: sock_st. nstack_udp_send (\<lambda>_ _ f. (int (length f), 0)) [0, 0] s 0 demo_out [1, 2] = Some (s, -1)"
proof -
  let ?s = "demo_socks (rb_single 0) (demo_frag (demo_arp_stack demo_route_st))"
  have w: "word_sum (udp_hdr_bytes (udp_out ?s 0 demo_out) @ [0, 0]) = 27"
    by (simp add: word_sum_def udp_hdr_bytes_def udp_out_def demo_out_def demo_sock_def demo_addr_def
        bytes16_def byte_of16_def le16_def)
  have p: "udp_pseudo 0 0x0a000001 10 = 0x1100 + 0x0a00 + 1 + 0x0a00"
    by (simp add: udp_pseudo_def htons_def byte_of16_def le16_def drop_bit_eq_div)
  show ?thesis
    using udp_send_checks_junk [of 2 demo_out "[0, 0]" "[1, 2]" "\<lambda>_ _ f. (int (length f), 0)" ?s 0] w p
    by (auto simp: demo_out_def)
qed

end
