(* ===== verification/Tcp_Conn.thy ===== *)
theory Tcp_Conn
  imports Tcp_Header Udp Tailq
begin

text \<open>
  The connections of \<^verbatim>\<open>src/tcp.c\<close>: control blocks, the tree that finds them, the lists of
  segments that wait to be sent or acknowledged, and the round trip estimate.
  Control blocks and segments are allocated at fresh addresses (\<^verbatim>\<open>calloc\<close> is taken not to
  fail); access to one that is not allocated, or no longer, gives \<open>None\<close>, and so does a lock
  that is taken and never released. The lists of the connection at address \<open>c\<close> have their
  heads at \<open>3 * c\<close>, \<open>3 * c + 1\<close> and \<open>3 * c + 2\<close>. The values read from \<^verbatim>\<open>/dev/urandom\<close> are
  part of the state. Each function runs as a whole: the threads of the daemon interleave
  between functions only.
\<close>

datatype tcp_state = TCP_CLOSED | TCP_LISTEN | TCP_SYN_RCVD | TCP_SYN_SENT | TCP_ESTABLISHED |
  TCP_FIN_WAIT_1 | TCP_FIN_WAIT_2 | TCP_CLOSE_WAIT | TCP_CLOSING | TCP_LAST_ACK | TCP_TIME_WAIT

text \<open>The order of the enumeration.\<close>

primrec tcp_state_num :: "tcp_state \<Rightarrow> nat" where
  "tcp_state_num TCP_CLOSED = 0"
| "tcp_state_num TCP_LISTEN = 1"
| "tcp_state_num TCP_SYN_RCVD = 2"
| "tcp_state_num TCP_SYN_SENT = 3"
| "tcp_state_num TCP_ESTABLISHED = 4"
| "tcp_state_num TCP_FIN_WAIT_1 = 5"
| "tcp_state_num TCP_FIN_WAIT_2 = 6"
| "tcp_state_num TCP_CLOSE_WAIT = 7"
| "tcp_state_num TCP_CLOSING = 8"
| "tcp_state_num TCP_LAST_ACK = 9"
| "tcp_state_num TCP_TIME_WAIT = 10"

lemma tcp_state_num_inj: "tcp_state_num a = tcp_state_num b \<Longrightarrow> a = b"
  by (cases a; cases b) simp_all

instantiation tcp_state :: linorder
begin

definition less_eq_tcp_state :: "tcp_state \<Rightarrow> tcp_state \<Rightarrow> bool" where
  "less_eq_tcp_state a b \<longleftrightarrow> tcp_state_num a \<le> tcp_state_num b"

definition less_tcp_state :: "tcp_state \<Rightarrow> tcp_state \<Rightarrow> bool" where
  "less_tcp_state a b \<longleftrightarrow> tcp_state_num a < tcp_state_num b"

instance
  by standard (auto simp: less_eq_tcp_state_def less_tcp_state_def intro: tcp_state_num_inj)

end

record tcp_segment =
  seg_size :: nat
  seg_data :: bytes
  seg_header :: tcp_hdr

record tcp_conn_tcb =
  conn_local :: nstack_sockaddr
  conn_remote :: nstack_sockaddr
  conn_state :: tcp_state
  conn_flags :: u32
  mss :: size_t
  keepalive :: u32
  keepalive_cnt :: u32
  rtt_est :: int
  rtt_var :: int
  rtt :: int
  rtt_cur_seq :: int
  retran_timeout :: u32
  retran_count :: u32
  fastre_last_ack :: u32
  fastre_dup_acks :: u32
  recv_next :: u32
  recv_wnd :: u32
  send_next :: u32
  send_una :: u32
  send_max :: u32
  send_wnd :: u32
  acked :: u32
  timer :: "nat \<Rightarrow> int"
  mutex :: bool

record tcp_conn_attr =
  attr_local :: nstack_sockaddr
  attr_remote :: nstack_sockaddr

record tcp_st = sock_st +
  tcp_now :: u32
  tcp_conns :: "nat \<Rightarrow> tcp_conn_tcb"
  tcp_live :: "nat \<Rightarrow> bool"
  tcp_conn_brk :: nat
  tcp_conn_map :: rb_head
  tcp_segs :: "nat \<Rightarrow> tcp_segment option"
  tcp_seg_brk :: nat
  tcp_links :: tailq
  urandom :: "nat \<Rightarrow> u32"

abbreviation (input) TCP_MSS :: nat where "TCP_MSS \<equiv> 1460"
abbreviation (input) TCP_T_REXMT :: nat where "TCP_T_REXMT \<equiv> 0"
abbreviation (input) TCP_T_PERSIST :: nat where "TCP_T_PERSIST \<equiv> 1"
abbreviation (input) TCP_T_KEEP :: nat where "TCP_T_KEEP \<equiv> 2"
abbreviation (input) TCP_T_2MSL :: nat where "TCP_T_2MSL \<equiv> 3"
abbreviation (input) TCP_TV_KEEP_INIT :: int where "TCP_TV_KEEP_INIT \<equiv> 150"

abbreviation (input) unsent_list :: "nat \<Rightarrow> nat" where "unsent_list c \<equiv> 3 * c"
abbreviation (input) unacked_list :: "nat \<Rightarrow> nat" where "unacked_list c \<equiv> 3 * c + 1"
abbreviation (input) oos_segments_list :: "nat \<Rightarrow> nat" where "oos_segments_list c \<equiv> 3 * c + 2"

section \<open>Access\<close>

definition conn_at :: "'a tcp_st_scheme \<Rightarrow> nat \<Rightarrow> tcp_conn_tcb option" where
  "conn_at s c = (if tcp_live s c then Some (tcp_conns s c) else None)"

definition conn_upd :: "'a tcp_st_scheme \<Rightarrow> nat \<Rightarrow> (tcp_conn_tcb \<Rightarrow> tcp_conn_tcb) \<Rightarrow> 'a tcp_st_scheme option" where
  "conn_upd s c f = do {
     t \<leftarrow> conn_at s c;
     Some (s\<lparr>tcp_conns := (tcp_conns s)(c := f t)\<rparr>)
   }"

definition tcp_free :: "'a tcp_st_scheme \<Rightarrow> nat \<Rightarrow> 'a tcp_st_scheme option" where
  "tcp_free s c = do {
     _ \<leftarrow> conn_at s c;
     Some (s\<lparr>tcp_live := (tcp_live s)(c := False)\<rparr>)
   }"

definition tcp_lock :: "'a tcp_st_scheme \<Rightarrow> nat \<Rightarrow> 'a tcp_st_scheme option" where
  "tcp_lock s c = do {
     t \<leftarrow> conn_at s c;
     if mutex t then None else conn_upd s c (mutex_update (\<lambda>_. True))
   }"

definition tcp_unlock :: "'a tcp_st_scheme \<Rightarrow> nat \<Rightarrow> 'a tcp_st_scheme option" where
  "tcp_unlock s c = conn_upd s c (mutex_update (\<lambda>_. False))"

definition read_urandom :: "'a tcp_st_scheme \<Rightarrow> 'a tcp_st_scheme \<times> u32" where
  "read_urandom s = (s\<lparr>urandom := \<lambda>n. urandom s (Suc n)\<rparr>, urandom s 0)"

section \<open>Connections\<close>

definition zero_tcb :: tcp_conn_tcb where
  "zero_tcb = \<lparr>conn_local = \<lparr>inet4_addr = 0, port = 0\<rparr>, conn_remote = \<lparr>inet4_addr = 0, port = 0\<rparr>,
     conn_state = TCP_CLOSED, conn_flags = 0, mss = 0, keepalive = 0, keepalive_cnt = 0, rtt_est = 0,
     rtt_var = 0, rtt = 0, rtt_cur_seq = 0, retran_timeout = 0, retran_count = 0, fastre_last_ack = 0,
     fastre_dup_acks = 0, recv_next = 0, recv_wnd = 0, send_next = 0, send_una = 0, send_max = 0,
     send_wnd = 0, acked = 0, timer = (\<lambda>_. 0), mutex = False\<rparr>"

text \<open>The sum of two results of \<^verbatim>\<open>memcmp\<close>, of which C fixes the sign only.\<close>

definition tcp_conn_cmp :: "tcp_conn_attr \<Rightarrow> tcp_conn_attr \<Rightarrow> int" where
  "tcp_conn_cmp a b = memcmp (sockaddr_bytes (attr_local a)) (sockaddr_bytes (attr_local b)) +
     memcmp (sockaddr_bytes (attr_remote a)) (sockaddr_bytes (attr_remote b))"

definition conn_attr :: "tcp_conn_tcb \<Rightarrow> tcp_conn_attr" where
  "conn_attr t = \<lparr>attr_local = conn_local t, attr_remote = conn_remote t\<rparr>"

definition tcp_find_connection :: "'a tcp_st_scheme \<Rightarrow> tcp_conn_attr \<Rightarrow> nat option option" where
  "tcp_find_connection s attr =
     RB_FIND (\<lambda>a. tcp_conn_cmp attr (conn_attr (tcp_conns s a))) (tcp_conn_map s)"

definition zero_lists :: "tailq \<Rightarrow> nat \<Rightarrow> tailq" where
  "zero_lists l c = l
     \<lparr>tqh_first := (tqh_first l)(unsent_list c := None, unacked_list c := None, oos_segments_list c := None),
      tqh_last := (tqh_last l)(unsent_list c := None, unacked_list c := None, oos_segments_list c := None)\<rparr>"

definition tcp_new_connection :: "'a tcp_st_scheme \<Rightarrow> tcp_conn_attr \<Rightarrow> ('a tcp_st_scheme \<times> nat) option" where
  "tcp_new_connection s attr = do {
     let c = tcp_conn_brk s;
     let s = s\<lparr>tcp_conn_brk := Suc c, tcp_live := (tcp_live s)(c := True),
               tcp_conns := (tcp_conns s)(c := zero_tcb\<lparr>conn_local := attr_local attr, conn_remote := attr_remote attr\<rparr>),
               tcp_links := zero_lists (tcp_links s) c\<rparr>;
     (head, _) \<leftarrow> RB_INSERT (\<lambda>a. tcp_conn_cmp attr (conn_attr (tcp_conns s a))) (tcp_conn_map s) c;
     Some (s\<lparr>tcp_conn_map := head\<rparr>, c)
   }"

definition tcp_remove_connection :: "'a tcp_st_scheme \<Rightarrow> nat \<Rightarrow> 'a tcp_st_scheme option" where
  "tcp_remove_connection s c = do {
     head \<leftarrow> RB_REMOVE (tcp_conn_map s) (Some c);
     tcp_free (s\<lparr>tcp_conn_map := head\<rparr>) c
   }"

definition tcp_connection_init :: "'a tcp_st_scheme \<Rightarrow> nat \<Rightarrow> ('a tcp_st_scheme \<times> int) option" where
  "tcp_connection_init s c = do {
     let (s, r) = read_urandom s;
     s \<leftarrow> conn_upd s c (\<lambda>t. t\<lparr>conn_state := TCP_SYN_SENT, mss := of_nat TCP_MSS, send_next := r,
       rtt_est := 0, rtt_var := 24, retran_timeout := 12, send_wnd := 502, send_una := r, send_max := r\<rparr>);
     let l = tcp_links s;
     let l = TAILQ_INIT l (unsent_list c);
     let l = TAILQ_INIT l (unacked_list c);
     let l = TAILQ_INIT l (oos_segments_list c);
     Some (s\<lparr>tcp_links := l\<rparr>, 0)
   }"

section \<open>Round trip estimate\<close>

text \<open>\<^verbatim>\<open>>>\<close> on an \<^verbatim>\<open>int\<close> rounds down.\<close>

definition TCP_REXMTVAL :: "tcp_conn_tcb \<Rightarrow> int" where
  "TCP_REXMTVAL t = rtt_est t div 8 + rtt_var t"

definition tcp_rto_update :: "tcp_conn_tcb \<Rightarrow> int \<Rightarrow> tcp_conn_tcb" where
  "tcp_rto_update t r =
     (let t = (if rtt_est t \<noteq> 0 then
           let delta = (r - 1) - rtt_est t div 8;
               est = rtt_est t + delta;
               t = t\<lparr>rtt_est := (if est \<le> 0 then 1 else est)\<rparr>;
               delta = \<bar>delta\<bar> - rtt_var t div 4;
               var = rtt_var t + delta
           in t\<lparr>rtt_var := (if var \<le> 0 then 1 else var)\<rparr>
         else t\<lparr>rtt_est := r * 8, rtt_var := r * 2\<rparr>)
      in t\<lparr>retran_timeout := of_int (TCP_REXMTVAL t), rtt := 0\<rparr>)"

section \<open>Segments\<close>

text \<open>The header of a segment of data; the fields left out of the initialiser are zero.\<close>

definition tcp_data_hdr :: "nstack_sockaddr \<Rightarrow> nstack_sockaddr \<Rightarrow> tcp_hdr" where
  "tcp_data_hdr src dst =
     \<lparr>tcp_sport = ucast (port src), tcp_dport = ucast (port dst), tcp_seqno = 0, tcp_ack_num = 0,
      tcp_flags = 0x5018, tcp_win_size = 502, tcp_csum = 0, tcp_urg_ptr = 0\<rparr>"

definition tcp_new_segment :: "'a tcp_st_scheme \<Rightarrow> tcp_hdr \<Rightarrow> bytes \<Rightarrow> 'a tcp_st_scheme \<times> nat" where
  "tcp_new_segment s tcp data =
     (s\<lparr>tcp_seg_brk := Suc (tcp_seg_brk s),
        tcp_segs := (tcp_segs s)(tcp_seg_brk s \<mapsto> \<lparr>seg_size = length data, seg_data = data, seg_header = tcp\<rparr>)\<rparr>,
      tcp_seg_brk s)"

text \<open>A segment into the list of those not yet sent, under the lock.\<close>

definition tcp_queue_segment :: "'a tcp_st_scheme \<Rightarrow> nat \<Rightarrow> nat \<Rightarrow> 'a tcp_st_scheme option" where
  "tcp_queue_segment s c seg = do {
     s \<leftarrow> tcp_lock s c;
     l \<leftarrow> TAILQ_INSERT_TAIL (tcp_links s) (unsent_list c) seg;
     tcp_unlock (s\<lparr>tcp_links := l\<rparr>) c
   }"

text \<open>The bytes that \<^verbatim>\<open>tcp_send_segments\<close> builds from a segment. The header of a segment has
  no options, so \<open>hdr_size\<close> bytes are the struct.\<close>

definition tcp_segment_out :: "tcp_conn_tcb \<Rightarrow> tcp_segment \<Rightarrow> (bytes \<times> nat) option" where
  "tcp_segment_out t g = do {
     let hdr_size = size_of_int (tcp_hdr_size (seg_header g));
     hdr \<leftarrow> read_at (tcp_hdr_bytes (seg_header g) @ seg_data g) 0 hdr_size;
     data \<leftarrow> read_at (seg_data g) 0 (seg_size g);
     tcp \<leftarrow> tcp_hdr_at hdr;
     let tcp = tcp\<lparr>tcp_seqno := send_next t, tcp_ack_num := recv_next t\<rparr>;
     (net, rest) \<leftarrow> tcp_hton (conn_local t) (conn_remote t) tcp (drop 20 hdr @ data) (hdr_size + seg_size g);
     Some (tcp_hdr_bytes net @ rest, hdr_size + seg_size g)
   }"

partial_function (option) tcp_send_loop ::
  "os_sendto \<Rightarrow> 'a tcp_st_scheme \<Rightarrow> nat \<Rightarrow> nat option \<Rightarrow> ('a tcp_st_scheme \<times> int) option" where
  "tcp_send_loop sendto s c seg =
     (case seg of
        None \<Rightarrow> do {
          s \<leftarrow> tcp_unlock s c;
          Some (s, 0)
        }
      | Some seg \<Rightarrow> do {
          let seg_tmp = TAILQ_NEXT (tcp_links s) seg;
          l \<leftarrow> TAILQ_REMOVE (tcp_links s) (unsent_list c) seg;
          let s = s\<lparr>tcp_links := l\<rparr>;
          g \<leftarrow> tcp_segs s seg;
          t \<leftarrow> conn_at s c;
          out \<leftarrow> tcp_segment_out t g;
          s \<leftarrow> conn_upd s c (\<lambda>t. t\<lparr>send_next := send_next t + of_nat (seg_size g),
                                  send_max := send_next t + of_nat (seg_size g)\<rparr>);
          r \<leftarrow> ip_send sendto s (inet4_addr (conn_remote t)) IP_PROTO_TCP (fst out) (snd out);
          if snd r < 0 then Some (fst r, -1)
          else do {
            l \<leftarrow> TAILQ_INSERT_TAIL (tcp_links (fst r)) (unacked_list c) seg;
            tcp_send_loop sendto ((fst r)\<lparr>tcp_links := l\<rparr>) c seg_tmp
          }
        })"

definition tcp_send_segments :: "os_sendto \<Rightarrow> 'a tcp_st_scheme \<Rightarrow> nat \<Rightarrow> ('a tcp_st_scheme \<times> int) option" where
  "tcp_send_segments sendto s c = do {
     s \<leftarrow> tcp_lock s c;
     tcp_send_loop sendto s c (TAILQ_FIRST (tcp_links s) (unsent_list c))
   }"

partial_function (option) tcp_ack_loop :: "'a tcp_st_scheme \<Rightarrow> nat \<Rightarrow> nat option \<Rightarrow> 'a tcp_st_scheme option" where
  "tcp_ack_loop s c seg =
     (case seg of
        None \<Rightarrow> Some s
      | Some seg \<Rightarrow> do {
          let seg_tmp = TAILQ_NEXT (tcp_links s) seg;
          g \<leftarrow> tcp_segs s seg;
          t \<leftarrow> conn_at s c;
          if tcp_seqno (seg_header g) < send_una t then do {
            l \<leftarrow> TAILQ_REMOVE (tcp_links s) (unacked_list c) seg;
            tcp_ack_loop (s\<lparr>tcp_links := l, tcp_segs := (tcp_segs s)(seg := None)\<rparr>) c seg_tmp
          }
          else tcp_ack_loop s c seg_tmp
        })"

definition tcp_ack_segments :: "'a tcp_st_scheme \<Rightarrow> nat \<Rightarrow> tcp_hdr \<Rightarrow> 'a tcp_st_scheme option" where
  "tcp_ack_segments s c tcp = do {
     t \<leftarrow> conn_at s c;
     if tcp_ack_num tcp > send_una t then do {
       s \<leftarrow> conn_upd s c (send_una_update (\<lambda>_. tcp_ack_num tcp));
       s \<leftarrow> tcp_lock s c;
       s \<leftarrow> tcp_ack_loop s c (TAILQ_FIRST (tcp_links s) (unacked_list c));
       s \<leftarrow> tcp_unlock s c;
       conn_upd s c (\<lambda>t. if send_una t = send_max t then t\<lparr>timer := (timer t)(TCP_T_REXMT := 0)\<rparr>
         else t\<lparr>send_next := send_una t, timer := (timer t)(TCP_T_REXMT := rtt_est t)\<rparr>)
     }
     else Some s
   }"

text \<open>Retransmission: the segments not yet sent go behind those not acknowledged, and the
  two lists change places.\<close>

partial_function (option) tcp_rexmt_loop :: "tailq \<Rightarrow> nat \<Rightarrow> nat option \<Rightarrow> tailq option" where
  "tcp_rexmt_loop l c seg =
     (case seg of
        None \<Rightarrow> Some l
      | Some seg \<Rightarrow> do {
          let seg_tmp = TAILQ_NEXT l seg;
          l \<leftarrow> TAILQ_REMOVE l (unsent_list c) seg;
          l \<leftarrow> TAILQ_INSERT_TAIL l (unacked_list c) seg;
          tcp_rexmt_loop l c seg_tmp
        })"

definition tcp_rexmt_prepare :: "'a tcp_st_scheme \<Rightarrow> nat \<Rightarrow> 'a tcp_st_scheme option" where
  "tcp_rexmt_prepare s c = do {
     s \<leftarrow> tcp_lock s c;
     l \<leftarrow> tcp_rexmt_loop (tcp_links s) c (TAILQ_FIRST (tcp_links s) (unsent_list c));
     tcp_unlock (s\<lparr>tcp_links := TAILQ_SWAP l (unsent_list c) (unacked_list c)\<rparr>) c
   }"

definition tcp_rexmt_commit :: "os_sendto \<Rightarrow> 'a tcp_st_scheme \<Rightarrow> nat \<Rightarrow> 'a tcp_st_scheme option" where
  "tcp_rexmt_commit sendto s c = do {
     s \<leftarrow> conn_upd s c (\<lambda>t. t\<lparr>retran_count := retran_count t + 1\<rparr>);
     map_option fst (tcp_send_segments sendto s c)
   }"

section \<open>Connections of one address\<close>

text \<open>
  The sum that \<^verbatim>\<open>tcp_conn_cmp\<close> returns orders connections only as long as their local addresses
  agree. \<open>tcp_server s L A\<close>: the connections \<open>A\<close>, all of the local address \<open>L\<close>, are
  allocated and in the tree, in the order of the remote addresses.
\<close>

abbreviation remote_key :: "'a tcp_st_scheme \<Rightarrow> nat \<Rightarrow> nat" where
  "remote_key s a \<equiv> addr_key (conn_remote (tcp_conns s a))"

definition tcp_server :: "'a tcp_st_scheme \<Rightarrow> nstack_sockaddr \<Rightarrow> nat set \<Rightarrow> bool" where
  "tcp_server s L A \<longleftrightarrow> rbi.keyed (remote_key s) (tcp_conn_map s) A \<and>
     (\<forall>a\<in>A. tcp_live s a \<and> conn_local (tcp_conns s a) = L \<and> a < tcp_conn_brk s)"

lemma tcp_serverD:
  assumes "tcp_server s L A"
  shows "rbi.keyed (remote_key s) (tcp_conn_map s) A"
    and "a \<in> A \<Longrightarrow> tcp_live s a" and "a \<in> A \<Longrightarrow> conn_local (tcp_conns s a) = L"
    and "a \<in> A \<Longrightarrow> a < tcp_conn_brk s"
  using assms by (simp_all add: tcp_server_def)

lemma memcmp_same [simp]: "memcmp xs xs = 0"
  by (induction xs) simp_all

lemma tcp_by_key:
  assumes "\<And>a. a \<in> A \<Longrightarrow> conn_local (f a) = L"
  shows "by_key (addr_key R) (\<lambda>a. addr_key (conn_remote (f a)))
    (\<lambda>a. tcp_conn_cmp \<lparr>attr_local = L, attr_remote = R\<rparr> (conn_attr (f a))) A"
proof -
  have "by_key (addr_key R) (\<lambda>a. addr_key (conn_remote (f a)))
      (\<lambda>a. memcmp (sockaddr_bytes R) (sockaddr_bytes (conn_remote (f a)))) A"
    unfolding addr_key_def by (rule by_key_memcmp) simp
  then show ?thesis using assms by (simp add: by_key_def tcp_conn_cmp_def conn_attr_def)
qed

lemma tcp_find_hit:
  assumes "tcp_server s L A" and "c \<in> A" and "conn_remote (tcp_conns s c) = R"
  shows "tcp_find_connection s \<lparr>attr_local = L, attr_remote = R\<rparr> = Some (Some c)"
  unfolding tcp_find_connection_def
  by (rule rbi.find_hit [OF tcp_serverD(1) [OF assms(1)] tcp_by_key assms(2)])
    (simp_all add: assms(3) tcp_serverD(3) [OF assms(1)])

lemma tcp_find_miss:
  assumes "tcp_server s L A" and "\<And>a. a \<in> A \<Longrightarrow> conn_remote (tcp_conns s a) \<noteq> R"
  shows "tcp_find_connection s \<lparr>attr_local = L, attr_remote = R\<rparr> = Some None"
  unfolding tcp_find_connection_def
proof (rule rbi.find_miss [OF tcp_serverD(1) [OF assms(1)]])
  fix a
  assume a: "a \<in> A"
  have "by_key (addr_key R) (remote_key s)
      (\<lambda>a. tcp_conn_cmp \<lparr>attr_local = L, attr_remote = R\<rparr> (conn_attr (tcp_conns s a))) A"
    using tcp_serverD(3) [OF assms(1)] by (rule tcp_by_key)
  then show "tcp_conn_cmp \<lparr>attr_local = L, attr_remote = R\<rparr> (conn_attr (tcp_conns s a)) \<noteq> 0"
    using a assms(2) [OF a] addr_key_eq unfolding by_key_def by metis
qed

lemma tcp_new_connection_ok:
  assumes "tcp_server s L A" and "\<And>a. a \<in> A \<Longrightarrow> conn_remote (tcp_conns s a) \<noteq> R"
  defines "c \<equiv> tcp_conn_brk s"
  defines "s1 \<equiv> s\<lparr>tcp_conn_brk := Suc c, tcp_live := (tcp_live s)(c := True),
      tcp_conns := (tcp_conns s)(c := zero_tcb\<lparr>conn_local := L, conn_remote := R\<rparr>),
      tcp_links := zero_lists (tcp_links s) c\<rparr>"
  shows "\<exists>h. tcp_new_connection s \<lparr>attr_local = L, attr_remote = R\<rparr> = Some (s1\<lparr>tcp_conn_map := h\<rparr>, c) \<and>
    tcp_server (s1\<lparr>tcp_conn_map := h\<rparr>) L (A \<union> {c})"
proof -
  have c: "c \<notin> A" using tcp_serverD(4) [OF assms(1)] by (auto simp: c_def)
  have old: "tcp_conns s1 a = tcp_conns s a" if "a \<in> A" for a using that c by (auto simp: s1_def)
  have new: "tcp_conns s1 c = zero_tcb\<lparr>conn_local := L, conn_remote := R\<rparr>" by (simp add: s1_def)
  have keyed: "rbi.keyed (remote_key s1) (tcp_conn_map s) A"
    using tcp_serverD(1) [OF assms(1)] by (rule rbi.keyed_cong) (simp add: old)
  have R: "addr_key R = remote_key s1 c" by (simp add: new)
  have key: "by_key (remote_key s1 c) (remote_key s1)
      (\<lambda>a. tcp_conn_cmp \<lparr>attr_local = L, attr_remote = R\<rparr> (conn_attr (tcp_conns s1 a))) A"
    unfolding R [symmetric] by (rule tcp_by_key) (simp add: old tcp_serverD(3) [OF assms(1)])
  have "\<exists>h. RB_INSERT (\<lambda>a. tcp_conn_cmp \<lparr>attr_local = L, attr_remote = R\<rparr> (conn_attr (tcp_conns s1 a)))
      (tcp_conn_map s) c = Some (h, None) \<and> rbi.keyed (remote_key s1) h (A \<union> {c})"
    using assms(2) by (intro rbi.insert_key_new [OF keyed key c]) (simp add: old new addr_key_eq)
  then obtain h where h: "RB_INSERT (\<lambda>a. tcp_conn_cmp \<lparr>attr_local = L, attr_remote = R\<rparr> (conn_attr (tcp_conns s1 a)))
      (tcp_conn_map s) c = Some (h, None)" "rbi.keyed (remote_key s1) h (A \<union> {c})"
    by blast
  have "tcp_server (s1\<lparr>tcp_conn_map := h\<rparr>) L (A \<union> {c})"
    unfolding tcp_server_def
  proof (intro conjI ballI)
    fix a
    assume "a \<in> A \<union> {c}"
    then show "tcp_live (s1\<lparr>tcp_conn_map := h\<rparr>) a" "conn_local (tcp_conns (s1\<lparr>tcp_conn_map := h\<rparr>) a) = L"
      "a < tcp_conn_brk (s1\<lparr>tcp_conn_map := h\<rparr>)"
      using tcp_serverD(2-4) [OF assms(1), of a] by (auto simp: s1_def c_def)
  qed (use h(2) in simp)
  moreover have "tcp_new_connection s \<lparr>attr_local = L, attr_remote = R\<rparr> = Some (s1\<lparr>tcp_conn_map := h\<rparr>, c)"
    using h(1) by (simp add: tcp_new_connection_def Let_def c_def [symmetric] s1_def)
  ultimately show ?thesis by blast
qed

text \<open>An update of a control block that keeps its addresses.\<close>

lemma conn_at_live: "tcp_server s L A \<Longrightarrow> c \<in> A \<Longrightarrow> conn_at s c = Some (tcp_conns s c)"
  by (simp add: conn_at_def tcp_serverD(2))

lemma conn_upd_ok:
  assumes "tcp_server s L A" and "c \<in> A"
  shows "conn_upd s c f = Some (s\<lparr>tcp_conns := (tcp_conns s)(c := f (tcp_conns s c))\<rparr>)"
  using assms by (simp add: conn_upd_def conn_at_live)

lemma tcp_server_upd:
  assumes "tcp_server s L A" and "c \<in> A" and "conn_attr t = conn_attr (tcp_conns s c)"
  shows "tcp_server (s\<lparr>tcp_conns := (tcp_conns s)(c := t)\<rparr>) L A"
proof -
  let ?s = "s\<lparr>tcp_conns := (tcp_conns s)(c := t)\<rparr>"
  have "rbi.keyed (remote_key ?s) (tcp_conn_map s) A"
    using tcp_serverD(1) [OF assms(1)]
    by (rule rbi.keyed_cong) (use assms(3) in \<open>auto simp: conn_attr_def\<close>)
  then show ?thesis
    using assms tcp_serverD(2-4) [OF assms(1)] by (auto simp: tcp_server_def conn_attr_def)
qed

section \<open>The lists of segments\<close>

text \<open>\<open>conn_lists s c xs ys\<close>: the connection has the segments \<open>xs\<close> to send and \<open>ys\<close> sent and
  not acknowledged.\<close>

definition conn_lists :: "'a tcp_st_scheme \<Rightarrow> nat \<Rightarrow> nat list \<Rightarrow> nat list \<Rightarrow> bool" where
  "conn_lists s c xs ys \<longleftrightarrow> tq.both (tcp_links s) (unsent_list c) xs (unacked_list c) ys"

lemma tq_first: "tq_holds l h xs \<Longrightarrow> TAILQ_FIRST l h = (case xs of [] \<Rightarrow> None | a # _ \<Rightarrow> Some a)"
  by (auto simp: tq_holds_def TAILQ_FIRST_def tailq_words split: list.split)

lemma tq_next:
  assumes "tq_holds l h (zs @ a # xs)"
  shows "TAILQ_NEXT l a = (case xs of [] \<Rightarrow> None | b # _ \<Rightarrow> Some b)"
  using tq_holds_split [OF assms] by (auto simp: TAILQ_NEXT_def tailq_words split: list.split)

lemma rexmt_loop_ok:
  assumes "tq.both l (unsent_list c) xs (unacked_list c) ys"
  shows "\<exists>l'. tcp_rexmt_loop l c (case xs of [] \<Rightarrow> None | a # _ \<Rightarrow> Some a) = Some l' \<and>
    tq.both l' (unsent_list c) [] (unacked_list c) (ys @ xs)"
  using assms
proof (induction xs arbitrary: l ys)
  case Nil
  then show ?case by (subst tcp_rexmt_loop.simps) simp
next
  case (Cons a xs)
  obtain l1 l2 where l: "TAILQ_REMOVE l (unsent_list c) a = Some l1"
    "TAILQ_INSERT_TAIL l1 (unacked_list c) a = Some l2" "tq.both l2 (unsent_list c) xs (unacked_list c) (ys @ [a])"
    using tq.move [of l "unsent_list c" "[]" a xs "unacked_list c" ys] Cons.prems by auto
  have "tq_holds l (unsent_list c) ([] @ a # xs)" using Cons.prems by (simp add: tq.both_def)
  then have nxt: "TAILQ_NEXT l a = (case xs of [] \<Rightarrow> None | b # _ \<Rightarrow> Some b)" by (rule tq_next)
  obtain l' where "tcp_rexmt_loop l2 c (case xs of [] \<Rightarrow> None | a # _ \<Rightarrow> Some a) = Some l'"
    "tq.both l' (unsent_list c) [] (unacked_list c) ((ys @ [a]) @ xs)"
    using Cons.IH [OF l(3)] by blast
  then show ?case using l(1,2) nxt by (subst tcp_rexmt_loop.simps) simp
qed

lemma tcp_lock_ok:
  "tcp_live s c \<Longrightarrow> \<not> mutex (tcp_conns s c) \<Longrightarrow>
   tcp_lock s c = Some (s\<lparr>tcp_conns := (tcp_conns s)(c := (tcp_conns s c)\<lparr>mutex := True\<rparr>)\<rparr>)"
  by (simp add: tcp_lock_def conn_at_def conn_upd_def)

lemma tcp_unlock_ok:
  "tcp_live s c \<Longrightarrow> tcp_unlock s c = Some (s\<lparr>tcp_conns := (tcp_conns s)(c := (tcp_conns s c)\<lparr>mutex := False\<rparr>)\<rparr>)"
  by (simp add: tcp_unlock_def conn_at_def conn_upd_def)

lemma mutex_back: "\<not> mutex t \<Longrightarrow> t\<lparr>mutex := False\<rparr> = t"
  by simp

text \<open>
  C34: The retransmission timer takes back what was sent: after \<^verbatim>\<open>tcp_rexmt_prepare\<close> the list to
  send has the segments not acknowledged, in their order, and behind them those not yet
  sent; none is left in the other list, none is lost or doubled, the lock is free again
  and nothing else of the state has changed.
\<close>

theorem tcp_rexmt_prepare_requeues:
  assumes "tcp_live s c" and "\<not> mutex (tcp_conns s c)" and "conn_lists s c xs ys"
  shows "\<exists>l. tcp_rexmt_prepare s c = Some (s\<lparr>tcp_links := l\<rparr>) \<and> conn_lists (s\<lparr>tcp_links := l\<rparr>) c (ys @ xs) []"
proof -
  have b: "tq.both (tcp_links s) (unsent_list c) xs (unacked_list c) ys" using assms(3) by (simp add: conn_lists_def)
  obtain l where l: "tcp_rexmt_loop (tcp_links s) c (case xs of [] \<Rightarrow> None | a # _ \<Rightarrow> Some a) = Some l"
    "tq.both l (unsent_list c) [] (unacked_list c) (ys @ xs)"
    using rexmt_loop_ok [OF b] by blast
  let ?l = "TAILQ_SWAP l (unsent_list c) (unacked_list c)"
  have "tq_holds ?l (unsent_list c) (ys @ xs) \<and> tq_holds ?l (unacked_list c) []"
    using l(2) by (intro tq.swap) (simp_all add: tq.both_def)
  then have "conn_lists (s\<lparr>tcp_links := ?l\<rparr>) c (ys @ xs) []"
    using l(2) by (simp add: conn_lists_def tq.both_def)
  moreover have "TAILQ_FIRST (tcp_links s) (unsent_list c) = (case xs of [] \<Rightarrow> None | a # _ \<Rightarrow> Some a)"
    using b by (intro tq_first) (simp add: tq.both_def)
  then have "tcp_rexmt_prepare s c = Some (s\<lparr>tcp_links := ?l\<rparr>)"
    using assms(1,2) l(1) by (simp add: tcp_rexmt_prepare_def tcp_lock_ok tcp_unlock_ok mutex_back)
  ultimately show ?thesis by blast
qed

lemma restrict_none: "m |` (- {}) = m"
  by (simp add: restrict_map_def)

lemma ack_loop_all:
  assumes "tq.both (tcp_links s) (unacked_list c) ys (unsent_list c) xs" and "tcp_live s c"
    and "\<And>a. a \<in> set ys \<Longrightarrow> \<exists>g. tcp_segs s a = Some g \<and> tcp_seqno (seg_header g) < send_una (tcp_conns s c)"
  shows "\<exists>l. tcp_ack_loop s c (case ys of [] \<Rightarrow> None | a # _ \<Rightarrow> Some a) =
      Some (s\<lparr>tcp_links := l, tcp_segs := (tcp_segs s) |` (- set ys)\<rparr>) \<and>
    tq.both l (unacked_list c) [] (unsent_list c) xs"
  using assms
proof (induction ys arbitrary: s)
  case Nil
  have "tcp_ack_loop s c None = Some (s\<lparr>tcp_links := tcp_links s, tcp_segs := tcp_segs s\<rparr>)"
    by (subst tcp_ack_loop.simps) simp
  with Nil(1) show ?case by (intro exI [of _ "tcp_links s"]) (simp only: restrict_none list.set list.case simp_thms)
next
  case (Cons a ys)
  have h: "tq_holds (tcp_links s) (unacked_list c) ([] @ a # ys)" using Cons.prems(1) by (simp add: tq.both_def)
  have d: "a \<notin> set ys" using tq.distinct [OF h] by simp
  obtain l where l: "TAILQ_REMOVE (tcp_links s) (unacked_list c) a = Some l"
    "tq.both l (unacked_list c) ys (unsent_list c) xs"
    using tq.take_out [of "tcp_links s" "unacked_list c" "[]" a ys "unsent_list c" xs] Cons.prems(1) by auto
  let ?s = "s\<lparr>tcp_links := l, tcp_segs := (tcp_segs s)(a := None)\<rparr>"
  have "\<exists>k. tcp_ack_loop ?s c (case ys of [] \<Rightarrow> None | a # _ \<Rightarrow> Some a) =
      Some (?s\<lparr>tcp_links := k, tcp_segs := (tcp_segs ?s) |` (- set ys)\<rparr>) \<and>
    tq.both k (unacked_list c) [] (unsent_list c) xs"
    using l(2) Cons.prems(2,3) d by (intro Cons.IH) auto
  then obtain k where k: "tcp_ack_loop ?s c (case ys of [] \<Rightarrow> None | a # _ \<Rightarrow> Some a) =
      Some (?s\<lparr>tcp_links := k, tcp_segs := (tcp_segs ?s) |` (- set ys)\<rparr>)"
    "tq.both k (unacked_list c) [] (unsent_list c) xs"
    by blast
  have "(tcp_segs ?s) |` (- set ys) = (tcp_segs s) |` (- set (a # ys))"
    by (auto simp: restrict_map_def)
  moreover obtain g where "tcp_segs s a = Some g" "tcp_seqno (seg_header g) < send_una (tcp_conns s c)"
    using Cons.prems(3) [of a] by auto
  ultimately show ?case
    using k l(1) Cons.prems(2) tq_next [OF h] by (subst tcp_ack_loop.simps) (auto simp: conn_at_def)
qed

text \<open>
  C35: An acknowledgment that advances frees every segment that waits for one, whatever part
  of the data it covers: the headers kept with the segments have sequence number zero
  (\<^verbatim>\<open>nstack_tcp_send\<close> leaves it out, \<^verbatim>\<open>tcp_send_segments\<close> sets it in the copy that goes out), so
  each of them is below the acknowledged number. Data that the peer has not got can then
  not be sent again.
\<close>

theorem tcp_ack_frees_all:
  assumes "tcp_live s c" and "\<not> mutex (tcp_conns s c)" and "conn_lists s c xs ys"
    and "\<And>a. a \<in> set ys \<Longrightarrow> \<exists>src dst d. tcp_segs s a = Some \<lparr>seg_size = length d, seg_data = d, seg_header = tcp_data_hdr src dst\<rparr>"
    and "tcp_ack_num tcp > send_una (tcp_conns s c)"
  shows "\<exists>s'. tcp_ack_segments s c tcp = Some s' \<and> conn_lists s' c xs [] \<and> (\<forall>a\<in>set ys. tcp_segs s' a = None)"
proof -
  let ?t = "(tcp_conns s c)\<lparr>send_una := tcp_ack_num tcp, mutex := True\<rparr>"
  let ?s = "s\<lparr>tcp_conns := (tcp_conns s)(c := ?t)\<rparr>"
  have b: "tq.both (tcp_links s) (unacked_list c) ys (unsent_list c) xs"
    using assms(3) tq.both_sym by (simp add: conn_lists_def)
  have "0 < tcp_ack_num tcp" using assms(5) word_zero_le [of "send_una (tcp_conns s c)"] by (metis le_less_trans)
  then have "\<exists>g. tcp_segs ?s a = Some g \<and> tcp_seqno (seg_header g) < send_una (tcp_conns ?s c)" if "a \<in> set ys" for a
    using assms(4) [OF that] by (auto simp: tcp_data_hdr_def)
  then obtain l where l: "tcp_ack_loop ?s c (case ys of [] \<Rightarrow> None | a # _ \<Rightarrow> Some a) =
      Some (?s\<lparr>tcp_links := l, tcp_segs := (tcp_segs s) |` (- set ys)\<rparr>)"
    "tq.both l (unacked_list c) [] (unsent_list c) xs"
    using ack_loop_all [of ?s c ys xs] b assms(1) by auto
  have f: "TAILQ_FIRST (tcp_links s) (unacked_list c) = (case ys of [] \<Rightarrow> None | a # _ \<Rightarrow> Some a)"
    using b by (intro tq_first) (simp add: tq.both_def)
  define t where "t = (\<lambda>t. if send_una t = send_max t then t\<lparr>timer := (timer t)(TCP_T_REXMT := 0)\<rparr>
    else t\<lparr>send_next := send_una t, timer := (timer t)(TCP_T_REXMT := rtt_est t)\<rparr>) (?t\<lparr>mutex := False\<rparr>)"
  have "tcp_ack_segments s c tcp =
      Some (s\<lparr>tcp_conns := (tcp_conns s)(c := t), tcp_links := l, tcp_segs := (tcp_segs s) |` (- set ys)\<rparr>)"
    using l(1) f assms(1,2,5)
    by (simp add: tcp_ack_segments_def conn_at_def conn_upd_def tcp_lock_def tcp_unlock_def t_def)
  then show ?thesis using l(2) tq.both_sym by (auto simp: conn_lists_def)
qed

section \<open>A connection with segments\<close>

definition demo_links :: tailq where
  "demo_links =
     \<lparr>tqh_first = [0 \<mapsto> 7, 1 \<mapsto> 5], tqh_last = [0 \<mapsto> Next 7, 1 \<mapsto> Next 6], tqe_next = [5 \<mapsto> 6],
      tqe_prev = [5 \<mapsto> Head 1, 6 \<mapsto> Next 5, 7 \<mapsto> Head 0]\<rparr>"

definition demo_peer :: nstack_sockaddr where
  "demo_peer = \<lparr>inet4_addr = 0x0a000001, port = 4000\<rparr>"

definition demo_seg :: tcp_segment where
  "demo_seg = \<lparr>seg_size = length [1, 2 :: u8], seg_data = [1, 2], seg_header = tcp_data_hdr demo_addr demo_peer\<rparr>"

definition demo_conns :: "sock_st \<Rightarrow> tcp_st" where
  "demo_conns s = sock_st.extend s
     \<lparr>tcp_now = 0,
      tcp_conns = (\<lambda>_. zero_tcb\<lparr>conn_local := demo_addr, conn_remote := demo_peer, conn_state := TCP_ESTABLISHED,
        send_next := 106, send_una := 100, send_max := 106\<rparr>),
      tcp_live = (\<lambda>c. c = 0), tcp_conn_brk = 1, tcp_conn_map = rb_single 0,
      tcp_segs = [5 \<mapsto> demo_seg, 6 \<mapsto> demo_seg, 7 \<mapsto> demo_seg], tcp_seg_brk = 8, tcp_links = demo_links,
      urandom = (\<lambda>_. 5000)\<rparr>"

lemma demo_conns_lists: "conn_lists (demo_conns s) 0 [7] [5, 6]"
  by (simp add: conn_lists_def tq.both_def tq_holds_def demo_conns_def demo_links_def sock_st.defs word_at.simps)

lemma demo_conns_fields [simp]:
  "tcp_live (demo_conns s) 0" "tcp_segs (demo_conns s) = [5 \<mapsto> demo_seg, 6 \<mapsto> demo_seg, 7 \<mapsto> demo_seg]"
  "\<not> mutex (tcp_conns (demo_conns s) c)" "send_una (tcp_conns (demo_conns s) c) = 100"
  by (simp_all add: demo_conns_def sock_st.defs zero_tcb_def)

theorem tcp_rexmt_prepare_requeues_witness:
  "\<exists>s s' :: tcp_st. conn_lists s 0 [7] [5, 6] \<and> tcp_rexmt_prepare s 0 = Some s' \<and> conn_lists s' 0 [5, 6, 7] []"
proof -
  let ?s = "demo_conns (demo_socks (rb_single 0) (demo_frag (demo_arp_stack demo_route_st)))"
  obtain l where "tcp_rexmt_prepare ?s 0 = Some (?s\<lparr>tcp_links := l\<rparr>)" "conn_lists (?s\<lparr>tcp_links := l\<rparr>) 0 ([5, 6] @ [7]) []"
    using tcp_rexmt_prepare_requeues [OF _ _ demo_conns_lists] by (metis demo_conns_fields(1,3))
  then show ?thesis using demo_conns_lists by (intro exI [of _ ?s] exI [of _ "?s\<lparr>tcp_links := l\<rparr>"]) simp
qed

theorem tcp_ack_frees_all_witness:
  "\<exists>s s' :: tcp_st. conn_lists s 0 [7] [5, 6] \<and> send_una (tcp_conns s 0) = 100 \<and>
    tcp_ack_segments s 0 ((tcp_data_hdr demo_peer demo_addr)\<lparr>tcp_ack_num := 101\<rparr>) = Some s' \<and>
    conn_lists s' 0 [7] [] \<and> tcp_segs s' 6 = None"
proof -
  let ?s = "demo_conns (demo_socks (rb_single 0) (demo_frag (demo_arp_stack demo_route_st)))"
  let ?t = "(tcp_data_hdr demo_peer demo_addr)\<lparr>tcp_ack_num := 101\<rparr>"
  have "\<exists>src dst d. tcp_segs ?s a = Some \<lparr>seg_size = length d, seg_data = d, seg_header = tcp_data_hdr src dst\<rparr>"
    if "a \<in> set [5, 6]" for a
    using that unfolding demo_conns_fields demo_seg_def by auto
  then have "\<exists>s'. tcp_ack_segments ?s 0 ?t = Some s' \<and> conn_lists s' 0 [7] [] \<and> (\<forall>a\<in>set [5, 6]. tcp_segs s' a = None)"
    by (intro tcp_ack_frees_all [OF _ _ demo_conns_lists]) simp_all
  then obtain s' where "tcp_ack_segments ?s 0 ?t = Some s'" "conn_lists s' 0 [7] []" "tcp_segs s' 6 = None"
    by auto
  then show ?thesis using demo_conns_lists demo_conns_fields(4) by (intro exI [of _ ?s] exI [of _ s']) simp
qed

end
