(* ===== verification/Tcp.thy ===== *)
theory Tcp
  imports Tcp_Conn
begin

text \<open>
  The state machine of \<^verbatim>\<open>src/tcp.c\<close>, its input from IP, the calls of the socket layer and the
  timers. \<^verbatim>\<open>tcp_fsm\<close> has one definition per case of its \<^verbatim>\<open>switch\<close>; the header of the segment is
  changed in place and is part of the result. The buffer of \<^verbatim>\<open>tcp_send_syn\<close> is not
  initialised; the header found there is the argument \<open>junk\<close>.
\<close>

definition tcp_socket_cmp :: "nstack_sockaddr \<Rightarrow> nstack_sockaddr \<Rightarrow> int" where
  "tcp_socket_cmp a b = memcmp (sockaddr_bytes a) (sockaddr_bytes b)"

definition find_tcp_socket :: "'a sock_st_scheme \<Rightarrow> nstack_sockaddr \<Rightarrow> nat option option" where
  "find_tcp_socket s addr = RB_FIND (\<lambda>a. tcp_socket_cmp addr (sock_addr_of s a)) (tcp_sock_tree_head s)"

definition nstack_tcp_bind :: "'a sock_st_scheme \<Rightarrow> nat \<Rightarrow> ('a sock_st_scheme \<times> int) option" where
  "nstack_tcp_bind s sock =
     (if sint (port (sock_addr_of s sock)) > NSTACK_SOCK_PORT_MAX then Some (s\<lparr>io_errno := EINVAL\<rparr>, -1)
      else do {
        used \<leftarrow> find_tcp_socket s (sock_addr_of s sock);
        if used \<noteq> None then Some (s\<lparr>io_errno := EADDRINUSE\<rparr>, -1)
        else do {
          (head, _) \<leftarrow> RB_INSERT (\<lambda>a. tcp_socket_cmp (sock_addr_of s sock) (sock_addr_of s a)) (tcp_sock_tree_head s) sock;
          Some (s\<lparr>tcp_sock_tree_head := head\<rparr>, 0)
        }
      })"

section \<open>The state machine\<close>

abbreviation (input) has :: "tcp_hdr \<Rightarrow> u16 \<Rightarrow> bool" where
  "has rs m \<equiv> tcp_flags rs AND m \<noteq> 0"

definition tcp_fsm_listen ::
  "'a tcp_st_scheme \<Rightarrow> nat \<Rightarrow> tcp_hdr \<Rightarrow> ip_hdr \<Rightarrow> ('a tcp_st_scheme \<times> tcp_hdr \<times> int) option" where
  "tcp_fsm_listen s c rs ip_hdr =
     (if has rs TCP_SYN then do {
        sock \<leftarrow> find_tcp_socket s \<lparr>inet4_addr = ip_dst ip_hdr, port = ucast (tcp_dport rs)\<rparr>;
        let rs = (if sock = None then rs\<lparr>tcp_flags := (tcp_flags rs AND NOT TCP_SYN) OR TCP_RST\<rparr> else rs);
        let (s, r) = read_urandom s;
        let rs = rs\<lparr>tcp_flags := tcp_flags rs OR TCP_ACK, tcp_ack_num := tcp_seqno rs + 1, tcp_seqno := r\<rparr>;
        s \<leftarrow> conn_upd s c (\<lambda>t. t\<lparr>conn_state := (if sock \<noteq> None then TCP_SYN_RCVD else TCP_CLOSED),
          recv_next := tcp_ack_num rs, send_next := tcp_seqno rs + 1\<rparr>);
        Some (s, rs, tcp_hdr_size rs)
      }
      else Some (s, rs, 0))"

definition tcp_fsm_syn_sent ::
  "'a tcp_st_scheme \<Rightarrow> nat \<Rightarrow> tcp_hdr \<Rightarrow> ip_hdr \<Rightarrow> ('a tcp_st_scheme \<times> tcp_hdr \<times> int) option" where
  "tcp_fsm_syn_sent s c rs ip_hdr = do {
     t \<leftarrow> conn_at s c;
     if has rs (TCP_SYN OR TCP_ACK) then do {
       let rs = rs\<lparr>tcp_flags := 0x5010, tcp_ack_num := tcp_seqno rs + 1, tcp_seqno := send_next t\<rparr>;
       s \<leftarrow> conn_upd s c (\<lambda>t. t\<lparr>recv_next := tcp_ack_num rs, recv_wnd := ucast (tcp_win_size rs),
         conn_state := TCP_ESTABLISHED, timer := (timer t)(TCP_T_KEEP := 0, TCP_T_REXMT := 1)\<rparr>);
       Some (s, rs, tcp_hdr_size rs)
     }
     else if has rs TCP_SYN then do {
       let rs = rs\<lparr>tcp_flags := 0x5012, tcp_ack_num := tcp_seqno rs + 1, tcp_seqno := send_next t\<rparr>;
       s \<leftarrow> conn_upd s c (\<lambda>t. t\<lparr>recv_next := tcp_ack_num rs, recv_wnd := ucast (tcp_win_size rs),
         conn_state := TCP_SYN_RCVD\<rparr>);
       Some (s, rs, tcp_hdr_size rs)
     }
     else tcp_fsm_listen s c rs ip_hdr
   }"

definition tcp_fsm_syn_rcvd ::
  "'a tcp_st_scheme \<Rightarrow> nat \<Rightarrow> tcp_hdr \<Rightarrow> ('a tcp_st_scheme \<times> tcp_hdr \<times> int) option" where
  "tcp_fsm_syn_rcvd s c rs = do {
     t \<leftarrow> conn_at s c;
     if has rs TCP_RST \<and> tcp_seqno rs = recv_next t \<and> tcp_ack_num rs = send_next t then do {
       s \<leftarrow> conn_upd s c (conn_state_update (\<lambda>_. TCP_LISTEN));
       Some (s, rs, 0)
     }
     else if has rs TCP_ACK \<and> tcp_seqno rs = recv_next t \<and> tcp_ack_num rs = send_next t then do {
       s \<leftarrow> conn_upd s c (\<lambda>t. t\<lparr>timer := (timer t)(TCP_T_KEEP := 0), conn_state := TCP_ESTABLISHED\<rparr>);
       Some (s, rs, 0)
     }
     else do {
       let rs = rs\<lparr>tcp_flags := tcp_flags rs AND NOT TCP_ACK, tcp_ack_num := tcp_seqno rs, tcp_seqno := send_next t\<rparr>;
       s \<leftarrow> conn_upd s c (\<lambda>t. t\<lparr>recv_next := tcp_ack_num rs, send_next := tcp_seqno rs + 1\<rparr>);
       Some (s, rs, tcp_hdr_size rs)
     }
   }"

definition tcp_fsm_established ::
  "'a tcp_st_scheme \<Rightarrow> nat \<Rightarrow> tcp_hdr \<Rightarrow> bytes \<Rightarrow> ip_hdr \<Rightarrow> nat \<Rightarrow> ('a tcp_st_scheme \<times> tcp_hdr \<times> int) option" where
  "tcp_fsm_established s c rs rest ip_hdr bsize = do {
     s \<leftarrow> tcp_ack_segments s c rs;
     t \<leftarrow> conn_at s c;
     if has rs TCP_ACK \<and> has rs TCP_PSH \<and> tcp_seqno rs = recv_next t \<and> tcp_ack_num rs = send_next t then do {
       let rs = rs\<lparr>tcp_flags := tcp_flags rs AND NOT TCP_PSH\<rparr>;
       let rs = rs\<lparr>tcp_ack_num := tcp_seqno rs + of_int (int bsize - tcp_hdr_size rs), tcp_seqno := send_next t\<rparr>;
       s \<leftarrow> conn_upd s c (\<lambda>t. t\<lparr>recv_next := tcp_ack_num rs, send_next := tcp_seqno rs\<rparr>);
       sock \<leftarrow> find_tcp_socket s \<lparr>inet4_addr = ip_dst ip_hdr, port = ucast (tcp_dport rs)\<rparr>;
       sock \<leftarrow> sock;
       let header_size = size_of_int (tcp_hdr_size rs);
       (s, _) \<leftarrow> nstack_sock_dgram_input s sock \<lparr>inet4_addr = ip_src ip_hdr, port = ucast (tcp_sport rs)\<rparr>
         (drop header_size (tcp_hdr_bytes rs @ rest)) (size_sub bsize header_size);
       Some (s, rs, tcp_hdr_size rs)
     }
     else if has rs TCP_FIN then do {
       let rs = rs\<lparr>tcp_flags := tcp_flags rs OR TCP_ACK, tcp_ack_num := tcp_seqno rs + 1, tcp_seqno := send_next t\<rparr>;
       s \<leftarrow> conn_upd s c (\<lambda>t. t\<lparr>conn_state := TCP_LAST_ACK, recv_next := tcp_ack_num rs,
         send_next := tcp_seqno rs + 1\<rparr>);
       Some (s, rs, tcp_hdr_size rs)
     }
     else Some (s, rs, 0)
   }"

definition tcp_fsm_last_ack ::
  "'a tcp_st_scheme \<Rightarrow> nat \<Rightarrow> tcp_hdr \<Rightarrow> ('a tcp_st_scheme \<times> tcp_hdr \<times> int) option" where
  "tcp_fsm_last_ack s c rs =
     (if has rs TCP_ACK then do {
        head \<leftarrow> RB_REMOVE (tcp_conn_map s) (Some c);
        s \<leftarrow> conn_upd (s\<lparr>tcp_conn_map := head\<rparr>) c (conn_state_update (\<lambda>_. TCP_CLOSED));
        s \<leftarrow> tcp_free s c;
        Some (s, rs, 0)
      }
      else Some (s, rs, 0))"

definition tcp_fsm ::
  "'a tcp_st_scheme \<Rightarrow> nat \<Rightarrow> tcp_hdr \<Rightarrow> bytes \<Rightarrow> ip_hdr \<Rightarrow> nat \<Rightarrow> ('a tcp_st_scheme \<times> tcp_hdr \<times> int) option" where
  "tcp_fsm s c rs rest ip_hdr bsize = do {
     s \<leftarrow> conn_upd s c (\<lambda>t. if rtt t \<noteq> 0 \<and> tcp_ack_num rs > of_int (rtt_cur_seq t)
       then tcp_rto_update t (rtt t) else t);
     t \<leftarrow> conn_at s c;
     case conn_state t of
       TCP_CLOSED \<Rightarrow> Some (s, rs, 0)
     | TCP_SYN_SENT \<Rightarrow> tcp_fsm_syn_sent s c rs ip_hdr
     | TCP_LISTEN \<Rightarrow> tcp_fsm_listen s c rs ip_hdr
     | TCP_SYN_RCVD \<Rightarrow> tcp_fsm_syn_rcvd s c rs
     | TCP_ESTABLISHED \<Rightarrow> tcp_fsm_established s c rs rest ip_hdr bsize
     | TCP_FIN_WAIT_1 \<Rightarrow> Some (s, rs, 0)
     | TCP_FIN_WAIT_2 \<Rightarrow> Some (s, rs, 0)
     | TCP_CLOSE_WAIT \<Rightarrow> Some (s, rs, 0)
     | TCP_CLOSING \<Rightarrow> Some (s, rs, 0)
     | TCP_LAST_ACK \<Rightarrow> tcp_fsm_last_ack s c rs
     | TCP_TIME_WAIT \<Rightarrow> Some (s, rs, - EINVAL)
   }"

section \<open>Input\<close>

text \<open>The connection for a segment: the one found, or a new one for a \<^verbatim>\<open>SYN\<close>. A segment
  of no connection without \<^verbatim>\<open>SYN\<close> leaves the pointer \<^verbatim>\<open>NULL\<close>.\<close>

definition tcp_input_conn ::
  "'a tcp_st_scheme \<Rightarrow> tcp_hdr \<Rightarrow> tcp_conn_attr \<Rightarrow> nat option \<Rightarrow> ('a tcp_st_scheme \<times> nat option) option" where
  "tcp_input_conn s tcp attr conn =
     (if conn = None \<and> has tcp TCP_SYN then do {
        (s, c) \<leftarrow> tcp_new_connection s attr;
        s \<leftarrow> conn_upd s c (conn_state_update (\<lambda>_. TCP_LISTEN));
        Some (s, Some c)
      }
      else Some (s, conn))"

definition tcp_fast_reply ::
  "'a tcp_st_scheme \<Rightarrow> tcp_conn_attr \<Rightarrow> tcp_hdr \<Rightarrow> bytes \<Rightarrow> int \<Rightarrow> ('a tcp_st_scheme \<times> bytes \<times> int) option" where
  "tcp_fast_reply s attr tcp rest retval =
     (if retval > 0 then do {
        let tcp = tcp\<lparr>tcp_sport := ucast (port (attr_local attr)), tcp_dport := ucast (port (attr_remote attr))\<rparr>;
        (tcp, rest) \<leftarrow> tcp_hton (attr_local attr) (attr_remote attr) tcp rest (nat retval);
        Some (s, tcp_hdr_bytes tcp @ rest, retval)
      }
      else Some (s, tcp_hdr_bytes tcp @ rest, retval))"

definition tcp_input :: "('a tcp_st_scheme, ip_hdr) handler" where
  "tcp_input s ip_hdr payload bsize =
     (if bsize < 20 then Some (s, payload, - EBADMSG)
      else do {
        net \<leftarrow> tcp_hdr_at payload;
        let attr = \<lparr>attr_local = \<lparr>inet4_addr = ip_dst ip_hdr, port = ucast (ntohs (tcp_dport net))\<rparr>,
                    attr_remote = \<lparr>inet4_addr = ip_src ip_hdr, port = ucast (ntohs (tcp_sport net))\<rparr>\<rparr>;
        (tcp, rest) \<leftarrow> tcp_ntoh net (drop 20 payload);
        conn \<leftarrow> tcp_find_connection s attr;
        invalid \<leftarrow> (case conn of
            None \<Rightarrow> Some False
          | Some c \<Rightarrow> do {
              t \<leftarrow> conn_at s c;
              Some (has tcp TCP_SYN \<and> conn_state t \<ge> TCP_ESTABLISHED)
            });
        if invalid \<or> tcp_hdr_size tcp < 0 then Some (s, tcp_hdr_bytes tcp @ rest, - EINVAL)
        else do {
          (s, conn) \<leftarrow> tcp_input_conn s tcp attr conn;
          c \<leftarrow> conn;
          (s, tcp, retval) \<leftarrow> tcp_fsm s c tcp rest ip_hdr bsize;
          tcp_fast_reply s attr tcp rest retval
        }
      })"

section \<open>Sending\<close>

text \<open>The option is kind 2, length 4, the segment size in the byte order of the host.\<close>

definition tcp_send_syn ::
  "os_sendto \<Rightarrow> tcp_hdr \<Rightarrow> 'a tcp_st_scheme \<Rightarrow> nat \<Rightarrow> ('a tcp_st_scheme \<times> int) option" where
  "tcp_send_syn sendto junk s c = do {
     t \<leftarrow> conn_at s c;
     let opt = [2, 4] @ bytes16 (of_nat TCP_MSS);
     let tcp = junk\<lparr>tcp_seqno := send_next t, tcp_flags := 0x6002, tcp_win_size := 502,
                    tcp_sport := ucast (port (conn_local t)), tcp_dport := ucast (port (conn_remote t))\<rparr>;
     s \<leftarrow> conn_upd s c (\<lambda>t. t\<lparr>send_next := send_next t + 1\<rparr>);
     (net, opt) \<leftarrow> tcp_hton (conn_local t) (conn_remote t) tcp opt (size_of_int (tcp_hdr_size tcp));
     s \<leftarrow> conn_upd s c (\<lambda>t. t\<lparr>conn_state := TCP_SYN_SENT, timer := (timer t)(TCP_T_KEEP := TCP_TV_KEEP_INIT)\<rparr>);
     ip_send sendto s (inet4_addr (conn_remote t)) IP_PROTO_TCP (tcp_hdr_bytes net @ opt) 24
   }"

definition nstack_tcp_send ::
  "os_sendto \<Rightarrow> tcp_hdr \<Rightarrow> 'a tcp_st_scheme \<Rightarrow> nat \<Rightarrow> nstack_dgram \<Rightarrow> bytes \<Rightarrow> ('a tcp_st_scheme \<times> int) option" where
  "nstack_tcp_send sendto junk s sock dgram dbuf = do {
     let attr = \<lparr>attr_local = sock_addr_of s sock, attr_remote = dstaddr dgram\<rparr>;
     conn \<leftarrow> tcp_find_connection s attr;
     case conn of
       None \<Rightarrow> do {
         (s, c) \<leftarrow> tcp_new_connection s attr;
         (s, _) \<leftarrow> tcp_connection_init s c;
         data \<leftarrow> read_at dbuf 0 (unat (buf_size dgram));
         let (s, seg) = tcp_new_segment s (tcp_data_hdr (sock_addr_of s sock) (dstaddr dgram)) data;
         s \<leftarrow> tcp_queue_segment s c seg;
         tcp_send_syn sendto junk s c
       }
     | Some c \<Rightarrow> do {
         t \<leftarrow> conn_at s c;
         case conn_state t of
           TCP_ESTABLISHED \<Rightarrow> do {
             s \<leftarrow> conn_upd s c (\<lambda>t. if rtt t = 0 then t\<lparr>rtt := 1, rtt_cur_seq := sint (send_next t)\<rparr> else t);
             data \<leftarrow> read_at dbuf 0 (unat (buf_size dgram));
             let (s, seg) = tcp_new_segment s (tcp_data_hdr (conn_local t) (conn_remote t)) data;
             s \<leftarrow> tcp_queue_segment s c seg;
             tcp_send_segments sendto s c
           }
         | _ \<Rightarrow> Some (s, - EINVAL)
       }
   }"

section \<open>Timers\<close>

definition tcp_timer :: "os_sendto \<Rightarrow> 'a tcp_st_scheme \<Rightarrow> nat \<Rightarrow> nat \<Rightarrow> 'a tcp_st_scheme option" where
  "tcp_timer sendto s c counter_index =
     (if counter_index = TCP_T_REXMT then do {
        s \<leftarrow> conn_upd s c (\<lambda>t. t\<lparr>timer := (timer t)(counter_index := sint (retran_timeout t)), rtt := 0\<rparr>);
        s \<leftarrow> tcp_rexmt_prepare s c;
        tcp_rexmt_commit sendto s c
      }
      else if counter_index = TCP_T_PERSIST \<or> counter_index = TCP_T_KEEP then do {
        t \<leftarrow> conn_at s c;
        if conn_state t < TCP_ESTABLISHED then tcp_remove_connection s c
        else tcp_remove_connection s c
      }
      else if counter_index = TCP_T_2MSL then tcp_remove_connection s c
      else Some s)"

definition tcp_tick :: "os_sendto \<Rightarrow> 'a tcp_st_scheme \<Rightarrow> nat \<Rightarrow> nat \<Rightarrow> 'a tcp_st_scheme option" where
  "tcp_tick sendto s c i = do {
     t \<leftarrow> conn_at s c;
     if timer t i \<noteq> 0 then do {
       s \<leftarrow> conn_upd s c (\<lambda>t. t\<lparr>timer := (timer t)(i := timer t i - 1)\<rparr>);
       if timer t i - 1 = 0 then tcp_timer sendto s c i else Some s
     }
     else Some s
   }"

partial_function (option) tcp_slow_loop :: "os_sendto \<Rightarrow> 'a tcp_st_scheme \<Rightarrow> nat option \<Rightarrow> 'a tcp_st_scheme option" where
  "tcp_slow_loop sendto s conn =
     (case conn of
        None \<Rightarrow> Some s
      | Some c \<Rightarrow> do {
          s \<leftarrow> tcp_tick sendto s c 0;
          s \<leftarrow> tcp_tick sendto s c 1;
          s \<leftarrow> tcp_tick sendto s c 2;
          s \<leftarrow> tcp_tick sendto s c 3;
          s \<leftarrow> conn_upd s c (\<lambda>t. if rtt t \<noteq> 0 then t\<lparr>rtt := rtt t + 1\<rparr> else t);
          next_conn \<leftarrow> RB_NEXT (tcp_conn_map s) c;
          tcp_slow_loop sendto s next_conn
        })"

definition tcp_slowtimo :: "os_sendto \<Rightarrow> 'a tcp_st_scheme \<Rightarrow> 'a tcp_st_scheme option" where
  "tcp_slowtimo sendto s = do {
     c \<leftarrow> RB_MIN (tcp_conn_map s);
     s \<leftarrow> tcp_slow_loop sendto s c;
     Some (s\<lparr>tcp_now := tcp_now s + 1\<rparr>)
   }"

end
