(* ===== verification/Tcp_Server.thy ===== *)
theory Tcp_Server
  imports Tcp
begin

text \<open>
  What \<^verbatim>\<open>tcp_input\<close> does for a listening socket, one segment at a time: the segment on the wire and
  the reply to it, the opening of a connection, its acknowledgment, data on the way to the
  application, and the options on which it does not return.
\<close>

section \<open>Segments on the wire\<close>

text \<open>\<open>tcp_wire h os pad data seg\<close>: the bytes \<open>seg\<close> are a segment with the header \<open>h\<close>, given in the byte
  order of the host.\<close>

definition tcp_wire :: "tcp_hdr \<Rightarrow> tcp_opt list \<Rightarrow> bytes \<Rightarrow> bytes \<Rightarrow> bytes \<Rightarrow> bool" where
  "tcp_wire h os pad data seg \<longleftrightarrow> tcp_rest_ok h os pad \<and>
     seg = tcp_hdr_bytes ((tcp_hton_fields h)\<lparr>tcp_csum := tcp_csum h\<rparr>) @ opts_net os @ pad @ data"

text \<open>The two ends of the connection that a segment belongs to, seen from the receiver.\<close>

definition tcp_ends :: "ip_hdr \<Rightarrow> tcp_hdr \<Rightarrow> nstack_sockaddr \<Rightarrow> nstack_sockaddr \<Rightarrow> bool" where
  "tcp_ends ip h L R \<longleftrightarrow> L = \<lparr>inet4_addr = ip_dst ip, port = ucast (tcp_dport h)\<rparr> \<and>
     R = \<lparr>inet4_addr = ip_src ip, port = ucast (tcp_sport h)\<rparr>"

lemma tcp_rest_ok_size:
  assumes "tcp_rest_ok h os pad"
  shows "tcp_hdr_size h = 20 + int (length (opts_host os) + length pad)"
  using assms by (auto simp: tcp_rest_ok_def tcp_hdr_size_def tcp_opt_size_def split: if_splits)

lemma tcp_doff_bits [simp]:
  "tcp_doff (t\<lparr>tcp_flags := f AND NOT 8\<rparr>) = tcp_doff (t\<lparr>tcp_flags := f\<rparr>)"
  "tcp_doff (t\<lparr>tcp_flags := f OR 0x10\<rparr>) = tcp_doff (t\<lparr>tcp_flags := f\<rparr>)"
proof -
  have fl: "tcp_flags (t\<lparr>tcp_flags := x\<rparr>) = x" for x by simp
  have "(f AND NOT 8) AND 0xf000 = f AND (0xf000 :: u16)" by (simp add: and.assoc)
  then show "tcp_doff (t\<lparr>tcp_flags := f AND NOT 8\<rparr>) = tcp_doff (t\<lparr>tcp_flags := f\<rparr>)" by (simp only: tcp_doff_def fl)
  have "(f OR 0x10) AND 0xf000 = f AND (0xf000 :: u16)" by (simp add: bit.conj_disj_distrib2)
  then show "tcp_doff (t\<lparr>tcp_flags := f OR 0x10\<rparr>) = tcp_doff (t\<lparr>tcp_flags := f\<rparr>)" by (simp only: tcp_doff_def fl)
qed

lemma tcp_rest_ok_doff: "tcp_doff t = tcp_doff u \<Longrightarrow> tcp_rest_ok t os pad = tcp_rest_ok u os pad"
  by (simp add: tcp_rest_ok_def tcp_opt_size_def)

lemma tcp_hdr_size_doff: "tcp_doff t = tcp_doff u \<Longrightarrow> tcp_hdr_size t = tcp_hdr_size u"
  by (simp add: tcp_hdr_size_def)

lemma tcp_input_wire:
  assumes "tcp_wire h os pad data seg" and "tcp_ends ip h L R" and "20 \<le> bsize"
    and "tcp_find_connection s \<lparr>attr_local = L, attr_remote = R\<rparr> = Some conn"
    and "\<And>c. conn = Some c \<Longrightarrow> tcp_live s c \<and> \<not> (has h TCP_SYN \<and> conn_state (tcp_conns s c) \<ge> TCP_ESTABLISHED)"
  shows "tcp_input s ip seg bsize = do {
      (s, conn) \<leftarrow> tcp_input_conn s h \<lparr>attr_local = L, attr_remote = R\<rparr> conn;
      c \<leftarrow> conn;
      (s, tcp, retval) \<leftarrow> tcp_fsm s c h (opts_host os @ pad @ data) ip bsize;
      tcp_fast_reply s \<lparr>attr_local = L, attr_remote = R\<rparr> tcp (opts_host os @ pad @ data) retval
    }"
proof -
  let ?net = "(tcp_hton_fields h)\<lparr>tcp_csum := tcp_csum h\<rparr>"
  have w: "tcp_rest_ok h os pad" "seg = tcp_hdr_bytes ?net @ opts_net os @ pad @ data"
    using assms(1) by (simp_all add: tcp_wire_def)
  have f: "tcp_ntoh_fields ?net = h" by (simp add: tcp_ntoh_hton_fields)
  have n: "tcp_ntoh ?net (opts_net os @ pad @ data) = Some (h, opts_host os @ pad @ data)"
    using tcp_ntoh_ok [of ?net os pad data] w(1) unfolding f by simp
  have p: "ntohs (tcp_dport ?net) = tcp_dport h" "ntohs (tcp_sport ?net) = tcp_sport h"
    by (simp_all add: tcp_hton_fields_def)
  have sz: "\<not> tcp_hdr_size h < 0" using tcp_rest_ok_size [OF w(1)] by simp
  have "drop 20 (tcp_hdr_bytes ?net @ opts_net os @ pad @ data) = opts_net os @ pad @ data" by simp
  moreover have "(case conn of None \<Rightarrow> Some False
      | Some c \<Rightarrow> do {
          t \<leftarrow> conn_at s c;
          Some (has h TCP_SYN \<and> conn_state t \<ge> TCP_ESTABLISHED)
        }) = Some False"
    using assms(5) by (cases conn) (auto simp: conn_at_def)
  ultimately show ?thesis
    using assms(2-4) n p sz unfolding w(2) by (simp add: tcp_input_def tcp_ends_def Let_def)
qed

text \<open>The reply goes back with the ports exchanged and a checksum that verifies.\<close>

lemma tcp_fast_reply_ok:
  fixes L R :: nstack_sockaddr
  assumes "tcp_rest_ok t os pad"
  defines "h \<equiv> t\<lparr>tcp_sport := ucast (port L), tcp_dport := ucast (port R)\<rparr>"
  shows "\<exists>c seg. tcp_fast_reply s \<lparr>attr_local = L, attr_remote = R\<rparr> t (opts_host os @ pad @ data) (tcp_hdr_size t) =
      Some (s, seg, tcp_hdr_size t) \<and> tcp_wire (h\<lparr>tcp_csum := c\<rparr>) os pad data seg \<and>
    tcp_checksum L R seg (nat (tcp_hdr_size t)) = Some 0"
proof -
  have ok: "tcp_rest_ok h os pad" using assms(1) by (subst tcp_rest_ok_doff [of _ t]) (simp_all add: h_def tcp_doff_def)
  note sz = tcp_rest_ok_size [OF assms(1)]
  have "20 \<le> nat (tcp_hdr_size t)" "nat (tcp_hdr_size t) \<le> 20 + length (opts_host os @ pad @ data)" by (simp_all add: sz)
  from tcp_hton_ok [OF ok this, of L R] obtain c where
    "tcp_hton L R h (opts_host os @ pad @ data) (nat (tcp_hdr_size t)) =
      Some ((tcp_hton_fields h)\<lparr>tcp_csum := c\<rparr>, opts_net os @ pad @ data)"
    "tcp_checksum L R (tcp_hdr_bytes ((tcp_hton_fields h)\<lparr>tcp_csum := c\<rparr>) @ opts_net os @ pad @ data) (nat (tcp_hdr_size t)) = Some 0"
    by blast
  moreover have "tcp_hton_fields (h\<lparr>tcp_csum := c\<rparr>) = tcp_hton_fields h" by (simp add: tcp_hton_fields_def)
  moreover have "tcp_hdr_size t > 0" using sz by simp
  ultimately show ?thesis
    using ok by (intro exI [of _ c] exI) (simp add: tcp_fast_reply_def tcp_wire_def h_def)
qed

section \<open>One segment at a time\<close>

text \<open>What the steps of a conversation keep of the rest of the state.\<close>

definition tcp_keeps :: "'a tcp_st_scheme \<Rightarrow> 'a tcp_st_scheme \<Rightarrow> bool" where
  "tcp_keeps s s' \<longleftrightarrow> sockets s' = sockets s \<and> tcp_sock_tree_head s' = tcp_sock_tree_head s \<and> sigusr2 s' = sigusr2 s"

lemma find_tcp_socket_keeps: "tcp_keeps s s' \<Longrightarrow> find_tcp_socket s' L = find_tcp_socket s L"
  by (simp add: tcp_keeps_def find_tcp_socket_def)

text \<open>The control block after a \<^verbatim>\<open>SYN\<close> with sequence number \<open>q\<close> was answered with \<open>r\<close>.\<close>

definition half_open :: "nstack_sockaddr \<Rightarrow> nstack_sockaddr \<Rightarrow> u32 \<Rightarrow> u32 \<Rightarrow> tcp_conn_tcb" where
  "half_open L R q r = zero_tcb\<lparr>conn_local := L, conn_remote := R, conn_state := TCP_SYN_RCVD, recv_next := q + 1, send_next := r + 1\<rparr>"

lemma ucast_port [simp]: "ucast (ucast (x :: u16) :: u32) = x"
  by (rule bit_word_eqI) (auto simp: bit_simps)

lemma tcp_fsm_idle:
  assumes "tcp_live s c" and "rtt (tcp_conns s c) = 0"
  shows "tcp_fsm s c rs rest ip bsize = (case conn_state (tcp_conns s c) of
       TCP_CLOSED \<Rightarrow> Some (s, rs, 0)
     | TCP_SYN_SENT \<Rightarrow> tcp_fsm_syn_sent s c rs ip
     | TCP_LISTEN \<Rightarrow> tcp_fsm_listen s c rs ip
     | TCP_SYN_RCVD \<Rightarrow> tcp_fsm_syn_rcvd s c rs
     | TCP_ESTABLISHED \<Rightarrow> tcp_fsm_established s c rs rest ip bsize
     | TCP_FIN_WAIT_1 \<Rightarrow> Some (s, rs, 0)
     | TCP_FIN_WAIT_2 \<Rightarrow> Some (s, rs, 0)
     | TCP_CLOSE_WAIT \<Rightarrow> Some (s, rs, 0)
     | TCP_CLOSING \<Rightarrow> Some (s, rs, 0)
     | TCP_LAST_ACK \<Rightarrow> tcp_fsm_last_ack s c rs
     | TCP_TIME_WAIT \<Rightarrow> Some (s, rs, - EINVAL))"
  using assms by (simp add: tcp_fsm_def conn_upd_def conn_at_def)

lemma tcp_input_syn:
  assumes "tcp_server s L A" and "\<And>a. a \<in> A \<Longrightarrow> conn_remote (tcp_conns s a) \<noteq> R"
    and "tcp_wire h os pad data seg" and "tcp_ends ip h L R" and "20 \<le> bsize" and "has h TCP_SYN"
    and "find_tcp_socket s L = Some (Some i)"
  obtains s' seg' k where "tcp_input s ip seg bsize = Some (s', seg', tcp_hdr_size h)"
    and "tcp_wire (h\<lparr>tcp_flags := tcp_flags h OR TCP_ACK, tcp_ack_num := tcp_seqno h + 1, tcp_seqno := urandom s 0,
        tcp_sport := tcp_dport h, tcp_dport := tcp_sport h, tcp_csum := k\<rparr>) os pad data seg'"
    and "tcp_checksum L R seg' (nat (tcp_hdr_size h)) = Some 0"
    and "tcp_server s' L (A \<union> {tcp_conn_brk s})" and "tcp_keeps s s'"
    and "tcp_conns s' (tcp_conn_brk s) = half_open L R (tcp_seqno h) (urandom s 0)"
    and "tqh_first (tcp_links s') (unacked_list (tcp_conn_brk s)) = None"
proof -
  let ?attr = "\<lparr>attr_local = L, attr_remote = R\<rparr>" and ?c = "tcp_conn_brk s"
  let ?s1 = "s\<lparr>tcp_conn_brk := Suc ?c, tcp_live := (tcp_live s)(?c := True),
      tcp_conns := (tcp_conns s)(?c := zero_tcb\<lparr>conn_local := L, conn_remote := R\<rparr>),
      tcp_links := zero_lists (tcp_links s) ?c\<rparr>"
  obtain m where m: "tcp_new_connection s ?attr = Some (?s1\<lparr>tcp_conn_map := m\<rparr>, ?c)"
    "tcp_server (?s1\<lparr>tcp_conn_map := m\<rparr>) L (A \<union> {?c})"
    using tcp_new_connection_ok [OF assms(1,2)] by blast
  let ?t = "zero_tcb\<lparr>conn_local := L, conn_remote := R, conn_state := TCP_LISTEN\<rparr>"
  let ?s2 = "s\<lparr>tcp_conn_brk := Suc ?c, tcp_live := (tcp_live s)(?c := True), tcp_conns := (tcp_conns s)(?c := ?t),
      tcp_links := zero_lists (tcp_links s) ?c, tcp_conn_map := m\<rparr>"
  let ?s3 = "?s2\<lparr>tcp_conns := (tcp_conns s)(?c := half_open L R (tcp_seqno h) (urandom s 0)), urandom := \<lambda>n. urandom s (Suc n)\<rparr>"
  let ?h = "h\<lparr>tcp_flags := tcp_flags h OR TCP_ACK, tcp_ack_num := tcp_seqno h + 1, tcp_seqno := urandom s 0\<rparr>"
  have new: "tcp_input_conn s h ?attr None = Some (?s2, Some ?c)"
    using m(1) assms(6) by (simp add: tcp_input_conn_def conn_upd_def conn_at_def)
  have L: "L = \<lparr>inet4_addr = ip_dst ip, port = ucast (tcp_dport h)\<rparr>" using assms(4) by (simp add: tcp_ends_def)
  have "find_tcp_socket ?s2 L = Some (Some i)" using assms(7) by (simp add: find_tcp_socket_def)
  then have fsm: "tcp_fsm ?s2 ?c h (opts_host os @ pad @ data) ip bsize = Some (?s3, ?h, tcp_hdr_size ?h)"
    using assms(6) by (subst tcp_fsm_idle)
      (simp_all add: zero_tcb_def tcp_fsm_listen_def L [symmetric] read_urandom_def conn_upd_def conn_at_def half_open_def Let_def)
  have doff: "tcp_doff ?h = tcp_doff h" using tcp_doff_bits(2) [where t = h and f = "tcp_flags h"] by (simp add: tcp_doff_def)
  have ok: "tcp_rest_ok ?h os pad" using assms(3) tcp_rest_ok_doff [OF doff] by (simp add: tcp_wire_def)
  obtain k seg' where r: "tcp_fast_reply ?s3 ?attr ?h (opts_host os @ pad @ data) (tcp_hdr_size ?h) = Some (?s3, seg', tcp_hdr_size ?h)"
    "tcp_wire (?h\<lparr>tcp_sport := ucast (port L), tcp_dport := ucast (port R), tcp_csum := k\<rparr>) os pad data seg'"
    "tcp_checksum L R seg' (nat (tcp_hdr_size ?h)) = Some 0"
    using tcp_fast_reply_ok [OF ok, of ?s3 L R data] by blast
  have "tcp_input s ip seg bsize = Some (?s3, seg', tcp_hdr_size h)"
    using tcp_input_wire [OF assms(3,4,5) tcp_find_miss [OF assms(1,2)]] new fsm r(1) tcp_hdr_size_doff [OF doff] by simp
  moreover have "ucast (port L) = tcp_dport h" "ucast (port R) = tcp_sport h"
    using assms(4) by (simp_all add: tcp_ends_def)
  moreover have "tcp_server ?s3 L (A \<union> {?c})"
    using tcp_server_upd [OF m(2), of ?c "half_open L R (tcp_seqno h) (urandom s 0)"]
    by (simp add: tcp_server_def conn_attr_def half_open_def)
  moreover have "tcp_keeps s ?s3" "tqh_first (tcp_links ?s3) (unacked_list ?c) = None"
    by (simp_all add: tcp_keeps_def zero_lists_def)
  ultimately show thesis
    using r(2,3) tcp_hdr_size_doff [OF doff] by (intro that [of ?s3 seg' k]) simp_all
qed

definition opened :: "nstack_sockaddr \<Rightarrow> nstack_sockaddr \<Rightarrow> u32 \<Rightarrow> u32 \<Rightarrow> tcp_conn_tcb" where
  "opened L R q r = (half_open L R q r)\<lparr>conn_state := TCP_ESTABLISHED\<rparr>"

lemmas conn_blocks = opened_def half_open_def zero_tcb_def

lemma tcp_input_ack:
  assumes "tcp_server s L A" and "c \<in> A" and "tcp_conns s c = half_open L R q r"
    and "tcp_wire h os pad data seg" and "tcp_ends ip h L R" and "20 \<le> bsize"
    and "has h TCP_ACK" and "\<not> has h TCP_RST" and "tcp_seqno h = q + 1" and "tcp_ack_num h = r + 1"
  defines "s' \<equiv> s\<lparr>tcp_conns := (tcp_conns s)(c := opened L R q r)\<rparr>"
  shows "tcp_input s ip seg bsize = Some (s', tcp_hdr_bytes h @ opts_host os @ pad @ data, 0) \<and> tcp_server s' L A \<and> tcp_keeps s s'"
proof (intro conjI)
  have live: "tcp_live s c" using assms(1,2) by (rule tcp_serverD)
  have find: "tcp_find_connection s \<lparr>attr_local = L, attr_remote = R\<rparr> = Some (Some c)"
    by (rule tcp_find_hit [OF assms(1,2)]) (simp add: assms(3) conn_blocks)
  have fsm: "tcp_fsm s c h (opts_host os @ pad @ data) ip bsize = Some (s', h, 0)"
    using live assms(3,7-10) unfolding s'_def
    by (subst tcp_fsm_idle) (simp_all add: conn_blocks tcp_fsm_syn_rcvd_def conn_at_def conn_upd_def fun_upd_idem)
  have "tcp_live s c' \<and> \<not> (has h TCP_SYN \<and> conn_state (tcp_conns s c') \<ge> TCP_ESTABLISHED)" if "Some c = Some c'" for c'
    using that live assms(3) by (simp add: conn_blocks less_eq_tcp_state_def)
  then show "tcp_input s ip seg bsize = Some (s', tcp_hdr_bytes h @ opts_host os @ pad @ data, 0)"
    using tcp_input_wire [OF assms(4-6) find] fsm by (simp add: tcp_input_conn_def tcp_fast_reply_def)
  show "tcp_server s' L A"
    unfolding s'_def using assms(1,2) by (rule tcp_server_upd) (simp add: assms(3) conn_blocks conn_attr_def)
qed (simp add: tcp_keeps_def s'_def)

lemma ack_opened:
  assumes "tcp_live s c" and "tcp_conns s c = opened L R q r" and "tcp_ack_num h = r + 1"
    and "tqh_first (tcp_links s) (unacked_list c) = None"
  shows "tcp_ack_segments s c h = Some (s\<lparr>tcp_conns := (tcp_conns s)(c := (opened L R q r)\<lparr>send_una := r + 1\<rparr>)\<rparr>)"
proof (cases "r + 1 = 0")
  case True
  have o: "(opened L R q r)\<lparr>send_una := 0\<rparr> = opened L R q r" by (simp add: conn_blocks)
  have "s\<lparr>tcp_conns := (tcp_conns s)(c := (opened L R q r)\<lparr>send_una := r + 1\<rparr>)\<rparr> = s"
    using True o assms(2) by (simp add: fun_upd_idem)
  moreover have "send_una (tcp_conns s c) = 0" by (simp add: assms(2) conn_blocks)
  ultimately show ?thesis
    using assms(1,3) True by (simp add: tcp_ack_segments_def conn_at_def)
next
  case False
  have loop: "tcp_ack_loop u c None = Some u" for u :: "'a tcp_st_scheme" by (subst tcp_ack_loop.simps) simp
  from False have "0 < r + 1" by (simp add: word_neq_0_conv)
  then show ?thesis
    using assms False
    by (simp add: tcp_ack_segments_def conn_at_def conn_upd_def tcp_lock_def tcp_unlock_def conn_blocks loop TAILQ_FIRST_def fun_upd_idem)
qed

lemma size_of_int_nat: "n < 2 ^ 64 \<Longrightarrow> size_of_int (int n) = n"
  by (simp add: size_of_int_def unat_of_nat)

lemma tcp_doff_le: "tcp_doff h \<le> 15"
proof -
  have "tcp_flags h AND 0xf000 \<le> 0xf000" by (rule word_and_le1)
  then have "unat (tcp_flags h AND 0xf000) \<le> 0xf000" by (simp add: word_le_nat_alt)
  then have "unat (tcp_flags h AND 0xf000) div 4096 \<le> 0xf000 div 4096" by (rule div_le_mono)
  then show ?thesis by (simp add: tcp_doff_def unat_div drop_bit_eq_div)
qed

lemma tcp_hdr_size_le: "tcp_hdr_size h \<le> 60"
  using tcp_doff_le [of h] by (simp add: tcp_hdr_size_def)

lemma tcp_wire_sizes:
  assumes "tcp_wire h os pad data seg" and "length data \<le> 4072"
  obtains n where "tcp_hdr_size h = int n" "size_of_int (int n) = n" "size_sub (length seg) n = length data"
    "20 \<le> length seg" "length seg = n + length data" "drop n (tcp_hdr_bytes t @ opts_host os @ pad @ data) = data"
proof -
  let ?n = "20 + length (opts_host os) + length pad"
  have size: "tcp_hdr_size h = int ?n" using tcp_rest_ok_size [of h os pad] assms(1) by (simp add: tcp_wire_def)
  moreover have len: "length seg = ?n + length data"
    using assms(1) length_opts_bytes [of htons htonl os "\<lambda>a. a" "\<lambda>a. a"] by (simp add: tcp_wire_def)
  moreover have "?n \<le> 60" using tcp_hdr_size_le [of h] size by linarith
  then have b: "?n + length data < 2 ^ 64" using assms(2) by simp
  then have "size_of_int (int ?n) = ?n" by (intro size_of_int_nat) simp
  moreover have "size_sub (length seg) ?n = length data"
    unfolding len by (subst size_sub_le [OF _ b]) simp_all
  ultimately show thesis by (intro that [of ?n]) simp_all
qed

lemma opened_fields [simp]:
  "recv_next (opened L R q r) = q + 1" "send_next (opened L R q r) = r + 1"
  "(opened L R q r)\<lparr>send_una := u, recv_next := v, send_next := r + 1\<rparr> = (opened L R q r)\<lparr>send_una := u, recv_next := v\<rparr>"
  by (simp_all add: conn_blocks)

lemma tcp_input_data:
  assumes "tcp_server s L A" and "c \<in> A" and "tcp_conns s c = opened L R q r"
    and "tqh_first (tcp_links s) (unacked_list c) = None"
    and "tcp_wire h os pad data seg" and "tcp_ends ip h L R"
    and "has h TCP_ACK" and "has h TCP_PSH" and "\<not> has h TCP_SYN" and "tcp_seqno h = q + 1" and "tcp_ack_num h = r + 1"
    and "find_tcp_socket s L = Some (Some i)" and "dgram_wf (ingress (sockets s i))"
    and "length (dgram_list (ingress (sockets s i))) < 3" and "length data \<le> 4072"
  obtains s' seg' k where "tcp_input s ip seg (length seg) = Some (s', seg', tcp_hdr_size h)"
    and "tcp_wire (h\<lparr>tcp_flags := tcp_flags h AND NOT TCP_PSH, tcp_ack_num := tcp_seqno h + of_nat (length data),
        tcp_seqno := r + 1, tcp_sport := tcp_dport h, tcp_dport := tcp_sport h, tcp_csum := k\<rparr>) os pad data seg'"
    and "tcp_checksum L R seg' (nat (tcp_hdr_size h)) = Some 0"
    and "dgram_wf (ingress (sockets s' i))"
    and "dgram_list (ingress (sockets s' i)) = dgram_list (ingress (sockets s i)) @ [(R, sock_addr_of s i, data)]"
    and "sigusr2 s' = sigusr2 s @ [pid_end (sock_ctrl (sockets s i))]"
proof -
  let ?attr = "\<lparr>attr_local = L, attr_remote = R\<rparr>"
  let ?rest = "opts_host os @ pad @ data"
  let ?t1 = "(opened L R q r)\<lparr>send_una := r + 1\<rparr>"
  let ?h = "h\<lparr>tcp_flags := tcp_flags h AND NOT TCP_PSH, tcp_ack_num := tcp_seqno h + of_nat (length data), tcp_seqno := r + 1\<rparr>"
  let ?s2 = "s\<lparr>tcp_conns := (tcp_conns s)(c := ?t1\<lparr>recv_next := tcp_ack_num ?h\<rparr>)\<rparr>"
  have ok: "tcp_rest_ok h os pad" using assms(5) by (simp add: tcp_wire_def)
  have live: "tcp_live s c" using assms(1,2) by (rule tcp_serverD)
  have find: "tcp_find_connection s ?attr = Some (Some c)"
    by (rule tcp_find_hit [OF assms(1,2)]) (simp add: assms(3) conn_blocks)
  have doff: "tcp_doff (h\<lparr>tcp_flags := tcp_flags h AND NOT TCP_PSH, tcp_ack_num := a, tcp_seqno := b\<rparr>) = tcp_doff h"
    "tcp_doff (h\<lparr>tcp_flags := tcp_flags h AND NOT TCP_PSH\<rparr>) = tcp_doff h" for a b
    using tcp_doff_bits(1) [where t = h and f = "tcp_flags h"] by (simp_all add: tcp_doff_def)
  obtain n where size: "tcp_hdr_size h = int n" and sz: "size_of_int (int n) = n" "size_sub (length seg) n = length data"
    "20 \<le> length seg" and len: "length seg = n + length data" and drop: "drop n (tcp_hdr_bytes ?h @ ?rest) = data"
    by (rule tcp_wire_sizes [OF assms(5,15)])
  have R: "\<lparr>inet4_addr = ip_src ip, port = ucast (tcp_sport h)\<rparr> = R" "\<lparr>inet4_addr = ip_dst ip, port = ucast (tcp_dport h)\<rparr> = L"
    using assms(6) by (simp_all add: tcp_ends_def)
  obtain d where d: "nstack_sock_dgram_input ?s2 i R (data @ []) (length data) =
      Some (?s2\<lparr>sockets := (sockets s)(i := (sockets s i)\<lparr>ingress := d\<rparr>),
              sigusr2 := sigusr2 s @ [pid_end (sock_ctrl (sockets s i))]\<rparr>, 0)"
    "dgram_wf d" "dgram_list d = dgram_list (ingress (sockets s i)) @ [(R, sock_addr_of s i, data)]"
    using nstack_sock_dgram_input_ok [of ?s2 i data R "[]"] assms(13-15) by auto
  let ?s3 = "?s2\<lparr>sockets := (sockets s)(i := (sockets s i)\<lparr>ingress := d\<rparr>),
              sigusr2 := sigusr2 s @ [pid_end (sock_ctrl (sockets s i))]\<rparr>"
  have sock: "find_tcp_socket ?s2 L = Some (Some i)" using assms(12) by (simp add: find_tcp_socket_def)
  have fsm: "tcp_fsm s c h ?rest ip (length seg) = Some (?s3, ?h, int n)"
  proof -
    have "tcp_fsm s c h ?rest ip (length seg) = tcp_fsm_established s c h ?rest ip (length seg)"
      using live assms(3) by (subst tcp_fsm_idle) (simp_all add: conn_blocks)
    also have "\<dots> = Some (?s3, ?h, int n)"
      using ack_opened [OF live assms(3,11,4)] live assms(7,8,10,11) sock d(1) size sz drop len
        tcp_hdr_size_doff [OF doff(1)] tcp_hdr_size_doff [OF doff(2)]
      by (simp add: tcp_fsm_established_def conn_at_def conn_upd_def R Let_def) 
    finally show ?thesis .
  qed
  obtain k seg' where r: "tcp_fast_reply ?s3 ?attr ?h ?rest (tcp_hdr_size ?h) = Some (?s3, seg', tcp_hdr_size ?h)"
    "tcp_wire (?h\<lparr>tcp_sport := ucast (port L), tcp_dport := ucast (port R), tcp_csum := k\<rparr>) os pad data seg'"
    "tcp_checksum L R seg' (nat (tcp_hdr_size ?h)) = Some 0"
    using tcp_fast_reply_ok [of ?h os pad ?s3 L R data] ok tcp_rest_ok_doff [OF doff(1)] by blast
  have hs: "tcp_hdr_size ?h = int n" using tcp_hdr_size_doff [OF doff(1)] size by simp
  have "tcp_live s c' \<and> \<not> (has h TCP_SYN \<and> conn_state (tcp_conns s c') \<ge> TCP_ESTABLISHED)" if "Some c = Some c'" for c'
    using that live assms(9) by simp
  then have "tcp_input s ip seg (length seg) = Some (?s3, seg', tcp_hdr_size h)"
    using tcp_input_wire [OF assms(5,6) sz(3) find] fsm r(1) [unfolded hs] by (simp add: tcp_input_conn_def size)
  moreover have "ucast (port L) = tcp_dport h" "ucast (port R) = tcp_sport h" unfolding R [symmetric] by simp_all
  ultimately show thesis
    using r(2,3) [unfolded hs] d(2,3) by (intro that [of ?s3 seg' k]) (simp_all add: size)
qed

section \<open>A conversation\<close>

definition tcp_bound :: "'a sock_st_scheme \<Rightarrow> nat set \<Rightarrow> bool" where
  "tcp_bound s A \<longleftrightarrow> rbi.keyed (\<lambda>a. addr_key (sock_addr_of s a)) (tcp_sock_tree_head s) A"

lemma find_tcp_socket_hit:
  assumes "tcp_bound s A" and "a \<in> A" and "sock_addr_of s a = addr"
  shows "find_tcp_socket s addr = Some (Some a)"
  unfolding find_tcp_socket_def
  by (rule rbi.find_hit [OF assms(1) [unfolded tcp_bound_def] _ assms(2)])
    (use udp_by_key [of addr "sock_addr_of s" A] in \<open>simp_all add: assms(3) tcp_socket_cmp_def udp_socket_cmp_def\<close>)

text \<open>
  C36: A client talks to a listening socket in three segments: a \<^verbatim>\<open>SYN\<close>, the acknowledgment of the
  reply and a segment of data, each with any options that the code knows. \<^verbatim>\<open>tcp_input\<close> answers the
  first with \<^verbatim>\<open>SYN\<close> and \<^verbatim>\<open>ACK\<close>, its own random sequence number and a checksum that verifies, takes
  the second without a reply, and answers the third with an acknowledgment of exactly the
  bytes of data; then \<^verbatim>\<open>nstack_recvfrom\<close> of the application gets these bytes and the address of
  the client. The other connections of the socket's address stay as they were in the tree.
\<close>

theorem tcp_server_conversation:
  assumes "tcp_server s L A" and "\<And>a. a \<in> A \<Longrightarrow> conn_remote (tcp_conns s a) \<noteq> R"
    and "tcp_bound s B" and "i \<in> B" and "sock_addr_of s i = L"
    and "dgram_wf (ingress (sockets s i))" and "dgram_list (ingress (sockets s i)) = []"
    and "tcp_wire syn os1 pad1 data1 seg1" and "tcp_ends ip1 syn L R" and "has syn TCP_SYN"
    and "tcp_wire ack os2 pad2 data2 seg2" and "tcp_ends ip2 ack L R" and "has ack TCP_ACK" and "\<not> has ack TCP_RST"
    and "tcp_wire psh os3 pad3 data seg3" and "tcp_ends ip3 psh L R" and "has psh TCP_ACK" and "has psh TCP_PSH"
    and "\<not> has psh TCP_SYN"
    and "tcp_seqno ack = tcp_seqno syn + 1" and "tcp_ack_num ack = urandom s 0 + 1"
    and "tcp_seqno psh = tcp_seqno syn + 1" and "tcp_ack_num psh = urandom s 0 + 1"
    and "length data \<le> 4072" and "length data \<le> length buffer"
  shows "\<exists>s1 r1 k1 s2 r2 s3 r3 k3 q.
    tcp_input s ip1 seg1 (length seg1) = Some (s1, r1, tcp_hdr_size syn) \<and>
    tcp_wire (syn\<lparr>tcp_flags := tcp_flags syn OR TCP_ACK, tcp_ack_num := tcp_seqno syn + 1, tcp_seqno := urandom s 0,
        tcp_sport := tcp_dport syn, tcp_dport := tcp_sport syn, tcp_csum := k1\<rparr>) os1 pad1 data1 r1 \<and>
    tcp_checksum L R r1 (nat (tcp_hdr_size syn)) = Some 0 \<and>
    tcp_input s1 ip2 seg2 (length seg2) = Some (s2, r2, 0) \<and> tcp_server s2 L (A \<union> {tcp_conn_brk s}) \<and>
    tcp_input s2 ip3 seg3 (length seg3) = Some (s3, r3, tcp_hdr_size psh) \<and>
    tcp_wire (psh\<lparr>tcp_flags := tcp_flags psh AND NOT TCP_PSH, tcp_ack_num := tcp_seqno psh + of_nat (length data),
        tcp_seqno := urandom s 0 + 1, tcp_sport := tcp_dport psh, tcp_dport := tcp_sport psh, tcp_csum := k3\<rparr>) os3 pad3 data r3 \<and>
    tcp_checksum L R r3 (nat (tcp_hdr_size psh)) = Some 0 \<and>
    nstack_recvfrom (ingress (sockets s3 i)) buffer (length buffer) False =
      Some (q, data @ drop (length data) buffer, R, int (length data))"
proof -
  let ?c = "tcp_conn_brk s"
  have sock: "find_tcp_socket s L = Some (Some i)" using assms(3-5) by (rule find_tcp_socket_hit)
  have long: "20 \<le> length seg1" "20 \<le> length seg2" using assms(8,11) by (simp_all add: tcp_wire_def)
  obtain s1 r1 k1 where 1: "tcp_input s ip1 seg1 (length seg1) = Some (s1, r1, tcp_hdr_size syn)"
    "tcp_wire (syn\<lparr>tcp_flags := tcp_flags syn OR TCP_ACK, tcp_ack_num := tcp_seqno syn + 1, tcp_seqno := urandom s 0,
        tcp_sport := tcp_dport syn, tcp_dport := tcp_sport syn, tcp_csum := k1\<rparr>) os1 pad1 data1 r1"
    "tcp_checksum L R r1 (nat (tcp_hdr_size syn)) = Some 0" "tcp_server s1 L (A \<union> {?c})" "tcp_keeps s s1"
    "tcp_conns s1 ?c = half_open L R (tcp_seqno syn) (urandom s 0)" "tqh_first (tcp_links s1) (unacked_list ?c) = None"
    by (rule tcp_input_syn [OF assms(1,2,8,9) long(1) assms(10) sock])
  let ?s2 = "s1\<lparr>tcp_conns := (tcp_conns s1)(?c := opened L R (tcp_seqno syn) (urandom s 0))\<rparr>"
  have 2: "tcp_input s1 ip2 seg2 (length seg2) = Some (?s2, tcp_hdr_bytes ack @ opts_host os2 @ pad2 @ data2, 0)"
    "tcp_server ?s2 L (A \<union> {?c})" "tcp_keeps s1 ?s2"
    using tcp_input_ack [OF 1(4) _ 1(6) assms(11,12) long(2) assms(13,14,20,21)] by simp_all
  have k: "sockets ?s2 = sockets s" "find_tcp_socket ?s2 L = Some (Some i)"
    using 1(5) sock by (simp_all add: tcp_keeps_def find_tcp_socket_def)
  have ring: "dgram_wf (ingress (sockets ?s2 i))" "length (dgram_list (ingress (sockets ?s2 i))) < 3"
    using assms(6,7) unfolding k(1) by simp_all
  have conn: "?c \<in> A \<union> {?c}" "tcp_conns ?s2 ?c = opened L R (tcp_seqno syn) (urandom s 0)"
    "tqh_first (tcp_links ?s2) (unacked_list ?c) = None" using 1(7) by simp_all
  obtain s3 r3 k3 where 3: "tcp_input ?s2 ip3 seg3 (length seg3) = Some (s3, r3, tcp_hdr_size psh)"
    "tcp_wire (psh\<lparr>tcp_flags := tcp_flags psh AND NOT TCP_PSH, tcp_ack_num := tcp_seqno psh + of_nat (length data),
        tcp_seqno := urandom s 0 + 1, tcp_sport := tcp_dport psh, tcp_dport := tcp_sport psh, tcp_csum := k3\<rparr>) os3 pad3 data r3"
    "tcp_checksum L R r3 (nat (tcp_hdr_size psh)) = Some 0"
    "dgram_wf (ingress (sockets s3 i))" "dgram_list (ingress (sockets s3 i)) = dgram_list (ingress (sockets ?s2 i)) @ [(R, sock_addr_of ?s2 i, data)]"
    by (rule tcp_input_data [OF 2(2) conn assms(15-19,22,23) k(2) ring assms(24)])
  have "dgram_list (ingress (sockets s3 i)) = [(R, sock_addr_of ?s2 i, data)]" using 3(5) assms(7) unfolding k(1) by simp
  from nstack_recvfrom_ok [OF 3(4) this, of "length buffer" buffer] obtain q where
    "nstack_recvfrom (ingress (sockets s3 i)) buffer (length buffer) False =
      Some (q, take (length buffer) data @ drop (min (length buffer) (length data)) buffer, R, int (min (length buffer) (length data)))"
    by auto
  then have "nstack_recvfrom (ingress (sockets s3 i)) buffer (length buffer) False =
      Some (q, data @ drop (length data) buffer, R, int (length data))"
    using assms(25) by (simp add: min_def)
  with 1(1-3) 2(1,2) 3(1-3) show ?thesis by blast
qed

text \<open>
  One segment stops the stack. If an option of the segment, after any number of options that
  the code knows, has a kind it does not know or the length zero, \<^verbatim>\<open>tcp_input\<close> does not return:
  the loop over the options stays at that option. No connection and no bound port is needed.
\<close>

theorem tcp_input_hangs:
  assumes "\<forall>x\<in>set os. opt_ok x" and "int (length (opts_net os)) < tcp_opt_size (tcp_ntoh_fields net)"
    and "opt_stuck post 0" and "20 \<le> bsize"
  shows "tcp_input s ip (tcp_hdr_bytes net @ opts_net os @ post) bsize = None"
proof -
  have "tcp_ntoh net (opts_net os @ post) = None"
    using opts_hang [OF assms(1-3), of ntohs ntohl] by (simp add: tcp_ntoh_def tcp_ntoh_opt_def Let_def)
  then show ?thesis using assms(4) by (simp add: tcp_input_def Let_def)
qed

section \<open>A listening socket and its client\<close>

definition demo_listen :: tcp_st where
  "demo_listen = (demo_conns ((demo_socks (rb_single 0) (demo_frag (demo_arp_stack demo_route_st)))\<lparr>tcp_sock_tree_head := rb_single 0\<rparr>))
     \<lparr>tcp_conn_map := \<lparr>rbh_root = None, rb_links = (\<lambda>_. rb_zero)\<rparr>\<rparr>"

definition demo_ack :: tcp_hdr where
  "demo_ack = demo_syn\<lparr>tcp_seqno := 8, tcp_ack_num := 5001, tcp_flags := 0x5010\<rparr>"

definition demo_psh :: tcp_hdr where
  "demo_psh = demo_syn\<lparr>tcp_seqno := 8, tcp_ack_num := 5001, tcp_flags := 0x5018\<rparr>"

definition demo_seg_bytes :: "tcp_hdr \<Rightarrow> tcp_opt list \<Rightarrow> bytes \<Rightarrow> bytes" where
  "demo_seg_bytes h os data = tcp_hdr_bytes ((tcp_hton_fields h)\<lparr>tcp_csum := tcp_csum h\<rparr>) @ opts_net os @ [] @ data"

lemma demo_segments:
  "tcp_wire demo_syn demo_opts [] [] (demo_seg_bytes demo_syn demo_opts [])"
  "tcp_wire demo_ack [] [] [] (demo_seg_bytes demo_ack [] [])"
  "tcp_wire demo_psh [] [] [1, 2, 3] (demo_seg_bytes demo_psh [] [1, 2, 3])"
  using demo_syn_rest
  by (simp_all add: tcp_wire_def demo_seg_bytes_def tcp_rest_ok_def demo_ack_def demo_psh_def demo_syn_def
      tcp_opt_size_def tcp_doff_def)

lemma demo_ends:
  "tcp_ends (demo_hdr 6 n) demo_syn demo_addr demo_peer" "tcp_ends (demo_hdr 6 n) demo_ack demo_addr demo_peer"
  "tcp_ends (demo_hdr 6 n) demo_psh demo_addr demo_peer"
  by (simp_all add: tcp_ends_def demo_hdr_def demo_syn_def demo_ack_def demo_psh_def demo_addr_def demo_peer_def)

lemma demo_listen_fields [simp]: "sockets demo_listen = (\<lambda>_. demo_sock)" "urandom demo_listen n = 5000"
  by (simp_all add: demo_listen_def demo_conns_def sock_st.defs demo_socks_def frag_st.defs)

lemma demo_listen_ok: "tcp_server demo_listen demo_addr {}" "tcp_bound demo_listen {0}"
  using keyed_single keyed_empty [of _ "\<lparr>rbh_root = None, rb_links = (\<lambda>_. rb_zero)\<rparr>"]
  by (simp_all add: tcp_server_def tcp_bound_def demo_listen_def demo_conns_def sock_st.defs)

theorem tcp_server_conversation_witness:
  "\<exists>s1 r1 s2 r2 s3 r3 q. tcp_input demo_listen (demo_hdr 6 40) (demo_seg_bytes demo_syn demo_opts []) 40 = Some (s1, r1, 40) \<and>
    tcp_input s1 (demo_hdr 6 20) (demo_seg_bytes demo_ack [] []) 20 = Some (s2, r2, 0) \<and>
    tcp_input s2 (demo_hdr 6 23) (demo_seg_bytes demo_psh [] [1, 2, 3]) 23 = Some (s3, r3, 20) \<and>
    nstack_recvfrom (ingress (sockets s3 0)) (replicate 5 0) 5 False = Some (q, [1, 2, 3, 0, 0], demo_peer, 3)"
proof -
  have sz: "tcp_hdr_size demo_syn = 40" "tcp_hdr_size demo_psh = 20"
    by (simp_all add: tcp_hdr_size_def tcp_doff_def demo_syn_def demo_psh_def)
  have len: "length (demo_seg_bytes demo_syn demo_opts []) = 40" "length (demo_seg_bytes demo_ack [] []) = 20"
    "length (demo_seg_bytes demo_psh [] [1, 2, 3]) = 23"
    by (simp_all add: demo_seg_bytes_def demo_opts_def)
  have ring: "sock_addr_of demo_listen 0 = demo_addr" "dgram_wf (ingress (sockets demo_listen 0))"
    "dgram_list (ingress (sockets demo_listen 0)) = []"
    using demo_dring_wf by (simp_all add: demo_sock_def)
  have none: "conn_remote (tcp_conns demo_listen a) \<noteq> demo_peer" if "a \<in> {}" for a using that by simp
  have bits: "has demo_syn TCP_SYN" "has demo_ack TCP_ACK" "\<not> has demo_ack TCP_RST" "has demo_psh TCP_ACK"
    "has demo_psh TCP_PSH" "\<not> has demo_psh TCP_SYN"
    by (simp_all add: demo_syn_def demo_ack_def demo_psh_def)
  have seq: "tcp_seqno demo_ack = tcp_seqno demo_syn + 1" "tcp_ack_num demo_ack = urandom demo_listen 0 + 1"
    "tcp_seqno demo_psh = tcp_seqno demo_syn + 1" "tcp_ack_num demo_psh = urandom demo_listen 0 + 1"
    by (simp_all add: demo_syn_def demo_ack_def demo_psh_def)
  have small: "length [1, 2, 3 :: u8] \<le> 4072" "length [1, 2, 3 :: u8] \<le> length (replicate 5 (0 :: u8))" by simp_all
  have buf: "[1, 2, 3] @ drop (length [1, 2, 3 :: u8]) (replicate 5 (0 :: u8)) = [1, 2, 3, 0, 0]" by (simp add: eval_nat_numeral)
  obtain s1 r1 s2 r2 s3 r3 q where
    "tcp_input demo_listen (demo_hdr 6 40) (demo_seg_bytes demo_syn demo_opts []) (length (demo_seg_bytes demo_syn demo_opts [])) =
      Some (s1, r1, tcp_hdr_size demo_syn)"
    "tcp_input s1 (demo_hdr 6 20) (demo_seg_bytes demo_ack [] []) (length (demo_seg_bytes demo_ack [] [])) = Some (s2, r2, 0)"
    "tcp_input s2 (demo_hdr 6 23) (demo_seg_bytes demo_psh [] [1, 2, 3]) (length (demo_seg_bytes demo_psh [] [1, 2, 3])) =
      Some (s3, r3, tcp_hdr_size demo_psh)"
    "nstack_recvfrom (ingress (sockets s3 0)) (replicate 5 0) (length (replicate 5 (0 :: u8))) False =
      Some (q, [1, 2, 3] @ drop (length [1, 2, 3 :: u8]) (replicate 5 0), demo_peer, int (length [1, 2, 3 :: u8]))"
    using tcp_server_conversation [OF demo_listen_ok(1) none demo_listen_ok(2) singletonI ring demo_segments(1) demo_ends(1) [of 40] bits(1)
        demo_segments(2) demo_ends(2) [of 20] bits(2,3) demo_segments(3) demo_ends(3) [of 23] bits(4-6) seq small]
    by blast
  then show ?thesis unfolding sz len buf by (auto intro!: exI)
qed

theorem tcp_input_hangs_witness:
  "\<forall>(s :: tcp_st) ip. tcp_input s ip (demo_seg_bytes (demo_syn\<lparr>tcp_flags := 0x7002\<rparr>) [Opt_mss 1460] [30, 4, 0, 1]) 28 = None"
proof (intro allI)
  fix s :: tcp_st and ip
  let ?net = "(tcp_hton_fields (demo_syn\<lparr>tcp_flags := 0x7002\<rparr>))\<lparr>tcp_csum := tcp_csum demo_syn\<rparr>"
  have "int (length (opts_net [Opt_mss 1460])) < tcp_opt_size (tcp_ntoh_fields ?net)"
    by (simp add: tcp_ntoh_hton_fields tcp_opt_size_def tcp_doff_def)
  from tcp_input_hangs [OF _ this, of "[30, 4, 0, 1]" 28 s ip]
  show "tcp_input s ip (demo_seg_bytes (demo_syn\<lparr>tcp_flags := 0x7002\<rparr>) [Opt_mss 1460] [30, 4, 0, 1]) 28 = None"
    by (simp add: opt_stuck_def demo_seg_bytes_def)
qed

end
