(* ===== verification/Ip_Frame.thy ===== *)
theory Ip_Frame
  imports Ip_Output
begin

text \<open>
  What sending leaves alone. A frame changes the error number and the list of frames sent;
  \<^verbatim>\<open>ip_send\<close> changes in addition the packet identifier and the queue of deferred packets. The
  upper layers, whose state extends that of IP, read off that their own fields stay as they
  are.
\<close>

section \<open>Frames\<close>

definition sent :: "'a ether_st_scheme \<Rightarrow> 'a ether_st_scheme \<Rightarrow> bool" where
  "sent s s' \<longleftrightarrow> (\<exists>e t. s' = s\<lparr>io_errno := e, io_tx := t\<rparr>)"

lemma sent_refl [simp]: "sent s s"
  unfolding sent_def by (intro exI [of _ "io_errno s"] exI [of _ "io_tx s"]) simp

lemma sent_errno [simp]: "sent s (s\<lparr>io_errno := e\<rparr>)"
  unfolding sent_def by (intro exI [of _ e] exI [of _ "io_tx s"]) simp

lemma sent_trans: "sent s s1 \<Longrightarrow> sent s1 s2 \<Longrightarrow> sent s s2"
  unfolding sent_def by (elim exE) (simp, blast)

lemma ether_handle2eth_sent: "ether_handle2eth s h = Some (s', r) \<Longrightarrow> sent s s'"
  by (auto simp: ether_handle2eth_def split: if_splits)

lemma ether_handle2addr_sent: "ether_handle2addr s h = Some (s', r) \<Longrightarrow> sent s s'"
  unfolding ether_handle2addr_def
  by (auto simp: bind_eq_Some_iff split: option.splits dest: ether_handle2eth_sent intro: sent_trans)

lemma ether_send_sent:
  assumes "ether_send sendto s h dst proto buf n = Some (s', r)"
  shows "sent s s'"
proof (cases "frame_size n > ETHER_MAXLEN + ETHER_FCS_LEN")
  case True
  then show ?thesis using assms by (simp add: ether_send_def)
next
  case False
  then obtain s1 eth where e: "ether_handle2eth s h = Some (s1, eth)"
    using assms by (auto simp: ether_send_def bind_eq_Some_iff)
  have "sent s1 s'"
  proof (cases eth)
    case None
    then show ?thesis using assms False e by (simp add: ether_send_def)
  next
    case (Some a)
    have upd: "sent s1 (s1\<lparr>io_tx := t\<rparr>)" "sent s1 (s1\<lparr>io_tx := t, io_errno := k\<rparr>)" for t k
      unfolding sent_def by (rule exI [of _ "io_errno s1"], rule exI [of _ t], simp) (rule exI [of _ k], rule exI [of _ t], simp)
    show ?thesis
      using assms False e Some upd
      by (auto simp: ether_send_def bind_eq_Some_iff Let_def split: if_splits prod.splits)
  qed
  with ether_handle2eth_sent [OF e] show ?thesis by (rule sent_trans)
qed

lemma find_by_iface_sent: "ip_route_find_by_iface s a = Some (s', r) \<Longrightarrow> sent s s'"
  by (auto simp: ip_route_find_by_iface_def bind_eq_Some_iff split: option.splits)

lemma find_by_network_sent:
  assumes "ip_route_find_by_network s a = Some (s', r)"
  shows "sent s s'"
proof -
  have "s' = s \<or> s' = s\<lparr>io_errno := ENOENT\<rparr>"
    using assms unfolding ip_route_find_by_network_def bind_eq_Some_iff by (elim exE conjE) (simp split: option.splits)
  then show ?thesis by auto
qed

lemma arp_request_sent: "arp_request sendto s h spa tpa = Some (s', r) \<Longrightarrow> sent s s'"
  unfolding arp_request_def Let_def
  by (auto simp: bind_eq_Some_iff dest!: ether_handle2addr_sent ether_send_sent intro: sent_trans)

lemma arp_resolve_sent:
  assumes "arp_resolve sendto s iface ip = Some (s', r)"
  shows "sent s s'"
proof -
  obtain s1 r1 route where f: "ip_route_find_by_iface s iface = Some (s1, r1, route)"
    using assms by (auto simp: arp_resolve_def bind_eq_Some_iff)
  have "sent s1 s'"
  proof (cases route)
    case None
    then show ?thesis using assms f by (simp add: arp_resolve_def)
  next
    case (Some a)
    then obtain s2 k where k: "arp_request sendto s1 (r_iface_handle a) (r_iface a) ip = Some (s2, k)"
      and s': "s' = (if k = 0 then s2\<lparr>io_errno := EHOSTUNREACH\<rparr> else s2)"
      using assms f by (auto simp: arp_resolve_def bind_eq_Some_iff)
    show ?thesis using arp_request_sent [OF k] unfolding s' by (auto intro: sent_trans)
  qed
  with find_by_iface_sent [OF f] show ?thesis by (rule sent_trans)
qed

lemma arp_cache_get_haddr_sent: "arp_cache_get_haddr sendto s iface ip = Some (s', r) \<Longrightarrow> sent s s'"
  by (auto simp: arp_cache_get_haddr_def bind_eq_Some_iff split: option.splits if_splits dest: arp_resolve_sent)

lemma ip_fragment_loop_sent:
  assumes "ip_fragment_loop sendto h m hlen s payload hdr bytes offset retval = Some r"
  shows "sent s (fst r)"
proof (rule ip_fragment_loop.raw_induct [OF _ assms, where P = "\<lambda>sendto h m hlen s payload hdr bytes offset retval r. sent s (fst r)"])
  fix loop sendto h m hlen and s :: "'a ether_st_scheme" and payload hdr bytes offset retval and r :: "'a ether_st_scheme \<times> int"
  assume IH: "\<And>sendto h m hlen s payload hdr bytes offset retval r.
      loop sendto h m hlen s payload hdr bytes offset retval = Some r \<Longrightarrow> sent s (fst r)"
    and body: "(let plen = unat (next_fragment_size (of_nat bytes) (of_nat hlen) (of_nat ETHER_DATA_LEN));
         bytes = bytes - plen;
         hdr = hdr\<lparr>ip_len := of_nat (hlen + plen), ip_foff := (if bytes \<noteq> 0 then IP_FLAGS_MF else 0) OR of_nat (offset div 8)\<rparr>
       in do {
         net \<leftarrow> ip_hton hdr (drop 20 payload);
         payload \<leftarrow> memcpy_at payload 0 (ip_hdr_bytes net);
         data \<leftarrow> read_at payload (hlen + offset) plen;
         payload \<leftarrow> memcpy_at payload hlen data;
         (s, eret) \<leftarrow> ether_send sendto s h m ETHER_PROTO_IPV4 payload (unat (ip_len hdr));
         if eret < 0 then Some (s, eret)
         else if bytes > 0 then loop sendto h m hlen s payload hdr bytes (offset + plen) (retval + eret)
         else Some (s, retval + eret)
       }) = Some r"
  show "sent s (fst r)"
    using body unfolding Let_def bind_eq_Some_iff
    by (elim exE conjE) (auto split: if_splits dest!: ether_send_sent IH intro: sent_trans)
qed

lemma ip_send_fragments_sent: "ip_send_fragments sendto s h m payload n = Some (s', r) \<Longrightarrow> sent s s'"
  by (auto simp: ip_send_fragments_def bind_eq_Some_iff Let_def split_beta split: if_splits dest: ip_fragment_loop_sent)

section \<open>Packets\<close>

definition ip_out :: "'a ip_st_scheme \<Rightarrow> 'a ip_st_scheme \<Rightarrow> bool" where
  "ip_out s s' \<longleftrightarrow> (\<exists>e t g d w. s' = s\<lparr>io_errno := e, io_tx := t, ip_global_id := g, ip_defer_queue := d, q_wr := w\<rparr>)"

lemma ip_out_sent: "sent s s' \<Longrightarrow> ip_out s s'"
  unfolding sent_def ip_out_def
  by (elim exE) (rule exI, rule exI, rule exI [of _ "ip_global_id s"], rule exI [of _ "ip_defer_queue s"], rule exI [of _ "q_wr s"], simp)

lemma ip_out_trans: "ip_out s s1 \<Longrightarrow> ip_out s1 s2 \<Longrightarrow> ip_out s s2"
  unfolding ip_out_def by (elim exE) (simp, blast)

lemma ip_out_id: "ip_out s (s\<lparr>ip_global_id := g\<rparr>)"
  unfolding ip_out_def
  by (rule exI [of _ "io_errno s"], rule exI [of _ "io_tx s"], rule exI [of _ g], rule exI [of _ "ip_defer_queue s"],
      rule exI [of _ "q_wr s"], simp)

lemma ip_defer_push_out: "ip_defer_push s dst proto buf n = Some (s', r) \<Longrightarrow> ip_out s s'"
proof -
  have q: "ip_out s (s\<lparr>ip_defer_queue := d, q_wr := w\<rparr>)" for d w
    unfolding ip_out_def
    by (rule exI [of _ "io_errno s"], rule exI [of _ "io_tx s"], rule exI [of _ "ip_global_id s"], rule exI [of _ d],
        rule exI [of _ w], simp)
  assume "ip_defer_push s dst proto buf n = Some (s', r)"
  then show ?thesis
    using q ip_out_sent [OF sent_refl]
    by (auto simp: ip_defer_push_def Let_def bind_eq_Some_iff split: if_splits)
qed

lemma ip_send_out:
  assumes "ip_send sendto s dst proto buf n = Some (s', r)"
  shows "ip_out s s'"
proof -
  note run = assms [unfolded ip_send_def Let_def]
  obtain s1 r1 route where f: "ip_route_find_by_network s dst = Some (s1, r1, route)"
    using run by (cases "ip_route_find_by_network s dst") auto
  have 1: "ip_out s s1" using find_by_network_sent [OF f] by (rule ip_out_sent)
  have "ip_out s1 s'"
  proof (cases route)
    case None
    then have "s' = s1\<lparr>io_errno := EHOSTUNREACH\<rparr>" using run f by simp
    then show ?thesis by (simp add: ip_out_sent)
  next
    case (Some rt)
    obtain s2 r2 mac where h: "arp_cache_get_haddr sendto s1 (r_iface rt) dst = Some (s2, r2, mac)"
      using run f Some by (cases "arp_cache_get_haddr sendto s1 (r_iface rt) dst") auto
    have 2: "ip_out s1 s2" using arp_cache_get_haddr_sent [OF h] by (rule ip_out_sent)
    have "ip_out s2 s'"
    proof (cases mac)
      case None
      have "s' = s2 \<or> (\<exists>s3 k. ip_defer_push s2 dst proto buf n = Some (s3, k) \<and> (s' = s3 \<or> s' = s3\<lparr>io_errno := - k\<rparr>))"
        using run f h Some None by (cases "ip_defer_push s2 dst proto buf n") (auto split: if_splits)
      then show ?thesis using ip_defer_push_out ip_out_sent [OF sent_errno] ip_out_sent [OF sent_refl] ip_out_trans by blast
    next
      case (Some m)
      let ?s = "s2\<lparr>ip_global_id := ip_global_id s2 + 1\<rparr>"
      have "sent ?s s'"
        using run f h \<open>route = Some rt\<close> Some
        by (auto simp: bind_eq_Some_iff split: if_splits dest!: ether_send_sent ip_send_fragments_sent intro: sent_trans)
      then show ?thesis using ip_out_id ip_out_sent ip_out_trans by blast
    qed
    with 2 show ?thesis by (rule ip_out_trans)
  qed
  with 1 show ?thesis by (rule ip_out_trans)
qed

end
