(* ===== verification/Tcp_States.thy ===== *)
theory Tcp_States
  imports Tcp_Server Ip_Frame
begin

text \<open>
  The states that connections of \<^verbatim>\<open>src/tcp.c\<close> go through. Every operation keeps the state of every
  connection among six of the eleven states of \<^verbatim>\<open>enum tcp_state\<close>, and the ones that send leave the
  table of sockets alone; the last section puts the operations together to the runs of the
  stack.
\<close>

section \<open>Operations on connections\<close>

definition tcp_states :: "tcp_state set" where
  "tcp_states = {TCP_CLOSED, TCP_LISTEN, TCP_SYN_RCVD, TCP_SYN_SENT, TCP_ESTABLISHED, TCP_LAST_ACK}"

definition tcp_typed :: "'a tcp_st_scheme \<Rightarrow> bool" where
  "tcp_typed s \<longleftrightarrow> (\<forall>c. tcp_live s c \<longrightarrow> conn_state (tcp_conns s c) \<in> tcp_states)"

text \<open>A step of TCP: the sockets stay as they are, and so does the type of the connections.\<close>

definition tcp_keep :: "'a tcp_st_scheme \<Rightarrow> 'a tcp_st_scheme \<Rightarrow> bool" where
  "tcp_keep s s' \<longleftrightarrow> sockets s' = sockets s \<and> (tcp_typed s \<longrightarrow> tcp_typed s')"

lemma tcp_keep_refl [simp]: "tcp_keep s s"
  by (simp add: tcp_keep_def)

lemma tcp_keep_trans: "tcp_keep s s1 \<Longrightarrow> tcp_keep s1 s2 \<Longrightarrow> tcp_keep s s2"
  by (simp add: tcp_keep_def)

text \<open>Fields that do not matter, on either side.\<close>

lemma tcp_keep_right [simp]:
  "tcp_keep s (s'\<lparr>tcp_links := l\<rparr>) = tcp_keep s s'" "tcp_keep s (s'\<lparr>tcp_segs := g\<rparr>) = tcp_keep s s'"
  "tcp_keep s (s'\<lparr>tcp_conn_map := m\<rparr>) = tcp_keep s s'" "tcp_keep s (s'\<lparr>urandom := u\<rparr>) = tcp_keep s s'"
  "tcp_keep s (s'\<lparr>tcp_seg_brk := b\<rparr>) = tcp_keep s s'" "tcp_keep s (s'\<lparr>tcp_now := n\<rparr>) = tcp_keep s s'"
  by (simp_all add: tcp_keep_def tcp_typed_def)

lemma tcp_keep_left [simp]:
  "tcp_keep (s\<lparr>tcp_links := l\<rparr>) s' = tcp_keep s s'" "tcp_keep (s\<lparr>tcp_segs := g\<rparr>) s' = tcp_keep s s'"
  "tcp_keep (s\<lparr>tcp_conn_map := m\<rparr>) s' = tcp_keep s s'" "tcp_keep (s\<lparr>urandom := u\<rparr>) s' = tcp_keep s s'"
  "tcp_keep (s\<lparr>tcp_seg_brk := b\<rparr>) s' = tcp_keep s s'" "tcp_keep (s\<lparr>tcp_now := n\<rparr>) s' = tcp_keep s s'"
  by (simp_all add: tcp_keep_def tcp_typed_def)

lemma ip_send_keep:
  assumes "ip_send sendto s dst proto buf n = Some (s', r)"
  shows "tcp_keep s s'"
  using ip_send_out [OF assms] unfolding ip_out_def by (elim exE) (simp add: tcp_keep_def tcp_typed_def)

lemma conn_upd_keep:
  assumes "conn_upd s c f = Some s'" and "\<And>t. conn_state t \<in> tcp_states \<Longrightarrow> conn_state (f t) \<in> tcp_states"
  shows "tcp_keep s s'"
  using assms by (auto simp: conn_upd_def conn_at_def tcp_keep_def tcp_typed_def split: if_splits)

lemma tcp_free_keep: "tcp_free s c = Some s' \<Longrightarrow> tcp_keep s s'"
  by (auto simp: tcp_free_def conn_at_def tcp_keep_def tcp_typed_def split: if_splits)

lemma tcp_lock_keep: "tcp_lock s c = Some s' \<Longrightarrow> tcp_keep s s'"
  by (auto simp: tcp_lock_def bind_eq_Some_iff split: if_splits elim: conn_upd_keep)

lemma tcp_unlock_keep: "tcp_unlock s c = Some s' \<Longrightarrow> tcp_keep s s'"
  by (auto simp: tcp_unlock_def elim: conn_upd_keep)

lemma tcp_remove_keep: "tcp_remove_connection s c = Some s' \<Longrightarrow> tcp_keep s s'"
  by (auto simp: tcp_remove_connection_def bind_eq_Some_iff dest!: tcp_free_keep)

lemma tcp_new_connection_keep:
  assumes "tcp_new_connection s attr = Some (s', c)"
  shows "tcp_keep s s'"
proof -
  let ?t = "zero_tcb\<lparr>conn_local := attr_local attr, conn_remote := attr_remote attr\<rparr>"
  obtain h where s': "s' = s\<lparr>tcp_conn_brk := Suc (tcp_conn_brk s), tcp_live := (tcp_live s)(tcp_conn_brk s := True),
      tcp_conns := (tcp_conns s)(tcp_conn_brk s := ?t), tcp_links := zero_lists (tcp_links s) (tcp_conn_brk s),
      tcp_conn_map := h\<rparr>"
    using assms unfolding tcp_new_connection_def Let_def bind_eq_Some_iff by (elim exE conjE) auto
  have "conn_state ?t \<in> tcp_states" by (simp add: zero_tcb_def tcp_states_def)
  then show ?thesis unfolding s' tcp_keep_def tcp_typed_def by simp
qed

lemma tcp_connection_init_keep:
  assumes "tcp_connection_init s c = Some (s', r)"
  shows "tcp_keep s s'"
proof -
  let ?f = "\<lambda>t. t\<lparr>conn_state := TCP_SYN_SENT, mss := of_nat TCP_MSS, send_next := urandom s 0,
    rtt_est := 0, rtt_var := 24, retran_timeout := 12, send_wnd := 502, send_una := urandom s 0, send_max := urandom s 0\<rparr>"
  obtain s1 where u: "conn_upd (s\<lparr>urandom := \<lambda>n. urandom s (Suc n)\<rparr>) c ?f = Some s1"
    and s': "\<exists>l. s' = s1\<lparr>tcp_links := l\<rparr>"
    using assms unfolding tcp_connection_init_def read_urandom_def Let_def prod.case bind_eq_Some_iff by (elim exE conjE) auto
  have "tcp_keep (s\<lparr>urandom := \<lambda>n. urandom s (Suc n)\<rparr>) s1" using u by (rule conn_upd_keep) (simp add: tcp_states_def)
  with s' show ?thesis by auto
qed

section \<open>Segments and timers\<close>

lemma tcp_new_segment_keep: "tcp_new_segment s tcp data = (s', seg) \<Longrightarrow> tcp_keep s s'"
  by (auto simp: tcp_new_segment_def)

lemma tcp_queue_segment_keep: "tcp_queue_segment s c seg = Some s' \<Longrightarrow> tcp_keep s s'"
  by (auto simp: tcp_queue_segment_def bind_eq_Some_iff dest!: tcp_lock_keep tcp_unlock_keep intro: tcp_keep_trans)

lemma tcp_send_loop_keep:
  assumes "tcp_send_loop sendto s c seg = Some r"
  shows "tcp_keep s (fst r)"
proof (rule tcp_send_loop.raw_induct [OF _ assms, where P = "\<lambda>sendto s c seg r. tcp_keep s (fst r)"])
  fix loop sendto and s :: "'a tcp_st_scheme" and c seg and r :: "'a tcp_st_scheme \<times> int"
  assume IH: "\<And>sendto s c seg r. loop sendto s c seg = Some r \<Longrightarrow> tcp_keep s (fst r)"
    and body: "(case seg of
        None \<Rightarrow> do {
          s \<leftarrow> tcp_unlock s c;
          Some (s, 0)
        }
      | Some seg \<Rightarrow>
          let seg_tmp = TAILQ_NEXT (tcp_links s) seg in do {
          l \<leftarrow> TAILQ_REMOVE (tcp_links s) (unsent_list c) seg;
          let s = s\<lparr>tcp_links := l\<rparr>;
          g \<leftarrow> tcp_segs s seg;
          t \<leftarrow> conn_at s c;
          out \<leftarrow> tcp_segment_out t g;
          s \<leftarrow> conn_upd s c (\<lambda>t. t\<lparr>send_next := send_next t + of_nat (seg_size g),
                                  send_max := send_next t + of_nat (seg_size g)\<rparr>);
          r \<leftarrow> ip_send sendto s (inet4_addr (conn_remote t)) IP_PROTO_TCP (fst out) (snd out);
          if snd r < 0 then Some (fst r, -1)
          else do {
            l \<leftarrow> TAILQ_INSERT_TAIL (tcp_links (fst r)) (unacked_list c) seg;
            loop sendto ((fst r)\<lparr>tcp_links := l\<rparr>) c seg_tmp
          }
        }) = Some r"
  show "tcp_keep s (fst r)"
  proof (cases seg)
    case None
    then show ?thesis using body by (auto simp: bind_eq_Some_iff dest: tcp_unlock_keep)
  next
    case (Some a)
    from body [unfolded Some option.case Let_def bind_eq_Some_iff] show ?thesis
    proof (elim exE conjE)
      fix l g t out s1 q
      assume u: "conn_upd (s\<lparr>tcp_links := l\<rparr>) c (\<lambda>t. t\<lparr>send_next := send_next t + of_nat (seg_size g),
          send_max := send_next t + of_nat (seg_size g)\<rparr>) = Some s1"
        and q: "ip_send sendto s1 (inet4_addr (conn_remote t)) IP_PROTO_TCP (fst out) (snd out) = Some q"
        and rest: "(if snd q < 0 then Some (fst q, -1)
          else do {
            l \<leftarrow> TAILQ_INSERT_TAIL (tcp_links (fst q)) (unacked_list c) a;
            loop sendto ((fst q)\<lparr>tcp_links := l\<rparr>) c (TAILQ_NEXT (tcp_links s) a)
          }) = Some r"
      have "tcp_keep (s\<lparr>tcp_links := l\<rparr>) s1" using u by (rule conn_upd_keep) simp
      moreover have "tcp_keep s1 (fst q)" using q ip_send_keep by (metis prod.collapse)
      moreover have "tcp_keep (fst q) (fst r)" using rest by (auto simp: bind_eq_Some_iff split: if_splits dest!: IH)
      ultimately show ?thesis using tcp_keep_trans by (metis tcp_keep_left(1))
    qed
  qed
qed

lemma tcp_send_segments_keep: "tcp_send_segments sendto s c = Some (s', r) \<Longrightarrow> tcp_keep s s'"
  by (auto simp: tcp_send_segments_def bind_eq_Some_iff dest!: tcp_lock_keep tcp_send_loop_keep intro: tcp_keep_trans)

lemma tcp_ack_loop_keep:
  assumes "tcp_ack_loop s c seg = Some r"
  shows "tcp_keep s r"
proof (rule tcp_ack_loop.raw_induct [OF _ assms, where P = "\<lambda>s c seg r. tcp_keep s r"])
  fix loop and s :: "'a tcp_st_scheme" and c seg and r :: "'a tcp_st_scheme"
  assume IH: "\<And>s c seg r. loop s c seg = Some r \<Longrightarrow> tcp_keep s r"
    and body: "(case seg of
        None \<Rightarrow> Some s
      | Some seg \<Rightarrow>
          let seg_tmp = TAILQ_NEXT (tcp_links s) seg in do {
          g \<leftarrow> tcp_segs s seg;
          t \<leftarrow> conn_at s c;
          if tcp_seqno (seg_header g) < send_una t then do {
            l \<leftarrow> TAILQ_REMOVE (tcp_links s) (unacked_list c) seg;
            loop (s\<lparr>tcp_links := l, tcp_segs := (tcp_segs s)(seg := None)\<rparr>) c seg_tmp
          }
          else loop s c seg_tmp
        }) = Some r"
  show "tcp_keep s r"
    using body by (auto simp: Let_def bind_eq_Some_iff split: option.splits if_splits dest!: IH)
qed

lemma tcp_ack_segments_keep:
  assumes "tcp_ack_segments s c tcp = Some s'"
  shows "tcp_keep s s'"
proof (cases "s' = s")
  case False
  then obtain s1 s2 s3 s4 f x where "conn_upd s c (send_una_update (\<lambda>_. tcp_ack_num tcp)) = Some s1" "tcp_lock s1 c = Some s2"
    "tcp_ack_loop s2 c x = Some s3" "tcp_unlock s3 c = Some s4" "conn_upd s4 c f = Some s'" "\<And>t. conn_state (f t) = conn_state t"
    using assms by (auto simp: tcp_ack_segments_def bind_eq_Some_iff split: if_splits)
  then have "tcp_keep s s1" "tcp_keep s1 s2" "tcp_keep s2 s3" "tcp_keep s3 s4" "tcp_keep s4 s'"
    by (auto intro: conn_upd_keep tcp_lock_keep tcp_ack_loop_keep tcp_unlock_keep)
  then show ?thesis using tcp_keep_trans by blast
qed simp

lemma tcp_rexmt_prepare_keep: "tcp_rexmt_prepare s c = Some s' \<Longrightarrow> tcp_keep s s'"
  by (auto simp: tcp_rexmt_prepare_def bind_eq_Some_iff dest!: tcp_lock_keep tcp_unlock_keep intro: tcp_keep_trans)

lemma tcp_rexmt_commit_keep:
  assumes "tcp_rexmt_commit sendto s c = Some s'"
  shows "tcp_keep s s'"
proof -
  obtain s1 r where u: "conn_upd s c (\<lambda>t. t\<lparr>retran_count := retran_count t + 1\<rparr>) = Some s1"
    and v: "tcp_send_segments sendto s1 c = Some (s', r)"
    using assms by (auto simp: tcp_rexmt_commit_def bind_eq_Some_iff)
  have "tcp_keep s s1" using u by (rule conn_upd_keep) simp
  with tcp_send_segments_keep [OF v] show ?thesis by (blast intro: tcp_keep_trans)
qed

lemma tcp_timer_keep:
  assumes "tcp_timer sendto s c i = Some s'"
  shows "tcp_keep s s'"
proof (cases "i = TCP_T_REXMT")
  case True
  then obtain f s1 s2 where u: "conn_upd s c f = Some s1" "\<And>t. conn_state (f t) = conn_state t"
    and v: "tcp_rexmt_prepare s1 c = Some s2" "tcp_rexmt_commit sendto s2 c = Some s'"
    using assms by (auto simp: tcp_timer_def bind_eq_Some_iff)
  have "tcp_keep s s1" using u by (auto intro: conn_upd_keep)
  with tcp_rexmt_prepare_keep [OF v(1)] tcp_rexmt_commit_keep [OF v(2)] show ?thesis by (blast intro: tcp_keep_trans)
next
  case False
  then show ?thesis
    using assms by (auto simp: tcp_timer_def bind_eq_Some_iff split: if_splits dest: tcp_remove_keep)
qed

lemma tcp_tick_keep:
  assumes "tcp_tick sendto s c i = Some s'"
  shows "tcp_keep s s'"
proof (cases "s' = s")
  case False
  then obtain s1 f where u: "conn_upd s c f = Some s1" "\<And>t. conn_state (f t) = conn_state t"
    and v: "s' = s1 \<or> tcp_timer sendto s1 c i = Some s'"
    using assms by (auto simp: tcp_tick_def bind_eq_Some_iff split: if_splits)
  have "tcp_keep s s1" using u by (auto intro: conn_upd_keep)
  moreover have "tcp_keep s1 s'" using v by (auto dest: tcp_timer_keep)
  ultimately show ?thesis by (rule tcp_keep_trans)
qed simp

lemma tcp_slow_loop_keep:
  assumes "tcp_slow_loop sendto s conn = Some r"
  shows "tcp_keep s r"
proof (rule tcp_slow_loop.raw_induct [OF _ assms, where P = "\<lambda>sendto s conn r. tcp_keep s r"])
  fix loop sendto and s :: "'a tcp_st_scheme" and conn and r :: "'a tcp_st_scheme"
  assume IH: "\<And>sendto s conn r. loop sendto s conn = Some r \<Longrightarrow> tcp_keep s r"
    and body: "(case conn of
        None \<Rightarrow> Some s
      | Some c \<Rightarrow> do {
          s \<leftarrow> tcp_tick sendto s c 0;
          s \<leftarrow> tcp_tick sendto s c 1;
          s \<leftarrow> tcp_tick sendto s c 2;
          s \<leftarrow> tcp_tick sendto s c 3;
          s \<leftarrow> conn_upd s c (\<lambda>t. if rtt t \<noteq> 0 then t\<lparr>rtt := rtt t + 1\<rparr> else t);
          next_conn \<leftarrow> RB_NEXT (tcp_conn_map s) c;
          loop sendto s next_conn
        }) = Some r"
  show "tcp_keep s r"
  proof (cases conn)
    case None
    then show ?thesis using body by simp
  next
    case (Some c)
    from body [unfolded Some option.case bind_eq_Some_iff] show ?thesis
    proof (elim exE conjE)
      fix s1 s2 s3 s4 s5 nxt
      assume t: "tcp_tick sendto s c 0 = Some s1" "tcp_tick sendto s1 c 1 = Some s2" "tcp_tick sendto s2 c 2 = Some s3"
          "tcp_tick sendto s3 c 3 = Some s4"
        and u: "conn_upd s4 c (\<lambda>t. if rtt t \<noteq> 0 then t\<lparr>rtt := rtt t + 1\<rparr> else t) = Some s5"
        and l: "loop sendto s5 nxt = Some r"
      have "tcp_keep s4 s5" using u by (rule conn_upd_keep) simp
      with t [THEN tcp_tick_keep] IH [OF l] show ?thesis using tcp_keep_trans by blast
    qed
  qed
qed

lemma tcp_slowtimo_keep: "tcp_slowtimo sendto s = Some s' \<Longrightarrow> tcp_keep s s'"
  by (auto simp: tcp_slowtimo_def bind_eq_Some_iff dest!: tcp_slow_loop_keep)

section \<open>Sending\<close>

lemma tcp_send_syn_keep:
  assumes "tcp_send_syn sendto junk s c = Some (s', r)"
  shows "tcp_keep s s'"
  using assms unfolding tcp_send_syn_def Let_def bind_eq_Some_iff
proof (elim exE conjE)
  fix t s1 p
  assume up: "conn_upd s c (\<lambda>t. t\<lparr>send_next := send_next t + 1\<rparr>) = Some s1"
    and rest: "(case p of (net, opt) \<Rightarrow> do {
      s \<leftarrow> conn_upd s1 c (\<lambda>t. t\<lparr>conn_state := TCP_SYN_SENT, timer := (timer t)(TCP_T_KEEP := TCP_TV_KEEP_INIT)\<rparr>);
      ip_send sendto s (inet4_addr (conn_remote t)) IP_PROTO_TCP (tcp_hdr_bytes net @ opt) 24
    }) = Some (s', r)"
  have "tcp_keep s s1" using up by (rule conn_upd_keep) simp
  moreover obtain s2 where u: "conn_upd s1 c (\<lambda>t. t\<lparr>conn_state := TCP_SYN_SENT, timer := (timer t)(TCP_T_KEEP := TCP_TV_KEEP_INIT)\<rparr>) = Some s2"
    and v: "\<exists>dst buf. ip_send sendto s2 dst IP_PROTO_TCP buf 24 = Some (s', r)"
    using rest by (cases p) (auto simp: bind_eq_Some_iff)
  have "tcp_keep s1 s2" using u by (rule conn_upd_keep) (simp add: tcp_states_def)
  moreover have "tcp_keep s2 s'" using v ip_send_keep by blast
  ultimately show ?thesis using tcp_keep_trans by blast
qed

lemma tcp_new_segment_fst: "tcp_keep s (fst (tcp_new_segment s tcp data))"
  by (rule tcp_new_segment_keep [of s tcp data _ "snd (tcp_new_segment s tcp data)"]) simp

lemma nstack_tcp_send_keep:
  assumes "nstack_tcp_send sendto junk s i dgram dbuf = Some (s', r)"
  shows "tcp_keep s s'"
proof -
  let ?attr = "\<lparr>attr_local = sock_addr_of s i, attr_remote = dstaddr dgram\<rparr>"
  note run = assms [unfolded nstack_tcp_send_def Let_def case_prod_beta]
  obtain conn where conn: "tcp_find_connection s ?attr = Some conn"
    using run by (cases "tcp_find_connection s ?attr") auto
  show ?thesis
  proof (cases conn)
    case None
    with run conn have "\<exists>s1 c s2 k t d s4. tcp_new_connection s ?attr = Some (s1, c) \<and> tcp_connection_init s1 c = Some (s2, k)
      \<and> tcp_queue_segment (fst (tcp_new_segment s2 t d)) c (snd (tcp_new_segment s2 t d)) = Some s4
      \<and> tcp_send_syn sendto junk s4 c = Some (s', r)"
      by (simp add: bind_eq_Some_iff) blast
    then show ?thesis
    proof (elim exE conjE)
      fix s1 c s2 k t d s4
      assume "tcp_new_connection s ?attr = Some (s1, c)" "tcp_connection_init s1 c = Some (s2, k)"
        "tcp_queue_segment (fst (tcp_new_segment s2 t d)) c (snd (tcp_new_segment s2 t d)) = Some s4"
        "tcp_send_syn sendto junk s4 c = Some (s', r)"
      note tcp_new_connection_keep [OF this(1)] tcp_connection_init_keep [OF this(2)] tcp_new_segment_fst [of s2 t d]
        tcp_queue_segment_keep [OF this(3)] tcp_send_syn_keep [OF this(4)]
      then show ?thesis using tcp_keep_trans by blast
    qed
  next
    case (Some c)
    then obtain t where t: "conn_at s c = Some t" using run conn by (cases "conn_at s c") auto
    show ?thesis
    proof (cases "conn_state t = TCP_ESTABLISHED")
      case True
      with run conn Some t obtain s1 h d s3 where
        u: "conn_upd s c (\<lambda>t. if rtt t = 0 then t\<lparr>rtt := 1, rtt_cur_seq := sint (send_next t)\<rparr> else t) = Some s1"
        and v: "tcp_queue_segment (fst (tcp_new_segment s1 h d)) c (snd (tcp_new_segment s1 h d)) = Some s3"
          "tcp_send_segments sendto s3 c = Some (s', r)"
        by (simp add: bind_eq_Some_iff) blast
      have "tcp_keep s s1" using u by (rule conn_upd_keep) simp
      with tcp_new_segment_fst [of s1 h d] tcp_queue_segment_keep [OF v(1)] tcp_send_segments_keep [OF v(2)]
      show ?thesis using tcp_keep_trans by blast
    next
      case False
      then have "s' = s" using run conn Some t by (simp split: tcp_state.splits)
      then show ?thesis by simp
    qed
  qed
qed

section \<open>Input\<close>

lemma tcp_keep_typed: "tcp_keep s s' \<Longrightarrow> tcp_typed s \<Longrightarrow> tcp_typed s'"
  by (simp add: tcp_keep_def)

lemma tcp_typed_fields [simp]:
  "tcp_typed (s\<lparr>sockets := k\<rparr>) = tcp_typed s" "tcp_typed (s\<lparr>sigusr2 := u\<rparr>) = tcp_typed s"
  "tcp_typed (s\<lparr>tcp_conn_map := m\<rparr>) = tcp_typed s" "tcp_typed (s\<lparr>urandom := n\<rparr>) = tcp_typed s"
  by (simp_all add: tcp_typed_def)

lemma conn_upd_typed:
  assumes "conn_upd s c f = Some s'" and "\<And>t. conn_state t \<in> tcp_states \<Longrightarrow> conn_state (f t) \<in> tcp_states" and "tcp_typed s"
  shows "tcp_typed s'"
  using conn_upd_keep [OF assms(1, 2)] assms(3) by (rule tcp_keep_typed)

lemma tcp_fsm_listen_typed:
  assumes "tcp_fsm_listen s c rs ip = Some (s', r)" and "tcp_typed s"
  shows "tcp_typed s'"
  using assms
  by (auto simp: tcp_fsm_listen_def read_urandom_def Let_def bind_eq_Some_iff tcp_states_def split: if_splits
      elim!: conn_upd_typed)

lemma tcp_fsm_syn_sent_typed:
  assumes "tcp_fsm_syn_sent s c rs ip = Some (s', r)" and "tcp_typed s"
  shows "tcp_typed s'"
  using assms
  by (auto simp: tcp_fsm_syn_sent_def Let_def bind_eq_Some_iff tcp_states_def split: if_splits
      elim!: conn_upd_typed elim: tcp_fsm_listen_typed)

lemma tcp_fsm_syn_rcvd_typed:
  assumes "tcp_fsm_syn_rcvd s c rs = Some (s', r)" and "tcp_typed s"
  shows "tcp_typed s'"
  using assms
  by (auto simp: tcp_fsm_syn_rcvd_def Let_def bind_eq_Some_iff tcp_states_def split: if_splits elim!: conn_upd_typed)

lemma nstack_sock_dgram_input_typed:
  "nstack_sock_dgram_input s i src buf n = Some (s', r) \<Longrightarrow> tcp_typed s \<Longrightarrow> tcp_typed s'"
  by (auto simp: nstack_sock_dgram_input_def Let_def bind_eq_Some_iff)

lemma tcp_fsm_established_typed:
  assumes "tcp_fsm_established s c rs rest ip bsize = Some (s', r)" and "tcp_typed s"
  shows "tcp_typed s'"
proof -
  obtain s1 t where 1: "tcp_ack_segments s c rs = Some s1" "conn_at s1 c = Some t"
    using assms(1) by (auto simp: tcp_fsm_established_def bind_eq_Some_iff)
  have t1: "tcp_typed s1" using tcp_ack_segments_keep [OF 1(1)] assms(2) by (rule tcp_keep_typed)
  note run = assms(1) [unfolded tcp_fsm_established_def 1 Option.bind.simps Let_def 1(2)]
  have "s' = s1 \<or> (\<exists>f s2 i src buf n k. conn_upd s1 c f = Some s2 \<and> (\<forall>t. conn_state (f t) = conn_state t)
      \<and> nstack_sock_dgram_input s2 i src buf n = Some (s', k))
    \<or> (\<exists>f. conn_upd s1 c f = Some s' \<and> (\<forall>t. conn_state (f t) = TCP_LAST_ACK))"
    using run by (force simp: bind_eq_Some_iff 1(2) split: if_splits)
  then show ?thesis
  proof (elim disjE exE conjE)
    fix f s2 i src buf n k
    assume u: "conn_upd s1 c f = Some s2" "\<forall>t. conn_state (f t) = conn_state t"
      and d: "nstack_sock_dgram_input s2 i src buf n = Some (s', k)"
    from u(1) _ t1 have "tcp_typed s2" by (rule conn_upd_typed) (simp add: u(2))
    with d show ?thesis by (rule nstack_sock_dgram_input_typed)
  next
    fix f assume u: "conn_upd s1 c f = Some s'" "\<forall>t. conn_state (f t) = TCP_LAST_ACK"
    from u(1) _ t1 show ?thesis by (rule conn_upd_typed) (simp add: u(2) tcp_states_def)
  qed (simp add: t1)
qed

lemma tcp_fsm_last_ack_typed:
  assumes "tcp_fsm_last_ack s c rs = Some (s', r)" and "tcp_typed s"
  shows "tcp_typed s'"
proof (cases "has rs TCP_ACK")
  case True
  then obtain h s1 where u: "conn_upd (s\<lparr>tcp_conn_map := h\<rparr>) c (conn_state_update (\<lambda>_. TCP_CLOSED)) = Some s1"
    and f: "tcp_free s1 c = Some s'"
    using assms(1) by (auto simp: tcp_fsm_last_ack_def bind_eq_Some_iff)
  have "tcp_typed s1" using u by (rule conn_upd_typed) (simp_all add: tcp_states_def assms(2))
  with tcp_free_keep [OF f] show ?thesis by (rule tcp_keep_typed)
qed (use assms in \<open>auto simp: tcp_fsm_last_ack_def\<close>)

lemma tcp_fsm_typed:
  assumes "tcp_fsm s c rs rest ip bsize = Some (s', r)" and "tcp_typed s"
  shows "tcp_typed s'"
proof -
  obtain s1 t where u: "conn_upd s c (\<lambda>t. if rtt t \<noteq> 0 \<and> tcp_ack_num rs > of_int (rtt_cur_seq t)
       then tcp_rto_update t (rtt t) else t) = Some s1" and t: "conn_at s1 c = Some t"
    using assms(1) by (auto simp: tcp_fsm_def bind_eq_Some_iff)
  note run = assms(1) [unfolded tcp_fsm_def u t Option.bind.simps Let_def]
  have "tcp_typed s1" using u _ assms(2) by (rule conn_upd_typed) (simp add: tcp_rto_update_def Let_def)
  then show ?thesis using run t
    by (cases "conn_state t")
      (auto elim: tcp_fsm_listen_typed tcp_fsm_syn_sent_typed tcp_fsm_syn_rcvd_typed
        tcp_fsm_established_typed tcp_fsm_last_ack_typed)
qed

lemma tcp_input_conn_typed:
  assumes "tcp_input_conn s tcp attr conn = Some (s', r)" and "tcp_typed s"
  shows "tcp_typed s'"
proof (cases "conn = None \<and> has tcp TCP_SYN")
  case True
  then obtain s1 c where n: "tcp_new_connection s attr = Some (s1, c)"
    and u: "conn_upd s1 c (conn_state_update (\<lambda>_. TCP_LISTEN)) = Some s'"
    using assms(1) by (auto simp: tcp_input_conn_def bind_eq_Some_iff)
  have "tcp_typed s1" using tcp_new_connection_keep [OF n] assms(2) by (rule tcp_keep_typed)
  with u show ?thesis by (auto simp: tcp_states_def elim: conn_upd_typed)
qed (use assms in \<open>auto simp: tcp_input_conn_def\<close>)

lemma tcp_input_typed:
  assumes "tcp_input s ip payload bsize = Some (s', p, r)" and "tcp_typed s"
  shows "tcp_typed s'"
proof (cases "s' = s")
  case False
  with assms(1) have "\<exists>tcp attr conn s1 cn c rest s2 tc k. tcp_input_conn s tcp attr conn = Some (s1, cn)
      \<and> tcp_fsm s1 c tcp rest ip bsize = Some (s2, tc, k) \<and> tcp_fast_reply s2 attr tc rest k = Some (s', p, r)"
    unfolding tcp_input_def Let_def by (auto simp: bind_eq_Some_iff split: if_splits) blast+
  moreover have "tcp_fast_reply s2 attr tc rest k = Some (s', p, r) \<Longrightarrow> s' = s2" for s2 attr tc rest k
    by (auto simp: tcp_fast_reply_def Let_def bind_eq_Some_iff split: if_splits)
  ultimately show ?thesis using tcp_input_conn_typed tcp_fsm_typed assms(2) by blast
qed (simp add: assms(2))

section \<open>Runs\<close>

text \<open>What the threads do to the connections: a segment comes in, an application's datagram goes
  out, the slow timer ticks. The buffers, headers and sizes are whatever they are.\<close>

inductive tcp_step :: "os_sendto \<Rightarrow> 'a tcp_st_scheme \<Rightarrow> 'a tcp_st_scheme \<Rightarrow> bool" for sendto where
  step_input: "tcp_input s ip payload bsize = Some (s', reply, r) \<Longrightarrow> tcp_step sendto s s'"
| step_send: "nstack_tcp_send sendto junk s i dgram dbuf = Some (s', r) \<Longrightarrow> tcp_step sendto s s'"
| step_timo: "tcp_slowtimo sendto s = Some s' \<Longrightarrow> tcp_step sendto s s'"

inductive tcp_run :: "os_sendto \<Rightarrow> 'a tcp_st_scheme \<Rightarrow> 'a tcp_st_scheme \<Rightarrow> bool" for sendto where
  run_refl: "tcp_run sendto s s"
| run_step: "tcp_run sendto s s1 \<Longrightarrow> tcp_step sendto s1 s2 \<Longrightarrow> tcp_run sendto s s2"

lemma tcp_step_typed: "tcp_step sendto s s' \<Longrightarrow> tcp_typed s \<Longrightarrow> tcp_typed s'"
  by (induction rule: tcp_step.induct)
    (auto intro: tcp_input_typed tcp_keep_typed [OF nstack_tcp_send_keep] tcp_keep_typed [OF tcp_slowtimo_keep])

lemma tcp_run_typed: "tcp_run sendto s s' \<Longrightarrow> tcp_typed s \<Longrightarrow> tcp_typed s'"
  by (induction rule: tcp_run.induct) (auto intro: tcp_step_typed)

text \<open>
  C37: In every order of segments, sends and timer ticks, a connection is closed, listening,
  opening, established or in the last acknowledgment: the code of the states \<^verbatim>\<open>FIN_WAIT_1\<close>, \<^verbatim>\<open>FIN_WAIT_2\<close>,
  \<^verbatim>\<open>CLOSE_WAIT\<close>, \<^verbatim>\<open>CLOSING\<close> and \<^verbatim>\<open>TIME_WAIT\<close> in \<^verbatim>\<open>tcp_fsm\<close> and \<^verbatim>\<open>tcp_timer\<close> is not reached.
\<close>

theorem tcp_run_states:
  assumes "\<And>c. tcp_live s c \<Longrightarrow> conn_state (tcp_conns s c) \<in> tcp_states" and "tcp_run sendto s s'" and "tcp_live s' c"
  shows "conn_state (tcp_conns s' c) \<in> {TCP_CLOSED, TCP_LISTEN, TCP_SYN_RCVD, TCP_SYN_SENT, TCP_ESTABLISHED, TCP_LAST_ACK}"
  using tcp_run_typed [OF assms(2)] assms(1,3) unfolding tcp_typed_def tcp_states_def by blast

theorem tcp_run_states_witness:
  "\<exists>s'. tcp_run (\<lambda>_ _ f. (int (length f), 0)) demo_listen s' \<and> tcp_live s' (tcp_conn_brk demo_listen) \<and>
    conn_state (tcp_conns s' (tcp_conn_brk demo_listen)) \<notin> {TCP_FIN_WAIT_1, TCP_FIN_WAIT_2, TCP_CLOSE_WAIT, TCP_CLOSING, TCP_TIME_WAIT}"
proof -
  let ?seg = "demo_seg_bytes demo_syn demo_opts []" and ?c = "tcp_conn_brk demo_listen"
  have ty: "conn_state (tcp_conns demo_listen c) \<in> tcp_states" for c
    by (simp add: demo_listen_def demo_conns_def sock_st.defs tcp_states_def zero_tcb_def)
  have none: "conn_remote (tcp_conns demo_listen a) \<noteq> demo_peer" if "a \<in> {}" for a using that by simp
  have sock: "find_tcp_socket demo_listen demo_addr = Some (Some 0)"
    by (rule find_tcp_socket_hit [OF demo_listen_ok(2)]) (simp_all add: demo_sock_def)
  have syn: "has demo_syn TCP_SYN" by (simp add: demo_syn_def)
  obtain s' seg' where s': "tcp_input demo_listen (demo_hdr 6 40) ?seg 40 = Some (s', seg', tcp_hdr_size demo_syn)"
    "tcp_server s' demo_addr ({} \<union> {?c})"
    by (rule tcp_input_syn [OF demo_listen_ok(1) none demo_segments(1) demo_ends(1) [of 40] _ syn sock, of 40]) (assumption, simp, blast)
  have "tcp_run (\<lambda>_ _ f. (int (length f), 0)) demo_listen s'" using s'(1) by (blast intro: run_refl run_step step_input)
  moreover have live: "tcp_live s' ?c" using s'(2) by (simp add: tcp_server_def)
  ultimately show ?thesis using tcp_run_states [of demo_listen "\<lambda>_ _ f. (int (length f), 0)" s' ?c] ty by auto
qed

end
