(* ===== verification/Daemon.thy ===== *)
theory Daemon
  imports Tcp_States
begin

text \<open>
  The daemon of \<^verbatim>\<open>src/nstack.c\<close> around the threads: opening of the interface
  (\<^verbatim>\<open>src/linux/ether.c\<close>), the table of sockets and their shared memory, the thread that takes the
  datagrams of the applications to the transport protocols, the timer thread of TCP, start,
  stop and \<^verbatim>\<open>main\<close>. The results of system calls are arguments; \<^verbatim>\<open>exit\<close> is a value. A
  thread that does not end is \<open>None\<close>, and so is who joins it.
\<close>

record daemon_st = tcp_st +
  daemon_state :: nstack_state
  daemon_handle :: int

section \<open>The interface\<close>

text \<open>The answers of the system calls of \<^verbatim>\<open>ether_init\<close>: the return values, the error number a failing
  one sets, and what \<^verbatim>\<open>SIOCGIFINDEX\<close>, \<^verbatim>\<open>SIOCGIFHWADDR\<close> and \<^verbatim>\<open>SIOCGIFFLAGS\<close> write (the flags of a request
  that fails are the zero they were).\<close>

record os_if =
  os_socket :: int
  os_ifindex :: "int \<times> int"
  os_hwaddr :: "int \<times> mac_addr_t"
  os_ifflags :: u16
  os_reuseaddr :: int
  os_rcvtimeo :: int
  os_errno :: int

record sockaddr_ll =
  sll_family :: u16
  sll_protocol :: u16
  sll_ifindex :: int
  sll_hatype :: u16
  sll_pkttype :: u8
  sll_halen :: u8
  sll_addr :: bytes

datatype os_call =
    Sys_socket
  | Sys_SIOCGIFINDEX int string
  | Sys_SIOCGIFHWADDR int string
  | Sys_SIOCGIFFLAGS int string
  | Sys_SIOCSIFFLAGS int string u16
  | Sys_SO_REUSEADDR int
  | Sys_SO_RCVTIMEO int int
  | Sys_bind int sockaddr_ll
  | Sys_close int

abbreviation (input) IFNAMSIZ :: nat where "IFNAMSIZ \<equiv> 16"
abbreviation (input) IFF_PROMISC :: u16 where "IFF_PROMISC \<equiv> 0x100"

definition DEFAULT_IF :: string where "DEFAULT_IF = ''eth0''"

text \<open>The calls in their order, and the return value.\<close>

definition linux_ether_bind :: "os_if \<Rightarrow> ether_linux \<Rightarrow> os_call list \<times> int" where
  "linux_ether_bind os eth =
     (let name = take (IFNAMSIZ - 1) (ifr_name (el_if_idx eth));
          calls = [Sys_SIOCGIFFLAGS (el_fd eth) name, Sys_SIOCSIFFLAGS (el_fd eth) name (os_ifflags os OR IFF_PROMISC),
                   Sys_SO_REUSEADDR (el_fd eth)]
      in if os_reuseaddr os = -1 then (calls, -1)
         else (calls @ [Sys_bind (el_fd eth)
           \<lparr>sll_family = 17, sll_protocol = htons 3, sll_ifindex = ifr_ifindex (el_if_idx eth), sll_hatype = 0,
            sll_pkttype = 3 OR 1 OR 2 OR 0, sll_halen = 6, sll_addr = el_mac eth\<rparr>], 0))"

definition linux_ether_set_rxtimeout :: "os_if \<Rightarrow> ether_linux \<Rightarrow> os_call list \<times> int" where
  "linux_ether_set_rxtimeout os eth = ([Sys_SO_RCVTIMEO (el_fd eth) NSTACK_PERIODIC_EVENT_SEC], os_rcvtimeo os)"

text \<open>\<open>args\<close> are the strings before the \<^verbatim>\<open>NULL\<close>.\<close>

definition ether_init ::
  "os_if \<Rightarrow> 'a ether_st_scheme \<Rightarrow> string list \<Rightarrow> ('a ether_st_scheme \<times> os_call list \<times> int) option" where
  "ether_init os s args =
     (let handle = ether_next_handle s;
          put = (\<lambda>s eth. s\<lparr>ether_if := (ether_if s)[nat handle := eth]\<rparr>)
      in
      if handle \<ge> ETHER_MAX_IF then Some (s\<lparr>io_errno := EAGAIN\<rparr>, [], -1)
      else if \<not> (0 \<le> handle \<and> nat handle < length (ether_if s)) then None
      else
        let eth = ether_if s ! nat handle;
            s = s\<lparr>ether_next_handle := handle + 1\<rparr>
        in
        if args \<noteq> [] \<and> length (hd args) \<ge> IFNAMSIZ then Some (s, [], -2)
        else
          let if_name = (if args \<noteq> [] then hd args else DEFAULT_IF);
              eth = eth\<lparr>el_fd := os_socket os\<rparr>;
              fail = (\<lambda>eth calls. Some ((put s eth)\<lparr>io_errno := os_errno os\<rparr>, calls @ [Sys_close (el_fd eth)], -1))
          in
          if os_socket os = -1 then Some ((put s eth)\<lparr>io_errno := os_errno os\<rparr>, [Sys_socket], -1)
          else
            let calls = [Sys_socket, Sys_SIOCGIFINDEX (el_fd eth) (take (IFNAMSIZ - 1) if_name)];
                eth = eth\<lparr>el_if_idx := \<lparr>ifr_name = take (IFNAMSIZ - 1) if_name, ifr_ifindex = 0\<rparr>\<rparr>
            in
            if fst (os_ifindex os) < 0 then fail eth calls
            else
              let eth = eth\<lparr>el_if_idx := (el_if_idx eth)\<lparr>ifr_ifindex := snd (os_ifindex os)\<rparr>\<rparr> in
              if length args > 1 then Some ((put s eth)\<lparr>io_errno := ENOTSUP\<rparr>, calls, -1)
              else
                let calls = calls @ [Sys_SIOCGIFHWADDR (el_fd eth) (take (IFNAMSIZ - 1) if_name)] in
                if fst (os_hwaddr os) < 0 then fail eth calls
                else
                  let eth = eth\<lparr>el_mac := snd (os_hwaddr os)\<rparr>;
                      (bcalls, bound) = linux_ether_bind os eth;
                      (tcalls, timed) = linux_ether_set_rxtimeout os eth
                  in
                  if bound \<noteq> 0 then fail eth (calls @ bcalls)
                  else if timed \<noteq> 0 then fail eth (calls @ bcalls @ tcalls)
                  else Some (put s eth, calls @ bcalls @ tcalls, handle))"

definition ether_deinit :: "'a ether_st_scheme \<Rightarrow> int \<Rightarrow> ('a ether_st_scheme \<times> os_call list) option" where
  "ether_deinit s handle = do {
     (s, eth) \<leftarrow> ether_handle2eth s handle;
     Some (s, case eth of None \<Rightarrow> [] | Some eth \<Rightarrow> [Sys_close (el_fd eth)])
   }"

section \<open>Sockets\<close>

text \<open>The table of the daemon, before its shared memory is mapped: the pointers are still null,
  which the zero ring stands for.\<close>

definition null_ring :: dgram_ring where
  "null_ring = \<lparr>dr_cb = \<lparr>b_size = 0, a_len = 0, m_write = 0, m_read = 0\<rparr>, dr_data = []\<rparr>"

definition static_sock :: "nstack_sock_type \<Rightarrow> nstack_sock_proto \<Rightarrow> nstack_sock" where
  "static_sock ty proto =
     \<lparr>sock_info = \<lparr>sock_dom = XF_INET4, sock_type = ty, sock_proto = proto,
        sock_addr = \<lparr>inet4_addr = 167772162, port = 10\<rparr>\<rparr>,
      sock_ctrl = \<lparr>pid_inetd = 0, pid_end = 0\<rparr>, ingress = null_ring, egress = null_ring\<rparr>"

definition static_sockets :: "nstack_sock list" where
  "static_sockets = [static_sock XSOCK_DGRAM XIP_PROTO_UDP, static_sock XSOCK_STREAM XIP_PROTO_TCP]"

definition nstack_bind :: "'a sock_st_scheme \<Rightarrow> nat \<Rightarrow> ('a sock_st_scheme \<times> int) option" where
  "nstack_bind s i =
     (case sock_proto (sock_info (sockets s i)) of
        XIP_PROTO_UDP \<Rightarrow> nstack_udp_bind s i
      | XIP_PROTO_TCP \<Rightarrow> nstack_tcp_bind s i
      | _ \<Rightarrow> Some (s\<lparr>io_errno := EPROTOTYPE\<rparr>, -1))"

text \<open>The shared memory of a socket, cleared, with its two rings.\<close>

definition nstack_map_sock :: "int \<Rightarrow> nstack_sock \<Rightarrow> nstack_sock option" where
  "nstack_map_sock mypid sock = do {
     q \<leftarrow> queue_create (of_nat NSTACK_DATAGRAM_SIZE_MAX) (of_nat NSTACK_DATAGRAM_BUF_SIZE);
     let ring = \<lparr>dr_cb = q, dr_data = replicate NSTACK_DATAGRAM_BUF_SIZE 0\<rparr>;
     Some (sock\<lparr>sock_ctrl := \<lparr>pid_inetd = mypid, pid_end = 0\<rparr>, ingress := ring, egress := ring\<rparr>)
   }"

text \<open>\<open>shm i\<close>: the file of the socket could be opened and mapped. \<open>Inl\<close> is the code of \<^verbatim>\<open>exit\<close>.\<close>

fun nstack_init_from :: "(nat \<Rightarrow> bool) \<Rightarrow> int \<Rightarrow> nat list \<Rightarrow> 'a sock_st_scheme \<Rightarrow> (int + 'a sock_st_scheme) option" where
  "nstack_init_from shm mypid [] s = Some (Inr s)"
| "nstack_init_from shm mypid (i # is) s =
     (if \<not> shm i then Some (Inl 1)
      else do {
        sock \<leftarrow> nstack_map_sock mypid (sockets s i);
        (s, r) \<leftarrow> nstack_bind (s\<lparr>sockets := (sockets s)(i := sock)\<rparr>) i;
        if r < 0 then Some (Inl 1) else nstack_init_from shm mypid is s
      })"

definition nstack_init :: "(nat \<Rightarrow> bool) \<Rightarrow> int \<Rightarrow> 'a sock_st_scheme \<Rightarrow> (int + 'a sock_st_scheme) option" where
  "nstack_init shm mypid s = nstack_init_from shm mypid [0..<length static_sockets] s"

section \<open>The egress thread\<close>

text \<open>The buffers that the transport protocols leave uninitialised are \<open>ujunk\<close> and \<open>tjunk\<close>.\<close>

definition proto_send ::
  "os_sendto \<Rightarrow> bytes \<Rightarrow> tcp_hdr \<Rightarrow> nstack_sock_proto \<Rightarrow> 'a tcp_st_scheme \<Rightarrow> nat \<Rightarrow> nstack_dgram \<Rightarrow> bytes \<Rightarrow>
   ('a tcp_st_scheme \<times> int) option" where
  "proto_send sendto ujunk tjunk proto s i dgram dbuf =
     (case proto of
        XIP_PROTO_TCP \<Rightarrow> nstack_tcp_send sendto tjunk s i dgram dbuf
      | XIP_PROTO_UDP \<Rightarrow> nstack_udp_send sendto ujunk s i dgram dbuf
      | _ \<Rightarrow> None)"

definition egress_socket ::
  "os_sendto \<Rightarrow> bytes \<Rightarrow> tcp_hdr \<Rightarrow> 'a tcp_st_scheme \<Rightarrow> nat \<Rightarrow> 'a tcp_st_scheme option" where
  "egress_socket sendto ujunk tjunk s i =
     (let q = egress (sockets s i) in
      if queue_is_empty (dr_cb q) then Some s
      else do {
        k \<leftarrow> queue_peek (dr_cb q);
        dgram \<leftarrow> dgram_at (dr_data q) (nat k);
        let proto = sock_proto (sock_info (sockets s i));
        s \<leftarrow> (if proto \<noteq> XIP_PROTO_NONE \<and> proto \<noteq> XIP_PROTO_LAST
              then map_option fst (proto_send sendto ujunk tjunk proto s i dgram (drop (nat k + 24) (dr_data q)))
              else Some s);
        let sock = sockets s i;
        (cb, _) \<leftarrow> queue_discard (dr_cb (egress sock)) 1;
        Some (s\<lparr>sockets := (sockets s)(i := sock\<lparr>egress := (egress sock)\<lparr>dr_cb := cb\<rparr>\<rparr>)\<rparr>)
      })"

fun egress_round :: "os_sendto \<Rightarrow> bytes \<Rightarrow> tcp_hdr \<Rightarrow> nat list \<Rightarrow> 'a tcp_st_scheme \<Rightarrow> 'a tcp_st_scheme option" where
  "egress_round sendto ujunk tjunk [] s = Some s"
| "egress_round sendto ujunk tjunk (i # is) s = do {
     s \<leftarrow> egress_socket sendto ujunk tjunk s i;
     egress_round sendto ujunk tjunk is s
   }"

text \<open>The thread over the states that its iterations see; the first \<^verbatim>\<open>NSTACK_DYING\<close> ends it.\<close>

fun nstack_egress_thread ::
  "os_sendto \<Rightarrow> bytes \<Rightarrow> tcp_hdr \<Rightarrow> nstack_state list \<Rightarrow> 'a tcp_st_scheme \<Rightarrow> 'a tcp_st_scheme option" where
  "nstack_egress_thread sendto ujunk tjunk [] s = Some s"
| "nstack_egress_thread sendto ujunk tjunk (st # sts) s = do {
     s \<leftarrow> egress_round sendto ujunk tjunk [0..<length static_sockets] s;
     if st = NSTACK_DYING then Some s else nstack_egress_thread sendto ujunk tjunk sts s
   }"

section \<open>Start and stop\<close>

partial_function (option) nstack_tcp_timer_thread :: "os_sendto \<Rightarrow> 'a tcp_st_scheme \<Rightarrow> unit option" where
  "nstack_tcp_timer_thread sendto s = do {
     s \<leftarrow> tcp_slowtimo sendto s;
     nstack_tcp_timer_thread sendto s
   }"

text \<open>\<open>created\<close> are the results of the three calls of \<^verbatim>\<open>pthread_create\<close>.\<close>

definition nstack_start ::
  "(nat \<Rightarrow> bool) \<Rightarrow> int \<Rightarrow> int \<times> int \<times> int \<Rightarrow> int \<Rightarrow> 'a daemon_st_scheme \<Rightarrow> (int + 'a daemon_st_scheme \<times> int) option" where
  "nstack_start shm mypid created handle s =
     (let s = s\<lparr>daemon_handle := handle\<rparr>; (c1, c2, c3) = created in
      if daemon_state s \<noteq> NSTACK_STOPPED then Some (Inr (s\<lparr>io_errno := EALREADY\<rparr>, -1))
      else do {
        r \<leftarrow> nstack_init shm mypid s;
        case r of
          Inl code \<Rightarrow> Some (Inl code)
        | Inr s \<Rightarrow>
            if c1 \<noteq> 0 \<or> c2 \<noteq> 0 \<or> c3 \<noteq> 0 then Some (Inr (s, -1))
            else Some (Inr (s\<lparr>daemon_state := NSTACK_RUNNING\<rparr>, 0))
      })"

definition nstack_stop :: "unit option \<Rightarrow> unit option \<Rightarrow> unit option \<Rightarrow> 'a daemon_st_scheme \<Rightarrow> 'a daemon_st_scheme option" where
  "nstack_stop ingress_thread egress_thread timer_thread s = do {
     let s = s\<lparr>daemon_state := NSTACK_DYING\<rparr>;
     _ \<leftarrow> ingress_thread;
     _ \<leftarrow> egress_thread;
     _ \<leftarrow> timer_thread;
     Some (s\<lparr>daemon_state := NSTACK_STOPPED\<rparr>)
   }"

section \<open>The program\<close>

text \<open>\<^verbatim>\<open>main\<close> up to the wait for the signal; \<open>argv\<close> are the arguments after the name of the program.
  The state of the threads does not decide anything here.\<close>

definition STACK_IP :: in_addr_t where "STACK_IP = 167772162"

definition SUBNET_MASK :: in_addr_t where "SUBNET_MASK = 4294967040"

definition main_setup ::
  "os_if \<Rightarrow> os_sendto \<Rightarrow> mac_addr_t \<Rightarrow> (nat \<Rightarrow> bool) \<Rightarrow> int \<Rightarrow> int \<times> int \<times> int \<Rightarrow> string list \<Rightarrow> 'a daemon_st_scheme \<Rightarrow>
   (int + 'a daemon_st_scheme \<times> int) option" where
  "main_setup os sendto mac0 shm mypid created argv s =
     (case argv of
        [] \<Rightarrow> Some (Inl 1)
      | interface # _ \<Rightarrow> do {
          (s, _, handle) \<leftarrow> ether_init os s [interface];
          if handle = -1 then Some (Inl 1)
          else if handle = -2 then Some (Inl 1)
          else do {
            (s, r) \<leftarrow> ip_config sendto s handle STACK_IP SUBNET_MASK mac0;
            if r \<noteq> 0 then Some (Inl 1)
            else do {
              r \<leftarrow> nstack_start shm mypid created handle s;
              case r of
                Inl code \<Rightarrow> Some (Inl code)
              | Inr (s, _) \<Rightarrow> Some (Inr (s, handle))
            }
          }
        })"

text \<open>\<^verbatim>\<open>main\<close> after the signal.\<close>

definition main_teardown ::
  "unit option \<Rightarrow> unit option \<Rightarrow> unit option \<Rightarrow> 'a daemon_st_scheme \<Rightarrow> int \<Rightarrow> ('a daemon_st_scheme \<times> int) option" where
  "main_teardown ingress_thread egress_thread timer_thread s handle = do {
     s \<leftarrow> nstack_stop ingress_thread egress_thread timer_thread s;
     (s, _) \<leftarrow> ether_deinit s handle;
     Some (s, 0)
   }"

section \<open>Initialisation\<close>

text \<open>The TCP sockets are kept as the UDP sockets are, in a tree of their own.\<close>

abbreviation (input) as_udp :: "'a sock_st_scheme \<Rightarrow> 'a sock_st_scheme" where
  "as_udp s \<equiv> s\<lparr>udp_sock_tree_head := tcp_sock_tree_head s\<rparr>"

lemma tcp_as_udp:
  "tcp_socket_cmp = udp_socket_cmp" "tcp_bound s A = udp_bound (as_udp s) A" "find_tcp_socket s addr = find_udp_socket (as_udp s) addr"
  by (auto simp: fun_eq_iff tcp_socket_cmp_def udp_socket_cmp_def tcp_bound_def udp_bound_def find_tcp_socket_def find_udp_socket_def)

lemma addr_insert_new:
  assumes "rbi.keyed (\<lambda>a. addr_key (f a)) h A" and "i \<notin> A" and "\<And>a. a \<in> A \<Longrightarrow> f a \<noteq> f i"
  shows "\<exists>h'. RB_INSERT (\<lambda>a. udp_socket_cmp (f i) (f a)) h i = Some (h', None) \<and> rbi.keyed (\<lambda>a. addr_key (f a)) h' (A \<union> {i})"
  using assms(3) by (intro rbi.insert_key_new [OF assms(1) udp_by_key assms(2)]) (simp add: addr_key_eq)

lemma udp_bind_fresh:
  assumes "udp_bound s A" and "i \<notin> A" and "sint (port (sock_addr_of s i)) \<le> NSTACK_SOCK_PORT_MAX"
    and "\<And>a. a \<in> A \<Longrightarrow> sock_addr_of s a \<noteq> sock_addr_of s i"
  shows "\<exists>h. nstack_udp_bind s i = Some (s\<lparr>udp_sock_tree_head := h\<rparr>, 0) \<and> udp_bound (s\<lparr>udp_sock_tree_head := h\<rparr>) (A \<union> {i})"
  using addr_insert_new [OF assms(1) [unfolded udp_bound_def] assms(2,4)] find_udp_socket_miss [OF assms(1,4)] assms(3)
  by (auto simp: nstack_udp_bind_def udp_bound_def)

lemma tcp_bind_fresh:
  assumes "tcp_bound s A" and "i \<notin> A" and "sint (port (sock_addr_of s i)) \<le> NSTACK_SOCK_PORT_MAX"
    and "\<And>a. a \<in> A \<Longrightarrow> sock_addr_of s a \<noteq> sock_addr_of s i"
  shows "\<exists>h. nstack_tcp_bind s i = Some (s\<lparr>tcp_sock_tree_head := h\<rparr>, 0) \<and> tcp_bound (s\<lparr>tcp_sock_tree_head := h\<rparr>) (A \<union> {i})"
proof -
  have "find_tcp_socket s (sock_addr_of s i) = Some None"
    unfolding tcp_as_udp(3) by (rule find_udp_socket_miss [OF assms(1) [unfolded tcp_as_udp(2)]]) (simp add: assms(4))
  then show ?thesis
    using addr_insert_new [OF assms(1) [unfolded tcp_bound_def] assms(2,4)] assms(3)
    by (auto simp: nstack_tcp_bind_def tcp_bound_def tcp_as_udp(1))
qed

definition fresh_ring :: dgram_ring where
  "fresh_ring = \<lparr>dr_cb = \<lparr>b_size = 4096, a_len = 4, m_write = 0, m_read = 0\<rparr>, dr_data = replicate 16384 0\<rparr>"

lemma fresh_ring_ok: "dgram_wf fresh_ring" "dgram_list fresh_ring = []"
  by (simp_all add: fresh_ring_def dgram_wf_def dgram_list_def queue_wf_def queue_slots_def ring_count_def)

lemma nstack_map_sock_ok:
  "nstack_map_sock pid sock = Some (sock\<lparr>sock_ctrl := \<lparr>pid_inetd = pid, pid_end = 0\<rparr>, ingress := fresh_ring, egress := fresh_ring\<rparr>)"
  by (simp add: nstack_map_sock_def queue_create_def c_div_def fresh_ring_def Let_def)

lemma udp_bound_cong:
  assumes "udp_bound s A" and "\<And>a. sock_addr_of s' a = sock_addr_of s a" and "udp_sock_tree_head s' = udp_sock_tree_head s"
  shows "udp_bound s' A"
  using assms by (simp add: udp_bound_def)

lemma tcp_bound_cong:
  assumes "tcp_bound s A" and "\<And>a. sock_addr_of s' a = sock_addr_of s a" and "tcp_sock_tree_head s' = tcp_sock_tree_head s"
  shows "tcp_bound s' A"
  using assms by (simp add: tcp_bound_def)

text \<open>
  C38: Initialisation. If the memory of both sockets can be mapped, \<^verbatim>\<open>nstack_init\<close> leaves the UDP and the
  TCP socket of the static table bound, each found under its address, and their four rings well
  formed and empty; otherwise the process exits with code 1.
\<close>

theorem nstack_init_ready:
  assumes "udp_bound s {}" and "tcp_bound s {}"
    and "\<And>i. i < length static_sockets \<Longrightarrow> sockets s i = static_sockets ! i"
  shows "if shm 0 \<and> shm 1
    then \<exists>s'. nstack_init shm mypid s = Some (Inr s') \<and> udp_bound s' {0} \<and> tcp_bound s' {1} \<and>
      find_udp_socket s' \<lparr>inet4_addr = STACK_IP, port = 10\<rparr> = Some (Some 0) \<and>
      find_tcp_socket s' \<lparr>inet4_addr = STACK_IP, port = 10\<rparr> = Some (Some 1) \<and>
      (\<forall>i\<in>{0, 1}. \<forall>q\<in>{ingress (sockets s' i), egress (sockets s' i)}. dgram_wf q \<and> dgram_list q = [])
    else nstack_init shm mypid s = Some (Inl 1)"
proof -
  let ?map = "\<lambda>sock. sock\<lparr>sock_ctrl := \<lparr>pid_inetd = mypid, pid_end = 0\<rparr>, ingress := fresh_ring, egress := fresh_ring\<rparr>"
  let ?addr = "\<lparr>inet4_addr = STACK_IP, port = 10\<rparr>"
  have sk: "sockets s 0 = static_sock XSOCK_DGRAM XIP_PROTO_UDP" "sockets s 1 = static_sock XSOCK_STREAM XIP_PROTO_TCP"
    using assms(3) [of 0] assms(3) [of 1] by (simp_all add: static_sockets_def)
  have run: "nstack_init shm mypid s = nstack_init_from shm mypid [0, 1] s"
    by (simp add: nstack_init_def static_sockets_def upt_rec)
  let ?s1 = "s\<lparr>sockets := (sockets s)(0 := ?map (sockets s 0))\<rparr>"
  have "\<exists>h. nstack_udp_bind ?s1 0 = Some (?s1\<lparr>udp_sock_tree_head := h\<rparr>, 0) \<and> udp_bound (?s1\<lparr>udp_sock_tree_head := h\<rparr>) ({} \<union> {0})"
    by (rule udp_bind_fresh [OF udp_bound_cong [OF assms(1)]]) (simp_all add: sk sk [simplified] static_sock_def)
  then obtain h where h: "nstack_udp_bind ?s1 0 = Some (?s1\<lparr>udp_sock_tree_head := h\<rparr>, 0)"
    "udp_bound (?s1\<lparr>udp_sock_tree_head := h\<rparr>) {0}" by auto
  let ?s2 = "?s1\<lparr>udp_sock_tree_head := h, sockets := (sockets ?s1)(1 := ?map (sockets s 1))\<rparr>"
  have "\<exists>g. nstack_tcp_bind ?s2 1 = Some (?s2\<lparr>tcp_sock_tree_head := g\<rparr>, 0) \<and> tcp_bound (?s2\<lparr>tcp_sock_tree_head := g\<rparr>) ({} \<union> {1})"
    by (rule tcp_bind_fresh [OF tcp_bound_cong [OF assms(2)]]) (simp_all add: sk sk [simplified] static_sock_def)
  then obtain g where g: "nstack_tcp_bind ?s2 1 = Some (?s2\<lparr>tcp_sock_tree_head := g\<rparr>, 0)"
    "tcp_bound (?s2\<lparr>tcp_sock_tree_head := g\<rparr>) {1}" by auto
  let ?s3 = "?s2\<lparr>tcp_sock_tree_head := g\<rparr>"
  have b0: "nstack_bind ?s1 0 = Some (?s1\<lparr>udp_sock_tree_head := h\<rparr>, 0)"
    using h(1) by (simp add: nstack_bind_def sk sk [simplified] static_sock_def)
  have b1: "nstack_bind ?s2 1 = Some (?s3, 0)" using g(1) by (simp add: nstack_bind_def sk sk [simplified] static_sock_def)
  have udp: "udp_bound ?s3 {0}" by (rule udp_bound_cong [OF h(2)]) simp_all
  have found: "find_udp_socket ?s3 ?addr = Some (Some 0)" "find_tcp_socket ?s3 ?addr = Some (Some 1)"
    using find_udp_socket_hit [OF udp, of 0] find_tcp_socket_hit [OF g(2), of 1] by (simp_all add: sk sk [simplified] static_sock_def STACK_IP_def)
  have "nstack_init shm mypid s = Some (if shm 0 \<and> shm 1 then Inr ?s3 else Inl 1)"
    unfolding run nstack_init_from.simps using b0 b1 by (simp add: nstack_map_sock_ok)
  then show ?thesis using udp g(2) found fresh_ring_ok by simp
qed

section \<open>The egress thread\<close>

lemma nstack_udp_send_sockets:
  assumes "nstack_udp_send sendto junk s i d buf = Some (s', r)"
  shows "sockets s' = sockets s"
proof (cases "s' = s")
  case False
  then obtain dst p b n where "ip_send sendto s dst p b n = Some (s', r)"
    using assms unfolding nstack_udp_send_def Let_def by (auto simp: bind_eq_Some_iff split: if_splits)
  from ip_send_out [OF this] show ?thesis by (auto simp: ip_out_def)
qed simp

lemma proto_send_sockets:
  assumes "proto_send sendto ujunk tjunk proto s i d buf = Some (s', r)"
  shows "sockets s' = sockets s"
  using assms
  by (auto simp: proto_send_def tcp_keep_def split: nstack_sock_proto.splits dest: nstack_udp_send_sockets nstack_tcp_send_keep)

lemma ring_empty: "dgram_wf q \<Longrightarrow> queue_is_empty (dr_cb q) \<longleftrightarrow> dgram_list q = []"
  using queue_slots_Nil_iff [of "dr_cb q"] by (auto simp: dgram_wf_def dgram_list_def queue_is_empty_def)

text \<open>
  C39: One turn of the egress thread for a socket. Nothing happens when its ring is empty. Otherwise the
  transport protocol gets the oldest datagram with the addresses and the data that the
  application gave it, and whatever the protocol answers, exactly this datagram leaves the ring;
  the ring stays well formed and no other socket is touched. The turn ends if and only if the
  protocol's send does.
\<close>

theorem egress_socket_correct:
  assumes "dgram_wf (egress (sockets s i))" and "sock_proto (sock_info (sockets s i)) = proto"
    and "proto = XIP_PROTO_UDP \<or> proto = XIP_PROTO_TCP"
  shows "case dgram_list (egress (sockets s i)) of
      [] \<Rightarrow> egress_socket sendto ujunk tjunk s i = Some s
    | (src, dst, buf) # ds \<Rightarrow> \<exists>d tail. srcaddr d = src \<and> dstaddr d = dst \<and> unat (buf_size d) = length buf \<and>
        (case proto_send sendto ujunk tjunk proto s i d (buf @ tail) of
           None \<Rightarrow> egress_socket sendto ujunk tjunk s i = None
         | Some (s1, r) \<Rightarrow> \<exists>q. egress_socket sendto ujunk tjunk s i =
               Some (s1\<lparr>sockets := (sockets s)(i := (sockets s i)\<lparr>egress := q\<rparr>)\<rparr>) \<and>
             dgram_wf q \<and> dgram_list q = ds)"
proof (cases "dgram_list (egress (sockets s i))")
  case Nil
  then show ?thesis using ring_empty [OF assms(1)] by (simp add: egress_socket_def Let_def)
next
  case (Cons x ds)
  obtain src dst buf where x: "x = (src, dst, buf)" by (cases x)
  let ?q = "egress (sockets s i)"
  obtain k d where p: "queue_peek (dr_cb ?q) = Some (int k)" "dgram_at (dr_data ?q) k = Some d"
    "srcaddr d = src" "dstaddr d = dst" "unat (buf_size d) = length buf"
    "read_at (dr_data ?q) (k + 24) (length buf) = Some buf"
    by (rule dgram_peek [OF assms(1) Cons [unfolded x]])
  obtain cb n where c: "queue_discard (dr_cb ?q) 1 = Some (cb, n)" "dgram_wf (?q\<lparr>dr_cb := cb\<rparr>)"
    "dgram_list (?q\<lparr>dr_cb := cb\<rparr>) = tl (dgram_list ?q)"
    by (rule dgram_discard [OF assms(1)])
  have full: "\<not> queue_is_empty (dr_cb ?q)" using ring_empty [OF assms(1)] Cons by simp
  have "take (length buf) (drop (k + 24) (dr_data ?q)) = buf" using p(6) by (simp add: read_at_def split: if_splits)
  then obtain tail where tail: "drop (k + 24) (dr_data ?q) = buf @ tail"
    using append_take_drop_id by metis
  have proto: "proto \<noteq> XIP_PROTO_NONE" "proto \<noteq> XIP_PROTO_LAST" using assms(3) by auto
  let ?send = "proto_send sendto ujunk tjunk proto s i d (drop (k + 24) (dr_data ?q))"
  have run: "egress_socket sendto ujunk tjunk s i = do {
      s1 \<leftarrow> map_option fst ?send;
      (cb, _) \<leftarrow> queue_discard (dr_cb (egress (sockets s1 i))) 1;
      Some (s1\<lparr>sockets := (sockets s1)(i := (sockets s1 i)\<lparr>egress := (egress (sockets s1 i))\<lparr>dr_cb := cb\<rparr>\<rparr>)\<rparr>)
    }"
    using full p(1,2) proto assms(2) by (simp add: egress_socket_def Let_def)
  have "case ?send of
           None \<Rightarrow> egress_socket sendto ujunk tjunk s i = None
         | Some (s1, r) \<Rightarrow> \<exists>q. egress_socket sendto ujunk tjunk s i =
               Some (s1\<lparr>sockets := (sockets s)(i := (sockets s i)\<lparr>egress := q\<rparr>)\<rparr>) \<and>
             dgram_wf q \<and> dgram_list q = ds"
  proof (cases ?send)
    case (Some sr)
    obtain s1 r where sr: "sr = (s1, r)" by (cases sr)
    have sk: "sockets s1 = sockets s" using Some sr by (auto dest: proto_send_sockets)
    have "egress_socket sendto ujunk tjunk s i = Some (s1\<lparr>sockets := (sockets s)(i := (sockets s i)\<lparr>egress := ?q\<lparr>dr_cb := cb\<rparr>\<rparr>)\<rparr>)"
      unfolding run Some sr by (simp add: sk c(1))
    with c(2,3) show ?thesis unfolding Some sr using Cons by auto
  qed (simp add: run)
  then show ?thesis unfolding Cons x list.case prod.case tail using p(3-5) by blast
qed

section \<open>Stopping\<close>

text \<open>The timer thread has no way out of its loop.\<close>

lemma nstack_tcp_timer_thread_loops: "nstack_tcp_timer_thread sendto s = None"
proof (rule ccontr)
  assume "nstack_tcp_timer_thread sendto s \<noteq> None"
  then obtain u where "nstack_tcp_timer_thread sendto s = Some u" by auto
  then have False
  proof (rule nstack_tcp_timer_thread.raw_induct [rotated, where P = "\<lambda>_ _ _. False"])
    fix loop :: "os_sendto \<Rightarrow> 'a tcp_st_scheme \<Rightarrow> unit option" and sendto s u
    assume "\<And>sendto s u. loop sendto s = Some u \<Longrightarrow> False" and "tcp_slowtimo sendto s \<bind> loop sendto = Some u"
    then show False by (auto simp: bind_eq_Some_iff)
  qed
  then show False .
qed

text \<open>
  The daemon cannot be stopped. \<^verbatim>\<open>nstack_stop\<close>, and with it the end of \<^verbatim>\<open>main\<close> after the signal, joins the
  timer thread of TCP, which never looks at the state of the daemon: whatever the other threads
  do, the join does not return.
\<close>

theorem nstack_stop_hangs:
  "nstack_stop ingress_thread egress_thread (nstack_tcp_timer_thread sendto t) s = None \<and>
   main_teardown ingress_thread egress_thread (nstack_tcp_timer_thread sendto t) s handle = None"
proof -
  have "nstack_stop ingress_thread egress_thread (nstack_tcp_timer_thread sendto t) s = None"
    unfolding nstack_stop_def nstack_tcp_timer_thread_loops by (auto simp: Let_def bind_eq_None_conv)
  then show ?thesis by (simp add: main_teardown_def)
qed

section \<open>A daemon before and after its initialisation\<close>

abbreviation (input) no_nodes :: rb_head where
  "no_nodes \<equiv> \<lparr>rbh_root = None, rb_links = (\<lambda>_. rb_zero)\<rparr>"

definition demo_boot :: sock_st where
  "demo_boot = (demo_socks no_nodes (demo_frag (demo_arp_stack demo_route_st)))
     \<lparr>sockets := (\<lambda>i. static_sockets ! i)\<rparr>"

lemma demo_boot_bound: "udp_bound demo_boot {}" "tcp_bound demo_boot {}"
  using keyed_empty [of _ no_nodes] by (simp_all add: demo_boot_def udp_bound_def tcp_bound_def demo_socks_def frag_st.defs)

theorem nstack_init_ready_witness:
  "\<exists>s'. nstack_init (\<lambda>_. True) 5 demo_boot = Some (Inr s') \<and> find_udp_socket s' \<lparr>inet4_addr = STACK_IP, port = 10\<rparr> = Some (Some 0) \<and>
    nstack_init (\<lambda>i. i = 0) 5 demo_boot = Some (Inl 1)"
proof -
  have sk: "sockets demo_boot i = static_sockets ! i" for i by (simp add: demo_boot_def)
  note init = nstack_init_ready [OF demo_boot_bound sk]
  show ?thesis using init [of "\<lambda>_. True" 5] init [of "\<lambda>i. i = 0" 5] by auto
qed

theorem egress_socket_correct_witness:
  "\<exists>(s :: tcp_st) s'. dgram_list (egress (sockets s 0)) = [(demo_addr, demo_peer, []), (demo_addr, demo_peer, [1, 2])] \<and>
    egress_socket (\<lambda>_ _ f. (int (length f), 0)) [] demo_syn s 0 = Some s' \<and> dgram_list (egress (sockets s' 0)) = [(demo_addr, demo_peer, [1, 2])]"
proof -
  obtain q1 where q1: "dgram_wf q1" "dgram_list q1 = [(demo_addr, demo_peer, [])]"
    using dgram_put_free [OF demo_dring_wf(1), of 0 "[]" demo_addr demo_peer] demo_dring_wf(2) by auto
  obtain q where q: "dgram_wf q" "dgram_list q = [(demo_addr, demo_peer, []), (demo_addr, demo_peer, [1, 2])]"
    using dgram_put_free [OF q1(1), of "[1, 2]" demo_addr demo_peer] q1(2) by auto
  let ?s = "demo_listen\<lparr>sockets := (\<lambda>_. demo_sock\<lparr>egress := q\<rparr>)\<rparr>"
  have wf: "dgram_wf (egress (sockets ?s 0))" "sock_proto (sock_info (sockets ?s 0)) = XIP_PROTO_UDP"
    using q(1) by (simp_all add: demo_sock_def)
  have send: "proto_send (\<lambda>_ _ f. (int (length f), 0)) [] demo_syn XIP_PROTO_UDP s 0 d buf = Some (s, - EINVAL)" if "unat (buf_size d) = 0"
    for s :: tcp_st and d buf
    using that by (simp add: proto_send_def nstack_udp_send_def)
  have "\<exists>s'. egress_socket (\<lambda>_ _ f. (int (length f), 0)) [] demo_syn ?s 0 = Some s' \<and> dgram_list (egress (sockets s' 0)) = [(demo_addr, demo_peer, [1, 2])]"
    using egress_socket_correct [OF wf, of "\<lambda>_ _ f. (int (length f), 0)" "[]" demo_syn] q(2) send by auto
  then obtain s' where "egress_socket (\<lambda>_ _ f. (int (length f), 0)) [] demo_syn ?s 0 = Some s'"
    "dgram_list (egress (sockets s' 0)) = [(demo_addr, demo_peer, [1, 2])]" by blast
  moreover have "dgram_list (egress (sockets ?s 0)) = [(demo_addr, demo_peer, []), (demo_addr, demo_peer, [1, 2])]"
    using q(2) by simp
  ultimately show ?thesis by blast
qed

section \<open>Opening the interface\<close>

definition demo_os :: os_if where
  "demo_os = \<lparr>os_socket = 3, os_ifindex = (0, 2), os_hwaddr = (0, [2, 0, 0, 0, 0, 1]), os_ifflags = 0x1003, os_reuseaddr = 0,
     os_rcvtimeo = 0, os_errno = 0\<rparr>"

text \<open>The name that \<^verbatim>\<open>ether_init\<close> uses, and what it stores when all goes well.\<close>

definition if_name_of :: "string list \<Rightarrow> string" where
  "if_name_of args = (if args = [] then DEFAULT_IF else hd args)"

definition ether_opened :: "os_if \<Rightarrow> string list \<Rightarrow> ether_linux" where
  "ether_opened os args = \<lparr>el_fd = os_socket os, el_mac = snd (os_hwaddr os),
     el_if_idx = \<lparr>ifr_name = if_name_of args, ifr_ifindex = snd (os_ifindex os)\<rparr>\<rparr>"

text \<open>The system calls of a successful \<^verbatim>\<open>ether_init\<close>, in their order.\<close>

definition ether_calls :: "os_if \<Rightarrow> string list \<Rightarrow> os_call list" where
  "ether_calls os args =
     (let fd = os_socket os; name = if_name_of args in
      [Sys_socket, Sys_SIOCGIFINDEX fd name, Sys_SIOCGIFHWADDR fd name, Sys_SIOCGIFFLAGS fd name,
       Sys_SIOCSIFFLAGS fd name (os_ifflags os OR IFF_PROMISC), Sys_SO_REUSEADDR fd,
       Sys_bind fd \<lparr>sll_family = 17, sll_protocol = htons 3, sll_ifindex = snd (os_ifindex os),
         sll_hatype = 0, sll_pkttype = 3 OR 1 OR 2 OR 0, sll_halen = 6, sll_addr = snd (os_hwaddr os)\<rparr>,
       Sys_SO_RCVTIMEO fd 10])"

text \<open>How many of these calls are made: the first that is checked and fails is the last one.\<close>

definition ether_failed :: "os_if \<Rightarrow> nat option" where
  "ether_failed os =
     (if os_socket os = -1 then Some 1
      else if fst (os_ifindex os) < 0 then Some 2
      else if fst (os_hwaddr os) < 0 then Some 3
      else if os_reuseaddr os = -1 then Some 6
      else if os_rcvtimeo os \<noteq> 0 then Some 8
      else None)"

lemma ether_init_start:
  assumes "ether_next_handle s = 0" and "length (ether_if s) = 1"
    and "args \<noteq> [] \<longrightarrow> length (hd args) < IFNAMSIZ"
  shows "\<exists>s'. ether_next_handle s' = 1 \<and>
    (case ether_failed os of
       Some k \<Rightarrow>
         if 2 < k \<and> 1 < length args
         then ether_init os s args = Some (s', take 2 (ether_calls os args), -1) \<and> io_errno s' = ENOTSUP
         else ether_init os s args = Some (s', take k (ether_calls os args) @
             (if k = 1 then [] else [Sys_close (os_socket os)]), -1) \<and> io_errno s' = os_errno os
     | None \<Rightarrow>
         if 1 < length args
         then ether_init os s args = Some (s', take 2 (ether_calls os args), -1) \<and> io_errno s' = ENOTSUP
         else ether_init os s args = Some (s', ether_calls os args, 0) \<and>
           ether_if s' = [ether_opened os args])"
proof -
  obtain e0 where e0: "ether_if s = [e0]" using assms(2) by (cases "ether_if s") auto
  have short: "take 15 (if_name_of args) = if_name_of args" using assms(3) by (auto simp: if_name_of_def DEFAULT_IF_def)
  have nm: "(if args \<noteq> [] then hd args else DEFAULT_IF) = if_name_of args" by (simp add: if_name_of_def)
  note run = ether_init_def [of os s args, unfolded nm assms(1) e0 Let_def]
  note d = linux_ether_bind_def linux_ether_set_rxtimeout_def Let_def ether_calls_def ether_opened_def
  show ?thesis
    using assms(3) short unfolding run ether_failed_def by (cases e0; cases args) (simp_all add: d e0 if_name_of_def DEFAULT_IF_def)
qed




end
