(* ===== verification/Spec2Isabelle.thy ===== *)
theory Spec2Isabelle
  imports Queue_Spsc Bsd_Lists_Store Splay_Set Daemon
begin

text \<open>
  A userspace TCP/IP stack.
\<close>

end
